(* ===== verification/Syllog_Prelude.thy ===== *)
theory Syllog_Prelude
  imports Main "HOL-Library.Word" "HOL-Library.Signed_Division"
begin

text \<open>
  Shared vocabulary of the development: the machine integers of the Rust sources as words,
  the checked and saturating operations of the Rust standard library, slice access, the
  \<open>?\<close> operator on results, and the generic lemmas on lists and finite maps the component
  theories use.
\<close>

section \<open>Machine integers\<close>

type_synonym u16 = "16 word"
type_synonym u32 = "32 word"
type_synonym u64 = "64 word"
type_synonym i64 = "64 word"

text \<open>
  Rust's \<open>checked_*\<close> operations. The signed operations read a word as two's complement;
  signed division truncates towards zero and fails on a zero divisor and on the one
  quotient that does not fit.
\<close>

definition checked_add :: "'a::len word \<Rightarrow> 'a word \<Rightarrow> 'a word option" where
  "checked_add a b = (if uint a + uint b < 2 ^ LENGTH('a) then Some (a + b) else None)"

definition checked_sub :: "'a::len word \<Rightarrow> 'a word \<Rightarrow> 'a word option" where
  "checked_sub a b = (if b \<le> a then Some (a - b) else None)"

definition checked_mul :: "'a::len word \<Rightarrow> 'a word \<Rightarrow> 'a word option" where
  "checked_mul a b = (if uint a * uint b < 2 ^ LENGTH('a) then Some (a * b) else None)"

definition checked_div :: "'a::len word \<Rightarrow> 'a word \<Rightarrow> 'a word option" where
  "checked_div a b = (if b = 0 then None else Some (a div b))"

definition checked_signed :: "int \<Rightarrow> 'a::len word option" where
  "checked_signed r =
     (if - (2 ^ (LENGTH('a) - 1)) \<le> r \<and> r < 2 ^ (LENGTH('a) - 1)
      then Some (word_of_int r) else None)"

definition checked_sadd :: "'a::len word \<Rightarrow> 'a word \<Rightarrow> 'a word option" where
  "checked_sadd a b = checked_signed (sint a + sint b)"

definition checked_ssub :: "'a::len word \<Rightarrow> 'a word \<Rightarrow> 'a word option" where
  "checked_ssub a b = checked_signed (sint a - sint b)"

definition checked_smul :: "'a::len word \<Rightarrow> 'a word \<Rightarrow> 'a word option" where
  "checked_smul a b = checked_signed (sint a * sint b)"

definition checked_sdiv :: "'a::len word \<Rightarrow> 'a word \<Rightarrow> 'a word option" where
  "checked_sdiv a b = (if b = 0 then None else checked_signed (sint a sdiv sint b))"

definition saturating_add :: "'a::len word \<Rightarrow> 'a word \<Rightarrow> 'a word" where
  "saturating_add a b = (if uint a + uint b < 2 ^ LENGTH('a) then a + b else - 1)"

definition saturating_sub :: "'a::len word \<Rightarrow> 'a word \<Rightarrow> 'a word" where
  "saturating_sub a b = (if b \<le> a then a - b else 0)"

definition saturating_mul :: "'a::len word \<Rightarrow> 'a word \<Rightarrow> 'a word" where
  "saturating_mul a b = (if uint a * uint b < 2 ^ LENGTH('a) then a * b else - 1)"

text \<open>\<open>u64::try_from(n).unwrap_or(u64::MAX)\<close> and its narrower siblings.\<close>

definition try_from_or_max :: "nat \<Rightarrow> 'a::len word" where
  "try_from_or_max n = (if int n < 2 ^ LENGTH('a) then of_nat n else - 1)"

section \<open>Results and slices\<close>

text \<open>The \<open>?\<close> operator: an error leaves the function, a value goes on.\<close>

fun bindR :: "'e + 'a \<Rightarrow> ('a \<Rightarrow> 'e + 'b) \<Rightarrow> 'e + 'b" where
  "bindR (Inl e) f = Inl e"
| "bindR (Inr x) f = f x"

fun ok_or :: "'e \<Rightarrow> 'a option \<Rightarrow> 'e + 'a" where
  "ok_or e None = Inl e"
| "ok_or e (Some x) = Inr x"

text \<open>\<open>slice::get\<close>.\<close>

definition nth_opt :: "'a list \<Rightarrow> nat \<Rightarrow> 'a option" where
  "nth_opt xs i = (if i < length xs then Some (xs ! i) else None)"

text \<open>\<open>iter().collect::<BTreeMap>()\<close>: a later pair replaces an earlier one with the same key.\<close>

definition collect_map :: "('k \<times> 'v) list \<Rightarrow> 'k \<rightharpoonup> 'v" where
  "collect_map xs = map_of (rev xs)"

text \<open>The entries of such a map in the order a \<open>BTreeMap\<close> iterates them.\<close>

definition btree_entries :: "('k::linorder \<times> 'v) list \<Rightarrow> ('k \<times> 'v) list" where
  "btree_entries xs =
     map (\<lambda>k. (k, the (collect_map xs k))) (sorted_list_of_set (set (map fst xs)))"

text \<open>The decimal form \<open>Display\<close> gives an unsigned number.\<close>

fun decimal :: "nat \<Rightarrow> string" where
  "decimal n = (if n < 10 then [char_of (48 + n)] else decimal (n div 10) @ [char_of (48 + n mod 10)])"

declare decimal.simps [simp del]

section \<open>Generic lemmas\<close>

lemma bindR_Inr_iff [simp]: "bindR r f = Inr y \<longleftrightarrow> (\<exists>x. r = Inr x \<and> f x = Inr y)"
  by (cases r) auto

lemma bindR_Inl_iff:
  "bindR r f = Inl e \<longleftrightarrow> r = Inl e \<or> (\<exists>x. r = Inr x \<and> f x = Inl e)"
  by (cases r) auto

lemma bindR_cong [fundef_cong]:
  "r = r' \<Longrightarrow> (\<And>x. r' = Inr x \<Longrightarrow> f x = g x) \<Longrightarrow> bindR r f = bindR r' g"
  by (cases r') auto

lemma ok_or_Inr_iff [simp]: "ok_or e r = Inr x \<longleftrightarrow> r = Some x"
  by (cases r) auto

lemma ok_or_Inl_iff [simp]: "ok_or e r = Inl e' \<longleftrightarrow> r = None \<and> e' = e"
  by (cases r) auto

lemma nth_opt_Some_iff [simp]: "nth_opt xs i = Some x \<longleftrightarrow> i < length xs \<and> xs ! i = x"
  by (auto simp: nth_opt_def)

lemma nth_opt_None_iff [simp]: "nth_opt xs i = None \<longleftrightarrow> length xs \<le> i"
  by (auto simp: nth_opt_def)

lemma collect_map_in: "collect_map xs k = Some v \<Longrightarrow> (k, v) \<in> set xs"
  by (metis collect_map_def map_of_SomeD set_rev)

lemma collect_map_dom: "k \<in> fst ` set xs \<Longrightarrow> \<exists>v. collect_map xs k = Some v"
  by (metis collect_map_def map_of_eq_None_iff not_None_eq set_rev)

lemma collect_map_distinct:
  "distinct (map fst xs) \<Longrightarrow> (k, v) \<in> set xs \<Longrightarrow> collect_map xs k = Some v"
  unfolding collect_map_def by (metis distinct_rev map_of_is_SomeI rev_map set_rev)

lemma btree_entries_keys: "map fst (btree_entries xs) = sorted_list_of_set (fst ` set xs)"
  by (simp add: btree_entries_def comp_def)

lemma btree_entries_distinct [simp]: "distinct (map fst (btree_entries xs))"
  by (simp add: btree_entries_keys)

text \<open>At most one entry per element, under the element's own key.\<close>

lemma distinct_entries:
  assumes "\<And>x. map fst (h x) = [] \<or> map fst (h x) = [key x]" and "distinct (map key xs)"
  shows "distinct (map fst (concat (map h xs)))"
  using assms(2)
proof (induction xs)
  case (Cons x xs)
  have rest: "set (map fst (concat (map h xs))) \<subseteq> key ` set xs"
  proof
    fix k
    assume "k \<in> set (map fst (concat (map h xs)))"
    then obtain y where "y \<in> set xs" "k \<in> set (map fst (h y))" by auto
    then show "k \<in> key ` set xs" using assms(1) [of y] by force
  qed
  have head: "set (map fst (h x)) \<subseteq> {key x}" using assms(1) [of x] by (metis empty_set list.simps(15) empty_subsetI order_refl)
  have "key x \<notin> key ` set xs" using Cons.prems by simp
  with rest head have "set (map fst (h x)) \<inter> set (map fst (concat (map h xs))) = {}" by blast
  moreover have "distinct (map fst (h x))" using assms(1) [of x] by auto
  ultimately show ?case using Cons by (simp only: list.map concat.simps map_append distinct_append) simp
qed simp

lemma btree_entries_in: "(k, v) \<in> set (btree_entries xs) \<longleftrightarrow> collect_map xs k = Some v"
proof
  assume "(k, v) \<in> set (btree_entries xs)"
  then have "k \<in> fst ` set xs" "v = the (collect_map xs k)" by (auto simp: btree_entries_def)
  then show "collect_map xs k = Some v" using collect_map_dom by fastforce
next
  assume "collect_map xs k = Some v"
  then show "(k, v) \<in> set (btree_entries xs)"
    using collect_map_in [of xs k v] by (force simp: btree_entries_def)
qed

lemma collect_map_None: "collect_map xs k = None \<longleftrightarrow> k \<notin> fst ` set xs"
  by (simp add: collect_map_def map_of_eq_None_iff)

lemma find_SomeD: "List.find P xs = Some x \<Longrightarrow> x \<in> set xs \<and> P x"
  by (auto simp: find_Some_iff)

lemma unat_max_word [simp]: "unat (- 1 :: 'a::len word) = 2 ^ LENGTH('a) - 1"
  by (simp add: unsigned_minus_1_eq_mask mask_eq_exp_minus_1)

lemma unat_less_exp: "unat (a :: 'a::len word) < 2 ^ LENGTH('a)"
  by simp

lemma int_less_exp_iff: "int n < 2 ^ k \<longleftrightarrow> n < 2 ^ k"
  by (metis of_nat_less_numeral_power_cancel_iff of_nat_numeral of_nat_power of_nat_less_iff)

lemma uint_sum_less_iff:
  "uint (a :: 'a::len word) + uint b < 2 ^ LENGTH('a) \<longleftrightarrow> unat a + unat b < 2 ^ LENGTH('a)"
proof -
  have "uint a + uint b = int (unat a + unat b)" by simp
  then show ?thesis by (simp only: int_less_exp_iff)
qed

lemma try_from_or_max_small:
  "n < 2 ^ LENGTH('a) \<Longrightarrow> unat (try_from_or_max n :: 'a::len word) = n"
  by (simp add: try_from_or_max_def int_less_exp_iff unat_of_nat)

lemma unat_saturating_add:
  "unat (saturating_add a (b :: 'a::len word)) = min (unat a + unat b) (2 ^ LENGTH('a) - 1)"
proof -
  have "unat a + unat b < 2 ^ LENGTH('a) \<Longrightarrow> unat (a + b) = unat a + unat b"
    by (simp add: unat_word_ariths)
  then show ?thesis
    by (auto simp: saturating_add_def uint_sum_less_iff)
qed

lemma saturating_add_ge: "a \<le> saturating_add a (b :: 'a::len word)"
proof -
  have "unat a \<le> 2 ^ LENGTH('a) - 1"
    using unat_less_exp [of a] by linarith
  then show ?thesis
    by (simp add: word_le_nat_alt unat_saturating_add)
qed

end
