(* ===== verification/Mir.thy ===== *)
theory Mir
  imports Syllog_Prelude
begin

text \<open>
  The data model of \<open>crates/syllog-ir/src/lib.rs\<close>: effects, capability manifests, MIR types,
  constants, operands, places, statements, terminators, functions and programs. Identifier
  newtypes (\<open>BlockId(u32)\<close>, \<open>LocalId(u32)\<close>) are the wrapped 32-bit words. Constructor names
  carry a prefix where the Rust enums share a variant name.
\<close>

section \<open>Effects and capability manifests\<close>

datatype Effect = Alloc | Async | Io | Network | Provider

definition from_source :: "string \<Rightarrow> Effect option" where
  "from_source name =
     (if name = ''alloc'' then Some Alloc
      else if name = ''async'' then Some Async
      else if name = ''io'' then Some Io
      else if name = ''network'' then Some Network
      else if name = ''provider'' then Some Provider
      else None)"

fun as_str :: "Effect \<Rightarrow> string" where
  "as_str Alloc = ''alloc''"
| "as_str Async = ''async''"
| "as_str Io = ''io''"
| "as_str Network = ''network''"
| "as_str Provider = ''provider''"

record CapabilityManifest =
  format_version :: u32
  required :: "Effect set"

definition default_manifest :: CapabilityManifest where
  "default_manifest = \<lparr>format_version = 1, required = {}\<rparr>"

section \<open>Identities\<close>

record DefId =
  module_id :: u32
  def_index :: u32

type_synonym BlockId = u32
type_synonym LocalId = u32

section \<open>Types, constants and operands\<close>

datatype MirType =
    TyReference bool MirType
  | TyUnit
  | TyBool
  | TyI64
  | TyU64
  | TyString
  | TyAggregate DefId

datatype Constant =
    CUnit
  | CBool bool
  | CI64 i64
  | CU64 u64
  | CString string

fun constant_ty :: "Constant \<Rightarrow> MirType" where
  "constant_ty CUnit = TyUnit"
| "constant_ty (CBool _) = TyBool"
| "constant_ty (CI64 _) = TyI64"
| "constant_ty (CU64 _) = TyU64"
| "constant_ty (CString _) = TyString"

datatype Operand =
    OpConstant Constant
  | OpCopy LocalId
  | OpMove LocalId

datatype Place =
    PLocal LocalId
  | PField LocalId u32

datatype BinaryOp = Add | Subtract | Multiply | Divide | Equal | Less | And | Or

datatype Rvalue =
    Borrow bool Place
  | Use Operand
  | Binary BinaryOp Operand Operand
  | Aggregate DefId u64 "Operand list"
  | Discriminant Operand

datatype Statement =
    Assign Place Rvalue
  | Drop Place

text \<open>Switch edges compare 128-bit values.\<close>

datatype Terminator =
    Return
  | Goto BlockId
  | SwitchInt Operand "(128 word \<times> BlockId) list" BlockId
  | Call DefId "Operand list" Place BlockId

record BasicBlock =
  statements :: "Statement list"
  terminator :: "Terminator option"

record MirFunction =
  fn_id :: DefId
  parameter_count :: u32
  return_type :: MirType
  fn_locals :: "MirType list"
  fn_blocks :: "BasicBlock list"

record MirProgram =
  program_functions :: "MirFunction list"
  program_entry :: "DefId option"

text \<open>The function table every consumer builds from a program.\<close>

definition function_table :: "MirProgram \<Rightarrow> DefId \<rightharpoonup> MirFunction" where
  "function_table program = collect_map (map (\<lambda>f. (fn_id f, f)) (program_functions program))"

lemma function_table_in:
  "function_table p d = Some f \<Longrightarrow> f \<in> set (program_functions p) \<and> fn_id f = d"
  by (auto simp: function_table_def dest!: collect_map_in)

text \<open>
  Effect names round-trip: a source name denotes an effect exactly when it is that effect's
  printed name, so parsing and printing are inverse to each other.
\<close>

theorem effect_name_roundtrip:
  "from_source name = Some e \<longleftrightarrow> as_str e = name"
  by (cases e) (auto simp: from_source_def)

end
