(* ===== verification/Hir.thy ===== *)
theory Hir
  imports Mir "HOL-Library.Char_ord" "HOL-Library.List_Lexorder" "HOL-Library.Product_Lexorder"
begin

text \<open>
  The typed high-level representation of \<open>crates/syllog-compiler/src/hir.rs\<close>, with the resolved
  types of \<open>crates/syllog-semantic/src/types.rs\<close> and the literals, operators and spans of
  \<open>crates/syllog-parser/src/ast.rs\<close> it is built from. Constructors carry a prefix where the Rust
  enums share variant names. A string is its list of bytes and a \<open>usize\<close> a natural number.
  Identifiers are ordered by module and index, the order every \<open>BTreeMap\<close> of the compiler uses.
\<close>

section \<open>Source data\<close>

record Span =
  span_start :: nat
  span_end :: nat
  span_line :: nat
  span_column :: nat
  span_end_line :: nat
  span_end_column :: nat

definition default_span :: Span where
  "default_span = \<lparr>span_start = 0, span_end = 0, span_line = 0, span_column = 0,
                   span_end_line = 0, span_end_column = 0\<rparr>"

datatype Literal =
    LString string
  | LIdentifier string
  | LInteger i64
  | LFloat string
  | LBoolean bool

datatype UnaryOperator = UnNegate | UnNot

datatype BinaryOperator =
    BoAdd | BoSubtract | BoMultiply | BoDivide | BoRemainder | BoEqual | BoNotEqual
  | BoLess | BoLessEqual | BoGreater | BoGreaterEqual | BoAnd | BoOr

section \<open>Resolved types\<close>

datatype PrimitiveType =
    PrimBool
  | PrimString
  | PrimStr
  | PrimChar
  | PrimBytes
  | PrimSigned string
  | PrimUnsigned string
  | PrimFloat string
  | PrimDuration
  | PrimSize
  | PrimAgentRef
  | PrimProvider
  | PrimText

datatype ResolvedType =
    RtReference "string option" bool ResolvedType
  | RtPrimitive PrimitiveType
  | RtStruct string
  | RtEnum string
  | RtState string
  | RtOption ResolvedType
  | RtResult ResolvedType ResolvedType
  | RtArray ResolvedType
  | RtTuple "ResolvedType list"
  | RtFunction "ResolvedType list" ResolvedType
  | RtUnit
  | RtUnknown
  | RtError
  | RtIntegerLiteral
  | RtFloatLiteral

section \<open>Identities\<close>

record HirDefId =
  hir_module :: u32
  hir_index :: u32

instantiation DefId_ext :: (linorder) linorder
begin

definition less_eq_DefId_ext :: "'a DefId_scheme \<Rightarrow> 'a DefId_scheme \<Rightarrow> bool" where
  "less_eq_DefId_ext a b \<longleftrightarrow>
     (module_id a, def_index a, DefId.more a) \<le> (module_id b, def_index b, DefId.more b)"

definition less_DefId_ext :: "'a DefId_scheme \<Rightarrow> 'a DefId_scheme \<Rightarrow> bool" where
  "less_DefId_ext a b \<longleftrightarrow>
     (module_id a, def_index a, DefId.more a) < (module_id b, def_index b, DefId.more b)"

instance
  by standard
    (auto simp: less_eq_DefId_ext_def less_DefId_ext_def less_le_not_le intro: DefId.equality)

end

instantiation HirDefId_ext :: (linorder) linorder
begin

definition less_eq_HirDefId_ext :: "'a HirDefId_scheme \<Rightarrow> 'a HirDefId_scheme \<Rightarrow> bool" where
  "less_eq_HirDefId_ext a b \<longleftrightarrow>
     (hir_module a, hir_index a, HirDefId.more a) \<le> (hir_module b, hir_index b, HirDefId.more b)"

definition less_HirDefId_ext :: "'a HirDefId_scheme \<Rightarrow> 'a HirDefId_scheme \<Rightarrow> bool" where
  "less_HirDefId_ext a b \<longleftrightarrow>
     (hir_module a, hir_index a, HirDefId.more a) < (hir_module b, hir_index b, HirDefId.more b)"

instance
  by standard
    (auto simp: less_eq_HirDefId_ext_def less_HirDefId_ext_def less_le_not_le
      intro: HirDefId.equality)

end

text \<open>Both lowerings map a HIR identity to the MIR identity with the same components.\<close>

definition mir_def_id :: "HirDefId \<Rightarrow> DefId" where
  "mir_def_id d = \<lparr>module_id = hir_module d, def_index = hir_index d\<rparr>"

lemma mir_def_id_inject [simp]: "mir_def_id a = mir_def_id b \<longleftrightarrow> a = b"
  by (cases a, cases b) (simp add: mir_def_id_def)

section \<open>Expressions, statements and patterns\<close>

datatype HirPattern =
    PatWildcard
  | PatBinding HirDefId
  | PatVariant HirDefId "HirPattern list"
  | PatLiteral Literal

datatype TypedExpr = TypedExpr (expr_kind: HirExprKind) (expr_ty: ResolvedType) (expr_span: Span)
and HirExprKind =
    HBorrow bool TypedExpr
  | HAwait TypedExpr
  | HLiteral Literal
  | HReference HirDefId
  | HArray "TypedExpr list"
  | HCall TypedExpr "TypedExpr list"
  | HField TypedExpr HirDefId
  | HUnary UnaryOperator TypedExpr
  | HBinary BinaryOperator TypedExpr TypedExpr
  | HMatch TypedExpr "HirMatchArm list"
  | HBlock HirBlock
and HirMatchArm = HirMatchArm HirPattern "TypedExpr option" TypedExpr Span
and HirStatement =
    HLet HirDefId string ResolvedType TypedExpr
  | HReturn "TypedExpr option"
  | HExpression TypedExpr
and HirBlock = HirBlock (block_statements: "HirStatement list") (block_span: Span)

text \<open>
  The pre-order walk, as the sequence of expressions it visits; a visitor with state folds over
  that sequence.
\<close>

fun walk :: "TypedExpr \<Rightarrow> TypedExpr list"
  and walk_kind :: "HirExprKind \<Rightarrow> TypedExpr list"
  and walk_arm :: "HirMatchArm \<Rightarrow> TypedExpr list"
  and walk_statement :: "HirStatement \<Rightarrow> TypedExpr list"
  and walk_block :: "HirBlock \<Rightarrow> TypedExpr list" where
  "walk (TypedExpr kind ty sp) = TypedExpr kind ty sp # walk_kind kind"
| "walk_kind (HBorrow is_mut x) = walk x"
| "walk_kind (HAwait x) = walk x"
| "walk_kind (HArray items) = concat (map walk items)"
| "walk_kind (HCall callee arguments) = walk callee @ concat (map walk arguments)"
| "walk_kind (HField base field) = walk base"
| "walk_kind (HUnary op x) = walk x"
| "walk_kind (HBinary op left right) = walk left @ walk right"
| "walk_kind (HMatch v arms) = walk v @ concat (map walk_arm arms)"
| "walk_kind (HBlock block) = walk_block block"
| "walk_kind (HLiteral l) = []"
| "walk_kind (HReference d) = []"
| "walk_arm (HirMatchArm pat guard body sp) =
     (case guard of None \<Rightarrow> [] | Some g \<Rightarrow> walk g) @ walk body"
| "walk_statement (HLet d name ty v) = walk v"
| "walk_statement (HExpression v) = walk v"
| "walk_statement (HReturn v) = (case v of None \<Rightarrow> [] | Some e \<Rightarrow> walk e)"
| "walk_block (HirBlock stmts sp) = concat (map walk_statement stmts)"

section \<open>Definitions, modules and programs\<close>

record HirParameter =
  param_id :: HirDefId
  param_name :: string
  param_ty :: ResolvedType
  param_span :: Span

record HirMember =
  member_id :: HirDefId
  member_name :: string
  member_ty :: ResolvedType
  member_span :: Span

record HirVariant =
  variant_id :: HirDefId
  variant_name :: string
  variant_fields :: "ResolvedType list"
  variant_span :: Span

record HirFunction =
  is_test :: bool
  asynchronous :: bool
  is_public :: bool
  declared_effects :: "string list option"
  hir_parameters :: "HirParameter list"
  hir_result :: ResolvedType
  hir_body :: HirBlock

record HirPipeline =
  pipeline_parameters :: "HirParameter list"
  pipeline_result :: ResolvedType
  pipeline_agent :: "HirDefId option"
  pipeline_body :: "TypedExpr option"

datatype HirDefinitionKind =
    DStruct "HirMember list"
  | DEnum "HirVariant list"
  | DFunction HirFunction
  | DState "HirMember list"
  | DAgent
  | DPipeline HirPipeline
  | DSafetyBound

fun as_function :: "HirDefinitionKind \<Rightarrow> HirFunction option" where
  "as_function (DFunction f) = Some f"
| "as_function _ = None"

record HirDefinition =
  definition_id :: HirDefId
  definition_name :: string
  definition_kind :: HirDefinitionKind
  definition_span :: Span

record HirModule =
  hir_module_id :: u32
  hir_definitions :: "HirDefinition list"

record HirProgram =
  schema_version :: u32
  hir_modules :: "HirModule list"
  hir_entry :: "HirDefId option"

abbreviation all_definitions :: "HirProgram \<Rightarrow> HirDefinition list" where
  "all_definitions p \<equiv> concat (map hir_definitions (hir_modules p))"

end
