(* ===== verification/Mir_Verify.thy ===== *)
theory Mir_Verify
  imports Mir
begin

text \<open>
  The MIR verifier of \<open>crates/syllog-ir/src/verify.rs\<close>. Every Rust function that pushes onto
  the shared error vector returns here the list of errors it pushes, in order; the callers
  concatenate those lists in the order of the calls. A \<open>BTreeSet<LocalId>\<close> is a set, and the
  verifier's per-block \<open>Vec<Option<BTreeSet<LocalId>>>\<close> a list of optional sets. Target indices
  are 64 bits wide, so \<open>usize::try_from\<close> of a 32-bit identifier always succeeds.
\<close>

section \<open>Errors\<close>

datatype VerificationError =
    UseAfterMove DefId BlockId LocalId
  | DoubleDrop DefId BlockId LocalId
  | InvalidCopy DefId BlockId LocalId
  | OverwriteWithoutDrop DefId BlockId LocalId
  | EmptyFunction DefId
  | MissingTerminator DefId BlockId
  | InvalidBlockTarget DefId BlockId BlockId
  | InvalidLocal DefId BlockId LocalId
  | UseBeforeDefinition DefId BlockId LocalId
  | TypeMismatch DefId BlockId MirType MirType
  | UnknownFunction DefId BlockId DefId
  | ArgumentCount DefId BlockId nat nat
  | InvalidSwitchType DefId BlockId MirType

type_synonym errors = "VerificationError list"
type_synonym local_set = "LocalId set"
type_synonym flow = "local_set option list"

section \<open>Graph and type helpers\<close>

fun place_local :: "Place \<Rightarrow> LocalId" where
  "place_local (PLocal l) = l"
| "place_local (PField base field) = base"

fun successors :: "Terminator \<Rightarrow> BlockId list" where
  "successors Return = []"
| "successors (Goto target) = [target]"
| "successors (SwitchInt value targets otherwise) = map snd targets @ [otherwise]"
| "successors (Call callee args destination continue) = [continue]"

definition type_error :: "MirFunction \<Rightarrow> BlockId \<Rightarrow> MirType \<Rightarrow> MirType \<Rightarrow> VerificationError" where
  "type_error f block expected actual = TypeMismatch (fn_id f) block expected actual"

fun mir_type_is_copy :: "MirType \<Rightarrow> bool" where
  "mir_type_is_copy TyUnit = True"
| "mir_type_is_copy TyBool = True"
| "mir_type_is_copy TyI64 = True"
| "mir_type_is_copy TyU64 = True"
| "mir_type_is_copy (TyReference is_mut inner) = (\<not> is_mut)"
| "mir_type_is_copy TyString = False"
| "mir_type_is_copy (TyAggregate d) = False"

definition block_successors :: "BasicBlock \<Rightarrow> BlockId list" where
  "block_successors block =
     (case terminator block of None \<Rightarrow> [] | Some t \<Rightarrow> successors t)"

definition block_id_of :: "nat \<Rightarrow> BlockId" where
  "block_id_of index = try_from_or_max index"

section \<open>Reachability\<close>

text \<open>
  The breadth-first worklist. Termination: visiting a block turns one flag on, skipping an
  entry shortens the queue.
\<close>

function reach_loop :: "BasicBlock list \<Rightarrow> bool list \<Rightarrow> BlockId list \<Rightarrow> bool list" where
  "reach_loop blocks reachable [] = reachable"
| "reach_loop blocks reachable (block # queue) =
     (let index = unat block in
      if length reachable \<le> index \<or> reachable ! index
      then reach_loop blocks reachable queue
      else reach_loop blocks (reachable[index := True])
             (queue @ block_successors (blocks ! index)))"
  by pat_completeness auto
termination
proof (relation "measures [\<lambda>(blocks, reachable, queue). length (filter Not reachable),
                           \<lambda>(blocks, reachable, queue). length queue]", goal_cases)
  case 1
  then show ?case by simp
next
  case (2 blocks reachable block queue index)
  then show ?case by simp
next
  case (3 blocks reachable block queue index)
  then have "index < length reachable" and "\<not> reachable ! index"
    by auto
  then have "length (filter Not (reachable[index := True])) < length (filter Not reachable)"
    by (auto simp: upd_conv_take_nth_drop id_take_nth_drop [of index reachable, symmetric]
          dest: arg_cong [OF id_take_nth_drop, of index reachable "\<lambda>xs. length (filter Not xs)"])
  then show ?case by simp
qed

definition reachable_blocks :: "MirFunction \<Rightarrow> bool list" where
  "reachable_blocks f = reach_loop (fn_blocks f) (replicate (length (fn_blocks f)) False) [0]"

section \<open>The forward dataflow loop\<close>

text \<open>
  Definite initialisation, affine ownership and the drop-insertion pass of the compiler run the
  same round-robin loop over the blocks: the state of a block is pushed through a transfer
  function and intersected into every reachable successor until nothing changes. The three
  copies differ in the transfer function and in whether edges into the entry block count
  (\<open>skip_entry\<close>).
\<close>

definition universe :: "MirFunction \<Rightarrow> local_set" where
  "universe f = set (map of_nat (filter (\<lambda>i. int i < 2 ^ 32) [0..<length (fn_locals f)]))"

definition parameters :: "MirFunction \<Rightarrow> local_set" where
  "parameters f = set (map of_nat [1..<Suc (unat (parameter_count f))])"

definition initial_flow :: "MirFunction \<Rightarrow> bool list \<Rightarrow> flow" where
  "initial_flow f reachable =
     (map (\<lambda>is_reachable. if is_reachable then Some (universe f) else None) reachable)
       [0 := Some (parameters f)]"

definition flow_edge ::
  "bool \<Rightarrow> bool list \<Rightarrow> local_set \<Rightarrow> BlockId \<Rightarrow> flow \<times> bool \<Rightarrow> flow \<times> bool" where
  "flow_edge skip_entry reachable outgoing target = (\<lambda>(incoming, changed).
     (let successor = unat target in
      if length incoming \<le> successor \<or> \<not> reachable ! successor \<or> (skip_entry \<and> successor = 0)
      then (incoming, changed)
      else let merged = map_option (\<lambda>current. current \<inter> outgoing) (incoming ! successor) in
           if merged \<noteq> incoming ! successor then (incoming[successor := merged], True)
           else (incoming, changed)))"

definition flow_block ::
  "bool \<Rightarrow> (BasicBlock \<Rightarrow> local_set \<Rightarrow> local_set) \<Rightarrow> bool list \<Rightarrow> nat \<times> BasicBlock
     \<Rightarrow> flow \<times> bool \<Rightarrow> flow \<times> bool" where
  "flow_block skip_entry transfer reachable = (\<lambda>(index, block) (incoming, changed).
     (case incoming ! index of
        None \<Rightarrow> (incoming, changed)
      | Some state \<Rightarrow>
          fold (flow_edge skip_entry reachable (transfer block state))
            (block_successors block) (incoming, changed)))"

definition flow_pass ::
  "bool \<Rightarrow> (BasicBlock \<Rightarrow> local_set \<Rightarrow> local_set) \<Rightarrow> bool list \<Rightarrow> BasicBlock list
     \<Rightarrow> flow \<Rightarrow> flow \<times> bool" where
  "flow_pass skip_entry transfer reachable blocks incoming =
     fold (flow_block skip_entry transfer reachable) (zip [0..<length blocks] blocks)
       (incoming, False)"

text \<open>Every changed entry loses at least one local, so the total size bounds the passes.\<close>

definition flow_size :: "flow \<Rightarrow> nat" where
  "flow_size incoming = (\<Sum>s\<leftarrow>incoming. case s of None \<Rightarrow> 0 | Some current \<Rightarrow> card current)"

lemma flow_size_update:
  assumes "i < length inc" and "inc ! i = Some c"
  shows "flow_size (inc[i := Some d]) + card c = flow_size inc + card d"
  using assms
proof (induction inc arbitrary: i)
  case Nil
  then show ?case by simp
next
  case (Cons s inc)
  then show ?case
    by (cases i) (auto simp: flow_size_def)
qed

lemma flow_edge_size:
  assumes "flow_edge skip re out t (inc, ch) = (inc', ch')"
  shows "(inc' = inc \<and> ch' = ch) \<or> (flow_size inc' < flow_size inc \<and> ch')"
proof (cases "inc' = inc \<and> ch' = ch")
  case False
  let ?i = "unat t"
  from False assms have i: "?i < length inc"
    and m: "map_option (\<lambda>c. c \<inter> out) (inc ! ?i) \<noteq> inc ! ?i"
    and r: "inc' = inc[?i := map_option (\<lambda>c. c \<inter> out) (inc ! ?i)]" "ch'"
    by (auto simp: flow_edge_def Let_def split: if_splits)
  then obtain c where c: "inc ! ?i = Some c" and ne: "c \<inter> out \<noteq> c"
    by (cases "inc ! ?i") auto
  have "card (c \<inter> out) < card c"
    using ne by (intro psubset_card_mono) auto
  moreover have "flow_size inc' + card c = flow_size inc + card (c \<inter> out)"
    using flow_size_update [OF i c, of "c \<inter> out"] r c by simp
  ultimately show ?thesis using r by simp
qed simp

lemma flow_fold_size:
  assumes step: "\<And>x inc ch inc' ch'. g x (inc, ch) = (inc', ch')
      \<Longrightarrow> (inc' = inc \<and> ch' = ch) \<or> (flow_size inc' < flow_size inc \<and> ch')"
    and "fold g xs (inc, ch) = (inc', ch')"
  shows "(inc' = inc \<and> ch' = ch) \<or> (flow_size inc' < flow_size inc \<and> ch')"
  using assms(2)
proof (induction xs arbitrary: inc ch)
  case Nil
  then show ?case by simp
next
  case (Cons x xs)
  obtain inc1 ch1 where g: "g x (inc, ch) = (inc1, ch1)" by fastforce
  from Cons.prems g have "fold g xs (inc1, ch1) = (inc', ch')" by simp
  from Cons.IH [OF this] step [OF g] show ?case by auto
qed

lemma flow_block_size:
  assumes "flow_block skip tr re x (inc, ch) = (inc', ch')"
  shows "(inc' = inc \<and> ch' = ch) \<or> (flow_size inc' < flow_size inc \<and> ch')"
  using assms
  by (cases x) (auto simp: flow_block_def split: option.splits
        dest: flow_fold_size [OF flow_edge_size, rotated])

lemma flow_pass_size:
  assumes "flow_pass skip tr re bs inc = (inc', ch')"
  shows "(inc' = inc \<and> \<not> ch') \<or> (flow_size inc' < flow_size inc \<and> ch')"
  using flow_fold_size [OF flow_block_size, where ch = False] assms
  by (fastforce simp: flow_pass_def)

function flow_loop ::
  "bool \<Rightarrow> (BasicBlock \<Rightarrow> local_set \<Rightarrow> local_set) \<Rightarrow> bool list \<Rightarrow> BasicBlock list
     \<Rightarrow> flow \<Rightarrow> flow" where
  "flow_loop skip_entry transfer reachable blocks incoming =
     (case flow_pass skip_entry transfer reachable blocks incoming of
        (incoming', changed) \<Rightarrow>
          if changed then flow_loop skip_entry transfer reachable blocks incoming'
          else incoming')"
  by pat_completeness auto
termination
  by (relation "measure (\<lambda>(skip, tr, re, bs, inc). flow_size inc)")
     (auto dest: flow_pass_size sym)

declare flow_loop.simps [simp del]

section \<open>Definite initialisation\<close>

fun assigned_statement :: "Statement \<Rightarrow> local_set \<Rightarrow> local_set" where
  "assigned_statement (Assign (PLocal l) value) outgoing = insert l outgoing"
| "assigned_statement (Assign (PField base field) value) outgoing = outgoing"
| "assigned_statement (Drop place) outgoing = outgoing"

fun assigned_terminator :: "Terminator option \<Rightarrow> local_set \<Rightarrow> local_set" where
  "assigned_terminator (Some (Call callee args (PLocal l) continue)) outgoing = insert l outgoing"
| "assigned_terminator t outgoing = outgoing"

definition init_transfer :: "BasicBlock \<Rightarrow> local_set \<Rightarrow> local_set" where
  "init_transfer block state =
     assigned_terminator (terminator block) (fold assigned_statement (statements block) state)"

definition definite_initialization :: "MirFunction \<Rightarrow> flow" where
  "definite_initialization f =
     (let reachable = reachable_blocks f in
      flow_loop True init_transfer reachable (fn_blocks f) (initial_flow f reachable))"

definition verify_local_use ::
  "MirFunction \<Rightarrow> BlockId \<Rightarrow> LocalId \<Rightarrow> local_set \<Rightarrow> errors" where
  "verify_local_use f block l defined =
     (if \<not> unat l < length (fn_locals f) then [InvalidLocal (fn_id f) block l]
      else if l \<notin> defined then [UseBeforeDefinition (fn_id f) block l]
      else [])"

fun place_type :: "MirFunction \<Rightarrow> BlockId \<Rightarrow> Place \<Rightarrow> MirType option \<times> errors" where
  "place_type f block place =
     (let l = place_local place in
      case nth_opt (fn_locals f) (unat l) of
        None \<Rightarrow> (None, [InvalidLocal (fn_id f) block l])
      | Some ty \<Rightarrow> (case place of PLocal _ \<Rightarrow> (Some ty, []) | PField _ _ \<Rightarrow> (None, [])))"

fun operand_type ::
  "MirFunction \<Rightarrow> BlockId \<Rightarrow> Operand \<Rightarrow> local_set \<Rightarrow> MirType option \<times> errors" where
  "operand_type f block (OpConstant c) defined = (Some (constant_ty c), [])"
| "operand_type f block (OpCopy l) defined =
     (nth_opt (fn_locals f) (unat l), verify_local_use f block l defined)"
| "operand_type f block (OpMove l) defined =
     (nth_opt (fn_locals f) (unat l), verify_local_use f block l defined)"

text \<open>
  \<open>Binary\<close> leaves early when an operand has no type: the errors of the operands read so far
  stay, no result type is known.
\<close>

fun verify_rvalue ::
  "MirFunction \<Rightarrow> BlockId \<Rightarrow> Rvalue \<Rightarrow> local_set \<Rightarrow> MirType option \<times> errors" where
  "verify_rvalue f block (Borrow is_mut place) defined =
     (let used = verify_local_use f block (place_local place) defined;
          (ty, errs) = place_type f block place
      in (map_option (TyReference is_mut) ty, used @ errs))"
| "verify_rvalue f block (Use operand) defined = operand_type f block operand defined"
| "verify_rvalue f block (Discriminant operand) defined =
     (Some TyU64, snd (operand_type f block operand defined))"
| "verify_rvalue f block (Aggregate ty discriminant flds) defined =
     (Some (TyAggregate ty),
      concat (map (\<lambda>field. snd (operand_type f block field defined)) flds))"
| "verify_rvalue f block (Binary operator left right) defined =
     (case operand_type f block left defined of
        (None, e1) \<Rightarrow> (None, e1)
      | (Some lty, e1) \<Rightarrow>
          (case operand_type f block right defined of
             (None, e2) \<Rightarrow> (None, e1 @ e2)
           | (Some rty, e2) \<Rightarrow>
               (let e3 = (if lty \<noteq> rty then [type_error f block lty rty] else []);
                    (ty, e4) =
                      (case operator of
                         Equal \<Rightarrow> (TyBool, [])
                       | Less \<Rightarrow> (TyBool, [])
                       | And \<Rightarrow> (TyBool, if lty = TyBool then []
                                         else [type_error f block TyBool lty])
                       | Or \<Rightarrow> (TyBool, if lty = TyBool then []
                                        else [type_error f block TyBool lty])
                       | _ \<Rightarrow> (lty, []))
                in (Some ty, e1 @ e2 @ e3 @ e4))))"

definition verify_argument ::
  "MirFunction \<Rightarrow> BlockId \<Rightarrow> MirFunction \<Rightarrow> local_set \<Rightarrow> nat \<times> Operand \<Rightarrow> errors" where
  "verify_argument f block signature defined = (\<lambda>(index, argument).
     (case operand_type f block argument defined of
        (actual, errs) \<Rightarrow>
          errs @
          (case (actual, nth_opt (fn_locals signature) (index + 1)) of
             (Some actual, Some expected) \<Rightarrow>
               if actual \<noteq> expected then [type_error f block expected actual] else []
           | _ \<Rightarrow> [])))"

definition verify_arguments ::
  "MirFunction \<Rightarrow> BlockId \<Rightarrow> MirFunction \<Rightarrow> local_set \<Rightarrow> Operand list \<Rightarrow> errors" where
  "verify_arguments f block signature defined args =
     concat (map (verify_argument f block signature defined) (zip [0..<length args] args))"

fun verify_terminator ::
  "MirFunction \<Rightarrow> BlockId \<Rightarrow> Terminator \<Rightarrow> (DefId \<rightharpoonup> MirFunction) \<Rightarrow> local_set \<Rightarrow> errors" where
  "verify_terminator f block Return signatures defined = verify_local_use f block 0 defined"
| "verify_terminator f block (Goto target) signatures defined = []"
| "verify_terminator f block (SwitchInt value targets otherwise) signatures defined =
     (case operand_type f block value defined of
        (None, errs) \<Rightarrow> errs
      | (Some actual, errs) \<Rightarrow>
          errs @ (if actual \<in> {TyBool, TyI64, TyU64} then []
                  else [InvalidSwitchType (fn_id f) block actual]))"
| "verify_terminator f block (Call callee args destination continue) signatures defined =
     (case signatures callee of
        None \<Rightarrow> []
      | Some signature \<Rightarrow>
          (let count = unat (parameter_count signature);
               e1 = (if length args \<noteq> count
                     then [ArgumentCount (fn_id f) block count (length args)] else []);
               e2 = verify_arguments f block signature defined args;
               (actual, e3) = place_type f block destination;
               e4 = (case actual of
                       None \<Rightarrow> []
                     | Some actual \<Rightarrow>
                         if actual \<noteq> return_type signature
                         then [type_error f block (return_type signature) actual] else [])
           in e1 @ e2 @ e3 @ e4))"

fun verify_statement ::
  "MirFunction \<Rightarrow> BlockId \<Rightarrow> Statement \<Rightarrow> local_set \<Rightarrow> local_set \<times> errors" where
  "verify_statement f block (Assign destination value) defined =
     (let (value_type, e1) = verify_rvalue f block value defined;
          (destination_type, e2) = place_type f block destination
      in (case destination_type of
            None \<Rightarrow> (defined, e1 @ e2)
          | Some dty \<Rightarrow>
              (let e3 = (case value_type of
                           None \<Rightarrow> []
                         | Some vty \<Rightarrow> if dty \<noteq> vty then [type_error f block dty vty] else []);
                   defined' = (case destination of PLocal l \<Rightarrow> insert l defined
                                                 | PField _ _ \<Rightarrow> defined)
               in (defined', e1 @ e2 @ e3))))"
| "verify_statement f block (Drop place) defined =
     (defined, verify_local_use f block (place_local place) defined)"

fun verify_statements ::
  "MirFunction \<Rightarrow> BlockId \<Rightarrow> Statement list \<Rightarrow> local_set \<Rightarrow> local_set \<times> errors" where
  "verify_statements f block [] defined = (defined, [])"
| "verify_statements f block (s # ss) defined =
     (let (defined', e1) = verify_statement f block s defined;
          (defined'', e2) = verify_statements f block ss defined'
      in (defined'', e1 @ e2))"

definition verify_block ::
  "MirFunction \<Rightarrow> BlockId \<Rightarrow> BasicBlock \<Rightarrow> (DefId \<rightharpoonup> MirFunction) \<Rightarrow> local_set \<Rightarrow> errors" where
  "verify_block f block_id block signatures defined =
     (let (defined', e1) = verify_statements f block_id (statements block) defined;
          e2 = (case terminator block of
                  None \<Rightarrow> []
                | Some t \<Rightarrow> verify_terminator f block_id t signatures defined')
      in e1 @ e2)"

definition verify_target ::
  "MirFunction \<Rightarrow> (DefId \<rightharpoonup> MirFunction) \<Rightarrow> nat \<times> BasicBlock \<Rightarrow> errors" where
  "verify_target f signatures = (\<lambda>(index, block).
     (let block_id = block_id_of index in
      case terminator block of
        None \<Rightarrow> [MissingTerminator (fn_id f) block_id]
      | Some t \<Rightarrow>
          concat (map (\<lambda>target.
            if length (fn_blocks f) \<le> unat target
            then [InvalidBlockTarget (fn_id f) block_id target] else []) (successors t)) @
          (case t of
             Call callee args destination continue \<Rightarrow>
               if signatures callee = None then [UnknownFunction (fn_id f) block_id callee] else []
           | _ \<Rightarrow> [])))"

definition verify_targets :: "MirFunction \<Rightarrow> (DefId \<rightharpoonup> MirFunction) \<Rightarrow> errors" where
  "verify_targets f signatures =
     concat (map (verify_target f signatures) (zip [0..<length (fn_blocks f)] (fn_blocks f)))"

definition verify_blocks :: "MirFunction \<Rightarrow> (DefId \<rightharpoonup> MirFunction) \<Rightarrow> flow \<Rightarrow> errors" where
  "verify_blocks f signatures incoming =
     concat (map (\<lambda>(index, block).
       (case incoming ! index of
          None \<Rightarrow> []
        | Some defined \<Rightarrow> verify_block f (block_id_of index) block signatures defined))
       (zip [0..<length (fn_blocks f)] (fn_blocks f)))"

definition verify_function :: "MirFunction \<Rightarrow> (DefId \<rightharpoonup> MirFunction) \<Rightarrow> errors" where
  "verify_function f signatures =
     (if fn_locals f = [] \<or> fn_blocks f = [] then [EmptyFunction (fn_id f)]
      else
        (let e1 = (if fn_locals f ! 0 \<noteq> return_type f
                   then [TypeMismatch (fn_id f) 0 (return_type f) (fn_locals f ! 0)] else [])
         in if unat (parameter_count f) + 1 > length (fn_locals f)
            then e1 @ [InvalidLocal (fn_id f) 0 (parameter_count f)]
            else e1 @ verify_targets f signatures
                   @ verify_blocks f signatures (definite_initialization f)))"

section \<open>Affine ownership\<close>

fun consume_operand :: "Operand \<Rightarrow> local_set \<Rightarrow> local_set" where
  "consume_operand (OpMove l) state = state - {l}"
| "consume_operand (OpCopy l) state = state"
| "consume_operand (OpConstant c) state = state"

fun consume_rvalue :: "Rvalue \<Rightarrow> local_set \<Rightarrow> local_set" where
  "consume_rvalue (Borrow is_mut place) state = state"
| "consume_rvalue (Use operand) state = consume_operand operand state"
| "consume_rvalue (Discriminant operand) state = consume_operand operand state"
| "consume_rvalue (Aggregate ty discriminant flds) state = fold consume_operand flds state"
| "consume_rvalue (Binary operator left right) state =
     consume_operand right (consume_operand left state)"

fun bind_place :: "Place \<Rightarrow> local_set \<Rightarrow> local_set" where
  "bind_place (PLocal l) state = insert l state"
| "bind_place (PField base field) state = state"

fun consume_terminator :: "Terminator \<Rightarrow> local_set \<Rightarrow> local_set" where
  "consume_terminator (SwitchInt value targets otherwise) state = consume_operand value state"
| "consume_terminator (Call callee args destination continue) state =
     bind_place destination (fold consume_operand args state)"
| "consume_terminator Return state = state"
| "consume_terminator (Goto target) state = state"

fun transfer_statement :: "Statement \<Rightarrow> local_set \<Rightarrow> local_set" where
  "transfer_statement (Assign destination value) state =
     bind_place destination (consume_rvalue value state)"
| "transfer_statement (Drop place) state = state - {place_local place}"

definition transfer_block :: "BasicBlock \<Rightarrow> local_set \<Rightarrow> local_set" where
  "transfer_block block state =
     (let state' = fold transfer_statement (statements block) state in
      case terminator block of None \<Rightarrow> state' | Some t \<Rightarrow> consume_terminator t state')"

text \<open>The locals some statement or call of the function initialises.\<close>

definition ever_initialized :: "MirFunction \<Rightarrow> local_set \<Rightarrow> local_set" where
  "ever_initialized f params = fold init_transfer (fn_blocks f) params"

definition check_read ::
  "MirFunction \<Rightarrow> BlockId \<Rightarrow> LocalId \<Rightarrow> bool \<Rightarrow> local_set \<Rightarrow> local_set \<Rightarrow> local_set \<times> errors" where
  "check_read f block l consume state initialized =
     (if l \<notin> state \<and> l \<in> initialized then (state, [UseAfterMove (fn_id f) block l])
      else (if consume then state - {l} else state, []))"

definition affine_local :: "MirFunction \<Rightarrow> LocalId \<Rightarrow> bool" where
  "affine_local f l =
     (case nth_opt (fn_locals f) (unat l) of None \<Rightarrow> False | Some ty \<Rightarrow> \<not> mir_type_is_copy ty)"

fun check_operand_ownership ::
  "MirFunction \<Rightarrow> BlockId \<Rightarrow> Operand \<Rightarrow> local_set \<Rightarrow> local_set \<Rightarrow> local_set \<times> errors" where
  "check_operand_ownership f block (OpConstant c) state initialized = (state, [])"
| "check_operand_ownership f block (OpCopy l) state initialized =
     (let (state', e1) = check_read f block l False state initialized
      in (state', e1 @ (if affine_local f l then [InvalidCopy (fn_id f) block l] else [])))"
| "check_operand_ownership f block (OpMove l) state initialized =
     check_read f block l True state initialized"

fun check_operands_ownership ::
  "MirFunction \<Rightarrow> BlockId \<Rightarrow> Operand list \<Rightarrow> local_set \<Rightarrow> local_set \<Rightarrow> local_set \<times> errors" where
  "check_operands_ownership f block [] state initialized = (state, [])"
| "check_operands_ownership f block (operand # operands) state initialized =
     (let (state', e1) = check_operand_ownership f block operand state initialized;
          (state'', e2) = check_operands_ownership f block operands state' initialized
      in (state'', e1 @ e2))"

fun check_rvalue_ownership ::
  "MirFunction \<Rightarrow> BlockId \<Rightarrow> Rvalue \<Rightarrow> local_set \<Rightarrow> local_set \<Rightarrow> local_set \<times> errors" where
  "check_rvalue_ownership f block (Borrow is_mut place) state initialized =
     check_read f block (place_local place) False state initialized"
| "check_rvalue_ownership f block (Use operand) state initialized =
     check_operand_ownership f block operand state initialized"
| "check_rvalue_ownership f block (Discriminant operand) state initialized =
     check_operand_ownership f block operand state initialized"
| "check_rvalue_ownership f block (Aggregate ty discriminant flds) state initialized =
     check_operands_ownership f block flds state initialized"
| "check_rvalue_ownership f block (Binary operator left right) state initialized =
     check_operands_ownership f block [left, right] state initialized"

fun check_statement_ownership ::
  "MirFunction \<Rightarrow> BlockId \<Rightarrow> Statement \<Rightarrow> local_set \<Rightarrow> local_set \<Rightarrow> local_set \<times> errors" where
  "check_statement_ownership f block (Assign destination value) state initialized =
     (let (state', e1) = check_rvalue_ownership f block value state initialized
      in (case destination of
            PField _ _ \<Rightarrow> (state', e1)
          | PLocal l \<Rightarrow>
              (insert l state',
               e1 @ (if l \<in> state' \<and> affine_local f l
                     then [OverwriteWithoutDrop (fn_id f) block l] else []))))"
| "check_statement_ownership f block (Drop place) state initialized =
     (let l = place_local place
      in (state - {l},
          if l \<notin> state \<and> l \<in> initialized then [DoubleDrop (fn_id f) block l] else []))"

fun check_statements_ownership ::
  "MirFunction \<Rightarrow> BlockId \<Rightarrow> Statement list \<Rightarrow> local_set \<Rightarrow> local_set \<Rightarrow> local_set \<times> errors" where
  "check_statements_ownership f block [] state initialized = (state, [])"
| "check_statements_ownership f block (s # ss) state initialized =
     (let (state', e1) = check_statement_ownership f block s state initialized;
          (state'', e2) = check_statements_ownership f block ss state' initialized
      in (state'', e1 @ e2))"

fun check_terminator_ownership ::
  "MirFunction \<Rightarrow> BlockId \<Rightarrow> Terminator \<Rightarrow> local_set \<Rightarrow> local_set \<Rightarrow> errors" where
  "check_terminator_ownership f block Return state initialized =
     snd (check_read f block 0 False state initialized)"
| "check_terminator_ownership f block (SwitchInt value targets otherwise) state initialized =
     snd (check_operand_ownership f block value state initialized)"
| "check_terminator_ownership f block (Call callee args destination continue) state initialized =
     snd (check_operands_ownership f block args state initialized)"
| "check_terminator_ownership f block (Goto target) state initialized = []"

definition check_block_ownership ::
  "MirFunction \<Rightarrow> BlockId \<Rightarrow> BasicBlock \<Rightarrow> local_set \<Rightarrow> local_set \<Rightarrow> errors" where
  "check_block_ownership f block_id block state initialized =
     (let (state', e1) =
            check_statements_ownership f block_id (statements block) state initialized;
          e2 = (case terminator block of
                  None \<Rightarrow> []
                | Some t \<Rightarrow> check_terminator_ownership f block_id t state' initialized)
      in e1 @ e2)"

definition ownership_flow :: "MirFunction \<Rightarrow> flow" where
  "ownership_flow f =
     (let reachable = reachable_blocks f in
      flow_loop False transfer_block reachable (fn_blocks f) (initial_flow f reachable))"

definition verify_affine_ownership :: "MirFunction \<Rightarrow> errors" where
  "verify_affine_ownership f =
     (if fn_blocks f = [] then []
      else
        (let initialized = ever_initialized f (parameters f);
             incoming = ownership_flow f
         in concat (map (\<lambda>(index, block).
              (case incoming ! index of
                 None \<Rightarrow> []
               | Some state \<Rightarrow>
                   check_block_ownership f (block_id_of index) block state initialized))
              (zip [0..<length (fn_blocks f)] (fn_blocks f)))))"

section \<open>The entry point\<close>

definition verify :: "MirProgram \<Rightarrow> errors + unit" where
  "verify program =
     (let signatures = function_table program;
          errs = concat (map (\<lambda>f. verify_function f signatures @ verify_affine_ownership f)
                   (program_functions program))
      in if errs = [] then Inr () else Inl errs)"

end
