(* ===== verification/Mir_Interp.thy ===== *)
theory Mir_Interp
  imports Mir_Verify
begin

text \<open>
  The reference interpreter of \<open>crates/syllog-interpreter/src/lib.rs\<close>. The machine is passed
  and returned explicitly; a method that fails returns only its error, as the Rust code drops
  the machine on every error path. A Rust panic (\<open>expect\<close>, an index out of range) is the error
  \<open>Panic\<close>, which the Rust error type does not have. \<open>InvalidMir\<close> carries the verifier's
  errors instead of their debug text.

  The block loop of \<open>Machine::call\<close> may run forever when the instruction limit is the largest
  64-bit value, because the counter saturates; it is modelled with fuel and \<open>None\<close> is "still
  running". One unit of fuel pays for one executed block.
\<close>

section \<open>Values, limits and errors\<close>

datatype RuntimeValue =
    RReference RuntimeValue
  | RUnit
  | RBool bool
  | RI64 i64
  | RU64 u64
  | RString string
  | RAggregate "RuntimeValue list"

record ExecutionResult =
  result_value :: RuntimeValue
  result_stdout :: "8 word list"
  result_drops :: u64

record InterpreterLimits =
  max_instructions :: u64
  max_call_depth :: u32
  max_allocated_bytes :: u64
  max_output_bytes :: u64

definition default_limits :: InterpreterLimits where
  "default_limits =
     \<lparr>max_instructions = 1000000, max_call_depth = 256,
      max_allocated_bytes = 64 * 1024 * 1024, max_output_bytes = 1024 * 1024\<rparr>"

datatype RuntimeError =
    InvalidMir errors
  | MissingEntry DefId
  | InstructionLimitExceeded u64
  | CallDepthLimitExceeded u32
  | AllocationLimitExceeded u64
  | OutputLimitExceeded u64
  | Trap string
  | Panic string

datatype Value =
    VReference Value
  | VUnit
  | VBool bool
  | VI64 i64
  | VU64 u64
  | VString string
  | VAggregate u64 "Value list"

primrec into_runtime :: "Value \<Rightarrow> RuntimeValue" where
  "into_runtime (VReference v) = RReference (into_runtime v)"
| "into_runtime VUnit = RUnit"
| "into_runtime (VBool b) = RBool b"
| "into_runtime (VI64 i) = RI64 i"
| "into_runtime (VU64 n) = RU64 n"
| "into_runtime (VString s) = RString s"
| "into_runtime (VAggregate d vs) = RAggregate (map into_runtime vs)"

section \<open>The machine\<close>

record Machine =
  m_functions :: "DefId \<rightharpoonup> MirFunction"
  m_limits :: InterpreterLimits
  m_instructions :: u64
  m_allocated_bytes :: u64
  m_stdout :: "8 word list"
  m_drops_executed :: u64

type_synonym frame_locals = "Value option list"

definition tick :: "Machine \<Rightarrow> RuntimeError + Machine" where
  "tick m =
     (let n = saturating_add (m_instructions m) 1 in
      if max_instructions (m_limits m) < n
      then Inl (InstructionLimitExceeded (max_instructions (m_limits m)))
      else Inr (m\<lparr>m_instructions := n\<rparr>))"

definition charge_allocation :: "Machine \<Rightarrow> u64 \<Rightarrow> RuntimeError + Machine" where
  "charge_allocation m bytes =
     (let n = saturating_add (m_allocated_bytes m) bytes in
      if max_allocated_bytes (m_limits m) < n
      then Inl (AllocationLimitExceeded (max_allocated_bytes (m_limits m)))
      else Inr (m\<lparr>m_allocated_bytes := n\<rparr>))"

definition local_value :: "frame_locals \<Rightarrow> LocalId \<Rightarrow> RuntimeError + Value" where
  "local_value locals l =
     ok_or (Trap ''local is empty'') (Option.bind (nth_opt locals (unat l)) (\<lambda>slot. slot))"

text \<open>The slot a mutable access reaches; the caller writes it back with a list update.\<close>

definition local_value_mut :: "frame_locals \<Rightarrow> LocalId \<Rightarrow> RuntimeError + Value option" where
  "local_value_mut locals l =
     ok_or (Trap ''local index is out of range'') (nth_opt locals (unat l))"

fun constant_value :: "Constant \<Rightarrow> Machine \<Rightarrow> RuntimeError + Value \<times> Machine" where
  "constant_value CUnit m = Inr (VUnit, m)"
| "constant_value (CBool b) m = Inr (VBool b, m)"
| "constant_value (CI64 i) m = Inr (VI64 i, m)"
| "constant_value (CU64 n) m = Inr (VU64 n, m)"
| "constant_value (CString s) m =
     bindR (charge_allocation m (try_from_or_max (length s))) (\<lambda>m'. Inr (VString s, m'))"

fun operand ::
  "Operand \<Rightarrow> Machine \<Rightarrow> frame_locals \<Rightarrow> RuntimeError + Value \<times> Machine \<times> frame_locals" where
  "operand (OpConstant c) m locals = bindR (constant_value c m) (\<lambda>(v, m'). Inr (v, m', locals))"
| "operand (OpCopy l) m locals = bindR (local_value locals l) (\<lambda>v. Inr (v, m, locals))"
| "operand (OpMove l) m locals =
     bindR (local_value_mut locals l) (\<lambda>slot.
       bindR (ok_or (Trap ''moved local is empty'') slot) (\<lambda>v.
         Inr (v, m, locals[unat l := None])))"

fun operand_list ::
  "Operand list \<Rightarrow> Machine \<Rightarrow> frame_locals
     \<Rightarrow> RuntimeError + Value list \<times> Machine \<times> frame_locals" where
  "operand_list [] m locals = Inr ([], m, locals)"
| "operand_list (x # xs) m locals =
     bindR (operand x m locals) (\<lambda>(v, m', locals').
       bindR (operand_list xs m' locals') (\<lambda>(vs, m'', locals''). Inr (v # vs, m'', locals'')))"

definition read_place :: "Place \<Rightarrow> frame_locals \<Rightarrow> RuntimeError + Value" where
  "read_place place locals =
     (case place of
        PLocal l \<Rightarrow> local_value locals l
      | PField base field \<Rightarrow>
          bindR (local_value locals base) (\<lambda>aggregate.
            case aggregate of
              VAggregate d flds \<Rightarrow>
                ok_or (Trap ''field index is out of range'') (nth_opt flds (unat field))
            | _ \<Rightarrow> Inl (Trap ''field base is not an aggregate'')))"

text \<open>The aggregate a field access writes to: discriminant and fields of the base local.\<close>

definition field_base ::
  "LocalId \<Rightarrow> u32 \<Rightarrow> frame_locals \<Rightarrow> RuntimeError + u64 \<times> Value list" where
  "field_base base field locals =
     bindR (local_value_mut locals base) (\<lambda>slot.
       bindR (ok_or (Trap ''field base is empty'') slot) (\<lambda>aggregate.
         case aggregate of
           VAggregate d flds \<Rightarrow>
             if unat field < length flds then Inr (d, flds)
             else Inl (Trap ''field index is out of range'')
         | _ \<Rightarrow> Inl (Trap ''field base is not an aggregate'')))"

definition assign :: "Place \<Rightarrow> Value \<Rightarrow> frame_locals \<Rightarrow> RuntimeError + frame_locals" where
  "assign place v locals =
     (case place of
        PLocal l \<Rightarrow> bindR (local_value_mut locals l) (\<lambda>_. Inr (locals[unat l := Some v]))
      | PField base field \<Rightarrow>
          bindR (field_base base field locals) (\<lambda>(d, flds).
            Inr (locals[unat base := Some (VAggregate d (flds[unat field := v]))])))"

definition drop_place ::
  "Place \<Rightarrow> Machine \<Rightarrow> frame_locals \<Rightarrow> RuntimeError + Machine \<times> frame_locals" where
  "drop_place place m locals =
     (let m' = m\<lparr>m_drops_executed := saturating_add (m_drops_executed m) 1\<rparr> in
      case place of
        PLocal l \<Rightarrow>
          bindR (local_value_mut locals l) (\<lambda>slot.
            bindR (ok_or (Trap ''drop target is empty'') slot) (\<lambda>_.
              Inr (m', locals[unat l := None])))
      | PField base field \<Rightarrow>
          bindR (field_base base field locals) (\<lambda>(d, flds).
            Inr (m', locals[unat base := Some (VAggregate d (flds[unat field := VUnit]))])))"

definition binary_u64 :: "BinaryOp \<Rightarrow> u64 \<Rightarrow> u64 \<Rightarrow> RuntimeError + Value" where
  "binary_u64 op left right =
     (case op of
        Add \<Rightarrow> ok_or (Trap ''U64 addition overflow'') (map_option VU64 (checked_add left right))
      | Subtract \<Rightarrow>
          ok_or (Trap ''U64 subtraction overflow'') (map_option VU64 (checked_sub left right))
      | Multiply \<Rightarrow>
          ok_or (Trap ''U64 multiplication overflow'') (map_option VU64 (checked_mul left right))
      | Divide \<Rightarrow>
          ok_or (Trap ''U64 division by zero'') (map_option VU64 (checked_div left right))
      | Equal \<Rightarrow> Inr (VBool (left = right))
      | Less \<Rightarrow> Inr (VBool (left < right))
      | _ \<Rightarrow> Inl (Trap ''binary operand types are invalid''))"

definition binary_i64 :: "BinaryOp \<Rightarrow> i64 \<Rightarrow> i64 \<Rightarrow> RuntimeError + Value" where
  "binary_i64 op left right =
     (case op of
        Add \<Rightarrow> ok_or (Trap ''I64 addition overflow'') (map_option VI64 (checked_sadd left right))
      | Subtract \<Rightarrow>
          ok_or (Trap ''I64 subtraction overflow'') (map_option VI64 (checked_ssub left right))
      | Multiply \<Rightarrow>
          ok_or (Trap ''I64 multiplication overflow'') (map_option VI64 (checked_smul left right))
      | Divide \<Rightarrow>
          ok_or (Trap ''I64 division failure'') (map_option VI64 (checked_sdiv left right))
      | Equal \<Rightarrow> Inr (VBool (left = right))
      | Less \<Rightarrow> Inr (VBool (sint left < sint right))
      | _ \<Rightarrow> Inl (Trap ''binary operand types are invalid''))"

definition binary :: "BinaryOp \<Rightarrow> Value \<Rightarrow> Value \<Rightarrow> RuntimeError + Value" where
  "binary op left right =
     (if op = Equal then Inr (VBool (left = right))
      else case (left, right) of
        (VU64 a, VU64 b) \<Rightarrow> binary_u64 op a b
      | (VI64 a, VI64 b) \<Rightarrow> binary_i64 op a b
      | (VBool a, VBool b) \<Rightarrow>
          (case op of
             And \<Rightarrow> Inr (VBool (a \<and> b))
           | Or \<Rightarrow> Inr (VBool (a \<or> b))
           | _ \<Rightarrow> Inl (Trap ''binary operand types are invalid''))
      | _ \<Rightarrow> Inl (Trap ''binary operand types are invalid''))"

fun rvalue ::
  "Rvalue \<Rightarrow> Machine \<Rightarrow> frame_locals \<Rightarrow> RuntimeError + Value \<times> Machine \<times> frame_locals" where
  "rvalue (Borrow is_mut place) m locals =
     bindR (read_place place locals) (\<lambda>v. Inr (VReference v, m, locals))"
| "rvalue (Use x) m locals = operand x m locals"
| "rvalue (Discriminant x) m locals =
     bindR (operand x m locals) (\<lambda>(v, m', locals').
       case v of
         VAggregate d flds \<Rightarrow> Inr (VU64 d, m', locals')
       | _ \<Rightarrow> Inl (Trap ''discriminant read requires an aggregate''))"
| "rvalue (Aggregate ty d flds) m locals =
     bindR (operand_list flds m locals) (\<lambda>(vs, m', locals').
       bindR (charge_allocation m' (saturating_mul (try_from_or_max (length vs)) 16)) (\<lambda>m''.
         Inr (VAggregate d vs, m'', locals')))"
| "rvalue (Binary op left right) m locals =
     bindR (operand left m locals) (\<lambda>(a, m', locals').
       bindR (operand right m' locals') (\<lambda>(b, m'', locals'').
         bindR (binary op a b) (\<lambda>v. Inr (v, m'', locals''))))"

fun execute_statement ::
  "Statement \<Rightarrow> Machine \<Rightarrow> frame_locals \<Rightarrow> RuntimeError + Machine \<times> frame_locals" where
  "execute_statement (Assign destination value) m locals =
     bindR (rvalue value m locals) (\<lambda>(v, m', locals').
       bindR (assign destination v locals') (\<lambda>locals''. Inr (m', locals'')))"
| "execute_statement (Drop place) m locals = drop_place place m locals"

fun execute_statements ::
  "Statement list \<Rightarrow> Machine \<Rightarrow> frame_locals \<Rightarrow> RuntimeError + Machine \<times> frame_locals" where
  "execute_statements [] m locals = Inr (m, locals)"
| "execute_statements (s # ss) m locals =
     bindR (tick m) (\<lambda>m'.
       bindR (execute_statement s m' locals) (\<lambda>(m'', locals').
         execute_statements ss m'' locals'))"

definition integer_operand ::
  "Operand \<Rightarrow> Machine \<Rightarrow> frame_locals
     \<Rightarrow> RuntimeError + 128 word \<times> Machine \<times> frame_locals" where
  "integer_operand x m locals =
     bindR (operand x m locals) (\<lambda>(v, m', locals').
       case v of
         VBool b \<Rightarrow> Inr (if b then 1 else 0, m', locals')
       | VU64 n \<Rightarrow> Inr (ucast n, m', locals')
       | VI64 i \<Rightarrow> if sint i < 0 then Inl (Trap ''negative switch value'')
                   else Inr (ucast i, m', locals')
       | _ \<Rightarrow> Inl (Trap ''switch value is not an integer''))"

definition switch_target :: "128 word \<Rightarrow> (128 word \<times> BlockId) list \<Rightarrow> BlockId \<Rightarrow> BlockId" where
  "switch_target v targets otherwise =
     (case List.find (\<lambda>(candidate, target). candidate = v) targets of
        None \<Rightarrow> otherwise
      | Some (candidate, target) \<Rightarrow> target)"

text \<open>Writing the arguments panics when the local table is too short for them.\<close>

definition enter_locals :: "MirFunction \<Rightarrow> Value list \<Rightarrow> RuntimeError + frame_locals" where
  "enter_locals f arguments =
     (let slots = length (fn_locals f) in
      if arguments \<noteq> [] \<and> slots \<le> length arguments then Inl (Panic ''index out of bounds'')
      else Inr (fold (\<lambda>(index, argument) locals. locals[index + 1 := Some argument])
                  (zip [0..<length arguments] arguments) (replicate slots None)))"

text \<open>The part of \<open>Machine::call\<close> before its loop.\<close>

definition enter ::
  "Machine \<Rightarrow> DefId \<Rightarrow> Value list \<Rightarrow> u32 \<Rightarrow> RuntimeError + MirFunction \<times> frame_locals" where
  "enter m d arguments depth =
     (if max_call_depth (m_limits m) < depth
      then Inl (CallDepthLimitExceeded (max_call_depth (m_limits m)))
      else
        bindR (ok_or (MissingEntry d) (m_functions m d)) (\<lambda>f.
          if length arguments \<noteq> unat (parameter_count f)
          then Inl (Trap ''verified call has an invalid argument count'')
          else bindR (enter_locals f arguments) (\<lambda>locals. Inr (f, locals))))"

text \<open>
  What one pass through the block loop decides after the statements and the terminator's tick:
  return a value, go on in this frame, or call another function first.
\<close>

datatype control =
    Finish Value
  | Continue BlockId
  | Invoke DefId "Value list" Place BlockId

fun terminator_step ::
  "Terminator \<Rightarrow> Machine \<Rightarrow> frame_locals
     \<Rightarrow> RuntimeError + control \<times> Machine \<times> frame_locals" where
  "terminator_step Return m locals =
     bindR (ok_or (Panic ''index out of bounds'') (nth_opt locals 0)) (\<lambda>slot.
       bindR (ok_or (Trap ''return destination is empty'') slot) (\<lambda>v.
         Inr (Finish v, m, locals[0 := None])))"
| "terminator_step (Goto target) m locals = Inr (Continue target, m, locals)"
| "terminator_step (SwitchInt x targets otherwise) m locals =
     bindR (integer_operand x m locals) (\<lambda>(v, m', locals').
       Inr (Continue (switch_target v targets otherwise), m', locals'))"
| "terminator_step (Call callee args destination continue) m locals =
     bindR (operand_list args m locals) (\<lambda>(vs, m', locals').
       Inr (Invoke callee vs destination continue, m', locals'))"

definition block_step ::
  "MirFunction \<Rightarrow> nat \<Rightarrow> Machine \<Rightarrow> frame_locals
     \<Rightarrow> RuntimeError + control \<times> Machine \<times> frame_locals" where
  "block_step f block m locals =
     bindR (ok_or (Trap ''verified block target is absent'') (nth_opt (fn_blocks f) block))
       (\<lambda>current.
     bindR (execute_statements (statements current) m locals) (\<lambda>(m1, locals1).
     bindR (tick m1) (\<lambda>m2.
     bindR (ok_or (Panic ''verified MIR has a terminator'') (terminator current)) (\<lambda>t.
       terminator_step t m2 locals1))))"

fun call_loop ::
  "nat \<Rightarrow> MirFunction \<Rightarrow> nat \<Rightarrow> frame_locals \<Rightarrow> u32 \<Rightarrow> Machine
     \<Rightarrow> (RuntimeError + Value \<times> Machine) option" where
  "call_loop 0 f block locals depth m = None"
| "call_loop (Suc fuel) f block locals depth m =
     (case block_step f block m locals of
        Inl e \<Rightarrow> Some (Inl e)
      | Inr (Finish v, m', locals') \<Rightarrow> Some (Inr (v, m'))
      | Inr (Continue target, m', locals') \<Rightarrow>
          call_loop fuel f (unat target) locals' depth m'
      | Inr (Invoke callee vs destination continue, m', locals') \<Rightarrow>
          (case enter m' callee vs (saturating_add depth 1) of
             Inl e \<Rightarrow> Some (Inl e)
           | Inr (g, callee_locals) \<Rightarrow>
               (case call_loop fuel g 0 callee_locals (saturating_add depth 1) m' of
                  None \<Rightarrow> None
                | Some (Inl e) \<Rightarrow> Some (Inl e)
                | Some (Inr (v, m'')) \<Rightarrow>
                    (case assign destination v locals' of
                       Inl e \<Rightarrow> Some (Inl e)
                     | Inr locals'' \<Rightarrow>
                         call_loop fuel f (unat continue) locals'' depth m''))))"

definition call ::
  "nat \<Rightarrow> Machine \<Rightarrow> DefId \<Rightarrow> Value list \<Rightarrow> u32
     \<Rightarrow> (RuntimeError + Value \<times> Machine) option" where
  "call fuel m d arguments depth =
     (case enter m d arguments depth of
        Inl e \<Rightarrow> Some (Inl e)
      | Inr (f, locals) \<Rightarrow> call_loop fuel f 0 locals depth m)"

section \<open>The entry point\<close>

definition initial_machine :: "MirProgram \<Rightarrow> InterpreterLimits \<Rightarrow> Machine" where
  "initial_machine program limits =
     \<lparr>m_functions = function_table program, m_limits = limits, m_instructions = 0,
      m_allocated_bytes = 0, m_stdout = [], m_drops_executed = 0\<rparr>"

definition execute ::
  "nat \<Rightarrow> MirProgram \<Rightarrow> DefId \<Rightarrow> InterpreterLimits
     \<Rightarrow> (RuntimeError + ExecutionResult) option" where
  "execute fuel program d limits =
     (case verify program of
        Inl errs \<Rightarrow> Some (Inl (InvalidMir errs))
      | Inr _ \<Rightarrow>
          (case call fuel (initial_machine program limits) d [] 1 of
             None \<Rightarrow> None
           | Some (Inl e) \<Rightarrow> Some (Inl e)
           | Some (Inr (v, m)) \<Rightarrow>
               Some (Inr \<lparr>result_value = into_runtime v, result_stdout = m_stdout m,
                          result_drops = m_drops_executed m\<rparr>)))"

end
