(* ===== verification/Mir_Examples.thy ===== *)
theory Mir_Examples
  imports Mir_Interp
begin

text \<open>
  Small MIR programs used as concrete inputs: one that builds and drops an aggregate, calls a
  function and branches; one that loops for ever; and verified programs that still trap.
\<close>

definition main_id :: DefId where
  "main_id = \<lparr>module_id = 0, def_index = 0\<rparr>"

definition clamp_id :: DefId where
  "clamp_id = \<lparr>module_id = 0, def_index = 1\<rparr>"

definition pair_id :: DefId where
  "pair_id = \<lparr>module_id = 0, def_index = 2\<rparr>"

text \<open>\<open>if x < 100 then x + 2 else x\<close>.\<close>

definition clamp_function :: MirFunction where
  "clamp_function =
     \<lparr>fn_id = clamp_id, parameter_count = 1, return_type = TyU64,
      fn_locals = [TyU64, TyU64, TyBool],
      fn_blocks =
        [\<lparr>statements = [Assign (PLocal 2) (Binary Less (OpCopy 1) (OpConstant (CU64 100)))],
          terminator = Some (SwitchInt (OpCopy 2) [(0, 2)] 1)\<rparr>,
         \<lparr>statements = [Assign (PLocal 0) (Binary Add (OpCopy 1) (OpConstant (CU64 2)))],
          terminator = Some Return\<rparr>,
         \<lparr>statements = [Assign (PLocal 0) (Use (OpMove 1))], terminator = Some Return\<rparr>]\<rparr>"

definition main_function :: MirFunction where
  "main_function =
     \<lparr>fn_id = main_id, parameter_count = 0, return_type = TyU64,
      fn_locals = [TyU64, TyAggregate pair_id, TyU64],
      fn_blocks =
        [\<lparr>statements =
            [Assign (PLocal 1)
               (Aggregate pair_id 1 [OpConstant (CU64 5), OpConstant (CString ''a'')]),
             Assign (PField 1 0) (Use (OpConstant (CU64 6))),
             Drop (PLocal 1),
             Assign (PLocal 2) (Use (OpConstant (CU64 40)))],
          terminator = Some (Call clamp_id [OpMove 2] (PLocal 0) 1)\<rparr>,
         \<lparr>statements = [], terminator = Some Return\<rparr>]\<rparr>"

definition demo_program :: MirProgram where
  "demo_program =
     \<lparr>program_functions = [main_function, clamp_function], program_entry = Some main_id\<rparr>"

definition small_limits :: InterpreterLimits where
  "small_limits = \<lparr>max_instructions = 12, max_call_depth = 2, max_allocated_bytes = 64,
                   max_output_bytes = 0\<rparr>"

text \<open>A program of one function without parameters.\<close>

definition single_program :: "MirType \<Rightarrow> MirType list \<Rightarrow> BasicBlock list \<Rightarrow> MirProgram" where
  "single_program result locals blocks =
     \<lparr>program_functions =
        [\<lparr>fn_id = main_id, parameter_count = 0, return_type = result, fn_locals = locals,
          fn_blocks = blocks\<rparr>],
      program_entry = Some main_id\<rparr>"

definition spin_program :: MirProgram where
  "spin_program = single_program TyUnit [TyUnit] [\<lparr>statements = [], terminator = Some (Goto 0)\<rparr>]"

definition unlimited :: InterpreterLimits where
  "unlimited = default_limits\<lparr>max_instructions := - 1\<rparr>"

text \<open>A field write into an aggregate that was never built.\<close>

definition empty_field_program :: MirProgram where
  "empty_field_program =
     single_program TyUnit [TyUnit, TyAggregate pair_id]
       [\<lparr>statements =
           [Assign (PField 1 0) (Use (OpConstant (CU64 1))),
            Assign (PLocal 0) (Use (OpConstant CUnit))],
         terminator = Some Return\<rparr>]"

text \<open>Adding two booleans.\<close>

definition bool_sum_program :: MirProgram where
  "bool_sum_program =
     single_program TyBool [TyBool]
       [\<lparr>statements =
           [Assign (PLocal 0) (Binary Add (OpConstant (CBool True)) (OpConstant (CBool True)))],
         terminator = Some Return\<rparr>]"

text \<open>A borrow of a field stored in a local of another type, which is then returned.\<close>

definition field_borrow_program :: MirProgram where
  "field_borrow_program =
     single_program TyU64 [TyU64, TyAggregate pair_id]
       [\<lparr>statements =
           [Assign (PLocal 1) (Aggregate pair_id 0 [OpConstant (CBool True)]),
            Assign (PLocal 0) (Borrow False (PField 1 0)),
            Drop (PLocal 1)],
         terminator = Some Return\<rparr>]"

lemmas example_defs =
  main_id_def clamp_id_def pair_id_def main_function_def clamp_function_def demo_program_def

lemma verify_demo: "verify demo_program = Inr ()"
  by code_simp

lemma execute_demo:
  "execute 20 demo_program main_id small_limits =
     Some (Inr \<lparr>result_value = RU64 42, result_stdout = [], result_drops = 1\<rparr>)"
  by code_simp

lemma demo_table:
  "function_table demo_program main_id = Some main_function"
  by (simp add: function_table_def collect_map_def example_defs)

end
