(* ===== verification/Mir_Flow.thy ===== *)
theory Mir_Flow
  imports Mir_Examples
begin

text \<open>
  Correctness of the two graph algorithms of the verifier: the breadth-first search finds
  exactly the blocks some path from the entry reaches, and the round-robin loop computes the
  greatest solution of the forward dataflow equations. The loop's facts are proved once, in a
  locale over a monotone transfer function, and interpreted for definite initialisation and for
  affine ownership.
\<close>

section \<open>Reachability\<close>

inductive reaches :: "MirFunction \<Rightarrow> nat \<Rightarrow> bool" for f where
  entry: "fn_blocks f \<noteq> [] \<Longrightarrow> reaches f 0"
| edge: "reaches f i \<Longrightarrow> s \<in> set (block_successors (fn_blocks f ! i))
    \<Longrightarrow> unat s < length (fn_blocks f) \<Longrightarrow> reaches f (unat s)"

lemma reaches_range: "reaches f i \<Longrightarrow> i < length (fn_blocks f)"
  by (induction rule: reaches.induct) auto

lemma reach_loop_length [simp]: "length (reach_loop bs re q) = length re"
  by (induction bs re q rule: reach_loop.induct) (auto simp: Let_def)

lemma reach_loop_mono: "re ! i \<Longrightarrow> i < length re \<Longrightarrow> reach_loop bs re q ! i"
  by (induction bs re q rule: reach_loop.induct) (auto simp: Let_def nth_list_update)

lemma reach_loop_queue:
  "b \<in> set q \<Longrightarrow> unat b < length re \<Longrightarrow> reach_loop bs re q ! unat b"
proof (induction bs re q rule: reach_loop.induct)
  case (1 bs re)
  then show ?case by simp
next
  case (2 bs re c q)
  let ?i = "unat c"
  show ?case
  proof (cases "length re \<le> ?i \<or> re ! ?i")
    case True
    then show ?thesis
      using 2 by (auto simp: Let_def intro: reach_loop_mono)
  next
    case False
    then have "reach_loop bs (re[?i := True]) (q @ block_successors (bs ! ?i)) ! unat b"
      using 2 by (cases "b = c") (auto simp: Let_def intro: reach_loop_mono)
    then show ?thesis using False by (simp add: Let_def)
  qed
qed

lemma reach_loop_closed:
  assumes "\<And>i s. \<lbrakk>i < length re; re ! i; s \<in> set (block_successors (bs ! i));
      unat s < length re\<rbrakk> \<Longrightarrow> re ! unat s \<or> s \<in> set q"
    and "i < length re" and "reach_loop bs re q ! i"
    and "s \<in> set (block_successors (bs ! i))" and "unat s < length re"
  shows "reach_loop bs re q ! unat s"
  using assms
proof (induction bs re q rule: reach_loop.induct)
  case (1 bs re)
  then show ?case by fastforce
next
  case (2 bs re c q)
  let ?k = "unat c"
  show ?case
  proof (cases "length re \<le> ?k \<or> re ! ?k")
    case True
    have inv: "re ! unat t \<or> t \<in> set q"
      if "j < length re" "re ! j" "t \<in> set (block_successors (bs ! j))" "unat t < length re"
      for j t
      using "2.prems"(1) [OF that] True that by auto
    show ?thesis
      using "2.IH"(1) [OF refl True inv] "2.prems" True by (simp add: Let_def)
  next
    case False
    note k = False
    let ?re = "re[?k := True]" and ?q = "q @ block_successors (bs ! ?k)"
    have inv: "?re ! unat t \<or> t \<in> set ?q"
      if "j < length ?re" "?re ! j" "t \<in> set (block_successors (bs ! j))"
        "unat t < length ?re" for j t
    proof (cases "j = ?k")
      case True
      then show ?thesis using that by simp
    next
      case False
      then have "re ! j" using that by simp
      from "2.prems"(1) [OF _ this that(3)] that k
      show ?thesis by (auto simp: nth_list_update)
    qed
    show ?thesis
      using "2.IH"(2) [OF refl False inv] "2.prems" False by (simp add: Let_def)
  qed
qed

lemma reach_loop_sound:
  assumes "\<And>i. i < length re \<Longrightarrow> re ! i \<Longrightarrow> reaches f i"
    and "\<And>b. b \<in> set q \<Longrightarrow> unat b < length re \<Longrightarrow> reaches f (unat b)"
    and "length re = length (fn_blocks f)"
    and "i < length re" and "reach_loop (fn_blocks f) re q ! i"
  shows "reaches f i"
  using assms
proof (induction "fn_blocks f" re q rule: reach_loop.induct)
  case (1 re)
  then show ?case by simp
next
  case (2 re c q)
  let ?k = "unat c"
  show ?case
  proof (cases "length re \<le> ?k \<or> re ! ?k")
    case True
    then show ?thesis
      using "2.hyps"(1) [OF refl True] "2.prems" by (auto simp: Let_def)
  next
    case False
    then have k: "reaches f ?k" using "2.prems"(2) by auto
    let ?re = "re[?k := True]" and ?q = "q @ block_successors (fn_blocks f ! ?k)"
    have a: "reaches f j" if "j < length ?re" "?re ! j" for j
      using that k "2.prems"(1) by (cases "j = ?k") auto
    have b: "reaches f (unat t)" if "t \<in> set ?q" "unat t < length ?re" for t
      using that k "2.prems"(2,3) by (auto intro: reaches.edge)
    show ?thesis
      using "2.hyps"(2) [OF refl False a b] "2.prems" False by (simp add: Let_def)
  qed
qed

lemma length_reachable_blocks [simp]:
  "length (reachable_blocks f) = length (fn_blocks f)"
  by (simp add: reachable_blocks_def)

lemma reachable_blocks_entry: "fn_blocks f \<noteq> [] \<Longrightarrow> reachable_blocks f ! 0"
  using reach_loop_queue [of 0 "[0]" "replicate (length (fn_blocks f)) False" "fn_blocks f"]
  by (simp add: reachable_blocks_def)

lemma reachable_blocks_edge:
  assumes "i < length (fn_blocks f)" and "reachable_blocks f ! i"
    and "s \<in> set (block_successors (fn_blocks f ! i))" and "unat s < length (fn_blocks f)"
  shows "reachable_blocks f ! unat s"
  unfolding reachable_blocks_def
  by (rule reach_loop_closed [where i = i]) (use assms in \<open>auto simp: reachable_blocks_def\<close>)

lemma reachable_blocks_iff_reaches:
  assumes "i < length (fn_blocks f)"
  shows "reachable_blocks f ! i \<longleftrightarrow> reaches f i"
proof
  assume "reachable_blocks f ! i"
  then show "reaches f i"
    unfolding reachable_blocks_def
    by (rule reach_loop_sound [rotated -1]) (use assms in \<open>auto intro: reaches.entry\<close>)
next
  assume "reaches f i"
  then show "reachable_blocks f ! i"
    by (induction rule: reaches.induct)
       (auto intro: reachable_blocks_entry reachable_blocks_edge dest: reaches_range)
qed

section \<open>The dataflow order\<close>

definition flow_le :: "flow \<Rightarrow> flow \<Rightarrow> bool" where
  "flow_le = list_all2 (rel_option (\<subseteq>))"

lemma rel_option_subset_refl: "rel_option (\<subseteq>) s s"
  by (cases s) auto

lemma flow_le_refl [simp]: "flow_le inc inc"
  by (auto simp: flow_le_def list_all2_conv_all_nth rel_option_subset_refl)

lemma flow_le_trans: "flow_le a b \<Longrightarrow> flow_le b c \<Longrightarrow> flow_le a c"
proof -
  have "rel_option (\<subseteq>) x z" if "rel_option (\<subseteq>) x y" "rel_option (\<subseteq>) y z"
    for x y z :: "local_set option"
    using that by (auto elim!: option.rel_cases)
  then show "flow_le a b \<Longrightarrow> flow_le b c \<Longrightarrow> flow_le a c"
    unfolding flow_le_def by (rule list_all2_trans)
qed

lemma flow_le_length: "flow_le a b \<Longrightarrow> length a = length b"
  by (simp add: flow_le_def list_all2_lengthD)

lemma flow_le_Some1:
  "flow_le a b \<Longrightarrow> i < length a \<Longrightarrow> a ! i = Some A \<Longrightarrow> \<exists>B. b ! i = Some B \<and> A \<subseteq> B"
  by (auto simp: flow_le_def list_all2_conv_all_nth option_rel_Some1 dest!: spec [of _ i])

lemma flow_le_Some2:
  "flow_le a b \<Longrightarrow> i < length b \<Longrightarrow> b ! i = Some B \<Longrightarrow> \<exists>A. a ! i = Some A \<and> A \<subseteq> B"
  by (auto simp: flow_le_def list_all2_conv_all_nth option_rel_Some2 dest!: spec [of _ i])

lemma flow_le_update:
  "flow_le a b \<Longrightarrow> (i < length b \<Longrightarrow> rel_option (\<subseteq>) (a ! i) y) \<Longrightarrow> flow_le a (b[i := y])"
  by (cases "i < length b")
     (auto simp: flow_le_def list_all2_conv_all_nth nth_list_update list_update_beyond)

text \<open>One dataflow edge, and all of them.\<close>

definition edge_ok :: "bool \<Rightarrow> bool list \<Rightarrow> flow \<Rightarrow> local_set \<Rightarrow> BlockId \<Rightarrow> bool" where
  "edge_ok skip re inc out s \<longleftrightarrow>
     (unat s < length inc \<and> re ! unat s \<and> \<not> (skip \<and> unat s = 0) \<longrightarrow>
       (\<forall>c. inc ! unat s = Some c \<longrightarrow> c \<subseteq> out))"

definition flow_stable ::
  "bool \<Rightarrow> (BasicBlock \<Rightarrow> local_set \<Rightarrow> local_set) \<Rightarrow> bool list \<Rightarrow> BasicBlock list \<Rightarrow> flow \<Rightarrow> bool"
  where
  "flow_stable skip tr re bs inc \<longleftrightarrow>
     (\<forall>i st s. i < length bs \<longrightarrow> inc ! i = Some st \<longrightarrow> s \<in> set (block_successors (bs ! i)) \<longrightarrow>
        edge_ok skip re inc (tr (bs ! i) st) s)"

lemma flow_edge_le: "flow_le (fst (flow_edge skip re out s (inc, ch))) inc"
proof -
  have "rel_option (\<subseteq>) (map_option (\<lambda>c. c \<inter> out) o') o'" for o' :: "local_set option"
    by (cases o') auto
  then show ?thesis
    by (auto simp: flow_edge_def Let_def flow_le_def list_all2_conv_all_nth nth_list_update
          rel_option_subset_refl)
qed

lemma flow_edge_unchanged:
  assumes "flow_edge skip re out s (inc, ch) = (inc', False)"
  shows "inc' = inc \<and> \<not> ch \<and> edge_ok skip re inc out s"
  using assms
  by (auto simp: flow_edge_def edge_ok_def Let_def split: if_splits)

lemma flow_edge_entry:
  assumes "skip" and "flow_edge skip re out s (inc, ch) = (inc', ch')"
  shows "inc' ! 0 = inc ! 0"
  using assms by (auto simp: flow_edge_def Let_def split: if_splits)

text \<open>A fold over the flow state keeps any step invariant, and its flag never goes back.\<close>

lemma fold_flow_inv:
  assumes "\<And>x inc ch inc' ch'. x \<in> set xs \<Longrightarrow> P inc \<Longrightarrow> g x (inc, ch) = (inc', ch') \<Longrightarrow> P inc'"
    and "P inc" and "fold g xs (inc, ch) = (inc', ch')"
  shows "P inc'"
  using assms
proof (induction xs arbitrary: inc ch)
  case Nil
  then show ?case by simp
next
  case (Cons x xs)
  obtain inc1 ch1 where g: "g x (inc, ch) = (inc1, ch1)" by fastforce
  have p1: "P inc1" using Cons.prems(1) [OF _ Cons.prems(2) g] by simp
  have f1: "fold g xs (inc1, ch1) = (inc', ch')" using Cons.prems(3) g by simp
  show ?case
    by (rule Cons.IH [OF _ p1 f1]) (rule Cons.prems(1), simp_all)
qed

lemma fold_flow_unchanged:
  assumes step: "\<And>x inc ch inc'. x \<in> set xs \<Longrightarrow> g x (inc, ch) = (inc', False)
      \<Longrightarrow> inc' = inc \<and> \<not> ch \<and> Q x inc"
    and "fold g xs (inc, ch) = (inc', False)"
  shows "inc' = inc \<and> \<not> ch \<and> (\<forall>x \<in> set xs. Q x inc)"
  using assms
proof (induction xs arbitrary: inc ch)
  case Nil
  then show ?case by simp
next
  case (Cons x xs)
  obtain inc1 ch1 where g: "g x (inc, ch) = (inc1, ch1)" by fastforce
  have "inc' = inc1 \<and> \<not> ch1 \<and> (\<forall>x \<in> set xs. Q x inc1)"
    by (rule Cons.IH) (use Cons.prems g in auto)
  with g Cons.prems(1) [of x inc ch inc1] show ?case by auto
qed

lemma flow_block_unchanged:
  assumes "flow_block skip tr re (i, b) (inc, ch) = (inc', False)"
  shows "inc' = inc \<and> \<not> ch \<and>
    (\<forall>st. inc ! i = Some st \<longrightarrow> (\<forall>s \<in> set (block_successors b). edge_ok skip re inc (tr b st) s))"
proof (cases "inc ! i")
  case None
  with assms show ?thesis by (simp add: flow_block_def)
next
  case (Some st)
  with assms have "fold (flow_edge skip re (tr b st)) (block_successors b) (inc, ch) = (inc', False)"
    by (simp add: flow_block_def)
  from fold_flow_unchanged [where Q = "\<lambda>s inc. edge_ok skip re inc (tr b st) s",
      OF flow_edge_unchanged this] Some
  show ?thesis by auto
qed

lemma flow_pass_unchanged:
  assumes "flow_pass skip tr re bs inc = (inc', False)"
  shows "inc' = inc \<and> flow_stable skip tr re bs inc"
proof -
  let ?Q = "\<lambda>(i, b) inc. \<forall>st. inc ! i = Some st \<longrightarrow>
    (\<forall>s \<in> set (block_successors b). edge_ok skip re inc (tr b st) s)"
  have "inc' = inc \<and> \<not> False \<and> (\<forall>x \<in> set (zip [0..<length bs] bs). ?Q x inc)"
    by (rule fold_flow_unchanged [OF _ assms [unfolded flow_pass_def]])
       (auto dest!: flow_block_unchanged)
  moreover have "(i, bs ! i) \<in> set (zip [0..<length bs] bs)" if "i < length bs" for i
    using that by (auto simp: set_zip intro!: exI [of _ i])
  ultimately show ?thesis by (fastforce simp: flow_stable_def)
qed

section \<open>The round-robin loop\<close>

text \<open>
  Whatever every single edge keeps, a pass and the loop keep; \<open>Q i st\<close> is what is known of the
  state read at block \<open>i\<close>.
\<close>

lemma flow_pass_inv:
  assumes edge: "\<And>i st s inc ch inc' ch'. \<lbrakk>P inc; i < length bs; Q i st;
      s \<in> set (block_successors (bs ! i));
      flow_edge skip re (tr (bs ! i) st) s (inc, ch) = (inc', ch')\<rbrakk> \<Longrightarrow> P inc'"
    and read: "\<And>i inc st. P inc \<Longrightarrow> i < length bs \<Longrightarrow> inc ! i = Some st \<Longrightarrow> Q i st"
    and "P inc" and "flow_pass skip tr re bs inc = (inc', ch')"
  shows "P inc'"
proof (rule fold_flow_inv [where P = P, OF _ \<open>P inc\<close> assms(4) [unfolded flow_pass_def]])
  fix x inc ch inc' ch'
  assume x: "x \<in> set (zip [0..<length bs] bs)" and P: "P inc"
    and b: "flow_block skip tr re x (inc, ch) = (inc', ch')"
  from x obtain i where i: "i < length bs" "x = (i, bs ! i)"
    by (auto simp: set_zip)
  show "P inc'"
  proof (cases "inc ! i")
    case None
    with b i P show ?thesis by (simp add: flow_block_def)
  next
    case (Some st)
    with b i have "fold (flow_edge skip re (tr (bs ! i) st)) (block_successors (bs ! i)) (inc, ch)
        = (inc', ch')"
      by (simp add: flow_block_def)
    then show ?thesis
      by (rule fold_flow_inv [where P = P, rotated 2])
         (auto intro: edge [OF _ i(1) read [OF P i(1) Some]] P)
  qed
qed

lemma flow_loop_unfold:
  "flow_pass skip tr re bs inc = (inc', ch) \<Longrightarrow>
     flow_loop skip tr re bs inc = (if ch then flow_loop skip tr re bs inc' else inc')"
  by (subst flow_loop.simps) simp

lemma flow_loop_inv:
  assumes edge: "\<And>i st s inc ch inc' ch'. \<lbrakk>P inc; i < length bs; Q i st;
      s \<in> set (block_successors (bs ! i));
      flow_edge skip re (tr (bs ! i) st) s (inc, ch) = (inc', ch')\<rbrakk> \<Longrightarrow> P inc'"
    and read: "\<And>i inc st. P inc \<Longrightarrow> i < length bs \<Longrightarrow> inc ! i = Some st \<Longrightarrow> Q i st"
    and "P inc"
  shows "P (flow_loop skip tr re bs inc)"
  using assms
proof (induction skip tr re bs inc rule: flow_loop.induct)
  case (1 skip tr re bs inc)
  obtain inc' ch where p: "flow_pass skip tr re bs inc = (inc', ch)" by fastforce
  have "P inc'"
    by (rule flow_pass_inv [where P = P and Q = Q, OF _ _ "1.prems"(3) p]) (fact "1.prems"(1,2))+
  moreover have "P (flow_loop skip tr re bs inc')" if ch
    by (rule "1.IH" [OF p [symmetric] that _ _ \<open>P inc'\<close>]) (fact "1.prems"(1,2))+
  ultimately show ?case
    by (simp add: flow_loop_unfold [OF p])
qed

lemma flow_loop_stable: "flow_stable skip tr re bs (flow_loop skip tr re bs inc)"
proof (induction skip tr re bs inc rule: flow_loop.induct)
  case (1 skip tr re bs inc)
  obtain inc' ch where p: "flow_pass skip tr re bs inc = (inc', ch)" by fastforce
  show ?case
  proof (cases ch)
    case True
    with 1 [OF p [symmetric]] show ?thesis by (simp add: flow_loop_unfold [OF p])
  next
    case False
    with p have "inc' = inc \<and> flow_stable skip tr re bs inc"
      by (intro flow_pass_unchanged) simp
    with False show ?thesis
      by (simp add: flow_loop_unfold [OF p])
  qed
qed

lemma flow_loop_le: "flow_le (flow_loop skip tr re bs inc) inc"
proof (rule flow_loop_inv [where P = "\<lambda>x. flow_le x inc" and Q = "\<lambda>_ _. True"])
  fix i :: nat and st s inc' ch inc'' ch'
  assume "flow_le inc' inc" and "flow_edge skip re (tr (bs ! i) st) s (inc', ch) = (inc'', ch')"
  then show "flow_le inc'' inc"
    using flow_edge_le [of skip re "tr (bs ! i) st" s inc' ch] by (auto intro: flow_le_trans)
qed auto

lemma flow_loop_entry: "skip \<Longrightarrow> flow_loop skip tr re bs inc ! 0 = inc ! 0"
  by (rule flow_loop_inv [where P = "\<lambda>x. x ! 0 = inc ! 0" and Q = "\<lambda>_ _. True"])
     (auto dest: flow_edge_entry [OF TrueI])

locale flow_analysis =
  fixes skip :: bool
    and transfer :: "BasicBlock \<Rightarrow> local_set \<Rightarrow> local_set"
  assumes transfer_mono: "A \<subseteq> B \<Longrightarrow> transfer b A \<subseteq> transfer b B"
begin

text \<open>The loop finds the greatest stable assignment below its start.\<close>

lemma greatest:
  assumes stable: "flow_stable skip transfer re bs X" and len: "length X = length bs"
    and le: "flow_le X inc"
  shows "flow_le X (flow_loop skip transfer re bs inc)"
proof (rule flow_loop_inv [where P = "\<lambda>inc. flow_le X inc"
      and Q = "\<lambda>i st. \<exists>x. X ! i = Some x \<and> x \<subseteq> st"])
  fix i st s inc ch inc' ch'
  assume X: "flow_le X inc" and i: "i < length bs" and "\<exists>x. X ! i = Some x \<and> x \<subseteq> st"
    and s: "s \<in> set (block_successors (bs ! i))"
    and e: "flow_edge skip re (transfer (bs ! i) st) s (inc, ch) = (inc', ch')"
  then obtain x where x: "X ! i = Some x" "x \<subseteq> st" by blast
  have out: "transfer (bs ! i) x \<subseteq> transfer (bs ! i) st" by (rule transfer_mono [OF x(2)])
  from stable i x(1) s have ok: "edge_ok skip re X (transfer (bs ! i) x) s"
    by (auto simp: flow_stable_def)
  show "flow_le X inc'"
  proof (cases "inc' = inc")
    case False
    let ?s = "unat s"
    from False e have r: "inc' = inc[?s := map_option (\<lambda>c. c \<inter> transfer (bs ! i) st) (inc ! ?s)]"
      "?s < length inc" "re ! ?s" "\<not> (skip \<and> ?s = 0)"
      by (auto simp: flow_edge_def Let_def split: if_splits)
    have "rel_option (\<subseteq>) (X ! ?s) (map_option (\<lambda>c. c \<inter> transfer (bs ! i) st) (inc ! ?s))"
      using X ok out r flow_le_length [OF X]
      by (auto simp: edge_ok_def flow_le_def list_all2_conv_all_nth dest!: spec [of _ ?s]
            elim!: option.rel_cases)
    then show ?thesis unfolding r(1) by (intro flow_le_update X)
  qed (use X in simp)
next
  fix i inc st
  assume "flow_le X inc" "i < length bs" "inc ! i = Some st"
  then show "\<exists>x. X ! i = Some x \<and> x \<subseteq> st"
    using flow_le_Some2 [of X inc i st] len flow_le_length by fastforce
qed (fact le)

end

section \<open>The two analyses\<close>

text \<open>Definite initialisation only adds the locals a block assigns.\<close>

definition block_gen :: "BasicBlock \<Rightarrow> local_set" where
  "block_gen b = init_transfer b {}"

lemma assigned_statement_union: "assigned_statement s A = A \<union> assigned_statement s {}"
  by (cases "(s, A)" rule: assigned_statement.cases) auto

lemma assigned_terminator_union: "assigned_terminator t A = A \<union> assigned_terminator t {}"
  by (cases "(t, A)" rule: assigned_terminator.cases) auto

lemma fold_assigned_union: "fold assigned_statement ss A = A \<union> fold assigned_statement ss {}"
proof (induction ss arbitrary: A)
  case Nil
  then show ?case by simp
next
  case (Cons s ss)
  show ?case
    using Cons.IH [of "assigned_statement s A"] Cons.IH [of "assigned_statement s {}"]
      assigned_statement_union [of s A] by auto
qed

lemma init_transfer_eq: "init_transfer b A = A \<union> block_gen b"
  unfolding block_gen_def init_transfer_def
  using assigned_terminator_union [of "terminator b"] fold_assigned_union [of "statements b" A]
  by blast

interpretation init_flow: flow_analysis True init_transfer
  by unfold_locales (auto simp: init_transfer_eq)

lemma consume_operand_mono: "A \<subseteq> B \<Longrightarrow> consume_operand x A \<subseteq> consume_operand x B"
  by (cases x) auto

lemma fold_mono_set:
  assumes "\<And>x A B. A \<subseteq> B \<Longrightarrow> g x A \<subseteq> g x B"
  shows "A \<subseteq> B \<Longrightarrow> fold g xs A \<subseteq> fold g xs B"
  by (induction xs arbitrary: A B) (auto intro: assms)

lemma bind_place_mono: "A \<subseteq> B \<Longrightarrow> bind_place p A \<subseteq> bind_place p B"
  by (cases p) auto

lemma consume_rvalue_mono: "A \<subseteq> B \<Longrightarrow> consume_rvalue v A \<subseteq> consume_rvalue v B"
  by (cases v) (simp_all add: consume_operand_mono fold_mono_set)

lemma consume_terminator_mono: "A \<subseteq> B \<Longrightarrow> consume_terminator t A \<subseteq> consume_terminator t B"
  by (cases t) (simp_all add: bind_place_mono fold_mono_set consume_operand_mono)

lemma transfer_statement_mono: "A \<subseteq> B \<Longrightarrow> transfer_statement s A \<subseteq> transfer_statement s B"
  by (cases s) (simp_all add: bind_place_mono consume_rvalue_mono Diff_mono)

lemma transfer_block_mono: "A \<subseteq> B \<Longrightarrow> transfer_block b A \<subseteq> transfer_block b B"
  by (simp add: transfer_block_def Let_def consume_terminator_mono fold_mono_set
        transfer_statement_mono split: option.split)

interpretation own_flow: flow_analysis False transfer_block
  by unfold_locales (rule transfer_block_mono)

section \<open>What a solution gives the verifier\<close>

lemma initial_flow_length [simp]: "length (initial_flow f re) = length re"
  by (simp add: initial_flow_def)

lemma initial_flow_entry:
  "re \<noteq> [] \<Longrightarrow> initial_flow f re ! 0 = Some (parameters f)"
  by (simp add: initial_flow_def)

lemma initial_flow_Some:
  "i < length re \<Longrightarrow> re ! i \<Longrightarrow> \<exists>A. initial_flow f re ! i = Some A"
  by (cases "i = 0") (auto simp: initial_flow_def)

lemma initial_flow_None:
  "i < length re \<Longrightarrow> 0 < i \<Longrightarrow> \<not> re ! i \<Longrightarrow> initial_flow f re ! i = None"
  by (simp add: initial_flow_def)

text \<open>
  Both analyses are this solution. Four facts carry their clients: every reachable block has a
  state and no other block has one, the entry state is within the parameters, and every edge
  between reachable blocks is respected.
\<close>

definition flow_solution ::
  "bool \<Rightarrow> (BasicBlock \<Rightarrow> local_set \<Rightarrow> local_set) \<Rightarrow> MirFunction \<Rightarrow> flow" where
  "flow_solution skip tr f =
     flow_loop skip tr (reachable_blocks f) (fn_blocks f) (initial_flow f (reachable_blocks f))"

lemma definite_initialization_eq: "definite_initialization f = flow_solution True init_transfer f"
  by (simp add: definite_initialization_def flow_solution_def Let_def)

lemma ownership_flow_eq: "ownership_flow f = flow_solution False transfer_block f"
  by (simp add: ownership_flow_def flow_solution_def Let_def)

lemma flow_solution_le: "flow_le (flow_solution skip tr f) (initial_flow f (reachable_blocks f))"
  unfolding flow_solution_def by (rule flow_loop_le)

lemma flow_solution_length [simp]: "length (flow_solution skip tr f) = length (fn_blocks f)"
  using flow_le_length [OF flow_solution_le] by simp

lemma flow_solution_Some:
  assumes "i < length (fn_blocks f)" and "reachable_blocks f ! i"
  shows "\<exists>A. flow_solution skip tr f ! i = Some A"
proof -
  obtain B where "initial_flow f (reachable_blocks f) ! i = Some B"
    using initial_flow_Some [of i "reachable_blocks f" f] assms by auto
  then show ?thesis
    using flow_le_Some2 [OF flow_solution_le [of skip tr f], of i B] assms(1) by auto
qed

lemma flow_solution_reachable:
  assumes "i < length (fn_blocks f)" and "flow_solution skip tr f ! i = Some A"
  shows "reachable_blocks f ! i"
proof (cases "i = 0")
  case True
  then show ?thesis using assms(1) reachable_blocks_entry [of f] by auto
next
  case False
  obtain B where "initial_flow f (reachable_blocks f) ! i = Some B"
    using flow_le_Some1 [OF flow_solution_le _ assms(2)] assms(1) by auto
  then show ?thesis
    using False assms(1) initial_flow_None [of i "reachable_blocks f" f] by auto
qed

lemma flow_solution_entry:
  assumes "fn_blocks f \<noteq> []"
  shows "\<exists>A. flow_solution skip tr f ! 0 = Some A \<and> A \<subseteq> parameters f"
proof -
  have "reachable_blocks f \<noteq> []"
    using assms length_reachable_blocks [of f] by fastforce
  then have "initial_flow f (reachable_blocks f) ! 0 = Some (parameters f)"
    by (rule initial_flow_entry)
  then show ?thesis
    using flow_le_Some2 [OF flow_solution_le [of skip tr f], of 0] assms by simp
qed

lemma flow_solution_edge:
  assumes "i < length (fn_blocks f)" and "flow_solution skip tr f ! i = Some A"
    and "s \<in> set (block_successors (fn_blocks f ! i))" and "unat s < length (fn_blocks f)"
    and "\<not> (skip \<and> unat s = 0)"
  shows "\<exists>B. flow_solution skip tr f ! unat s = Some B \<and> B \<subseteq> tr (fn_blocks f ! i) A"
proof -
  have r: "reachable_blocks f ! unat s"
    using reachable_blocks_edge [OF assms(1) flow_solution_reachable [OF assms(1,2)] assms(3,4)] .
  obtain B where B: "flow_solution skip tr f ! unat s = Some B"
    using flow_solution_Some [OF assms(4) r] by blast
  have "edge_ok skip (reachable_blocks f) (flow_solution skip tr f) (tr (fn_blocks f ! i) A) s"
    using flow_loop_stable [of skip tr "reachable_blocks f" "fn_blocks f"
        "initial_flow f (reachable_blocks f)"] assms(1-3)
    unfolding flow_stable_def flow_solution_def [symmetric] by blast
  then show ?thesis
    using assms(4,5) r B by (auto simp: edge_ok_def)
qed

section \<open>Definite initialisation is exact\<close>

text \<open>\<open>init_path f i S\<close>: some path from the entry to block \<open>i\<close> assigns exactly \<open>S\<close>.\<close>

inductive init_path :: "MirFunction \<Rightarrow> nat \<Rightarrow> local_set \<Rightarrow> bool" for f where
  start: "fn_blocks f \<noteq> [] \<Longrightarrow> init_path f 0 (parameters f)"
| through: "init_path f i S \<Longrightarrow> s \<in> set (block_successors (fn_blocks f ! i))
    \<Longrightarrow> unat s < length (fn_blocks f)
    \<Longrightarrow> init_path f (unat s) (init_transfer (fn_blocks f ! i) S)"

lemma in_universe_iff: "l \<in> universe f \<longleftrightarrow> unat l < length (fn_locals f)"
proof
  assume "l \<in> universe f"
  then obtain i where "i < length (fn_locals f)" "i < 2 ^ 32" "l = of_nat i"
    using int_less_exp_iff [of _ 32] by (auto simp: universe_def)
  then show "unat l < length (fn_locals f)"
    by (simp add: unat_of_nat)
next
  assume "unat l < length (fn_locals f)"
  moreover have "unat l < 4294967296"
    by (rule order_less_le_trans [OF unat_less_exp]) simp
  ultimately have "unat l \<in> set (filter (\<lambda>i. int i < 2 ^ 32) [0..<length (fn_locals f)])"
    by simp
  then have "of_nat (unat l) \<in> universe f"
    unfolding universe_def set_map by (rule imageI)
  then show "l \<in> universe f" by simp
qed

lemma in_parameters_iff: "l \<in> parameters f \<longleftrightarrow> 1 \<le> unat l \<and> unat l \<le> unat (parameter_count f)"
proof
  assume "l \<in> parameters f"
  then obtain i where i: "1 \<le> i" "i \<le> unat (parameter_count f)" "l = of_nat i"
    by (auto simp: parameters_def)
  then have "i < 2 ^ 32" using unat_less_exp [of "parameter_count f"] by simp
  with i show "1 \<le> unat l \<and> unat l \<le> unat (parameter_count f)"
    by (simp add: unat_of_nat)
next
  assume "1 \<le> unat l \<and> unat l \<le> unat (parameter_count f)"
  then show "l \<in> parameters f"
    by (auto simp: parameters_def less_Suc_eq_le simp del: upt_Suc intro!: image_eqI [of _ _ "unat l"])
qed

lemma init_path_parameters: "init_path f i S \<Longrightarrow> parameters f \<subseteq> S"
  by (induction rule: init_path.induct) (auto simp: init_transfer_eq)

lemma definite_initialization_entry:
  "fn_blocks f \<noteq> [] \<Longrightarrow> definite_initialization f ! 0 = Some (parameters f)"
  using flow_loop_entry [of True init_transfer "reachable_blocks f" "fn_blocks f"
      "initial_flow f (reachable_blocks f)"] length_reachable_blocks [of f]
    initial_flow_entry [of "reachable_blocks f" f]
  by (fastforce simp: definite_initialization_eq flow_solution_def)

lemma definite_initialization_sound:
  "init_path f i S \<Longrightarrow>
     i < length (fn_blocks f) \<and> (\<exists>A. definite_initialization f ! i = Some A \<and> A \<subseteq> S)"
proof (induction rule: init_path.induct)
  case start
  then show ?case by (simp add: definite_initialization_entry)
next
  case (through i S s)
  then obtain A where A: "definite_initialization f ! i = Some A" "A \<subseteq> S" by blast
  have le: "init_transfer (fn_blocks f ! i) A \<subseteq> init_transfer (fn_blocks f ! i) S"
    by (rule init_flow.transfer_mono [OF A(2)])
  show ?case
  proof (cases "unat s = 0")
    case True
    then show ?thesis
      using through.hyps(3) init_path_parameters [OF init_path.through [OF through.hyps(1-3)]]
        definite_initialization_entry [of f] by (metis length_0_conv not_less_zero)
  next
    case False
    then obtain B where "definite_initialization f ! unat s = Some B"
      "B \<subseteq> init_transfer (fn_blocks f ! i) A"
      using flow_solution_edge [of i f True init_transfer A s] through.hyps(2,3) through.IH A(1)
      unfolding definite_initialization_eq by auto
    with le through.hyps(3) show ?thesis by auto
  qed
qed

definition path_flow :: "MirFunction \<Rightarrow> flow" where
  "path_flow f = map (\<lambda>i. if reachable_blocks f ! i
     then Some (universe f \<inter> \<Inter> {S. init_path f i S}) else None) [0..<length (fn_blocks f)]"

lemma path_flow_stable:
  "flow_stable True init_transfer (reachable_blocks f) (fn_blocks f) (path_flow f)"
  unfolding flow_stable_def edge_ok_def
proof (intro allI impI, elim conjE)
  fix i st s c
  assume i: "i < length (fn_blocks f)" and st: "path_flow f ! i = Some st"
    and s: "s \<in> set (block_successors (fn_blocks f ! i))"
    and s': "unat s < length (path_flow f)" and c: "path_flow f ! unat s = Some c"
  have sb: "unat s < length (fn_blocks f)" using s' by (simp add: path_flow_def)
  have "st = universe f \<inter> \<Inter> {S. init_path f i S}"
    using i st by (simp add: path_flow_def split: if_splits)
  moreover have "c = universe f \<inter> \<Inter> {S. init_path f (unat s) S}"
    using sb c by (simp add: path_flow_def split: if_splits)
  moreover have "init_path f (unat s) (init_transfer (fn_blocks f ! i) S)" if "init_path f i S" for S
    using init_path.through [OF that s sb] .
  ultimately show "c \<subseteq> init_transfer (fn_blocks f ! i) st"
    by (fastforce simp: init_transfer_eq)
qed

lemma path_flow_le: "flow_le (path_flow f) (initial_flow f (reachable_blocks f))"
  unfolding flow_le_def
proof (rule list_all2_all_nthI)
  fix i
  assume "i < length (path_flow f)"
  then have i: "i < length (fn_blocks f)" by (simp add: path_flow_def)
  show "rel_option (\<subseteq>) (path_flow f ! i) (initial_flow f (reachable_blocks f) ! i)"
  proof (cases "i = 0")
    case True
    then have "reachable_blocks f ! 0" "init_path f 0 (parameters f)"
      "initial_flow f (reachable_blocks f) ! 0 = Some (parameters f)"
      using i reachable_blocks_entry [of f] init_path.start [of f]
        initial_flow_entry [of "reachable_blocks f" f] length_reachable_blocks [of f]
      by fastforce+
    then show ?thesis using True i by (auto simp: path_flow_def)
  next
    case False
    then show ?thesis using i by (auto simp: path_flow_def initial_flow_def)
  qed
qed (simp add: path_flow_def)

text \<open>
  C22. Definite initialisation is exact, not only an approximation: for a block that can be
  reached, the fixed point is the set of locals that are assigned along every path from the entry
  to that block.
\<close>

theorem definite_initialization_exact:
  assumes "reaches f i" and params: "unat (parameter_count f) < length (fn_locals f)"
  shows "\<exists>A. definite_initialization f ! i = Some A \<and>
    (\<forall>l. l \<in> A \<longleftrightarrow> unat l < length (fn_locals f) \<and> (\<forall>S. init_path f i S \<longrightarrow> l \<in> S))"
proof -
  have i: "i < length (fn_blocks f)" "reachable_blocks f ! i"
    using assms(1) reaches_range reachable_blocks_iff_reaches by blast+
  obtain A where A: "definite_initialization f ! i = Some A"
    using flow_solution_Some [OF i] unfolding definite_initialization_eq by blast
  have "A \<subseteq> S" if "init_path f i S" for S
    using definite_initialization_sound [OF that] A by auto
  moreover have "A \<subseteq> universe f"
  proof -
    obtain B where "initial_flow f (reachable_blocks f) ! i = Some B" "A \<subseteq> B"
      using flow_le_Some1 [OF flow_solution_le [of True init_transfer f], of i A] A i(1)
      unfolding definite_initialization_eq by auto
    then show ?thesis
      using params i by (cases "i = 0")
        (auto simp: initial_flow_def in_parameters_iff in_universe_iff)
  qed
  moreover have "universe f \<inter> \<Inter> {S. init_path f i S} \<subseteq> A"
  proof -
    have len: "length (path_flow f) = length (fn_blocks f)" by (simp add: path_flow_def)
    have "flow_le (path_flow f) (definite_initialization f)"
      unfolding definite_initialization_eq flow_solution_def
      by (rule init_flow.greatest [OF path_flow_stable len path_flow_le])
    moreover have "path_flow f ! i = Some (universe f \<inter> \<Inter> {S. init_path f i S})"
      using i by (simp add: path_flow_def)
    ultimately show ?thesis
      using flow_le_Some1 [of "path_flow f" "definite_initialization f" i] A i(1) len by auto
  qed
  ultimately have "l \<in> A \<longleftrightarrow> l \<in> universe f \<and> (\<forall>S. init_path f i S \<longrightarrow> l \<in> S)" for l
    by blast
  then show ?thesis
    using A by (simp add: in_universe_iff)
qed

theorem definite_initialization_exact_witness:
  "\<exists>A. definite_initialization main_function ! 1 = Some A \<and>
    (\<forall>l. l \<in> A \<longleftrightarrow> unat l < length (fn_locals main_function)
       \<and> (\<forall>S. init_path main_function 1 S \<longrightarrow> l \<in> S))"
proof (rule definite_initialization_exact)
  have "reachable_blocks main_function ! 1" by code_simp
  then show "reaches main_function 1"
    using reachable_blocks_iff_reaches [of 1 main_function] by (simp add: main_function_def)
qed (simp add: main_function_def)

text \<open>
  C25. The breadth-first search of the verifier computes reachability: it marks exactly the blocks
  that some path of terminator edges leads to from the entry block.
\<close>

theorem reachable_blocks_exact:
  "{i. i < length (reachable_blocks f) \<and> reachable_blocks f ! i} = {i. reaches f i}"
  using reaches_range by (auto simp: reachable_blocks_iff_reaches)

text \<open>
  C26. The ownership analysis stops at the greatest solution of its dataflow equations: the result
  is stable along every edge and contains every other stable assignment below the start.
\<close>

theorem ownership_flow_greatest:
  "flow_stable False transfer_block (reachable_blocks f) (fn_blocks f) (ownership_flow f) \<and>
   flow_le (ownership_flow f) (initial_flow f (reachable_blocks f)) \<and>
   (\<forall>X. flow_stable False transfer_block (reachable_blocks f) (fn_blocks f) X
      \<and> flow_le X (initial_flow f (reachable_blocks f)) \<longrightarrow> flow_le X (ownership_flow f))"
proof -
  have "flow_le X (ownership_flow f)"
    if "flow_stable False transfer_block (reachable_blocks f) (fn_blocks f) X"
      and "flow_le X (initial_flow f (reachable_blocks f))" for X
    using own_flow.greatest [OF that(1) _ that(2)] flow_le_length [OF that(2)]
    by (simp add: ownership_flow_eq flow_solution_def)
  then show ?thesis
    using flow_solution_le [of False transfer_block f]
    by (simp add: ownership_flow_eq flow_solution_def flow_loop_stable)
qed

theorem ownership_flow_greatest_witness:
  "flow_le [Some {}, Some {}] (ownership_flow main_function)"
proof -
  have "flow_stable False transfer_block (reachable_blocks main_function) (fn_blocks main_function)
      [Some {}, Some {}]"
    by (auto simp: flow_stable_def edge_ok_def main_function_def less_Suc_eq block_successors_def)
  moreover have "initial_flow main_function (reachable_blocks main_function) =
      [Some {}, Some {0, 1, 2}]"
    by code_simp
  ultimately show ?thesis
    using ownership_flow_greatest [of main_function] by (simp add: flow_le_def)
qed

end
