(* ===== verification/Mir_Resources.thy ===== *)
theory Mir_Resources
  imports Mir_Examples
begin

text \<open>
  Resource accounting of the interpreter: no operation touches the function table, the limits
  or the output, every counter only grows and stays within its limit, and the instruction
  limit bounds the number of executed blocks, so the block loop returns.
\<close>

section \<open>What every operation keeps\<close>

definition within_limits :: "Machine \<Rightarrow> bool" where
  "within_limits m \<longleftrightarrow>
     m_instructions m \<le> max_instructions (m_limits m) \<and>
     m_allocated_bytes m \<le> max_allocated_bytes (m_limits m)"

definition advances :: "Machine \<Rightarrow> Machine \<Rightarrow> bool" where
  "advances m m' \<longleftrightarrow>
     m_functions m' = m_functions m \<and> m_limits m' = m_limits m \<and> m_stdout m' = m_stdout m \<and>
     m_instructions m \<le> m_instructions m' \<and> m_allocated_bytes m \<le> m_allocated_bytes m' \<and>
     m_drops_executed m \<le> m_drops_executed m' \<and>
     (within_limits m \<longrightarrow> within_limits m')"

named_theorems advance "operations that only advance the machine"

lemma advances_refl [simp]: "advances m m"
  by (simp add: advances_def)

lemma advances_trans: "advances a b \<Longrightarrow> advances b c \<Longrightarrow> advances a c"
  unfolding advances_def by auto

lemma tick_advances [advance]: "tick m = Inr m' \<Longrightarrow> advances m m'"
  by (auto simp: tick_def advances_def within_limits_def Let_def saturating_add_ge not_less
      split: if_splits)

lemma charge_advances [advance]: "charge_allocation m n = Inr m' \<Longrightarrow> advances m m'"
  by (auto simp: charge_allocation_def advances_def within_limits_def Let_def saturating_add_ge
      not_less split: if_splits)

lemma constant_advances [advance]: "constant_value c m = Inr (v, m') \<Longrightarrow> advances m m'"
  by (cases c) (auto dest: advance)

lemma operand_advances [advance]: "operand x m ls = Inr (v, m', ls') \<Longrightarrow> advances m m'"
  by (cases x) (auto dest: advance)

lemma operand_list_advances [advance]:
  "operand_list xs m ls = Inr (vs, m', ls') \<Longrightarrow> advances m m'"
proof (induction xs arbitrary: m ls vs m' ls')
  case Nil
  then show ?case by simp
next
  case (Cons x xs)
  then show ?case by (auto dest!: operand_advances intro: advances_trans)
qed

lemma rvalue_advances [advance]: "rvalue r m ls = Inr (v, m', ls') \<Longrightarrow> advances m m'"
proof (cases r)
  case (Discriminant x)
  then show "rvalue r m ls = Inr (v, m', ls') \<Longrightarrow> ?thesis"
    by (auto dest!: advance) (auto split: Value.split_asm)
qed (auto dest!: advance intro: advances_trans)

lemma drop_place_advances [advance]: "drop_place p m ls = Inr (m', ls') \<Longrightarrow> advances m m'"
  by (auto simp: drop_place_def advances_def within_limits_def Let_def saturating_add_ge
      split: Place.splits)

lemma statement_advances [advance]:
  "execute_statement s m ls = Inr (m', ls') \<Longrightarrow> advances m m'"
  by (cases s) (auto dest: advance)

lemma statements_advance [advance]:
  "execute_statements ss m ls = Inr (m', ls') \<Longrightarrow> advances m m'"
proof (induction ss arbitrary: m ls)
  case Nil
  then show ?case by simp
next
  case (Cons s ss)
  then obtain m1 m2 ls2 where "tick m = Inr m1" "execute_statement s m1 ls = Inr (m2, ls2)"
    "execute_statements ss m2 ls2 = Inr (m', ls')"
    by auto
  then show ?case
    using Cons.IH tick_advances statement_advances advances_trans by meson
qed

lemma integer_operand_advances [advance]:
  "integer_operand x m ls = Inr (n, m', ls') \<Longrightarrow> advances m m'"
  by (auto simp: integer_operand_def dest!: advance) (auto split: Value.split_asm if_splits)

text \<open>A pass through the block loop also spends at least one instruction.\<close>

lemma tick_strict:
  assumes "tick m = Inr m'" and "max_instructions (m_limits m) < - 1"
  shows "unat (m_instructions m') = Suc (unat (m_instructions m))"
proof -
  have "m_instructions m' \<le> max_instructions (m_limits m)"
    and m': "m_instructions m' = saturating_add (m_instructions m) 1"
    using assms(1) by (auto simp: tick_def Let_def split: if_splits)
  then have "unat (m_instructions m') < unat (- 1 :: u64)"
    using assms(2) by (metis order_le_less_trans word_less_nat_alt)
  then show ?thesis
    unfolding m' unat_saturating_add by (simp split: if_splits add: min_def)
qed

lemma terminator_advances [advance]:
  "terminator_step t m ls = Inr (c, m', ls') \<Longrightarrow> advances m m'"
  by (cases t) (auto dest: advance)

lemma block_step_tick:
  assumes "block_step f b m ls = Inr (c, m', ls')"
  shows "\<exists>m1 m2. advances m m1 \<and> tick m1 = Inr m2 \<and> advances m2 m'"
  using assms by (auto simp: block_step_def dest: statements_advance terminator_advances)

lemma block_step_advances [advance]:
  "block_step f b m ls = Inr (c, m', ls') \<Longrightarrow> advances m m'"
  by (meson block_step_tick advances_trans tick_advances)

lemma block_step_strict:
  assumes "block_step f b m ls = Inr (c, m', ls')" and "max_instructions (m_limits m) < - 1"
  shows "m_instructions m < m_instructions m'"
proof -
  obtain m1 m2 where s: "advances m m1" "tick m1 = Inr m2" "advances m2 m'"
    using block_step_tick [OF assms(1)] by blast
  have "m_instructions m1 < m_instructions m2"
    using tick_strict [OF s(2)] s(1) assms(2) by (simp add: advances_def word_less_nat_alt)
  moreover have "m_instructions m \<le> m_instructions m1" "m_instructions m2 \<le> m_instructions m'"
    using s(1,3) by (simp_all add: advances_def)
  ultimately show ?thesis by order
qed

lemma call_loop_advances [advance]:
  "call_loop n f b ls d m = Some (Inr (v, m')) \<Longrightarrow> advances m m'"
proof (induction n arbitrary: f b ls d m v m')
  case 0
  then show ?case by simp
next
  case (Suc n)
  then obtain c m1 ls1 where b: "block_step f b m ls = Inr (c, m1, ls1)"
    by (auto split: sum.splits)
  have "advances m1 m'"
    using Suc.prems b
    by (cases c) (auto split: sum.splits option.splits intro: Suc.IH;
        meson Suc.IH advances_trans)+
  then show ?case
    using block_step_advances [OF b] advances_trans by blast
qed

section \<open>The loop returns\<close>

definition remaining :: "Machine \<Rightarrow> nat" where
  "remaining m = unat (max_instructions (m_limits m)) - unat (m_instructions m)"

lemma remaining_decreases:
  assumes "advances m m'" and "m_instructions m < m_instructions m'" and "within_limits m"
  shows "remaining m' < remaining m" and "within_limits m'"
    and "m_limits m' = m_limits m"
  using assms unfolding remaining_def advances_def within_limits_def
  by (auto simp: word_less_nat_alt word_le_nat_alt)

lemma call_loop_returns:
  assumes "within_limits m" and "max_instructions (m_limits m) < - 1" and "remaining m < n"
  shows "\<exists>r. call_loop n f b ls d m = Some r"
  using assms
proof (induction n arbitrary: f b ls d m)
  case 0
  then show ?case by simp
next
  case (Suc n)
  show ?case
  proof (cases "block_step f b m ls")
    case (Inl e)
    then show ?thesis by simp
  next
    case (Inr r)
    obtain c m1 ls1 where r: "r = (c, m1, ls1)" by (cases r)
    note step = Inr [unfolded r]
    note m1 = remaining_decreases [OF block_step_advances [OF step]
        block_step_strict [OF step Suc.prems(2)] Suc.prems(1)]
    have go: "\<exists>r. call_loop n g b' ls' d' m2 = Some r"
      if "advances m1 m2" for g b' ls' d' m2
    proof (rule Suc.IH)
      show "within_limits m2" using that m1(2) by (simp add: advances_def)
      show "max_instructions (m_limits m2) < - 1"
        using that m1(3) Suc.prems(2) by (simp add: advances_def)
      have "remaining m2 \<le> remaining m1"
        using that by (auto simp: remaining_def advances_def word_le_nat_alt)
      then show "remaining m2 < n" using m1(1) Suc.prems(3) by simp
    qed
    show ?thesis
    proof (cases c)
      case (Invoke callee vs p k)
      show ?thesis
      proof (cases "enter m1 callee vs (saturating_add d 1)")
        case (Inl e)
        then show ?thesis using step Invoke by simp
      next
        case (Inr gl)
        obtain g gls where gl: "gl = (g, gls)" by (cases gl)
        obtain res where res: "call_loop n g 0 gls (saturating_add d 1) m1 = Some res"
          using go [OF advances_refl] by blast
        show ?thesis
          using step Invoke Inr gl res go [OF call_loop_advances]
          by (auto split: sum.splits)
      qed
    qed (use step go [OF advances_refl] in auto)
  qed
qed

section \<open>Results do not depend on the budget\<close>

text \<open>
  A step that succeeds under some limits succeeds with the same outcome under larger ones.
\<close>

definition limits_le :: "InterpreterLimits \<Rightarrow> InterpreterLimits \<Rightarrow> bool" where
  "limits_le a b \<longleftrightarrow>
     max_instructions a \<le> max_instructions b \<and> max_call_depth a \<le> max_call_depth b \<and>
     max_allocated_bytes a \<le> max_allocated_bytes b \<and> max_output_bytes a \<le> max_output_bytes b"

definition relax :: "InterpreterLimits \<Rightarrow> Machine \<Rightarrow> Machine" where
  "relax L m = m\<lparr>m_limits := L\<rparr>"

lemma relax_fields [simp]:
  "m_limits (relax L m) = L" "m_functions (relax L m) = m_functions m"
  "m_stdout (relax L m) = m_stdout m" "m_drops_executed (relax L m) = m_drops_executed m"
  by (simp_all add: relax_def)

named_theorems relaxed "operations that ignore a larger budget"

lemma tick_relax [relaxed]:
  "tick m = Inr m' \<Longrightarrow> limits_le (m_limits m) L \<Longrightarrow> tick (relax L m) = Inr (relax L m')"
  by (auto simp: tick_def Let_def relax_def limits_le_def not_less split: if_splits)

lemma charge_relax [relaxed]:
  "charge_allocation m n = Inr m' \<Longrightarrow> limits_le (m_limits m) L
     \<Longrightarrow> charge_allocation (relax L m) n = Inr (relax L m')"
  by (auto simp: charge_allocation_def Let_def relax_def limits_le_def not_less split: if_splits)

lemma constant_relax [relaxed]:
  "constant_value c m = Inr (v, m') \<Longrightarrow> limits_le (m_limits m) L
     \<Longrightarrow> constant_value c (relax L m) = Inr (v, relax L m')"
  by (cases c) (auto dest: relaxed)

lemma operand_relax [relaxed]:
  "operand x m ls = Inr (v, m', ls') \<Longrightarrow> limits_le (m_limits m) L
     \<Longrightarrow> operand x (relax L m) ls = Inr (v, relax L m', ls')"
  by (cases x) (auto dest: relaxed)

lemma advances_limits: "advances m m' \<Longrightarrow> m_limits m' = m_limits m"
  by (simp add: advances_def)

lemma operand_list_relax [relaxed]:
  "operand_list xs m ls = Inr (vs, m', ls') \<Longrightarrow> limits_le (m_limits m) L
     \<Longrightarrow> operand_list xs (relax L m) ls = Inr (vs, relax L m', ls')"
proof (induction xs arbitrary: m ls vs m' ls')
  case Nil
  then show ?case by simp
next
  case (Cons x xs)
  then obtain v m1 ls1 vs' where x: "operand x m ls = Inr (v, m1, ls1)"
    and xs: "operand_list xs m1 ls1 = Inr (vs', m', ls')" and "vs = v # vs'"
    by auto
  then show ?case
    using operand_relax [OF x Cons.prems(2)] Cons.IH [OF xs]
      advances_limits [OF operand_advances [OF x]] Cons.prems(2) by simp
qed

lemma rvalue_relax [relaxed]:
  assumes "rvalue r m ls = Inr (v, m', ls')" and L: "limits_le (m_limits m) L"
  shows "rvalue r (relax L m) ls = Inr (v, relax L m', ls')"
proof (cases r)
  case (Discriminant x)
  then obtain a m1 ls1 where "operand x m ls = Inr (a, m1, ls1)"
    using assms(1) by auto
  then show ?thesis
    using operand_relax [OF _ L] Discriminant assms(1) by (auto split: Value.split_asm)
next
  case (Aggregate ty d xs)
  then obtain vs m1 where x: "operand_list xs m ls = Inr (vs, m1, ls')"
    and "charge_allocation m1 (saturating_mul (try_from_or_max (length vs)) 16) = Inr m'"
    and "v = VAggregate d vs"
    using assms(1) by auto
  then show ?thesis
    using operand_list_relax [OF x L] charge_relax [of m1 _ m' L] Aggregate L
      advances_limits [OF operand_list_advances [OF x]] by simp
next
  case (Binary op x y)
  then obtain a m1 ls1 b where x: "operand x m ls = Inr (a, m1, ls1)"
    and y: "operand y m1 ls1 = Inr (b, m', ls')" and "binary op a b = Inr v"
    using assms(1) by auto
  then show ?thesis
    using operand_relax [OF x L] operand_relax [OF y] Binary L
      advances_limits [OF operand_advances [OF x]] by simp
qed (use assms in \<open>auto dest: relaxed\<close>)

lemma drop_place_relax [relaxed]:
  "drop_place p m ls = Inr (m', ls') \<Longrightarrow> drop_place p (relax L m) ls = Inr (relax L m', ls')"
  by (auto simp: drop_place_def Let_def relax_def split: Place.splits)

lemma statement_relax [relaxed]:
  "execute_statement s m ls = Inr (m', ls') \<Longrightarrow> limits_le (m_limits m) L
     \<Longrightarrow> execute_statement s (relax L m) ls = Inr (relax L m', ls')"
  by (cases s) (auto dest: relaxed)

lemma statements_relax [relaxed]:
  "execute_statements ss m ls = Inr (m', ls') \<Longrightarrow> limits_le (m_limits m) L
     \<Longrightarrow> execute_statements ss (relax L m) ls = Inr (relax L m', ls')"
proof (induction ss arbitrary: m ls)
  case Nil
  then show ?case by simp
next
  case (Cons s ss)
  then obtain m1 m2 ls2 where s: "tick m = Inr m1" "execute_statement s m1 ls = Inr (m2, ls2)"
    "execute_statements ss m2 ls2 = Inr (m', ls')"
    by auto
  have "m_limits m1 = m_limits m" "m_limits m2 = m_limits m"
    using s advances_limits [OF tick_advances] advances_limits [OF statement_advances] by auto
  then show ?case
    using tick_relax [OF s(1)] statement_relax [OF s(2)] Cons.IH [OF s(3)] Cons.prems(2) by simp
qed

lemma integer_operand_relax [relaxed]:
  assumes "integer_operand x m ls = Inr (n, m', ls')" and L: "limits_le (m_limits m) L"
  shows "integer_operand x (relax L m) ls = Inr (n, relax L m', ls')"
proof -
  obtain a m1 ls1 where "operand x m ls = Inr (a, m1, ls1)"
    using assms(1) by (auto simp: integer_operand_def)
  then show ?thesis
    using operand_relax [OF _ L] assms(1)
    by (auto simp: integer_operand_def split: Value.split_asm if_splits)
qed

lemma terminator_relax [relaxed]:
  "terminator_step t m ls = Inr (c, m', ls') \<Longrightarrow> limits_le (m_limits m) L
     \<Longrightarrow> terminator_step t (relax L m) ls = Inr (c, relax L m', ls')"
  by (cases t) (auto dest: relaxed)

lemma block_step_relax [relaxed]:
  assumes "block_step f b m ls = Inr (c, m', ls')" and L: "limits_le (m_limits m) L"
  shows "block_step f b (relax L m) ls = Inr (c, relax L m', ls')"
proof -
  obtain m1 ls1 m2 t where b: "b < length (fn_blocks f)"
    and s: "execute_statements (statements (fn_blocks f ! b)) m ls = Inr (m1, ls1)"
      "tick m1 = Inr m2" "terminator (fn_blocks f ! b) = Some t"
      "terminator_step t m2 ls1 = Inr (c, m', ls')"
    using assms(1) by (auto simp: block_step_def)
  have "m_limits m1 = m_limits m" "m_limits m2 = m_limits m"
    using s advances_limits [OF tick_advances] advances_limits [OF statements_advance] by auto
  then show ?thesis
    using b s L statements_relax [OF s(1)] tick_relax [OF s(2)] terminator_relax [OF s(4)]
    by (simp add: block_step_def)
qed

lemma enter_relax [relaxed]:
  "enter m d vs k = Inr r \<Longrightarrow> limits_le (m_limits m) L \<Longrightarrow> enter (relax L m) d vs k = Inr r"
  by (auto simp: enter_def limits_le_def split: if_splits)

lemma call_loop_relax:
  assumes "call_loop n f b ls d m = Some (Inr (v, m'))" and "limits_le (m_limits m) L"
  shows "call_loop n f b ls d (relax L m) = Some (Inr (v, relax L m'))"
  using assms
proof (induction n arbitrary: f b ls d m v m')
  case 0
  then show ?case by simp
next
  case (Suc n)
  then obtain c m1 ls1 where b: "block_step f b m ls = Inr (c, m1, ls1)"
    by (auto split: sum.splits)
  have m1: "limits_le (m_limits m1) L"
    using Suc.prems(2) advances_limits [OF block_step_advances [OF b]] by simp
  note b' = block_step_relax [OF b Suc.prems(2)]
  show ?case
  proof (cases c)
    case (Invoke callee vs p k)
    with Suc.prems(1) b obtain g gls v1 m2 ls2 where
      e: "enter m1 callee vs (saturating_add d 1) = Inr (g, gls)" and
      c1: "call_loop n g 0 gls (saturating_add d 1) m1 = Some (Inr (v1, m2))" and
      a: "assign p v1 ls1 = Inr ls2" and
      c2: "call_loop n f (unat k) ls2 d m2 = Some (Inr (v, m'))"
      by (auto split: sum.splits option.splits)
    have m2: "limits_le (m_limits m2) L"
      using m1 advances_limits [OF call_loop_advances [OF c1]] by simp
    show ?thesis
      using b' Invoke enter_relax [OF e m1] Suc.IH [OF c1 m1] a Suc.IH [OF c2 m2] by simp
  qed (use Suc.prems b b' m1 Suc.IH in auto)
qed

text \<open>More fuel never changes an outcome.\<close>

lemma call_loop_fuel:
  "call_loop n f b ls d m = Some r \<Longrightarrow> n \<le> k \<Longrightarrow> call_loop k f b ls d m = Some r"
proof (induction n arbitrary: f b ls d m r k)
  case 0
  then show ?case by simp
next
  case (Suc n)
  then obtain k' where k: "k = Suc k'" "n \<le> k'" by (cases k) auto
  show ?case
    using Suc.prems(1) Suc.IH [OF _ k(2)] unfolding k(1)
    by (auto split: sum.splits option.splits control.splits)
qed

section \<open>Running a whole program\<close>

lemma initial_within [simp]: "within_limits (initial_machine p limits)"
  by (simp add: within_limits_def initial_machine_def)

lemma call_returns:
  assumes "within_limits m" and "max_instructions (m_limits m) < - 1" and "remaining m < n"
  shows "\<exists>r. call n m d vs depth = Some r"
  using call_loop_returns [OF assms] by (auto simp: call_def split: sum.split)

lemma execute_returns:
  assumes "max_instructions limits < - 1" and "unat (max_instructions limits) < fuel"
  shows "\<exists>r. execute fuel p d limits = Some r"
proof -
  have "\<exists>r. call fuel (initial_machine p limits) d [] 1 = Some r"
    using assms by (intro call_returns) (simp_all, simp_all add: initial_machine_def remaining_def)
  then show ?thesis by (auto simp: execute_def split: sum.split)
qed

lemma execute_InrE:
  assumes "execute fuel p d limits = Some (Inr res)"
  obtains v m f ls where "verify p = Inr ()"
    and "enter (initial_machine p limits) d [] 1 = Inr (f, ls)"
    and "call_loop fuel f 0 ls 1 (initial_machine p limits) = Some (Inr (v, m))"
    and "res = \<lparr>result_value = into_runtime v, result_stdout = m_stdout m,
                result_drops = m_drops_executed m\<rparr>"
  using assms by (auto simp: execute_def call_def split: sum.splits option.splits)

lemma relax_initial [simp]: "relax L (initial_machine p l) = initial_machine p L"
  by (simp add: relax_def initial_machine_def)

lemma execute_fuel:
  assumes "execute n p d limits = Some r" and "n \<le> k"
  shows "execute k p d limits = Some r"
  using assms
  by (auto simp: execute_def call_def split: sum.splits option.splits dest: call_loop_fuel)

lemma spin_loop:
  assumes "max_instructions (m_limits m) = - 1"
    and "fn_blocks f = [\<lparr>statements = [], terminator = Some (Goto 0)\<rparr>]"
  shows "call_loop fuel f 0 ls depth m = None"
  using assms(1)
proof (induction fuel arbitrary: m)
  case (Suc fuel)
  then show ?case
    using Suc.IH [of "m\<lparr>m_instructions := saturating_add (m_instructions m) 1\<rparr>"]
    by (simp add: block_step_def assms(2) nth_opt_def tick_def Let_def not_less)
qed simp

text \<open>
  C4. The interpreter terminates on every program, verified or not: when the instruction limit
  is below the largest 64-bit value there is one outcome, and every run with more fuel than the
  instruction limit reports exactly that outcome.
\<close>

theorem execute_terminates:
  assumes "max_instructions limits < - 1"
  shows "\<exists>r. \<forall>fuel > unat (max_instructions limits). execute fuel p d limits = Some r"
proof -
  obtain r where r: "execute (Suc (unat (max_instructions limits))) p d limits = Some r"
    using execute_returns [OF assms] by blast
  have "execute fuel p d limits = Some r" if "unat (max_instructions limits) < fuel" for fuel
    using execute_fuel [OF r] that by simp
  then show ?thesis by blast
qed

theorem execute_terminates_witness:
  "\<exists>r. \<forall>fuel > unat (max_instructions small_limits).
     execute fuel spin_program main_id small_limits = Some r"
  by (rule execute_terminates) (simp add: small_limits_def)

text \<open>
  The hypothesis of the previous property is needed: the instruction counter saturates, so
  with the largest limit a verified program that jumps to its own block is never stopped.
\<close>

theorem saturated_budget_never_stops:
  "verify spin_program = Inr () \<and> (\<forall>fuel. execute fuel spin_program main_id unlimited = None)"
proof -
  have "verify spin_program = Inr ()" by code_simp
  moreover have "enter (initial_machine spin_program unlimited) main_id [] 1 =
      Inr (hd (program_functions spin_program), [None])"
    by code_simp
  ultimately show ?thesis
    by (simp add: execute_def call_def spin_loop unlimited_def initial_machine_def spin_program_def
        single_program_def)
qed

text \<open>
  A completed call stays inside its budgets: it executed no more instructions and allocated
  no more bytes than the limits allow, and it wrote no output.
\<close>

theorem call_within_budget:
  assumes "call fuel (initial_machine p limits) d vs depth = Some (Inr (v, m))"
  shows "m_instructions m \<le> max_instructions limits \<and>
    m_allocated_bytes m \<le> max_allocated_bytes limits \<and> m_stdout m = []"
proof -
  have "advances (initial_machine p limits) m"
    using assms by (auto simp: call_def split: sum.splits dest: call_loop_advances)
  then have "within_limits m" "m_limits m = limits" "m_stdout m = []"
    unfolding advances_def by (simp_all, simp_all add: initial_machine_def)
  then show ?thesis by (simp add: within_limits_def)
qed

theorem call_within_budget_witness:
  "\<exists>v m. call 20 (initial_machine demo_program small_limits) main_id [] 1 = Some (Inr (v, m))
     \<and> m_instructions m \<le> max_instructions small_limits
     \<and> m_allocated_bytes m \<le> max_allocated_bytes small_limits \<and> m_stdout m = []"
proof -
  obtain v m where *: "call 20 (initial_machine demo_program small_limits) main_id [] 1 = Some (Inr (v, m))"
    using execute_demo by (auto simp: execute_def split: sum.splits option.splits)
  show ?thesis using call_within_budget [OF *] * by blast
qed

text \<open>
  C24. Budgets only cut runs short: a run that completes returns the same result, output and
  number of drops under every larger set of limits.
\<close>

theorem execute_budget_independent:
  assumes "execute fuel p d limits = Some (Inr res)" and "limits_le limits limits'"
    and "fuel \<le> fuel'"
  shows "execute fuel' p d limits' = Some (Inr res)"
proof -
  have l: "limits_le (m_limits (initial_machine p limits)) limits'"
    using assms(2) by (simp add: initial_machine_def)
  show ?thesis
    using assms(1)
  proof (rule execute_InrE)
    fix v m f ls
    assume *: "verify p = Inr ()" "enter (initial_machine p limits) d [] 1 = Inr (f, ls)"
      "call_loop fuel f 0 ls 1 (initial_machine p limits) = Some (Inr (v, m))"
      "res = \<lparr>result_value = into_runtime v, result_stdout = m_stdout m,
                result_drops = m_drops_executed m\<rparr>"
    have "call_loop fuel' f 0 ls 1 (initial_machine p limits') = Some (Inr (v, relax limits' m))"
      using call_loop_fuel [OF call_loop_relax [OF *(3) l] assms(3)] by simp
    then show ?thesis
      using * enter_relax [OF *(2) l] by (simp add: execute_def call_def)
  qed
qed

theorem execute_budget_independent_witness:
  "execute 100 demo_program main_id default_limits =
     Some (Inr \<lparr>result_value = RU64 42, result_stdout = [], result_drops = 1\<rparr>)"
  by (rule execute_budget_independent [OF execute_demo])
     (simp_all add: limits_le_def small_limits_def default_limits_def)

end
