(* ===== verification/Mir_Safety.thy ===== *)
theory Mir_Safety
  imports Mir_Flow Mir_Resources
begin

text \<open>
  Soundness of the verifier for the interpreter. The affine-ownership state the verifier
  computes for a block under-approximates the locals that hold a value when the interpreter
  enters it, so a verified program never panics, never misses a block, a function or an
  argument, and never reads, moves, drops or returns an empty local. It may still trap on the base
  of a field write.
\<close>

section \<open>Results that are not stuck\<close>

definition structural_traps :: "string list" where
  "structural_traps =
     [''verified call has an invalid argument count'', ''verified block target is absent'',
      ''return destination is empty'', ''moved local is empty'', ''local is empty'',
      ''local index is out of range'', ''drop target is empty'']"

fun stuck :: "RuntimeError \<Rightarrow> bool" where
  "stuck (Trap message) = (message \<in> set structural_traps)"
| "stuck (Panic message) = True"
| "stuck (MissingEntry d) = True"
| "stuck (InvalidMir errs) = True"
| "stuck e = False"

definition safe :: "RuntimeError + 'a \<Rightarrow> ('a \<Rightarrow> bool) \<Rightarrow> bool" where
  "safe r P \<longleftrightarrow> (case r of Inl e \<Rightarrow> \<not> stuck e | Inr x \<Rightarrow> P x)"

lemma safe_simps [simp]:
  "safe (Inl e) P \<longleftrightarrow> \<not> stuck e" "safe (Inr x) P \<longleftrightarrow> P x"
  by (simp_all add: safe_def)

lemma safe_bindR: "safe r P \<Longrightarrow> (\<And>x. P x \<Longrightarrow> safe (g x) Q) \<Longrightarrow> safe (bindR r g) Q"
  by (cases r) auto

lemma safe_mono: "safe r P \<Longrightarrow> (\<And>x. P x \<Longrightarrow> Q x) \<Longrightarrow> safe r Q"
  by (cases r) auto

lemma safe_Inl: "safe r P \<Longrightarrow> r = Inl e \<Longrightarrow> \<not> stuck e"
  by simp

lemma safe_Inr: "safe r P \<Longrightarrow> r = Inr x \<Longrightarrow> P x"
  by simp

lemma safe_tick: "safe (tick m) (\<lambda>_. True)"
  by (auto simp: tick_def Let_def)

lemma safe_charge: "safe (charge_allocation m n) (\<lambda>_. True)"
  by (auto simp: charge_allocation_def Let_def)

section \<open>Live frames\<close>

definition live :: "nat \<Rightarrow> local_set \<Rightarrow> frame_locals \<Rightarrow> bool" where
  "live n S ls \<longleftrightarrow> length ls = n \<and> (\<forall>l \<in> S. unat l < n \<and> ls ! unat l \<noteq> None)"

lemma live_subset: "live n S ls \<Longrightarrow> T \<subseteq> S \<Longrightarrow> live n T ls"
  by (auto simp: live_def)

lemma live_take: "live n S ls \<Longrightarrow> live n (S - {l}) (ls[unat l := None])"
  by (cases "unat l < length ls")
     (auto simp: live_def nth_list_update list_update_beyond simp flip: word_unat_eq_iff)

lemma live_put: "live n S ls \<Longrightarrow> unat l < n \<Longrightarrow> live n (insert l S) (ls[unat l := Some v])"
  by (auto simp: live_def nth_list_update)

lemma live_update: "live n S ls \<Longrightarrow> live n S (ls[k := Some v])"
  by (cases "k < length ls") (auto simp: live_def nth_list_update list_update_beyond)

lemma live_value: "live n S ls \<Longrightarrow> l \<in> S \<Longrightarrow> \<exists>v. unat l < length ls \<and> ls ! unat l = Some v"
  by (auto simp: live_def)

section \<open>Reading what the verifier accepted\<close>

lemma verify_local_use_ok:
  "verify_local_use f b l D = [] \<longleftrightarrow> unat l < length (fn_locals f) \<and> l \<in> D"
  by (simp add: verify_local_use_def)

lemma check_read_ok:
  "check_read f b l c S I = (S', []) \<longleftrightarrow>
     (l \<in> S \<or> l \<notin> I) \<and> S' = (if c then S - {l} else S)"
  by (auto simp: check_read_def)

lemma operand_type_ok:
  "snd (operand_type f b x D) = [] \<Longrightarrow> \<exists>t. operand_type f b x D = (Some t, [])"
  by (cases x) (auto simp: verify_local_use_ok nth_opt_def)

text \<open>Without errors the ownership checks move the state exactly as the transfer functions.\<close>

lemma check_operand_state:
  "check_operand_ownership f b x S I = (S', []) \<Longrightarrow> S' = consume_operand x S"
  by (cases x) (auto simp: check_read_ok split: prod.splits if_splits)

lemma check_operands_state:
  "check_operands_ownership f b xs S I = (S', []) \<Longrightarrow> S' = fold consume_operand xs S"
  by (induction xs arbitrary: S) (auto split: prod.splits dest!: check_operand_state)

lemma check_rvalue_state:
  "check_rvalue_ownership f b r S I = (S', []) \<Longrightarrow> S' = consume_rvalue r S"
  by (cases r) (auto simp: check_read_ok dest!: check_operand_state split: prod.splits
      dest: check_operands_state)

lemma check_statement_state:
  "check_statement_ownership f b s S I = (S', []) \<Longrightarrow> S' = transfer_statement s S"
  by (cases s) (auto simp: Let_def split: prod.splits Place.splits if_splits
      dest!: check_rvalue_state)

lemma check_statements_state:
  "check_statements_ownership f b ss S I = (S', []) \<Longrightarrow> S' = fold transfer_statement ss S"
  by (induction ss arbitrary: S) (auto split: prod.splits dest!: check_statement_state)

lemma check_statements_Cons:
  assumes "check_statements_ownership f b (s # ss) S I = (S', [])"
  obtains S1 where "check_statement_ownership f b s S I = (S1, [])"
    and "check_statements_ownership f b ss S1 I = (S', [])"
  using assms by (auto split: prod.splits)

lemma verify_statements_Cons:
  assumes "verify_statements f b (s # ss) D = (D', [])"
  obtains D1 where "verify_statement f b s D = (D1, [])" and "verify_statements f b ss D1 = (D', [])"
  using assms by (auto split: prod.splits)

lemma verify_binary_operands:
  assumes "snd (verify_rvalue f b (Binary op x y) D) = []"
  shows "snd (operand_type f b x D) = [] \<and> snd (operand_type f b y D) = []"
proof -
  obtain tx ex ty ey where t: "operand_type f b x D = (tx, ex)" "operand_type f b y D = (ty, ey)"
    by fastforce
  have "ex = []"
    using assms t by (auto split: option.splits prod.splits)
  then obtain tx' where "tx = Some tx'"
    using operand_type_ok [of f b x D] t by auto
  then show ?thesis
    using assms t \<open>ex = []\<close> by (auto split: option.splits prod.splits)
qed

lemma place_type_ok:
  "place_type f b p = (t, []) \<Longrightarrow> unat (place_local p) < length (fn_locals f)"
  by (auto simp: Let_def split: option.splits)

lemma verify_statement_state:
  "verify_statement f b s D = (D', []) \<Longrightarrow> D' = assigned_statement s D"
  by (cases "(s, D)" rule: assigned_statement.cases)
     (auto simp: Let_def split: prod.splits option.splits)

lemma verify_statements_state:
  "verify_statements f b ss D = (D', []) \<Longrightarrow> D' = fold assigned_statement ss D"
  by (induction ss arbitrary: D) (auto split: prod.splits dest!: verify_statement_state)

section \<open>Safety of the operations\<close>

text \<open>
  \<open>D\<close> is the verifier's definite set, \<open>S\<close> its ownership state and \<open>I\<close> the locals the function
  ever initialises.
\<close>

lemma read_owned:
  "verify_local_use f b l D = [] \<Longrightarrow> D \<subseteq> I \<Longrightarrow> check_read f b l c S I = (S', []) \<Longrightarrow> l \<in> S"
  by (auto simp: verify_local_use_ok check_read_ok)

lemma local_value_owned:
  "live n S ls \<Longrightarrow> l \<in> S \<Longrightarrow> \<exists>v. local_value ls l = Inr v \<and> local_value_mut ls l = Inr (Some v)"
  by (auto simp: local_value_def local_value_mut_def nth_opt_def dest: live_value)

lemma operand_safe:
  assumes "live n S ls" and "D \<subseteq> I" and "snd (operand_type f b x D) = []"
    and "check_operand_ownership f b x S I = (S', [])"
  shows "safe (operand x m ls) (\<lambda>(v, m', ls'). live n S' ls')"
proof (cases x)
  case (OpConstant c)
  then have "S' = S" using check_operand_state [OF assms(4)] by simp
  then show ?thesis
    using OpConstant assms(1)
    by (cases c) (auto intro!: safe_bindR [OF safe_bindR [OF safe_charge], of _ "\<lambda>_. True"])
next
  case (OpCopy l)
  with assms have "l \<in> S" "S' = S"
    by (auto simp: check_read_ok verify_local_use_ok split: prod.splits if_splits)
  then show ?thesis
    using OpCopy assms(1) local_value_owned by fastforce
next
  case (OpMove l)
  with assms have l: "l \<in> S" "S' = S - {l}"
    by (auto simp: check_read_ok verify_local_use_ok)
  then show ?thesis
    using OpMove assms(1) local_value_owned [OF assms(1) l(1)] by (auto simp: live_take)
qed

lemma operand_list_safe:
  assumes "live n S ls" and "D \<subseteq> I" and "\<forall>x \<in> set xs. snd (operand_type f b x D) = []"
    and "check_operands_ownership f b xs S I = (S', [])"
  shows "safe (operand_list xs m ls) (\<lambda>(vs, m', ls'). length vs = length xs \<and> live n S' ls')"
  using assms
proof (induction xs arbitrary: S ls m)
  case Nil
  then show ?case by simp
next
  case (Cons x xs)
  obtain S1 where c1: "check_operand_ownership f b x S I = (S1, [])"
    and c2: "check_operands_ownership f b xs S1 I = (S', [])"
    using Cons.prems(4) by (auto split: prod.splits)
  have x: "safe (operand x m ls) (\<lambda>(v, m', ls'). live n S1 ls')"
    using operand_safe [OF Cons.prems(1,2) _ c1] Cons.prems(3) by simp
  have xs: "safe (operand_list xs m' ls') (\<lambda>(vs, m', ls'). length vs = length xs \<and> live n S' ls')"
    if "live n S1 ls'" for m' ls'
    using Cons.IH [OF that Cons.prems(2) _ c2] Cons.prems(3) by simp
  show ?case
    by (auto intro!: safe_bindR [OF x] safe_bindR [OF xs])
qed

lemma binary_safe: "safe (binary op a b) (\<lambda>_. True)"
  by (auto simp: binary_def binary_u64_def binary_i64_def safe_def structural_traps_def
      split: Value.splits BinaryOp.splits sum.splits)

lemma field_base_safe: "unat l < length ls \<Longrightarrow> safe (field_base l k ls) (\<lambda>_. True)"
  by (cases "ls ! unat l")
     (auto simp: field_base_def local_value_mut_def nth_opt_def structural_traps_def
        split: Value.split)

lemma rvalue_safe:
  assumes "live n S ls" and "D \<subseteq> I" and "snd (verify_rvalue f b r D) = []"
    and "check_rvalue_ownership f b r S I = (S', [])"
  shows "safe (rvalue r m ls) (\<lambda>(v, m', ls'). live n S' ls')"
proof (cases r)
  case (Borrow is_mut p)
  then have "place_local p \<in> S" "S' = S"
    using assms by (auto simp: check_read_ok verify_local_use_ok split: prod.splits)
  then obtain v where "local_value ls (place_local p) = Inr v" "S' = S"
    using local_value_owned [OF assms(1)] by blast
  then show ?thesis
    using Borrow assms(1)
    by (cases p; cases v)
       (auto simp: read_place_def structural_traps_def safe_def bindR_Inl_iff nth_opt_def)
next
  case (Discriminant x)
  then have "safe (operand x m ls) (\<lambda>(v, m', ls'). live n S' ls')"
    using operand_safe [OF assms(1,2)] assms(3,4) by simp
  then show ?thesis
    using Discriminant by (auto intro!: safe_bindR simp: structural_traps_def split: Value.splits)
next
  case (Aggregate ty d xs)
  then have vs: "safe (operand_list xs m ls)
      (\<lambda>(vs, m', ls'). length vs = length xs \<and> live n S' ls')"
    using operand_list_safe [OF assms(1,2)] assms(3,4) by simp
  show ?thesis
    using Aggregate by (auto intro!: safe_bindR [OF vs] safe_bindR [OF safe_charge])
next
  case (Binary op x y)
  then obtain S1 where c: "check_operand_ownership f b x S I = (S1, [])"
    "check_operand_ownership f b y S1 I = (S', [])"
    using assms(4) by (auto split: prod.splits)
  have t: "snd (operand_type f b x D) = []" "snd (operand_type f b y D) = []"
    using verify_binary_operands assms(3) Binary by blast+
  note x = operand_safe [OF assms(1,2) t(1) c(1)]
  note y = operand_safe [OF _ assms(2) t(2) c(2)]
  show ?thesis
    using Binary by (auto intro!: safe_bindR [OF x] safe_bindR [OF y] safe_bindR [OF binary_safe])
qed (use assms operand_safe in auto)

lemma assign_safe:
  assumes "live n S ls" and "place_type f b p = (t, [])" and "n = length (fn_locals f)"
  shows "safe (assign p v ls) (live n (bind_place p S))"
proof -
  have "unat (place_local p) < length ls"
    using place_type_ok [OF assms(2)] assms(1,3) by (simp add: live_def)
  then show ?thesis
    using assms(1) live_put [OF assms(1)] live_update [OF assms(1)]
    by (cases p) (auto simp: assign_def local_value_mut_def nth_opt_def live_def [of n S ls]
        intro!: safe_bindR [OF field_base_safe])
qed

lemma statement_safe:
  assumes "live n S ls" and "D \<subseteq> I" and "n = length (fn_locals f)"
    and v: "verify_statement f b s D = (D', [])"
    and c: "check_statement_ownership f b s S I = (S', [])"
  shows "safe (execute_statement s m ls) (\<lambda>(m', ls'). live n S' ls')"
proof (cases s)
  case (Assign p r)
  obtain S1 where r: "check_rvalue_ownership f b r S I = (S1, [])" and S': "S' = bind_place p S1"
    using c Assign by (auto split: prod.splits Place.splits)
  have t: "snd (verify_rvalue f b r D) = []" and "snd (place_type f b p) = []"
    using v Assign by (auto simp: Let_def split: prod.splits option.splits simp del: place_type.simps)
  then obtain ty where p: "place_type f b p = (ty, [])" by (metis prod.collapse)
  show ?thesis
    unfolding Assign execute_statement.simps
  proof (rule safe_bindR [OF rvalue_safe [OF assms(1,2) t r]], clarify)
    fix w m1 ls1
    assume "live n S1 ls1"
    from assign_safe [OF this p assms(3), of w]
    show "safe (bindR (assign p w ls1) (\<lambda>ls2. Inr (m1, ls2))) (\<lambda>(m', ls'). live n S' ls')"
      by (rule safe_bindR) (simp add: S')
  qed
next
  case (Drop p)
  then have "place_local p \<in> S" and S': "S' = S - {place_local p}"
    using v c assms(2) by (auto simp: verify_local_use_ok Let_def split: if_splits)
  then obtain w where "local_value_mut ls (place_local p) = Inr (Some w)"
    "unat (place_local p) < length ls"
    using local_value_owned [OF assms(1)] live_value [OF assms(1)] by blast
  then show ?thesis
    using Drop S' assms(1)
    by (cases p) (auto simp: drop_place_def Let_def live_take
        intro!: safe_bindR [OF field_base_safe] live_update intro: live_subset)
qed

lemma statements_safe:
  assumes "live n S ls" and "D \<subseteq> I" and "n = length (fn_locals f)"
    and "\<forall>s \<in> set ss. assigned_statement s {} \<subseteq> I"
    and "verify_statements f b ss D = (D', [])"
    and "check_statements_ownership f b ss S I = (S', [])"
  shows "safe (execute_statements ss m ls) (\<lambda>(m', ls'). live n S' ls')"
  using assms
proof (induction ss arbitrary: S ls D m)
  case Nil
  then show ?case by simp
next
  case (Cons s ss)
  obtain D1 where v: "verify_statement f b s D = (D1, [])" "verify_statements f b ss D1 = (D', [])"
    using verify_statements_Cons [OF Cons.prems(5)] .
  obtain S1 where c: "check_statement_ownership f b s S I = (S1, [])"
    "check_statements_ownership f b ss S1 I = (S', [])"
    using check_statements_Cons [OF Cons.prems(6)] .
  have D1: "D1 \<subseteq> I"
    using verify_statement_state [OF v(1)] assigned_statement_union [of s D] Cons.prems(2,4) by auto
  note s = statement_safe [OF Cons.prems(1-3) v(1) c(1)]
  show ?case
    using Cons.IH [OF _ D1 Cons.prems(3) _ v(2) c(2)] Cons.prems(4)
    by (auto intro!: safe_bindR [OF safe_tick] safe_bindR [OF s])
qed

section \<open>Blocks\<close>

text \<open>What a verified block leaves for the loop, with \<open>T\<close> the ownership state after the block.\<close>

definition control_ok ::
  "(DefId \<rightharpoonup> MirFunction) \<Rightarrow> nat \<Rightarrow> local_set \<Rightarrow> BlockId list \<Rightarrow> control \<times> Machine \<times> frame_locals
     \<Rightarrow> bool" where
  "control_ok table n T targets = (\<lambda>(c, m, ls).
     (case c of
        Finish v \<Rightarrow> True
      | Continue k \<Rightarrow> k \<in> set targets \<and> live n T ls
      | Invoke callee vs p k \<Rightarrow>
          k \<in> set targets \<and> (\<forall>v. safe (assign p v ls) (live n T)) \<and>
          (\<exists>g. table callee = Some g \<and> length vs = unat (parameter_count g))))"

lemma switch_target_in: "switch_target v targets k \<in> set (successors (SwitchInt x targets k))"
proof (cases "List.find (\<lambda>(candidate, target). candidate = v) targets")
  case (Some ct)
  then have "ct \<in> set targets" by (metis find_Some_iff nth_mem)
  then have "snd ct \<in> snd ` set targets" by (rule imageI)
  then show ?thesis using Some by (simp add: switch_target_def case_prod_beta)
qed (simp add: switch_target_def)

lemma integer_operand_safe:
  assumes "safe (operand x m ls) (\<lambda>(v, m', ls'). P ls')"
  shows "safe (integer_operand x m ls) (\<lambda>(v, m', ls'). P ls')"
  unfolding integer_operand_def
  by (rule safe_bindR [OF assms]) (auto simp: structural_traps_def split: Value.split)

lemma terminator_safe:
  assumes "live n S ls" and "D \<subseteq> I" and n: "n = length (fn_locals f)"
    and v: "verify_terminator f b t table D = []"
    and c: "check_terminator_ownership f b t S I = []"
    and callee: "\<And>d args p k. t = Call d args p k \<Longrightarrow> table d \<noteq> None"
  shows "safe (terminator_step t m ls)
    (control_ok table n (consume_terminator t S) (successors t))"
proof (cases t)
  case Return
  then have "0 \<in> S"
    using v c assms(2) by (auto simp: verify_local_use_ok check_read_def split: if_splits)
  then obtain w where "0 < length ls" "ls ! 0 = Some w"
    using live_value [OF assms(1), of 0] by auto
  then show ?thesis
    using Return by (simp add: control_ok_def nth_opt_def)
next
  case (Goto k)
  then show ?thesis using assms(1) by (simp add: control_ok_def)
next
  case (SwitchInt x targets k)
  then obtain S1 where o: "check_operand_ownership f b x S I = (S1, [])"
    using c by (metis check_terminator_ownership.simps(2) prod.collapse)
  have "snd (operand_type f b x D) = []"
    using v SwitchInt by (auto split: prod.splits option.splits)
  from integer_operand_safe [OF operand_safe [OF assms(1,2) this o]]
  show ?thesis
    unfolding SwitchInt terminator_step.simps
    by (rule safe_bindR) (use switch_target_in check_operand_state [OF o] in
        \<open>auto simp: control_ok_def simp del: successors.simps\<close>)
next
  case (Call d args p k)
  then obtain g where g: "table d = Some g" using callee by blast
  obtain S1 where o: "check_operands_ownership f b args S I = (S1, [])"
    using c Call by (metis check_terminator_ownership.simps(3) prod.collapse)
  have len: "length args = unat (parameter_count g)" and a: "verify_arguments f b g D args = []"
    and "snd (place_type f b p) = []"
    using v Call g by (auto simp: Let_def split: prod.splits option.splits if_splits
        simp del: place_type.simps)
  then obtain ty where p: "place_type f b p = (ty, [])" by (metis prod.collapse)
  have t: "\<forall>x \<in> set args. snd (operand_type f b x D) = []"
  proof
    fix x assume "x \<in> set args"
    then obtain i where "i < length args" "args ! i = x" by (auto simp: in_set_conv_nth)
    then have "(i, x) \<in> set (zip [0..<length args] args)"
      by (auto simp: set_zip intro!: exI [of _ i])
    then have "verify_argument f b g D (i, x) = []"
      using a by (auto simp: verify_arguments_def)
    then show "snd (operand_type f b x D) = []"
      by (auto simp: verify_argument_def split: prod.splits)
  qed
  note vs = operand_list_safe [OF assms(1,2) t o, of m]
  show ?thesis
    unfolding Call terminator_step.simps
    by (rule safe_bindR [OF vs])
       (use assign_safe [OF _ p n] g len in
        \<open>auto simp: control_ok_def check_operands_state [OF o, symmetric]\<close>)
qed

lemma block_step_safe:
  assumes "live n S ls" and "D \<subseteq> I" and "n = length (fn_locals f)"
    and i: "i < length (fn_blocks f)" and blk: "blk = fn_blocks f ! i"
    and gen: "\<forall>s \<in> set (statements blk). assigned_statement s {} \<subseteq> I"
    and v: "verify_block f b blk table D = []"
    and c: "check_block_ownership f b blk S I = []"
    and t: "terminator blk = Some t"
    and callee: "\<And>d args p k. t = Call d args p k \<Longrightarrow> table d \<noteq> None"
  shows "safe (block_step f i m ls) (control_ok table n (transfer_block blk S) (successors t))"
proof -
  obtain D1 where v1: "verify_statements f b (statements blk) D = (D1, [])"
    and v2: "verify_terminator f b t table D1 = []"
    using v t by (auto simp: verify_block_def split: prod.splits)
  obtain S1 where c1: "check_statements_ownership f b (statements blk) S I = (S1, [])"
    and c2: "check_terminator_ownership f b t S1 I = []"
    using c t by (auto simp: check_block_ownership_def split: prod.splits)
  have D1: "D1 \<subseteq> I"
  proof -
    have "fold assigned_statement ss D \<subseteq> I" if "\<forall>s \<in> set ss. assigned_statement s {} \<subseteq> I" for ss
      using that assms(2)
    proof (induction ss arbitrary: D)
      case (Cons s ss)
      show ?case
        using Cons.IH [of "assigned_statement s D"] assigned_statement_union [of s D] Cons.prems
        by auto
    qed simp
    then show ?thesis using verify_statements_state [OF v1] gen by simp
  qed
  have T: "transfer_block blk S = consume_terminator t S1"
    using check_statements_state [OF c1] t by (simp add: transfer_block_def)
  note s = statements_safe [OF assms(1-3) gen v1 c1]
  note term_ok = terminator_safe [OF _ D1 assms(3) v2 c2 callee]
  show ?thesis
    using i t unfolding block_step_def T
    by (auto simp: nth_opt_def blk [symmetric]
        intro!: safe_bindR [OF s] safe_bindR [OF safe_tick] term_ok)
qed

section \<open>Verified functions\<close>

lemma verify_functionD:
  assumes "verify_function f table = []"
  shows "fn_locals f \<noteq> []" "fn_blocks f \<noteq> []" "fn_locals f ! 0 = return_type f"
    "unat (parameter_count f) < length (fn_locals f)"
    "verify_targets f table = []" "verify_blocks f table (definite_initialization f) = []"
  using assms by (auto simp: verify_function_def Let_def split: if_splits)

lemma in_zip_enumerate: "i < length xs \<Longrightarrow> (i, xs ! i) \<in> set (zip [0..<length xs] xs)"
  by (auto simp: set_zip intro!: exI [of _ i])

lemma verify_targetsD:
  assumes "verify_targets f table = []" and "i < length (fn_blocks f)"
  shows "\<exists>t. terminator (fn_blocks f ! i) = Some t \<and>
    (\<forall>s \<in> set (successors t). unat s < length (fn_blocks f)) \<and>
    (\<forall>d args p k. t = Call d args p k \<longrightarrow> table d \<noteq> None)"
proof -
  have "verify_target f table (i, fn_blocks f ! i) = []"
    using assms in_zip_enumerate [OF assms(2)] by (auto simp: verify_targets_def)
  then show ?thesis
    by (auto simp: verify_target_def Let_def not_le [symmetric]
        split: option.splits Terminator.splits if_splits)
qed

lemma verify_blocksD:
  assumes "verify_blocks f table inc = []" and "i < length (fn_blocks f)" and "inc ! i = Some D"
  shows "verify_block f (block_id_of i) (fn_blocks f ! i) table D = []"
  using assms in_zip_enumerate [OF assms(2)] by (fastforce simp: verify_blocks_def)

lemma verify_affineD:
  assumes "verify_affine_ownership f = []" and "i < length (fn_blocks f)"
    and "ownership_flow f ! i = Some S"
  shows "check_block_ownership f (block_id_of i) (fn_blocks f ! i) S
    (ever_initialized f (parameters f)) = []"
  using assms in_zip_enumerate [OF assms(2)]
  by (fastforce simp: verify_affine_ownership_def Let_def split: if_splits)

text \<open>Everything a path defines is among the locals the function ever initialises.\<close>

lemma ever_initialized_eq: "ever_initialized f P = P \<union> (\<Union>b \<in> set (fn_blocks f). block_gen b)"
proof -
  have "fold init_transfer bs P = P \<union> (\<Union>b \<in> set bs. block_gen b)" for bs
    by (induction bs arbitrary: P) (auto simp: init_transfer_eq)
  then show ?thesis by (simp add: ever_initialized_def)
qed

lemma reaches_init_path: "reaches f i \<Longrightarrow> \<exists>S. init_path f i S"
  by (induction rule: reaches.induct) (auto intro: init_path.intros)

lemma init_path_ever: "init_path f i S \<Longrightarrow> i < length (fn_blocks f) \<and> S \<subseteq> ever_initialized f (parameters f)"
proof (induction rule: init_path.induct)
  case (through i S s)
  then have "block_gen (fn_blocks f ! i) \<subseteq> ever_initialized f (parameters f)"
    by (auto simp: ever_initialized_eq intro!: bexI [of _ "fn_blocks f ! i"])
  then show ?case using through by (auto simp: init_transfer_eq)
qed (auto simp: ever_initialized_eq)

lemma definite_in_ever:
  assumes "i < length (fn_blocks f)" and "reachable_blocks f ! i"
  shows "\<exists>D. definite_initialization f ! i = Some D \<and> D \<subseteq> ever_initialized f (parameters f)"
proof -
  obtain S where "init_path f i S"
    using reaches_init_path reachable_blocks_iff_reaches assms by blast
  then show ?thesis
    using definite_initialization_sound init_path_ever by blast
qed

lemma statement_gen_ever:
  assumes "i < length (fn_blocks f)" and "s \<in> set (statements (fn_blocks f ! i))"
  shows "assigned_statement s {} \<subseteq> ever_initialized f (parameters f)"
proof -
  have "assigned_statement s {} \<subseteq> fold assigned_statement ss A" if "s \<in> set ss" for ss A
    using that
  proof (induction ss arbitrary: A)
    case (Cons u ss)
    then show ?case
      using fold_assigned_union [of ss "assigned_statement u A"] assigned_statement_union [of u A]
      by auto
  qed simp
  then have "assigned_statement s {} \<subseteq> block_gen (fn_blocks f ! i)"
    using assms(2) assigned_terminator_union [of "terminator (fn_blocks f ! i)"]
    unfolding block_gen_def init_transfer_def by blast
  then show ?thesis
    using assms(1) by (auto simp: ever_initialized_eq intro!: bexI [of _ "fn_blocks f ! i"])
qed

text \<open>The block loop of a verified function starts and continues in live frames.\<close>

definition entered :: "MirFunction \<Rightarrow> nat \<Rightarrow> frame_locals \<Rightarrow> bool" where
  "entered f i ls \<longleftrightarrow> i < length (fn_blocks f) \<and>
     (\<exists>S. ownership_flow f ! i = Some S \<and> live (length (fn_locals f)) S ls)"

lemma verified_block_step:
  assumes v: "verify_function f table = []" and a: "verify_affine_ownership f = []"
    and "entered f i ls"
  shows "safe (block_step f i m ls) (\<lambda>(c, m', ls'). case c of
      Finish v \<Rightarrow> True
    | Continue k \<Rightarrow> entered f (unat k) ls'
    | Invoke d vs p k \<Rightarrow> (\<forall>v. safe (assign p v ls') (entered f (unat k))) \<and>
        (\<exists>g. table d = Some g \<and> length vs = unat (parameter_count g)))"
proof -
  note vf = verify_functionD [OF v]
  obtain S where i: "i < length (fn_blocks f)" and S: "ownership_flow f ! i = Some S"
    and l: "live (length (fn_locals f)) S ls"
    using assms(3) by (auto simp: entered_def)
  have r: "reachable_blocks f ! i"
    using flow_solution_reachable [OF i] S unfolding ownership_flow_eq by blast
  obtain D where D: "definite_initialization f ! i = Some D" "D \<subseteq> ever_initialized f (parameters f)"
    using definite_in_ever [OF i r] by blast
  obtain t where t: "terminator (fn_blocks f ! i) = Some t"
    "\<forall>s \<in> set (successors t). unat s < length (fn_blocks f)"
    "\<And>d args p k. t = Call d args p k \<Longrightarrow> table d \<noteq> None"
    using verify_targetsD [OF vf(5) i] by blast
  have next_ok: "entered f (unat k) ls'"
    if "k \<in> set (successors t)"
      "live (length (fn_locals f)) (transfer_block (fn_blocks f ! i) S) ls'" for k ls'
  proof -
    have k: "k \<in> set (block_successors (fn_blocks f ! i))" "unat k < length (fn_blocks f)"
      using that(1) t(1,2) by (simp_all add: block_successors_def)
    then obtain B where "ownership_flow f ! unat k = Some B"
      "B \<subseteq> transfer_block (fn_blocks f ! i) S"
      using flow_solution_edge [OF i, of False transfer_block S k] S
      unfolding ownership_flow_eq by auto
    then show ?thesis
      using that k(2) live_subset by (auto simp: entered_def)
  qed
  note step = block_step_safe [OF l D(2) refl i refl _ verify_blocksD [OF vf(6) i D(1)]
      verify_affineD [OF a i S] t(1) t(3)]
  show ?thesis
  proof (rule safe_mono [OF step])
    show "\<forall>s \<in> set (statements (fn_blocks f ! i)).
        assigned_statement s {} \<subseteq> ever_initialized f (parameters f)"
      using statement_gen_ever [OF i] by blast
    fix x
    assume "control_ok table (length (fn_locals f)) (transfer_block (fn_blocks f ! i) S)
      (successors t) x"
    then show "case x of (c, m', ls') \<Rightarrow> case c of
        Finish v \<Rightarrow> True
      | Continue k \<Rightarrow> entered f (unat k) ls'
      | Invoke d vs p k \<Rightarrow> (\<forall>v. safe (assign p v ls') (entered f (unat k))) \<and>
          (\<exists>g. table d = Some g \<and> length vs = unat (parameter_count g))"
      by (auto simp: control_ok_def next_ok split: control.splits prod.splits)
         (meson next_ok safe_mono)
  qed auto
qed

section \<open>Calls\<close>

lemma enter_locals_eq:
  assumes "length vs < length (fn_locals f)"
  shows "enter_locals f vs =
    Inr (None # map Some vs @ replicate (length (fn_locals f) - Suc (length vs)) None)"
proof -
  have "fold (\<lambda>(i, a) ls. ls[i + 1 := Some a]) (zip [k..<k + length vs] vs)
      (ps @ replicate n None) = ps @ map Some vs @ replicate (n - length vs) None"
    if "length vs \<le> n" "length ps = Suc k" for k n ps and vs :: "Value list"
    using that
  proof (induction vs arbitrary: k n ps)
    case Nil
    then show ?case by simp
  next
    case (Cons v vs)
    then obtain n' where n: "n = Suc n'" by (cases n) auto
    have "zip [k..<k + length (v # vs)] (v # vs) = (k, v) # zip [Suc k..<Suc k + length vs] vs"
      by (simp add: upt_rec)
    then show ?case
      using Cons.IH [of n' "ps @ [Some v]" "Suc k"] Cons.prems n
      by (simp add: list_update_append)
  qed
  from this [of vs "length (fn_locals f) - 1" "[None]" 0]
  show ?thesis
    using assms by (cases "fn_locals f") (auto simp: enter_locals_def Let_def)
qed

lemma enter_safe:
  assumes "m_functions m d = Some g" and "verify_function g table = []"
    and "length vs = unat (parameter_count g)"
  shows "safe (enter m d vs k) (\<lambda>(g', ls). g' = g \<and> entered g 0 ls)"
proof -
  note vg = verify_functionD [OF assms(2)]
  let ?ls = "None # map Some vs @ replicate (length (fn_locals g) - Suc (length vs)) None"
  obtain A where A: "ownership_flow g ! 0 = Some A" "A \<subseteq> parameters g"
    using flow_solution_entry [OF vg(2)] unfolding ownership_flow_eq by blast
  have "live (length (fn_locals g)) (parameters g) ?ls"
    using assms(3) vg(4)
    by (auto simp: live_def in_parameters_iff nth_Cons nth_append split: nat.splits)
  then have "entered g 0 ?ls"
    using A vg(2) live_subset by (auto simp: entered_def)
  then show ?thesis
    using assms(1,3) vg(4) enter_locals_eq [of vs g] by (simp add: enter_def)
qed

lemma call_loop_safe:
  assumes "\<And>d g. table d = Some g \<Longrightarrow> verify_function g table = [] \<and> verify_affine_ownership g = []"
    and "verify_function f table = []" and "verify_affine_ownership f = []"
    and "entered f i ls" and "m_functions m = table"
    and "call_loop fuel f i ls d m = Some (Inl e)"
  shows "\<not> stuck e"
  using assms(2-)
proof (induction fuel arbitrary: f i ls d m)
  case 0
  then show ?case by simp
next
  case (Suc fuel)
  note ok = verified_block_step [OF Suc.prems(1-3), of m]
  show ?case
  proof (cases "block_step f i m ls")
    case (Inl e')
    then show ?thesis using ok Suc.prems(5) by simp
  next
    case (Inr r)
    obtain c m1 ls1 where r: "r = (c, m1, ls1)" by (cases r)
    note step = Inr [unfolded r]
    have m1: "m_functions m1 = table"
      using block_step_advances [OF step] Suc.prems(4) by (simp add: advances_def)
    show ?thesis
    proof (cases c)
      case (Finish v)
      then show ?thesis using step Suc.prems(5) by simp
    next
      case (Continue k)
      then show ?thesis
        using step ok Suc.prems(1,2,5) Suc.IH [OF Suc.prems(1,2) _ m1] by simp
    next
      case (Invoke callee vs p k)
      then obtain g where g: "table callee = Some g" "length vs = unat (parameter_count g)"
        and asg: "\<And>v. safe (assign p v ls1) (entered f (unat k))"
        using ok step by auto
      note vg = assms(1) [OF g(1)]
      have en: "safe (enter m1 callee vs (saturating_add d 1)) (\<lambda>(g', ls). g' = g \<and> entered g 0 ls)"
        using enter_safe g m1 vg by blast
      show ?thesis
      proof (cases "enter m1 callee vs (saturating_add d 1)")
        case (Inl e')
        then show ?thesis using en step Invoke Suc.prems(5) by simp
      next
        case (Inr gl)
        then obtain gls where gl: "gl = (g, gls)" "entered g 0 gls" using en by (cases gl) auto
        note callee_ok = Suc.IH [OF vg [THEN conjunct1] vg [THEN conjunct2] gl(2) m1]
        have resume: "\<not> stuck e"
          if "call_loop fuel g 0 gls (saturating_add d 1) m1 = Some (Inr (v, m2))"
            "assign p v ls1 = Inr ls2" "call_loop fuel f (unat k) ls2 d m2 = Some (Inl e)" for v m2 ls2
        proof -
          have "m_functions m2 = table"
            using call_loop_advances [OF that(1)] m1 by (simp add: advances_def)
          then show ?thesis
            using Suc.IH [OF Suc.prems(1,2) safe_Inr [OF asg that(2)] _ that(3)] by blast
        qed
        show ?thesis
          using step Invoke Inr gl(1) Suc.prems(5) callee_ok safe_Inl [OF asg]
          by (auto split: sum.splits option.splits) (use resume in blast)
      qed
    qed
  qed
qed

lemma verifyD:
  assumes "verify p = Inr ()" and "f \<in> set (program_functions p)"
  shows "verify_function f (function_table p) = []" "verify_affine_ownership f = []"
  using assms by (auto simp: verify_def Let_def split: if_splits)

lemma execute_not_stuck:
  assumes "verify p = Inr ()" and "function_table p d = Some f" and "parameter_count f = 0"
    and "execute fuel p d limits = Some (Inl e)"
  shows "\<not> stuck e"
proof -
  let ?m = "initial_machine p limits"
  have tab: "verify_function g (function_table p) = [] \<and> verify_affine_ownership g = []"
    if "function_table p d' = Some g" for d' g
    using verifyD [OF assms(1)] function_table_in [OF that] by blast
  have en: "safe (enter ?m d [] 1) (\<lambda>(g, ls). g = f \<and> entered f 0 ls)"
    using enter_safe [of ?m d f "function_table p" "[]" 1] assms(2,3) tab
    by (simp add: initial_machine_def)
  have "call fuel ?m d [] 1 = Some (Inl e)"
    using assms(1,4) by (auto simp: execute_def split: sum.splits option.splits)
  then show ?thesis
    using en call_loop_safe [where table = "function_table p" and f = f and m = ?m, OF tab] tab [OF assms(2)]
    by (auto simp: call_def initial_machine_def split: sum.splits)
qed

text \<open>
  C2. Progress for verified programs: when the verifier accepts a program, the entry function
  takes no parameters, the instruction limit is below \<open>u64::MAX\<close> and the fuel above that limit,
  every run ends, either with a result or with an error that is not stuck. It never panics, never
  misses a block, a function or an argument, and never reads, moves, drops or returns an empty
  local. The base of a field write is not among these, nor is the type an operator works on: the
  two theorems below show verified programs that trap there.
\<close>

theorem verified_execution_safe:
  assumes "verify p = Inr ()" and "function_table p d = Some f" and "parameter_count f = 0"
    and "max_instructions limits < - 1" and "unat (max_instructions limits) < fuel"
  shows "\<exists>r. execute fuel p d limits = Some r \<and> (case r of Inl e \<Rightarrow> \<not> stuck e | Inr _ \<Rightarrow> True)"
  using execute_returns [OF assms(4,5), of p d] execute_not_stuck [OF assms(1-3)]
  by (auto split: sum.split)

theorem verified_execution_safe_witness:
  "\<exists>r. execute 20 demo_program main_id small_limits = Some r
     \<and> (case r of Inl e \<Rightarrow> \<not> stuck e | Inr _ \<Rightarrow> True)"
  by (rule verified_execution_safe [OF verify_demo demo_table])
     (simp_all add: main_function_def small_limits_def)

text \<open>
  The verifier does not track whether the base of a field write holds a value: it accepts a
  program that writes a field of an aggregate that was never built, and the interpreter traps on
  it with an error that is not about the program's data.
\<close>

theorem field_write_unchecked:
  "verify empty_field_program = Inr () \<and>
   execute 20 empty_field_program main_id default_limits = Some (Inl (Trap ''field base is empty''))"
  by (rule conjI; code_simp)

text \<open>
  The verifier checks that both operands of an operator have one type, not that the operator
  is defined for it: it accepts the sum of two booleans, which the interpreter refuses.
\<close>

theorem operator_type_unchecked:
  "verify bool_sum_program = Inr () \<and>
   execute 20 bool_sum_program main_id default_limits =
     Some (Inl (Trap ''binary operand types are invalid''))"
  by (rule conjI; code_simp)

end
