(* ===== verification/Mir_Typing.thy ===== *)
theory Mir_Typing
  imports Mir_Safety
begin

text \<open>
  Type soundness of verified MIR. The verifier does not type field projections: a borrow of a
  field has no type at all, so its destination is unchecked. Programs that borrow whole locals
  only, the form the compiler's lowering emits, keep every local at its declared type, and a
  call returns a value of the declared result type.
\<close>

section \<open>Values and their types\<close>

fun has_type :: "Value \<Rightarrow> MirType \<Rightarrow> bool" where
  "has_type (VReference v) (TyReference is_mut t) = has_type v t"
| "has_type VUnit TyUnit = True"
| "has_type (VBool b) TyBool = True"
| "has_type (VI64 i) TyI64 = True"
| "has_type (VU64 n) TyU64 = True"
| "has_type (VString s) TyString = True"
| "has_type (VAggregate d vs) (TyAggregate ty) = True"
| "has_type v t = False"

fun runtime_has_type :: "RuntimeValue \<Rightarrow> MirType \<Rightarrow> bool" where
  "runtime_has_type (RReference v) (TyReference is_mut t) = runtime_has_type v t"
| "runtime_has_type RUnit TyUnit = True"
| "runtime_has_type (RBool b) TyBool = True"
| "runtime_has_type (RI64 i) TyI64 = True"
| "runtime_has_type (RU64 n) TyU64 = True"
| "runtime_has_type (RString s) TyString = True"
| "runtime_has_type (RAggregate vs) (TyAggregate ty) = True"
| "runtime_has_type v t = False"

lemma into_runtime_type: "has_type v t \<Longrightarrow> runtime_has_type (into_runtime v) t"
  by (induction v t rule: has_type.induct) auto

lemma has_type_simps [simp]:
  "has_type v TyUnit \<longleftrightarrow> v = VUnit"
  "has_type v TyBool \<longleftrightarrow> (\<exists>b. v = VBool b)"
  "has_type v TyI64 \<longleftrightarrow> (\<exists>i. v = VI64 i)"
  "has_type v TyU64 \<longleftrightarrow> (\<exists>n. v = VU64 n)"
  "has_type v TyString \<longleftrightarrow> (\<exists>s. v = VString s)"
  "has_type v (TyAggregate ty) \<longleftrightarrow> (\<exists>d vs. v = VAggregate d vs)"
  by (cases v; simp)+

lemma has_type_inv:
  "has_type (VU64 n) t \<longleftrightarrow> t = TyU64" "has_type (VI64 i) t \<longleftrightarrow> t = TyI64"
  "has_type (VBool b) t \<longleftrightarrow> t = TyBool" "has_type (VAggregate d vs) t \<longleftrightarrow> (\<exists>ty. t = TyAggregate ty)"
  by (cases t; simp)+

text \<open>Programs that borrow whole locals only.\<close>

fun whole_borrow :: "Statement \<Rightarrow> bool" where
  "whole_borrow (Assign p (Borrow is_mut (PField base field))) = False"
| "whole_borrow s = True"

definition whole_borrows :: "MirProgram \<Rightarrow> bool" where
  "whole_borrows p \<longleftrightarrow>
     (\<forall>f \<in> set (program_functions p). \<forall>b \<in> set (fn_blocks f). \<forall>s \<in> set (statements b).
        whole_borrow s)"

definition conforms :: "MirFunction \<Rightarrow> frame_locals \<Rightarrow> bool" where
  "conforms f ls \<longleftrightarrow> length ls = length (fn_locals f) \<and>
     (\<forall>k v. k < length ls \<longrightarrow> ls ! k = Some v \<longrightarrow> has_type v (fn_locals f ! k))"

lemma conforms_clear: "conforms f ls \<Longrightarrow> conforms f (ls[k := None])"
  by (cases "k < length ls") (auto simp: conforms_def nth_list_update list_update_beyond)

lemma conforms_put:
  "conforms f ls \<Longrightarrow> has_type v (fn_locals f ! k) \<Longrightarrow> conforms f (ls[k := Some v])"
  by (cases "k < length ls") (auto simp: conforms_def nth_list_update list_update_beyond)

lemma conforms_local:
  "conforms f ls \<Longrightarrow> local_value ls l = Inr v \<Longrightarrow>
     unat l < length ls \<and> ls ! unat l = Some v \<and> has_type v (fn_locals f ! unat l)"
  by (auto simp: conforms_def local_value_def nth_opt_def bind_eq_Some_conv split: if_splits)

section \<open>Preservation\<close>

lemma operand_typed:
  assumes "conforms f ls" and "operand_type f b x D = (Some t, e)"
    and "operand x m ls = Inr (v, m', ls')"
  shows "has_type v t \<and> conforms f ls'"
proof (cases x)
  case (OpConstant c)
  then show ?thesis using assms by (cases c) auto
next
  case (OpCopy l)
  then show ?thesis using assms conforms_local [OF assms(1)] by (auto split: if_splits)
next
  case (OpMove l)
  then show ?thesis
    using assms
    by (auto simp: local_value_mut_def nth_opt_def conforms_clear split: if_splits)
       (auto simp: conforms_def)
qed

lemma operand_list_conforms:
  assumes "conforms f ls" and "\<forall>x \<in> set xs. \<exists>t. operand_type f b x D = (Some t, [])"
    and "operand_list xs m ls = Inr (vs, m', ls')"
  shows "conforms f ls' \<and> length vs = length xs \<and>
    (\<forall>i < length xs. \<exists>t. operand_type f b (xs ! i) D = (Some t, []) \<and> has_type (vs ! i) t)"
  using assms
proof (induction xs arbitrary: m ls vs)
  case Nil
  then show ?case by simp
next
  case (Cons x xs)
  then obtain v m1 ls1 vs' where x: "operand x m ls = Inr (v, m1, ls1)"
    and xs: "operand_list xs m1 ls1 = Inr (vs', m', ls')" and vs: "vs = v # vs'"
    by auto
  obtain t where t: "operand_type f b x D = (Some t, [])" using Cons.prems(2) by auto
  have v: "has_type v t" "conforms f ls1"
    using operand_typed [OF Cons.prems(1) t x] by auto
  show ?case
    using Cons.IH [OF v(2) _ xs] Cons.prems(2) v(1) t vs
    by (auto simp: nth_Cons split: nat.splits)
qed

lemma binary_typed:
  assumes "binary op a c = Inr v" and "has_type a t"
    and "t' = (case op of Equal \<Rightarrow> TyBool | Less \<Rightarrow> TyBool | And \<Rightarrow> TyBool | Or \<Rightarrow> TyBool | _ \<Rightarrow> t)"
  shows "has_type v t'"
  using assms
  by (auto simp: binary_def binary_u64_def binary_i64_def has_type_inv
      split: Value.splits BinaryOp.splits if_splits)

lemma verify_binary_type:
  assumes "verify_rvalue f b (Binary op x y) D = (Some t', [])"
  obtains t u where "operand_type f b x D = (Some t, [])" "operand_type f b y D = (Some u, [])"
    "t' = (case op of Equal \<Rightarrow> TyBool | Less \<Rightarrow> TyBool | And \<Rightarrow> TyBool | Or \<Rightarrow> TyBool | _ \<Rightarrow> t)"
proof -
  have "snd (operand_type f b x D) = []" "snd (operand_type f b y D) = []"
    using verify_binary_operands [of f b op x y D] assms by auto
  then obtain t u where "operand_type f b x D = (Some t, [])" "operand_type f b y D = (Some u, [])"
    using operand_type_ok by metis
  then show thesis
    using that assms by (cases op) (auto simp: Let_def split: if_splits)
qed

lemma rvalue_typed:
  assumes "conforms f ls" and "snd (verify_rvalue f b r D) = []"
    and "whole_borrow (Assign p r)" and "rvalue r m ls = Inr (v, m', ls')"
  shows "\<exists>t. fst (verify_rvalue f b r D) = Some t \<and> has_type v t \<and> conforms f ls'"
proof (cases r)
  case (Borrow is_mut q)
  then obtain l where q: "q = PLocal l" using assms(3) by (cases q) auto
  then obtain w where "local_value ls l = Inr w" "v = VReference w" "ls' = ls"
    using assms(4) Borrow by (auto simp: read_place_def)
  then show ?thesis
    using Borrow q assms(1,2) conforms_local [OF assms(1), of l w]
    by (auto simp: verify_local_use_ok nth_opt_def split: prod.splits)
next
  case (Use x)
  then show ?thesis
    using assms operand_type_ok [of f b x D] operand_typed [OF assms(1)] by auto
next
  case (Discriminant x)
  then obtain a m1 ls1 where x: "operand x m ls = Inr (a, m1, ls1)" using assms(4) by auto
  obtain t where "operand_type f b x D = (Some t, [])"
    using operand_type_ok [of f b x D] assms(2) Discriminant by auto
  with operand_typed [OF assms(1) this x] show ?thesis
    using x assms(4) Discriminant by (auto split: Value.split_asm)
next
  case (Aggregate ty d xs)
  then have "\<forall>x \<in> set xs. \<exists>t. operand_type f b x D = (Some t, [])"
    using assms(2) operand_type_ok by auto
  then show ?thesis
    using assms(4) Aggregate operand_list_conforms [OF assms(1)] by auto
next
  case (Binary op x y)
  then obtain a m1 ls1 c where o: "operand x m ls = Inr (a, m1, ls1)"
    "operand y m1 ls1 = Inr (c, m', ls')" "binary op a c = Inr v"
    using assms(4) by auto
  have "snd (operand_type f b x D) = []" "snd (operand_type f b y D) = []"
    using verify_binary_operands assms(2) Binary by blast+
  then obtain t u where t: "operand_type f b x D = (Some t, [])" "operand_type f b y D = (Some u, [])"
    using operand_type_ok by metis
  then obtain t' where t': "verify_rvalue f b r D = (Some t', [])"
    using assms(2) Binary by (cases op) (auto simp: Let_def split: if_splits)
  have "has_type a t" "conforms f ls1" using operand_typed [OF assms(1) t(1) o(1)] by auto
  moreover have "conforms f ls'" using operand_typed [OF \<open>conforms f ls1\<close> t(2) o(2)] by auto
  ultimately show ?thesis
    using t' verify_binary_type [of f b op x y D t'] binary_typed [OF o(3)] t(1) Binary
    by (metis Pair_inject fst_conv option.inject)
qed

lemma assign_typed:
  assumes "conforms f ls" and "assign p v ls = Inr ls'"
    and "\<And>l. p = PLocal l \<Longrightarrow> has_type v (fn_locals f ! unat l)"
  shows "conforms f ls'"
proof (cases p)
  case (PLocal l)
  then show ?thesis using assms by (auto simp: assign_def intro: conforms_put)
next
  case (PField l k)
  then obtain d vs where "field_base l k ls = Inr (d, vs)"
    and ls': "ls' = ls[unat l := Some (VAggregate d (vs[unat k := v]))]"
    using assms(2) by (auto simp: assign_def)
  then have "unat l < length ls" "ls ! unat l = Some (VAggregate d vs)"
    by (auto simp: field_base_def local_value_mut_def nth_opt_def)
       (auto split: if_splits Value.split_asm)
  then have "has_type (VAggregate d vs) (fn_locals f ! unat l)"
    using assms(1) by (auto simp: conforms_def)
  then show ?thesis
    unfolding ls' by (intro conforms_put [OF assms(1)]) (simp add: has_type_inv)
qed

lemma drop_typed:
  assumes "conforms f ls" and "drop_place p m ls = Inr (m', ls')"
  shows "conforms f ls'"
proof (cases p)
  case (PLocal l)
  then show ?thesis
    using assms by (auto simp: drop_place_def Let_def conforms_clear)
next
  case (PField l k)
  then have "assign p VUnit ls = Inr ls'"
    using assms(2) by (auto simp: drop_place_def assign_def Let_def)
  then show ?thesis using assign_typed [OF assms(1)] PField by blast
qed

lemma statement_typed:
  assumes "conforms f ls" and "verify_statement f b s D = (D', [])" and "whole_borrow s"
    and "execute_statement s m ls = Inr (m', ls')"
  shows "conforms f ls'"
proof (cases s)
  case (Assign p r)
  obtain v m1 ls1 where r: "rvalue r m ls = Inr (v, m1, ls1)" and a: "assign p v ls1 = Inr ls'"
    using assms(4) Assign by auto
  have "snd (verify_rvalue f b r D) = []"
    using assms(2) Assign by (auto simp: Let_def split: prod.splits option.splits
        simp del: place_type.simps)
  then obtain t where t: "verify_rvalue f b r D = (Some t, [])" "has_type v t" "conforms f ls1"
    using rvalue_typed [OF assms(1) _ _ r] assms(3) Assign by (metis prod.collapse)
  have "has_type v (fn_locals f ! unat l)" if "p = PLocal l" for l
    using assms(2) Assign t(1,2) that
    by (auto simp: Let_def nth_opt_def split: if_splits)
  then show ?thesis using assign_typed [OF t(3) a] by blast
next
  case (Drop p)
  then show ?thesis using drop_typed [OF assms(1)] assms(4) by auto
qed

lemma statements_typed:
  assumes "conforms f ls" and "verify_statements f b ss D = (D', [])"
    and "\<forall>s \<in> set ss. whole_borrow s" and "execute_statements ss m ls = Inr (m', ls')"
  shows "conforms f ls'"
  using assms
proof (induction ss arbitrary: D m ls)
  case Nil
  then show ?case by simp
next
  case (Cons s ss)
  obtain D1 where v: "verify_statement f b s D = (D1, [])" "verify_statements f b ss D1 = (D', [])"
    using verify_statements_Cons [OF Cons.prems(2)] .
  obtain m1 m2 ls2 where e: "execute_statement s m1 ls = Inr (m2, ls2)"
    "execute_statements ss m2 ls2 = Inr (m', ls')"
    using Cons.prems(4) by auto
  show ?case
    using statement_typed [OF Cons.prems(1) v(1) _ e(1)] Cons.IH [OF _ v(2) _ e(2)] Cons.prems(3)
    by simp
qed

section \<open>Blocks and calls\<close>

text \<open>
  What a typed block hands to the loop: a return value of the declared type, a conforming frame,
  or arguments and a destination that fit the callee.
\<close>

definition control_typed ::
  "(DefId \<rightharpoonup> MirFunction) \<Rightarrow> MirFunction \<Rightarrow> BlockId list \<Rightarrow> control \<Rightarrow> frame_locals \<Rightarrow> bool" where
  "control_typed table f targets c ls \<longleftrightarrow>
     (case c of
        Finish v \<Rightarrow> has_type v (return_type f)
      | Continue k \<Rightarrow> k \<in> set targets \<and> conforms f ls
      | Invoke d vs p k \<Rightarrow> k \<in> set targets \<and> conforms f ls \<and>
          (\<forall>g. table d = Some g \<longrightarrow>
             (\<forall>i < length vs. i + 1 < length (fn_locals g)
                \<longrightarrow> has_type (vs ! i) (fn_locals g ! (i + 1))) \<and>
             (\<forall>l. p = PLocal l \<longrightarrow> fn_locals f ! unat l = return_type g)))"

lemma verify_argumentsD:
  assumes "verify_arguments f b g D args = []" and "i < length args"
  shows "\<exists>t. operand_type f b (args ! i) D = (Some t, []) \<and>
    (i + 1 < length (fn_locals g) \<longrightarrow> t = fn_locals g ! (i + 1))"
proof -
  have "verify_argument f b g D (i, args ! i) = []"
    using assms(1) in_zip_enumerate [OF assms(2)] by (auto simp: verify_arguments_def)
  then show ?thesis
    using operand_type_ok [of f b "args ! i" D]
    by (auto simp: verify_argument_def nth_opt_def split: prod.splits if_splits)
qed

lemma terminator_typed:
  assumes "conforms f ls" and "verify_terminator f b t table D = []"
    and "fn_locals f ! 0 = return_type f"
    and callee: "\<And>d args p k. t = Call d args p k \<Longrightarrow> table d \<noteq> None"
    and "terminator_step t m ls = Inr (c, m', ls')"
  shows "control_typed table f (successors t) c ls'"
proof (cases t)
  case Return
  then show ?thesis
    using assms by (auto simp: control_typed_def conforms_def) (metis length_greater_0_conv)
next
  case (Goto k)
  then show ?thesis using assms by (auto simp: control_typed_def)
next
  case (SwitchInt x targets k)
  then obtain n where n: "integer_operand x m ls = Inr (n, m', ls')"
    and c: "c = Continue (switch_target n targets k)"
    using assms(5) by auto
  then obtain a m1 ls1 where o: "operand x m ls = Inr (a, m1, ls1)"
    by (auto simp: integer_operand_def)
  then have "ls1 = ls'"
    using n by (auto simp: integer_operand_def split: Value.split_asm if_splits)
  moreover have "snd (operand_type f b x D) = []"
    using assms(2) SwitchInt by (auto split: prod.splits option.splits)
  ultimately have "conforms f ls'"
    using operand_typed [OF assms(1) _ o] operand_type_ok by metis
  then show ?thesis
    using c SwitchInt switch_target_in by (simp add: control_typed_def del: successors.simps)
next
  case (Call d args p k)
  then obtain g where g: "table d = Some g" using callee by blast
  obtain vs where vs: "operand_list args m ls = Inr (vs, m', ls')" and c: "c = Invoke d vs p k"
    using assms(5) Call by auto
  have a: "verify_arguments f b g D args = []"
    and dest: "\<And>l. p = PLocal l \<Longrightarrow> fn_locals f ! unat l = return_type g"
    using assms(2) Call g
    by (auto simp: Let_def nth_opt_def split: prod.splits option.splits if_splits)
  have "\<forall>x \<in> set args. \<exists>t. operand_type f b x D = (Some t, [])"
    using verify_argumentsD [OF a] by (fastforce simp: in_set_conv_nth)
  note vs' = operand_list_conforms [OF assms(1) this vs]
  have "has_type (vs ! i) (fn_locals g ! (i + 1))"
    if "i < length vs" "i + 1 < length (fn_locals g)" for i
    using vs' verify_argumentsD [OF a, of i] that by fastforce
  then show ?thesis
    using Call c g vs' dest by (simp add: control_typed_def)
qed

lemma typed_block_step:
  assumes v: "verify_function f table = []" and i: "i < length (fn_blocks f)"
    and r: "reachable_blocks f ! i" and "conforms f ls"
    and w: "\<forall>s \<in> set (statements (fn_blocks f ! i)). whole_borrow s"
    and step: "block_step f i m ls = Inr (c, m', ls')"
  shows "control_typed table f (block_successors (fn_blocks f ! i)) c ls'"
proof -
  note vf = verify_functionD [OF v]
  obtain D where D: "definite_initialization f ! i = Some D"
    using definite_in_ever [OF i r] by blast
  obtain t where t: "terminator (fn_blocks f ! i) = Some t"
    "\<And>d args p k. t = Call d args p k \<Longrightarrow> table d \<noteq> None"
    using verify_targetsD [OF vf(5) i] by blast
  obtain D1 where v1: "verify_statements f (block_id_of i) (statements (fn_blocks f ! i)) D = (D1, [])"
    and v2: "verify_terminator f (block_id_of i) t table D1 = []"
    using verify_blocksD [OF vf(6) i D] t(1) by (auto simp: verify_block_def split: prod.splits)
  obtain m1 ls1 m2 where "execute_statements (statements (fn_blocks f ! i)) m ls = Inr (m1, ls1)"
    and e2: "terminator_step t m2 ls1 = Inr (c, m', ls')"
    using step t(1) i by (auto simp: block_step_def)
  then have "conforms f ls1" using statements_typed [OF assms(4) v1 w] by blast
  then show ?thesis
    using terminator_typed [OF _ v2 vf(3) t(2) e2] t(1) by (simp add: block_successors_def)
qed

lemma enter_typed:
  assumes "enter m d vs k = Inr (g, ls)" and "verify_function g table = []"
    and "m_functions m d = Some g'"
    and "\<forall>i < length vs. i + 1 < length (fn_locals g') \<longrightarrow> has_type (vs ! i) (fn_locals g' ! (i + 1))"
  shows "g = g' \<and> conforms g ls"
proof -
  have g: "g = g'" "length vs = unat (parameter_count g)" and e: "enter_locals g vs = Inr ls"
    using assms(1,3) by (auto simp: enter_def split: if_splits)
  have "length vs < length (fn_locals g)" using g verify_functionD(4) [OF assms(2)] by simp
  then have "ls = None # map Some vs @ replicate (length (fn_locals g) - Suc (length vs)) None"
    using e enter_locals_eq by auto
  then show ?thesis
    using assms(4) g \<open>length vs < length (fn_locals g)\<close>
    by (auto simp: conforms_def nth_Cons nth_append split: nat.splits if_splits)
qed

lemma call_loop_typed:
  assumes tab: "\<And>d g. table d = Some g \<Longrightarrow> verify_function g table = [] \<and>
      (\<forall>b \<in> set (fn_blocks g). \<forall>s \<in> set (statements b). whole_borrow s)"
    and "verify_function f table = []"
    and "\<forall>b \<in> set (fn_blocks f). \<forall>s \<in> set (statements b). whole_borrow s"
    and "i < length (fn_blocks f)" and "reachable_blocks f ! i" and "conforms f ls"
    and "m_functions m = table" and "call_loop fuel f i ls d m = Some (Inr (v, m'))"
  shows "has_type v (return_type f)"
  using assms(2-)
proof (induction fuel arbitrary: f i ls d m v m')
  case 0
  then show ?case by simp
next
  case (Suc fuel)
  obtain c m1 ls1 where step: "block_step f i m ls = Inr (c, m1, ls1)"
    using Suc.prems(7) by (auto split: sum.splits)
  have w: "\<forall>s \<in> set (statements (fn_blocks f ! i)). whole_borrow s"
    using Suc.prems(2,3) by auto
  note typed = typed_block_step [OF Suc.prems(1,3,4,5) w step]
  have m1: "m_functions m1 = table"
    using block_step_advances [OF step] Suc.prems(6) by (simp add: advances_def)
  have succ: "unat k < length (fn_blocks f) \<and> reachable_blocks f ! unat k"
    if "k \<in> set (block_successors (fn_blocks f ! i))" for k
    using verify_targetsD [OF verify_functionD(5) [OF Suc.prems(1)] Suc.prems(3)] that
      reachable_blocks_edge [OF Suc.prems(3,4) that] by (auto simp: block_successors_def)
  show ?case
  proof (cases c)
    case (Finish w)
    then show ?thesis using step typed Suc.prems(7) by (auto simp: control_typed_def)
  next
    case (Continue k)
    then have "k \<in> set (block_successors (fn_blocks f ! i))" "conforms f ls1"
      "call_loop fuel f (unat k) ls1 d m1 = Some (Inr (v, m'))"
      using step typed Suc.prems(7) by (auto simp: control_typed_def)
    then show ?thesis
      using succ Suc.IH [OF Suc.prems(1,2) _ _ _ m1] by blast
  next
    case (Invoke e vs p k)
    then obtain g gls w m2 ls2 where en: "enter m1 e vs (saturating_add d 1) = Inr (g, gls)"
      and c1: "call_loop fuel g 0 gls (saturating_add d 1) m1 = Some (Inr (w, m2))"
      and a: "assign p w ls1 = Inr ls2"
      and c2: "call_loop fuel f (unat k) ls2 d m2 = Some (Inr (v, m'))"
      using step Suc.prems(7) by (auto split: sum.splits option.splits)
    have g: "table e = Some g" using en m1 by (auto simp: enter_def split: if_splits)
    note vg = tab [OF g]
    have k: "k \<in> set (block_successors (fn_blocks f ! i))" and ls1: "conforms f ls1"
      and args: "\<forall>i < length vs. i + 1 < length (fn_locals g)
        \<longrightarrow> has_type (vs ! i) (fn_locals g ! (i + 1))"
      and dest: "\<And>l. p = PLocal l \<Longrightarrow> fn_locals f ! unat l = return_type g"
      using typed Invoke g by (auto simp: control_typed_def)
    have "conforms g gls"
      using enter_typed [OF en _ _ args] vg g m1 by auto
    then have "has_type w (return_type g)"
      using Suc.IH [OF vg [THEN conjunct1] vg [THEN conjunct2] _ _ _ m1 c1] vg
        reachable_blocks_entry verify_functionD(2) by blast
    then have "conforms f ls2"
      using assign_typed [OF ls1 a] dest by metis
    moreover have "m_functions m2 = table"
      using call_loop_advances [OF c1] m1 by (simp add: advances_def)
    ultimately show ?thesis
      using Suc.IH [OF Suc.prems(1,2) _ _ _ _ c2] succ [OF k] by blast
  qed
qed

lemma execute_typed:
  assumes "whole_borrows p" and "function_table p d = Some f"
    and "execute fuel p d limits = Some (Inr res)"
  shows "runtime_has_type (result_value res) (return_type f)"
  using assms(3)
proof (rule execute_InrE)
  fix v m g ls
  assume *: "verify p = Inr ()" "enter (initial_machine p limits) d [] 1 = Inr (g, ls)"
    "call_loop fuel g 0 ls 1 (initial_machine p limits) = Some (Inr (v, m))"
    "res = \<lparr>result_value = into_runtime v, result_stdout = m_stdout m,
              result_drops = m_drops_executed m\<rparr>"
  have g: "g = f" using *(2) assms(2) by (auto simp: enter_def initial_machine_def split: if_splits)
  have tab: "verify_function h (function_table p) = []
      \<and> (\<forall>b \<in> set (fn_blocks h). \<forall>s \<in> set (statements b). whole_borrow s)"
    if "function_table p e = Some h" for e h
    using verifyD [OF *(1)] function_table_in [OF that] assms(1) by (auto simp: whole_borrows_def)
  have "conforms f ls"
    using enter_typed [OF *(2)] tab assms(2) g by (auto simp: initial_machine_def)
  then have "has_type v (return_type f)"
    using call_loop_typed [OF tab _ _ _ _ _ _ *(3)] tab [OF assms(2)] g
      verify_functionD(2) [of f "function_table p"] reachable_blocks_entry [of f]
    by (simp add: initial_machine_def)
  then show ?thesis using *(4) by (simp add: into_runtime_type)
qed

text \<open>
  C3. Type soundness: when a verified program borrows whole locals only, the value a completed
  run reports has the result type the entry function declares.
\<close>

theorem execute_result_typed:
  assumes "whole_borrows p" and "function_table p d = Some f"
    and "execute fuel p d limits = Some (Inr res)"
  shows "runtime_has_type (result_value res) (return_type f)"
  by (rule execute_typed [OF assms])

theorem execute_result_typed_witness:
  "\<exists>res. execute 20 demo_program main_id small_limits = Some (Inr res)
     \<and> runtime_has_type (result_value res) (return_type main_function)"
proof -
  have "whole_borrows demo_program" by code_simp
  from execute_result_typed [OF this demo_table execute_demo] execute_demo show ?thesis by blast
qed

text \<open>
  The restriction to whole borrows is needed: a borrow of a field has no type for the
  verifier, so it accepts a program declared to return an unsigned integer that returns a
  reference to a boolean.
\<close>

theorem field_borrow_untyped:
  "verify field_borrow_program = Inr () \<and>
   (\<exists>res. execute 20 field_borrow_program main_id default_limits = Some (Inr res)
      \<and> \<not> runtime_has_type (result_value res) TyU64)"
proof -
  have "execute 20 field_borrow_program main_id default_limits =
      Some (Inr \<lparr>result_value = RReference (RBool True), result_stdout = [], result_drops = 1\<rparr>)"
    by code_simp
  moreover have "verify field_borrow_program = Inr ()" by code_simp
  ultimately show ?thesis by simp
qed

end
