(* ===== verification/Mir_Lower.thy ===== *)
theory Mir_Lower
  imports Hir Mir_Typing
begin

text \<open>
  The lowering of typed HIR to MIR of \<open>crates/syllog-compiler/src/mir_lower.rs\<close>. The methods of
  \<open>FunctionBuilder\<close> pass the builder state explicitly. A diagnostic keeps the value its message
  renders (a type, a verification error) instead of the rendered text. Block and local numbers
  come from \<open>u32::try_from(len).unwrap_or(u32::MAX)\<close>; with fewer than \<open>2^32\<close> blocks the current
  block always exists, so the indexing of \<open>current_block\<close> does not panic.
\<close>

section \<open>Diagnostics\<close>

datatype MirMessage =
    MsgText string
  | MsgUnsupportedType ResolvedType
  | MsgVerification VerificationError

record MirDiagnostic =
  mird_code :: string
  mird_message :: MirMessage
  mird_span :: Span

definition mir_diagnostic :: "Span \<Rightarrow> string \<Rightarrow> MirMessage \<Rightarrow> MirDiagnostic" where
  "mir_diagnostic sp code message = \<lparr>mird_code = code, mird_message = message, mird_span = sp\<rparr>"

section \<open>Drop insertion\<close>

text \<open>
  The pass carries its own copies of the reachability search, of the transfer functions and of
  the successor function of the verifier, line by line the same; they are one definition here.
\<close>

fun mir_type_needs_drop :: "MirType \<Rightarrow> bool" where
  "mir_type_needs_drop TyString = True"
| "mir_type_needs_drop (TyAggregate d) = True"
| "mir_type_needs_drop (TyReference is_mut inner) = is_mut"
| "mir_type_needs_drop ty = False"

definition mir_transfer_statements :: "Statement list \<Rightarrow> local_set \<Rightarrow> local_set" where
  "mir_transfer_statements stmts state = fold transfer_statement stmts state"

definition drop_candidates :: "flow \<Rightarrow> Terminator option \<Rightarrow> local_set \<Rightarrow> local_set" where
  "drop_candidates incoming t state =
     (case t of
        Some Return \<Rightarrow> state
      | Some (Goto target) \<Rightarrow>
          (case Option.bind (nth_opt incoming (unat target)) (\<lambda>entry. entry) of
             None \<Rightarrow> {}
           | Some after \<Rightarrow> state - after)
      | _ \<Rightarrow> {})"

definition drops_for :: "MirType list \<Rightarrow> local_set \<Rightarrow> Statement list" where
  "drops_for types candidates =
     map (\<lambda>l. Drop (PLocal l))
       (filter (\<lambda>l. l \<noteq> 0 \<and>
            (case nth_opt types (unat l) of None \<Rightarrow> False | Some ty \<Rightarrow> mir_type_needs_drop ty))
          (rev (sorted_list_of_set candidates)))"

definition drop_block :: "MirType list \<Rightarrow> flow \<Rightarrow> nat \<times> BasicBlock \<Rightarrow> BasicBlock" where
  "drop_block types incoming = (\<lambda>(index, block).
     (case incoming ! index of
        None \<Rightarrow> block
      | Some state \<Rightarrow>
          (let state' = mir_transfer_statements (statements block) state;
               candidates = drop_candidates incoming (terminator block) state'
           in block\<lparr>statements := statements block @ drops_for types candidates\<rparr>)))"

definition insert_function_drops :: "MirFunction \<Rightarrow> MirFunction" where
  "insert_function_drops f =
     (if fn_blocks f = [] then f
      else
        (let incoming = ownership_flow f in
         f\<lparr>fn_blocks := map (drop_block (fn_locals f) incoming)
              (zip [0..<length (fn_blocks f)] (fn_blocks f))\<rparr>))"

definition insert_drops :: "MirProgram \<Rightarrow> MirProgram" where
  "insert_drops p = p\<lparr>program_functions := map insert_function_drops (program_functions p)\<rparr>"

section \<open>The program index\<close>

record ProgramIndex =
  index_types :: "string \<rightharpoonup> DefId"
  index_variants :: "HirDefId \<rightharpoonup> DefId \<times> u64"

definition index_type_entries :: "HirDefinition \<Rightarrow> (string \<times> DefId) list" where
  "index_type_entries d =
     (case definition_kind d of
        DStruct _ \<Rightarrow> [(definition_name d, mir_def_id (definition_id d))]
      | DEnum _ \<Rightarrow> [(definition_name d, mir_def_id (definition_id d))]
      | DState _ \<Rightarrow> [(definition_name d, mir_def_id (definition_id d))]
      | _ \<Rightarrow> [])"

definition index_variant_entries :: "HirDefinition \<Rightarrow> (HirDefId \<times> DefId \<times> u64) list" where
  "index_variant_entries d =
     (case definition_kind d of
        DEnum declared \<Rightarrow>
          map (\<lambda>(discriminant, variant).
                (variant_id variant, mir_def_id (definition_id d), try_from_or_max discriminant))
            (zip [0..<length declared] declared)
      | _ \<Rightarrow> [])"

definition new_index :: "HirProgram \<Rightarrow> ProgramIndex" where
  "new_index p =
     (let definitions = map snd (btree_entries (map (\<lambda>d. (definition_id d, d)) (all_definitions p)))
      in \<lparr>index_types = collect_map (concat (map index_type_entries definitions)),
          index_variants = collect_map (concat (map index_variant_entries definitions))\<rparr>)"

fun lower_type :: "ProgramIndex \<Rightarrow> ResolvedType \<Rightarrow> MirType option" where
  "lower_type ix RtUnit = Some TyUnit"
| "lower_type ix (RtPrimitive PrimBool) = Some TyBool"
| "lower_type ix (RtPrimitive PrimString) = Some TyString"
| "lower_type ix (RtPrimitive PrimStr) = Some TyString"
| "lower_type ix (RtPrimitive (PrimSigned width)) = (if width = ''I64'' then Some TyI64 else None)"
| "lower_type ix (RtPrimitive (PrimUnsigned width)) = (if width = ''U64'' then Some TyU64 else None)"
| "lower_type ix (RtReference region is_mut inner) =
     map_option (TyReference is_mut) (lower_type ix inner)"
| "lower_type ix (RtStruct name) = map_option TyAggregate (index_types ix name)"
| "lower_type ix (RtEnum name) = map_option TyAggregate (index_types ix name)"
| "lower_type ix (RtState name) = map_option TyAggregate (index_types ix name)"
| "lower_type ix _ = None"

section \<open>The function builder\<close>

record FunctionBuilder =
  b_locals :: "MirType list"
  b_blocks :: "BasicBlock list"
  b_current :: BlockId
  b_bindings :: "HirDefId \<rightharpoonup> LocalId"
  b_diagnostics :: "MirDiagnostic list"

definition empty_block :: BasicBlock where
  "empty_block = \<lparr>statements = [], terminator = None\<rparr>"

definition new_builder :: FunctionBuilder where
  "new_builder =
     \<lparr>b_locals = [], b_blocks = [empty_block], b_current = 0, b_bindings = Map.empty,
      b_diagnostics = []\<rparr>"

definition current_block :: "FunctionBuilder \<Rightarrow> BasicBlock" where
  "current_block b = b_blocks b ! unat (b_current b)"

definition current_block_mut ::
  "(BasicBlock \<Rightarrow> BasicBlock) \<Rightarrow> FunctionBuilder \<Rightarrow> FunctionBuilder" where
  "current_block_mut g b =
     b\<lparr>b_blocks := (b_blocks b)[unat (b_current b) := g (current_block b)]\<rparr>"

definition push_assign :: "Place \<Rightarrow> Rvalue \<Rightarrow> FunctionBuilder \<Rightarrow> FunctionBuilder" where
  "push_assign destination v =
     current_block_mut (\<lambda>block. block\<lparr>statements := statements block @ [Assign destination v]\<rparr>)"

definition terminate :: "Terminator \<Rightarrow> FunctionBuilder \<Rightarrow> FunctionBuilder" where
  "terminate t = current_block_mut (\<lambda>block. block\<lparr>terminator := Some t\<rparr>)"

definition builder_error :: "Span \<Rightarrow> MirMessage \<Rightarrow> FunctionBuilder \<Rightarrow> FunctionBuilder" where
  "builder_error sp message b =
     b\<lparr>b_diagnostics := b_diagnostics b @ [mir_diagnostic sp ''SYL3101'' message]\<rparr>"

definition new_local :: "MirType \<Rightarrow> FunctionBuilder \<Rightarrow> LocalId \<times> FunctionBuilder" where
  "new_local ty b = (try_from_or_max (length (b_locals b)), b\<lparr>b_locals := b_locals b @ [ty]\<rparr>)"

definition new_block :: "FunctionBuilder \<Rightarrow> BlockId \<times> FunctionBuilder" where
  "new_block b =
     (try_from_or_max (length (b_blocks b)), b\<lparr>b_blocks := b_blocks b @ [empty_block]\<rparr>)"

primrec new_blocks :: "nat \<Rightarrow> FunctionBuilder \<Rightarrow> BlockId list \<times> FunctionBuilder" where
  "new_blocks 0 b = ([], b)"
| "new_blocks (Suc n) b =
     (let (block, b1) = new_block b; (blocks, b2) = new_blocks n b1 in (block # blocks, b2))"

definition required_type ::
  "ProgramIndex \<Rightarrow> ResolvedType \<Rightarrow> Span \<Rightarrow> FunctionBuilder \<Rightarrow> MirType \<times> FunctionBuilder" where
  "required_type ix ty sp b =
     (case lower_type ix ty of
        Some t \<Rightarrow> (t, b)
      | None \<Rightarrow> (TyUnit, builder_error sp (MsgUnsupportedType ty) b))"

definition builder_operand_type :: "Operand \<Rightarrow> FunctionBuilder \<Rightarrow> MirType option" where
  "builder_operand_type x b =
     (case x of
        OpConstant c \<Rightarrow> Some (constant_ty c)
      | OpCopy l \<Rightarrow> nth_opt (b_locals b) (unat l)
      | OpMove l \<Rightarrow> nth_opt (b_locals b) (unat l))"

fun lower_binary :: "BinaryOperator \<Rightarrow> BinaryOp option" where
  "lower_binary BoAdd = Some Add"
| "lower_binary BoSubtract = Some Subtract"
| "lower_binary BoMultiply = Some Multiply"
| "lower_binary BoDivide = Some Divide"
| "lower_binary BoEqual = Some Equal"
| "lower_binary BoLess = Some Less"
| "lower_binary BoAnd = Some And"
| "lower_binary BoOr = Some Or"
| "lower_binary _ = None"

definition comparison_operator :: "BinaryOperator \<Rightarrow> bool" where
  "comparison_operator op \<longleftrightarrow>
     op \<in> {BoEqual, BoNotEqual, BoLess, BoLessEqual, BoGreater, BoGreaterEqual}"

definition unit_operand :: Operand where
  "unit_operand = OpConstant CUnit"

section \<open>Expressions without nested lowering\<close>

definition lower_literal ::
  "Literal \<Rightarrow> Span \<Rightarrow> MirType option \<Rightarrow> FunctionBuilder \<Rightarrow> Operand \<times> FunctionBuilder" where
  "lower_literal literal sp expected b =
     (case literal of
        LString v \<Rightarrow> (OpConstant (CString v), b)
      | LBoolean v \<Rightarrow> (OpConstant (CBool v), b)
      | LInteger v \<Rightarrow>
          if expected = Some TyI64 then (OpConstant (CI64 v), b)
          else if 0 \<le> sint v then (OpConstant (CU64 v), b)
          else (OpConstant (CI64 v), b)
      | _ \<Rightarrow>
          (OpConstant CUnit,
           builder_error sp (MsgText ''literal is not in the executable MIR subset'') b))"

definition lower_reference ::
  "ProgramIndex \<Rightarrow> HirDefId \<Rightarrow> Span \<Rightarrow> FunctionBuilder \<Rightarrow> Operand \<times> FunctionBuilder" where
  "lower_reference ix d sp b =
     (case b_bindings b d of
        Some l \<Rightarrow>
          (case nth_opt (b_locals b) (unat l) of
             None \<Rightarrow> (OpMove l, b)
           | Some ty \<Rightarrow> (if mir_type_is_copy ty then OpCopy l else OpMove l, b))
      | None \<Rightarrow>
          (case index_variants ix d of
             Some (aggregate, discriminant) \<Rightarrow>
               (let (l, b1) = new_local (TyAggregate aggregate) b
                in (OpMove l, push_assign (PLocal l) (Aggregate aggregate discriminant []) b1))
           | None \<Rightarrow>
               (unit_operand,
                builder_error sp (MsgText ''value reference is not executable in MIR'') b)))"

definition lower_borrow ::
  "ProgramIndex \<Rightarrow> bool \<Rightarrow> TypedExpr \<Rightarrow> ResolvedType \<Rightarrow> Span \<Rightarrow> FunctionBuilder
     \<Rightarrow> Operand \<times> FunctionBuilder" where
  "lower_borrow ix is_mut x ty sp b =
     (case expr_kind x of
        HReference d \<Rightarrow>
          (case b_bindings b d of
             None \<Rightarrow>
               (unit_operand, builder_error sp (MsgText ''MIR borrow target is not a local'') b)
           | Some l \<Rightarrow>
               (let (reference, b1) = new_local (case lower_type ix ty of None \<Rightarrow> TyUnit
                                                                        | Some t \<Rightarrow> t) b
                in (OpMove reference,
                    push_assign (PLocal reference) (Borrow is_mut (PLocal l)) b1)))
      | _ \<Rightarrow>
          (unit_operand,
           builder_error sp (MsgText ''MIR borrows require a direct local place'') b))"

text \<open>The result type of a call or match: the expected type, or the lowered static type.\<close>

definition result_type_of :: "ProgramIndex \<Rightarrow> MirType option \<Rightarrow> ResolvedType \<Rightarrow> MirType" where
  "result_type_of ix expected ty =
     (case expected of
        Some t \<Rightarrow> t
      | None \<Rightarrow> (case lower_type ix ty of None \<Rightarrow> TyUnit | Some t \<Rightarrow> t))"

fun pattern_discriminant :: "ProgramIndex \<Rightarrow> HirPattern \<Rightarrow> u64 option" where
  "pattern_discriminant ix (PatVariant d []) = map_option snd (index_variants ix d)"
| "pattern_discriminant ix (PatLiteral (LBoolean v)) = Some (if v then 1 else 0)"
| "pattern_discriminant ix _ = None"

text \<open>The switch edges of all arms but the last one.\<close>

fun switch_targets ::
  "ProgramIndex \<Rightarrow> (HirMatchArm \<times> BlockId) list \<Rightarrow> FunctionBuilder
     \<Rightarrow> (128 word \<times> BlockId) list \<times> FunctionBuilder" where
  "switch_targets ix [] b = ([], b)"
| "switch_targets ix ((HirMatchArm pat guard body sp, block) # arms) b =
     (case pattern_discriminant ix pat of
        None \<Rightarrow>
          switch_targets ix arms
            (builder_error sp
               (MsgText ''non-final match arms require a closed discriminant'') b)
      | Some d \<Rightarrow>
          (let (targets, b') = switch_targets ix arms b in ((ucast d, block) # targets, b')))"

section \<open>Expressions and blocks\<close>

definition finish_binary ::
  "BinaryOperator \<Rightarrow> Operand \<Rightarrow> Operand \<Rightarrow> MirType option \<Rightarrow> Span \<Rightarrow> FunctionBuilder
     \<Rightarrow> Operand \<times> FunctionBuilder" where
  "finish_binary operator left right operand_ty sp b =
     (let result = (if comparison_operator operator then TyBool
                    else case operand_ty of None \<Rightarrow> TyUnit | Some t \<Rightarrow> t)
      in case lower_binary operator of
           None \<Rightarrow>
             (unit_operand,
              builder_error sp (MsgText ''binary operator is not in the executable subset'') b)
         | Some op \<Rightarrow>
             (let (l, b1) = new_local result b
              in (OpMove l, push_assign (PLocal l) (Binary op left right) b1)))"

definition finish_call ::
  "ProgramIndex \<Rightarrow> HirDefId \<Rightarrow> Operand list \<Rightarrow> ResolvedType \<Rightarrow> MirType option \<Rightarrow> FunctionBuilder
     \<Rightarrow> Operand \<times> FunctionBuilder" where
  "finish_call ix callee args ty expected b =
     (let (destination, b1) = new_local (result_type_of ix expected ty) b;
          (after, b2) = new_block b1;
          b3 = terminate (Call (mir_def_id callee) args (PLocal destination) after) b2
      in (OpMove destination, b3\<lparr>b_current := after\<rparr>))"

text \<open>The part of \<open>lower_match\<close> between the scrutinee and the arms.\<close>

definition open_match ::
  "ProgramIndex \<Rightarrow> Operand \<Rightarrow> HirMatchArm list \<Rightarrow> MirType \<Rightarrow> FunctionBuilder
     \<Rightarrow> (LocalId \<times> BlockId \<times> BlockId list) \<times> FunctionBuilder" where
  "open_match ix scrutinee arms result_type b =
     (let (discriminant, b1) = new_local TyU64 b;
          b2 = push_assign (PLocal discriminant) (Discriminant scrutinee) b1;
          (result, b3) = new_local result_type b2;
          (join, b4) = new_block b3;
          (arm_blocks, b5) = new_blocks (length arms) b4;
          (targets, b6) = switch_targets ix (take (length arms - 1) (zip arms arm_blocks)) b5;
          b7 = terminate (SwitchInt (OpCopy discriminant) targets (last arm_blocks)) b6
      in ((result, join, arm_blocks), b7))"

definition close_arm :: "LocalId \<Rightarrow> BlockId \<Rightarrow> Operand \<times> FunctionBuilder \<Rightarrow> FunctionBuilder" where
  "close_arm result join = (\<lambda>(v, b). terminate (Goto join) (push_assign (PLocal result) (Use v) b))"

definition assign_unit_result :: "MirType \<Rightarrow> FunctionBuilder \<Rightarrow> FunctionBuilder" where
  "assign_unit_result result b =
     (if result = TyUnit then push_assign (PLocal 0) (Use unit_operand) b else b)"

definition return_operand :: "Operand \<times> FunctionBuilder \<Rightarrow> FunctionBuilder" where
  "return_operand = (\<lambda>(x, b). terminate Return (push_assign (PLocal 0) (Use x) b))"

function lower_expression ::
  "ProgramIndex \<Rightarrow> TypedExpr \<Rightarrow> MirType option \<Rightarrow> FunctionBuilder \<Rightarrow> Operand \<times> FunctionBuilder"
  and lower_kind ::
  "ProgramIndex \<Rightarrow> HirExprKind \<Rightarrow> ResolvedType \<Rightarrow> Span \<Rightarrow> MirType option \<Rightarrow> FunctionBuilder
     \<Rightarrow> Operand \<times> FunctionBuilder"
  and lower_arguments ::
  "ProgramIndex \<Rightarrow> TypedExpr list \<Rightarrow> FunctionBuilder \<Rightarrow> Operand list \<times> FunctionBuilder"
  and lower_arms ::
  "ProgramIndex \<Rightarrow> HirMatchArm list \<Rightarrow> BlockId list \<Rightarrow> LocalId \<Rightarrow> BlockId \<Rightarrow> MirType
     \<Rightarrow> FunctionBuilder \<Rightarrow> FunctionBuilder"
  and lower_statements ::
  "ProgramIndex \<Rightarrow> HirStatement list \<Rightarrow> MirType \<Rightarrow> FunctionBuilder \<Rightarrow> FunctionBuilder"
  and lower_block :: "ProgramIndex \<Rightarrow> HirBlock \<Rightarrow> MirType \<Rightarrow> FunctionBuilder \<Rightarrow> FunctionBuilder"
where
  "lower_expression ix (TypedExpr kind ty sp) expected b = lower_kind ix kind ty sp expected b"
| "lower_kind ix (HBorrow is_mut x) ty sp expected b =
     lower_borrow ix is_mut x ty sp b"
| "lower_kind ix (HAwait x) ty sp expected b = lower_expression ix x expected b"
| "lower_kind ix (HLiteral literal) ty sp expected b =
     lower_literal literal sp expected b"
| "lower_kind ix (HReference d) ty sp expected b = lower_reference ix d sp b"
| "lower_kind ix (HBinary operator left right) ty sp expected b =
     (let (l, b1) = lower_expression ix left expected b;
          operand_ty = (case builder_operand_type l b1 of None \<Rightarrow> expected | Some t \<Rightarrow> Some t);
          (r, b2) = lower_expression ix right operand_ty b1
      in finish_binary operator l r operand_ty sp b2)"
| "lower_kind ix (HCall callee arguments) ty sp expected b =
     (case expr_kind callee of
        HReference d \<Rightarrow>
          (let (args, b1) = lower_arguments ix arguments b
           in finish_call ix d args ty expected b1)
      | _ \<Rightarrow>
          (unit_operand,
           builder_error sp (MsgText ''only direct function calls are executable'') b))"
| "lower_kind ix (HMatch v arms) ty sp expected b =
     (if arms = []
      then (unit_operand, builder_error sp (MsgText ''match requires at least one arm'') b)
      else
        (let (scrutinee, b1) = lower_expression ix v None b;
             result_type = result_type_of ix expected ty;
             ((result, join, arm_blocks), b2) = open_match ix scrutinee arms result_type b1;
             b3 = lower_arms ix arms arm_blocks result join result_type b2
         in (OpMove result, b3\<lparr>b_current := join\<rparr>)))"
| "lower_kind ix (HBlock block) ty sp expected b =
     (OpCopy 0, lower_block ix block (case expected of None \<Rightarrow> TyUnit | Some t \<Rightarrow> t) b)"
| "lower_kind ix (HArray items) ty sp expected b =
     (unit_operand,
      builder_error sp (MsgText ''expression is not in the executable MIR subset'') b)"
| "lower_kind ix (HField base field) ty sp expected b =
     (unit_operand,
      builder_error sp (MsgText ''expression is not in the executable MIR subset'') b)"
| "lower_kind ix (HUnary operator x) ty sp expected b =
     (unit_operand,
      builder_error sp (MsgText ''expression is not in the executable MIR subset'') b)"
| "lower_arguments ix [] b = ([], b)"
| "lower_arguments ix (x # xs) b =
     (let (v, b1) = lower_expression ix x None b; (vs, b2) = lower_arguments ix xs b1
      in (v # vs, b2))"
| "lower_arms ix [] blocks result join result_type b = b"
| "lower_arms ix (HirMatchArm pat guard body sp # arms) blocks result join result_type b =
     (case blocks of
        [] \<Rightarrow> b
      | block # blocks' \<Rightarrow>
          (let b1 = b\<lparr>b_current := block\<rparr>;
               b2 = (if guard \<noteq> None
                     then builder_error sp
                            (MsgText ''guarded matches are not in the executable subset'') b1
                     else b1);
               b3 = close_arm result join (lower_expression ix body (Some result_type) b2)
           in lower_arms ix arms blocks' result join result_type b3))"
| "lower_statements ix [] result b = b"
| "lower_statements ix (stmt # stmts) result b =
     (if terminator (current_block b) \<noteq> None then b
      else
        (case stmt of
           HLet d name ty v \<Rightarrow>
             (let (t, b1) = required_type ix ty (expr_span v) b;
                  (x, b2) = lower_expression ix v (Some t) b1;
                  (l, b3) = new_local t b2;
                  b4 = push_assign (PLocal l) (Use x) b3
              in lower_statements ix stmts result (b4\<lparr>b_bindings := (b_bindings b4)(d \<mapsto> l)\<rparr>))
         | HReturn None \<Rightarrow>
             lower_statements ix stmts result (terminate Return (assign_unit_result result b))
         | HReturn (Some v) \<Rightarrow>
             lower_statements ix stmts result
               (return_operand (lower_expression ix v (Some result) b))
         | HExpression v \<Rightarrow>
             (if stmts = [] then return_operand (lower_expression ix v (Some result) b)
              else lower_statements ix stmts result (snd (lower_expression ix v None b)))))"
| "lower_block ix (HirBlock stmts sp) result b = lower_statements ix stmts result b"
  by pat_completeness auto
termination
  by (relation "measure (\<lambda>x. case x of
        Inl (Inl (ix, e, t, b)) \<Rightarrow> 2 * size e
      | Inl (Inr (Inl (ix, k, ty, sp, t, b))) \<Rightarrow> Suc (2 * size k)
      | Inl (Inr (Inr (ix, es, b))) \<Rightarrow> 2 * size_list size es
      | Inr (Inl (ix, arms, bs, r, j, t, b)) \<Rightarrow> 2 * size_list size arms
      | Inr (Inr (Inl (ix, stmts, r, b))) \<Rightarrow> 2 * size_list size stmts
      | Inr (Inr (Inr (ix, bl, r, b))) \<Rightarrow> 2 * size bl)") auto

section \<open>Functions and programs\<close>

fun lower_parameters ::
  "ProgramIndex \<Rightarrow> HirParameter list \<Rightarrow> FunctionBuilder \<Rightarrow> FunctionBuilder" where
  "lower_parameters ix [] b = b"
| "lower_parameters ix (p # ps) b =
     (let (ty, b1) = required_type ix (param_ty p) (param_span p) b;
          (l, b2) = new_local ty b1
      in lower_parameters ix ps (b2\<lparr>b_bindings := (b_bindings b2)(param_id p \<mapsto> l)\<rparr>))"

definition lower_function ::
  "ProgramIndex \<Rightarrow> HirDefinition \<Rightarrow> HirFunction \<Rightarrow> MirFunction \<times> MirDiagnostic list" where
  "lower_function ix d f =
     (let (result, b1) = required_type ix (hir_result f) (definition_span d) new_builder;
          b2 = lower_parameters ix (hir_parameters f) (b1\<lparr>b_locals := b_locals b1 @ [result]\<rparr>);
          b3 = lower_block ix (hir_body f) result b2;
          b4 = (if terminator (current_block b3) = None
                then terminate Return (assign_unit_result result b3) else b3)
      in (\<lparr>fn_id = mir_def_id (definition_id d),
           parameter_count = try_from_or_max (length (hir_parameters f)),
           return_type = result, fn_locals = b_locals b4, fn_blocks = b_blocks b4\<rparr>,
          b_diagnostics b4))"

definition lower_functions ::
  "HirProgram \<Rightarrow> (MirFunction \<times> MirDiagnostic list) list" where
  "lower_functions hir =
     concat (map (\<lambda>d. case as_function (definition_kind d) of
         None \<Rightarrow> [] | Some f \<Rightarrow> [lower_function (new_index hir) d f]) (all_definitions hir))"

definition lower_to_mir :: "HirProgram \<Rightarrow> MirDiagnostic list + MirProgram" where
  "lower_to_mir hir =
     (let lowered = lower_functions hir;
          diagnostics = concat (map snd lowered)
      in if diagnostics \<noteq> [] then Inl diagnostics
         else
           (let program = insert_drops
                  \<lparr>program_functions = map fst lowered,
                   program_entry = map_option mir_def_id (hir_entry hir)\<rparr>
            in case verify program of
                 Inl errs \<Rightarrow>
                   Inl (map (\<lambda>e. mir_diagnostic default_span ''SYL3102'' (MsgVerification e)) errs)
               | Inr _ \<Rightarrow> Inr program))"

end
