(* ===== verification/Hir_Examples.thy ===== *)
theory Hir_Examples
  imports Hir
begin

text \<open>Small typed programs used as concrete inputs of the lowering, effect and async theorems.\<close>

definition u64_type :: ResolvedType where
  "u64_type = RtPrimitive (PrimUnsigned ''U64'')"

definition u64_expr :: "HirExprKind \<Rightarrow> TypedExpr" where
  "u64_expr k = TypedExpr k u64_type default_span"

definition hir_id :: "u32 \<Rightarrow> HirDefId" where
  "hir_id i = \<lparr>hir_module = 0, hir_index = i\<rparr>"

definition plain_function :: "HirStatement list \<Rightarrow> HirFunction" where
  "plain_function stmts =
     \<lparr>is_test = False, asynchronous = False, is_public = True, declared_effects = None,
      hir_parameters = [], hir_result = u64_type, hir_body = HirBlock stmts default_span\<rparr>"

definition main_program :: "HirFunction \<Rightarrow> HirProgram" where
  "main_program f =
     \<lparr>schema_version = 1,
      hir_modules =
        [\<lparr>hir_module_id = 0,
          hir_definitions =
            [\<lparr>definition_id = hir_id 0, definition_name = ''main'', definition_kind = DFunction f,
              definition_span = default_span\<rparr>]\<rparr>],
      hir_entry = Some (hir_id 0)\<rparr>"

text \<open>\<open>main\<close> calls \<open>helper\<close>, which allocates a string; \<open>main\<close> declares the bound \<open>names\<close>.\<close>

definition helper_function :: HirFunction where
  "helper_function =
     (plain_function [HExpression (TypedExpr (HLiteral (LString ''s''))
        (RtPrimitive PrimString) default_span)])\<lparr>hir_result := RtPrimitive PrimString\<rparr>"

definition caller_function :: "string list \<Rightarrow> HirFunction" where
  "caller_function names =
     (plain_function [HExpression (u64_expr (HCall (u64_expr (HReference (hir_id 1))) []))])
       \<lparr>declared_effects := Some names\<rparr>"

definition function_definition :: "u32 \<Rightarrow> string \<Rightarrow> HirFunction \<Rightarrow> HirDefinition" where
  "function_definition i name f =
     \<lparr>definition_id = hir_id i, definition_name = name, definition_kind = DFunction f,
      definition_span = default_span\<rparr>"

definition effect_program :: "string list \<Rightarrow> HirProgram" where
  "effect_program names =
     \<lparr>schema_version = 1,
      hir_modules =
        [\<lparr>hir_module_id = 0,
          hir_definitions =
            [function_definition 0 ''main'' (caller_function names),
             function_definition 1 ''helper'' helper_function]\<rparr>],
      hir_entry = Some (hir_id 0)\<rparr>"

text \<open>An async function that awaits once.\<close>

definition async_function :: "HirParameter list \<Rightarrow> HirFunction" where
  "async_function params =
     (plain_function [HExpression (u64_expr (HAwait (u64_expr (HLiteral (LInteger 1)))))])
       \<lparr>asynchronous := True, hir_parameters := params\<rparr>"

end
