(* ===== verification/Mir_Lower_Sound.thy ===== *)
theory Mir_Lower_Sound
  imports Mir_Lower Hir_Examples "HOL-Library.Sublist"
begin

text \<open>
  Soundness of the lowering to MIR. Every builder step only grows the function and borrows whole
  locals, so what the lowering returns meets the hypotheses of the interpreter's safety and type
  theorems. Drop insertion keeps the ownership analysis unchanged, is accepted by it, and leaves
  nothing to drop at a return. The lowering of a nested block is shown to end the function.
\<close>

section \<open>Example programs\<close>

text \<open>\<open>let x = INIT; x + 2\<close>.\<close>

definition add_two :: "TypedExpr \<Rightarrow> HirProgram" where
  "add_two init =
     main_program (plain_function
       [HLet (hir_id 1) ''x'' u64_type init,
        HExpression (u64_expr (HBinary BoAdd (u64_expr (HReference (hir_id 1)))
          (u64_expr (HLiteral (LInteger 2)))))])"

definition one_expr :: TypedExpr where
  "one_expr = u64_expr (HLiteral (LInteger 1))"

definition one_block :: TypedExpr where
  "one_block = u64_expr (HBlock (HirBlock [HExpression one_expr] default_span))"

definition run_lowered :: "HirProgram \<Rightarrow> (RuntimeError + ExecutionResult) option" where
  "run_lowered hir =
     (case lower_to_mir hir of
        Inl _ \<Rightarrow> None
      | Inr p \<Rightarrow> execute 10 p main_id small_limits)"

text \<open>A function that builds two strings, returns one and leaves the other to drop insertion.\<close>

definition leaky_function :: MirFunction where
  "leaky_function =
     \<lparr>fn_id = main_id, parameter_count = 0, return_type = TyString,
      fn_locals = [TyString, TyString],
      fn_blocks =
        [\<lparr>statements = [Assign (PLocal 0) (Use (OpConstant (CString ''a''))),
                        Assign (PLocal 1) (Use (OpConstant (CString ''b'')))],
          terminator = Some Return\<rparr>]\<rparr>"

section \<open>What the builder keeps\<close>

definition in_range :: "FunctionBuilder \<Rightarrow> BlockId \<Rightarrow> bool" where
  "in_range b k \<longleftrightarrow> (length (b_blocks b) < 2 ^ 32 \<longrightarrow> unat k < length (b_blocks b))"

definition plain :: "FunctionBuilder \<Rightarrow> bool" where
  "plain b \<longleftrightarrow> (\<forall>block \<in> set (b_blocks b). \<forall>s \<in> set (statements block). whole_borrow s)"

text \<open>
  Builder steps only append locals and blocks, keep the current block in range while block
  numbers fit 32 bits, and borrow whole locals only.
\<close>

definition grows :: "FunctionBuilder \<Rightarrow> FunctionBuilder \<Rightarrow> bool" where
  "grows b b' \<longleftrightarrow>
     length (b_blocks b) \<le> length (b_blocks b') \<and> prefix (b_locals b) (b_locals b') \<and>
     (plain b \<longrightarrow> plain b') \<and> (in_range b (b_current b) \<longrightarrow> in_range b' (b_current b'))"

named_theorems grow "builder steps that only grow the function"

lemma grows_refl [simp, grow]: "grows b b"
  by (simp add: grows_def)

lemma grows_trans [trans]: "grows a b \<Longrightarrow> grows b c \<Longrightarrow> grows a c"
  by (auto simp: grows_def)

lemma in_range_grows: "in_range b k \<Longrightarrow> grows b b' \<Longrightarrow> in_range b' k"
  by (auto simp: in_range_def grows_def)

lemma grows_current:
  "grows b b' \<Longrightarrow> in_range b' k \<Longrightarrow> grows b (b'\<lparr>b_current := k\<rparr>)"
  by (auto simp: grows_def in_range_def plain_def)

lemma grows_bindings [simp]: "grows b (b'\<lparr>b_bindings := m\<rparr>) \<longleftrightarrow> grows b b'"
  by (simp add: grows_def in_range_def plain_def)

lemma grows_error [simp]: "grows b (builder_error sp message b') \<longleftrightarrow> grows b b'"
  by (simp add: grows_def in_range_def plain_def builder_error_def)

lemma current_block_mut_grows:
  assumes "\<And>block. \<forall>s \<in> set (statements block). whole_borrow s
      \<Longrightarrow> \<forall>s \<in> set (statements (g block)). whole_borrow s"
  shows "grows b (current_block_mut g b)"
proof -
  have "plain (current_block_mut g b)" if "plain b"
  proof (cases "unat (b_current b) < length (b_blocks b)")
    case True
    then have "\<forall>s \<in> set (statements (current_block b)). whole_borrow s"
      using that nth_mem [of "unat (b_current b)" "b_blocks b"] by (auto simp: plain_def current_block_def)
    then show ?thesis
      using that assms [of "current_block b"] set_update_subset_insert [of "b_blocks b"]
      by (fastforce simp: plain_def current_block_mut_def)
  next
    case False
    then show ?thesis using that by (simp add: plain_def current_block_mut_def list_update_beyond)
  qed
  then show ?thesis
    by (auto simp: grows_def in_range_def) (simp_all add: current_block_mut_def)
qed

lemma push_assign_grows [grow]: "whole_borrow (Assign p v) \<Longrightarrow> grows b (push_assign p v b)"
  unfolding push_assign_def by (rule current_block_mut_grows) auto

lemma terminate_grows [grow]: "grows b (terminate t b)"
  unfolding terminate_def by (rule current_block_mut_grows) auto

lemma new_local_grows [grow]: "new_local ty b = (l, b') \<Longrightarrow> grows b b'"
  by (auto simp: new_local_def grows_def in_range_def plain_def)

lemma new_block_grows: "new_block b = (k, b') \<Longrightarrow> grows b b' \<and> in_range b' k"
  by (auto simp: new_block_def grows_def in_range_def plain_def empty_block_def
      try_from_or_max_small)

lemma new_blocks_grows:
  "new_blocks n b = (ks, b') \<Longrightarrow> grows b b' \<and> length ks = n \<and> (\<forall>k \<in> set ks. in_range b' k)"
proof (induction n arbitrary: b ks)
  case (Suc n)
  then obtain k b1 ks' where k: "new_block b = (k, b1)" and ks': "new_blocks n b1 = (ks', b')"
    and "ks = k # ks'"
    by (auto simp: Let_def split: prod.splits)
  then show ?case
    using new_block_grows [OF k] Suc.IH [OF ks'] in_range_grows grows_trans by auto
qed auto

lemma required_type_grows [grow]: "required_type ix ty sp b = (t, b') \<Longrightarrow> grows b b'"
  by (auto simp: required_type_def split: option.splits)

lemma lower_literal_grows [grow]: "lower_literal l sp t b = (x, b') \<Longrightarrow> grows b b'"
  by (auto simp: lower_literal_def split: Literal.splits if_splits)

lemma lower_reference_grows [grow]: "lower_reference ix d sp b = (x, b') \<Longrightarrow> grows b b'"
  by (auto simp: lower_reference_def split: option.splits prod.splits
      intro: grows_trans [OF new_local_grows push_assign_grows])

lemma lower_borrow_grows [grow]: "lower_borrow ix m x ty sp b = (y, b') \<Longrightarrow> grows b b'"
  by (auto simp: lower_borrow_def split: HirExprKind.splits option.splits prod.splits
      intro: grows_trans [OF new_local_grows push_assign_grows])

lemma finish_binary_grows [grow]: "finish_binary op l r t sp b = (x, b') \<Longrightarrow> grows b b'"
  by (auto simp: finish_binary_def Let_def split: option.splits prod.splits
      intro: grows_trans [OF new_local_grows push_assign_grows])

lemma finish_call_grows [grow]:
  assumes "finish_call ix d args ty t b = (x, b')"
  shows "grows b b'"
proof -
  obtain l b1 k b2 where l: "new_local (result_type_of ix t ty) b = (l, b1)"
    and k: "new_block b1 = (k, b2)"
    and b': "b' = terminate (Call (mir_def_id d) args (PLocal l) k) b2\<lparr>b_current := k\<rparr>"
    using assms by (auto simp: finish_call_def Let_def split: prod.splits)
  let ?b3 = "terminate (Call (mir_def_id d) args (PLocal l) k) b2"
  have g3: "grows b2 ?b3" by (rule terminate_grows)
  have "grows b ?b3"
    using new_local_grows [OF l] new_block_grows [OF k] g3 grows_trans by blast
  then show ?thesis
    unfolding b' using grows_current in_range_grows [OF _ g3] new_block_grows [OF k] by blast
qed

lemma switch_targets_grows [grow]: "switch_targets ix arms b = (ts, b') \<Longrightarrow> grows b b'"
proof (induction ix arms b arbitrary: ts rule: switch_targets.induct)
  case (2 ix pat guard body sp block arms b)
  then show ?case
    by (cases "pattern_discriminant ix pat")
       (auto simp: Let_def split: prod.splits intro: grows_trans [rotated])
qed simp

lemma open_match_grows:
  assumes "open_match ix x arms t b = ((r, j, ks), b')"
  shows "grows b b' \<and> in_range b' j \<and> (\<forall>k \<in> set ks. in_range b' k)"
proof -
  obtain d b1 b3 b4 b5 ts b6 where d: "new_local TyU64 b = (d, b1)"
    and r: "new_local t (push_assign (PLocal d) (Discriminant x) b1) = (r, b3)"
    and j: "new_block b3 = (j, b4)" and ks: "new_blocks (length arms) b4 = (ks, b5)"
    and ts: "switch_targets ix (take (length arms - 1) (zip arms ks)) b5 = (ts, b6)"
    and b': "b' = terminate (SwitchInt (OpCopy d) ts (last ks)) b6"
    using assms by (auto simp: open_match_def Let_def split: prod.splits)
  have "grows b b3"
    using new_local_grows [OF d] push_assign_grows new_local_grows [OF r]
    by (meson grows_trans whole_borrow.simps)
  moreover have "grows b3 b4" "in_range b4 j" using new_block_grows [OF j] by auto
  moreover have "grows b4 b5" "\<forall>k \<in> set ks. in_range b5 k" using new_blocks_grows [OF ks] by auto
  moreover have "grows b5 b'"
    using switch_targets_grows [OF ts] terminate_grows b' grows_trans by blast
  ultimately show ?thesis by (meson grows_trans in_range_grows)
qed

lemma close_arm_grows: "grows b (close_arm r j (x, b))"
  unfolding close_arm_def by (auto intro: grows_trans [OF push_assign_grows terminate_grows])

lemma return_operand_grows: "grows b (return_operand (x, b))"
  unfolding return_operand_def by (auto intro: grows_trans [OF push_assign_grows terminate_grows])

lemma assign_unit_result_grows: "grows b (assign_unit_result t b)"
  unfolding assign_unit_result_def by (auto intro: push_assign_grows)

lemma lower_grows:
  shows lower_expression_grows: "grows b (snd (lower_expression ix e t b))"
    and lower_kind_grows: "grows b (snd (lower_kind ix k ty sp t b))"
    and lower_arguments_grows: "grows b (snd (lower_arguments ix es b))"
    and lower_arms_grows:
      "\<forall>k \<in> set ks. in_range b k \<Longrightarrow> grows b (lower_arms ix arms ks r j rt b)"
    and lower_statements_grows: "grows b (lower_statements ix stmts rt b)"
    and lower_block_grows: "grows b (lower_block ix bl rt b)"
proof (induction ix e t b and ix k ty sp t b and ix es b and ix arms ks r j rt b
    and ix stmts rt b and ix bl rt b
    rule: lower_expression_lower_kind_lower_arguments_lower_arms_lower_statements_lower_block.induct)
  case (2 ix is_mut x ty sp t b)
  then show ?case by (metis lower_borrow_grows lower_kind.simps(1) surjective_pairing)
next
  case (4 ix l ty sp t b)
  then show ?case by (metis lower_literal_grows lower_kind.simps(3) surjective_pairing)
next
  case (5 ix d ty sp t b)
  then show ?case by (metis lower_reference_grows lower_kind.simps(4) surjective_pairing)
next
  case (6 ix op left right ty sp t b)
  obtain l b1 where l: "lower_expression ix left t b = (l, b1)" by fastforce
  define ot where "ot = (case builder_operand_type l b1 of None \<Rightarrow> t | Some u \<Rightarrow> Some u)"
  obtain r b2 where r: "lower_expression ix right ot b1 = (r, b2)" by fastforce
  obtain x b3 where x: "finish_binary op l r ot sp b2 = (x, b3)" by fastforce
  have "grows b b1" "grows b1 b2"
    using 6(1) 6(2) [OF l [symmetric] refl ot_def] l r by simp_all
  with finish_binary_grows [OF x] have "grows b b3" by (blast intro: grows_trans)
  then show ?case using l r x by (simp add: ot_def)
next
  case (7 ix callee args ty sp t b)
  show ?case
  proof (cases "expr_kind callee")
    case (HReference d)
    obtain vs b1 where vs: "lower_arguments ix args b = (vs, b1)" by fastforce
    obtain x b2 where x: "finish_call ix d vs ty t b1 = (x, b2)" by fastforce
    have "grows b b2" using 7 [OF HReference] vs finish_call_grows [OF x] grows_trans by auto
    then show ?thesis using HReference vs x by simp
  qed simp_all
next
  case (8 ix v arms ty sp t b)
  show ?case
  proof (cases "arms = []")
    case False
    obtain x b1 where x: "lower_expression ix v None b = (x, b1)" by fastforce
    obtain r j ks b2 where o: "open_match ix x arms (result_type_of ix t ty) b1 = ((r, j, ks), b2)"
      by (metis surjective_pairing)
    let ?b3 = "lower_arms ix arms ks r j (result_type_of ix t ty) b2"
    note om = open_match_grows [OF o]
    have "grows b2 ?b3" using 8(2) [OF False x [symmetric] refl refl o [symmetric] refl refl refl] om by simp
    moreover have "grows b b1" using 8(1) [OF False] x by simp
    ultimately have "grows b (?b3\<lparr>b_current := j\<rparr>)"
      using om grows_current in_range_grows grows_trans by meson
    then show ?thesis using False x o by simp
  qed simp
next
  case (14 ix x xs b)
  then show ?case by (auto simp: Let_def split: prod.splits intro: grows_trans)
next
  case (16 ix pat guard body sp arms ks r j rt b)
  show ?case
  proof (cases ks)
    case (Cons k ks')
    define b2 where "b2 = (if guard \<noteq> None then builder_error sp
        (MsgText ''guarded matches are not in the executable subset'') (b\<lparr>b_current := k\<rparr>)
        else b\<lparr>b_current := k\<rparr>)"
    obtain x b3 where x: "lower_expression ix body (Some rt) b2 = (x, b3)" by fastforce
    have "grows b b2" using 16(3) Cons grows_current [OF grows_refl] by (simp add: b2_def)
    moreover have "grows b2 b3" using 16(1) [OF Cons refl b2_def] x by simp
    ultimately have g: "grows b (close_arm r j (x, b3))" using close_arm_grows grows_trans by blast
    then have "\<forall>k \<in> set ks'. in_range (close_arm r j (x, b3)) k"
      using 16(3) Cons in_range_grows by auto
    then have "grows (close_arm r j (x, b3)) (lower_arms ix arms ks' r j rt (close_arm r j (x, b3)))"
      using 16(2) [OF Cons refl b2_def] x by simp
    then show ?thesis using g grows_trans x Cons by (simp add: b2_def Let_def)
  qed simp
next
  case (18 ix stmt stmts rt b)
  show ?case
  proof (cases "terminator (current_block b) = None")
    case live: True
    show ?thesis
    proof (cases stmt)
      case (HLet d name ty v)
      obtain u b1 where u: "required_type ix ty (expr_span v) b = (u, b1)" by fastforce
      obtain x b2 where x: "lower_expression ix v (Some u) b1 = (x, b2)" by fastforce
      obtain l b3 where l: "new_local u b2 = (l, b3)" by fastforce
      let ?b4 = "push_assign (PLocal l) (Use x) b3"
      let ?b5 = "?b4\<lparr>b_bindings := (b_bindings ?b4)(d \<mapsto> l)\<rparr>"
      have "grows b1 b2" using 18(1) [OF _ HLet u [symmetric] refl] live x by simp
      then have "grows b ?b4"
        using required_type_grows [OF u] new_local_grows [OF l] push_assign_grows grows_trans
        by (meson whole_borrow.simps)
      moreover have "grows ?b5 (lower_statements ix stmts rt ?b5)"
        using 18(2) [OF _ HLet u [symmetric] refl x [symmetric] refl l [symmetric] refl refl] live
        by simp
      ultimately have "grows b (lower_statements ix stmts rt ?b5)"
        using grows_trans grows_bindings by blast
      then show ?thesis using live HLet u x l by (simp add: Let_def)
    next
      case (HReturn v)
      show ?thesis
      proof (cases v)
        case None
        have "grows b (terminate Return (assign_unit_result rt b))"
          using assign_unit_result_grows terminate_grows grows_trans by blast
        then show ?thesis using 18(3) [OF _ HReturn None] live HReturn None grows_trans by simp
      next
        case (Some w)
        obtain x b1 where x: "lower_expression ix w (Some rt) b = (x, b1)" by fastforce
        have "grows b (return_operand (x, b1))"
          using 18(4) [OF _ HReturn Some] live x return_operand_grows grows_trans by simp
        then show ?thesis
          using 18(5) [OF _ HReturn Some] live HReturn Some x grows_trans by simp
      qed
    next
      case (HExpression v)
      show ?thesis
      proof (cases "stmts = []")
        case True
        obtain x b1 where x: "lower_expression ix v (Some rt) b = (x, b1)" by fastforce
        have "grows b (return_operand (x, b1))"
          using 18(6) [OF _ HExpression True] live x return_operand_grows grows_trans by simp
        then show ?thesis using live HExpression True x by simp
      next
        case False
        then show ?thesis
          using 18(7) [OF _ HExpression False] 18(8) [OF _ HExpression False] live HExpression
            grows_trans by simp
      qed
    qed
  qed simp
qed (auto simp: unit_operand_def)

lemma lower_parameters_grows: "grows b (lower_parameters ix ps b)"
proof (induction ix ps b rule: lower_parameters.induct)
  case (2 ix p ps b)
  obtain ty b1 where ty: "required_type ix (param_ty p) (param_span p) b = (ty, b1)" by fastforce
  obtain l b2 where l: "new_local ty b1 = (l, b2)" by fastforce
  let ?b3 = "b2\<lparr>b_bindings := (b_bindings b2)(param_id p \<mapsto> l)\<rparr>"
  have "grows b ?b3"
    using required_type_grows [OF ty] new_local_grows [OF l] grows_trans by simp
  moreover have "grows ?b3 (lower_parameters ix ps ?b3)" using 2 [OF ty [symmetric] refl l [symmetric] refl] .
  ultimately have "grows b (lower_parameters ix ps ?b3)" by (rule grows_trans)
  then show ?case using ty l by (simp add: Let_def)
qed simp

lemma new_builder_plain: "plain new_builder"
  by (simp add: plain_def new_builder_def empty_block_def)

text \<open>A lowered function borrows whole locals only, and its result local has the result type.\<close>

lemma lower_function_shape:
  assumes "lower_function ix d f = (g, ds)"
  shows "(\<forall>block \<in> set (fn_blocks g). \<forall>s \<in> set (statements block). whole_borrow s) \<and>
    fn_id g = mir_def_id (definition_id d) \<and> fn_locals g \<noteq> [] \<and> fn_locals g ! 0 = return_type g"
proof -
  obtain t b1 where t: "required_type ix (hir_result f) (definition_span d) new_builder = (t, b1)"
    by fastforce
  define b2 where "b2 = lower_parameters ix (hir_parameters f) (b1\<lparr>b_locals := b_locals b1 @ [t]\<rparr>)"
  define b3 where "b3 = lower_block ix (hir_body f) t b2"
  define b4 where "b4 = (if terminator (current_block b3) = None
    then terminate Return (assign_unit_result t b3) else b3)"
  have "b_locals b1 = []"
    using t by (auto simp: required_type_def new_builder_def builder_error_def split: option.splits)
  moreover have "plain b1" using new_builder_plain required_type_grows [OF t] by (auto simp: grows_def)
  ultimately have "plain (b1\<lparr>b_locals := b_locals b1 @ [t]\<rparr>)" "b_locals (b1\<lparr>b_locals := b_locals b1 @ [t]\<rparr>) = [t]"
    by (auto simp: plain_def)
  moreover have "grows (b1\<lparr>b_locals := b_locals b1 @ [t]\<rparr>) b4"
  proof -
    have "grows b3 b4"
      unfolding b4_def using grows_trans [OF assign_unit_result_grows terminate_grows] by simp
    then show ?thesis
      unfolding b3_def b2_def
      by (rule grows_trans [OF grows_trans [OF lower_parameters_grows lower_block_grows]])
  qed
  ultimately have "plain b4" "prefix [t] (b_locals b4)" by (auto simp: grows_def)
  moreover have "g = \<lparr>fn_id = mir_def_id (definition_id d),
      parameter_count = try_from_or_max (length (hir_parameters f)),
      return_type = t, fn_locals = b_locals b4, fn_blocks = b_blocks b4\<rparr>"
    using assms t by (auto simp: lower_function_def Let_def b2_def b3_def b4_def)
  ultimately show ?thesis by (auto simp: plain_def prefix_def)
qed

section \<open>Drop insertion\<close>

lemma drops_for_whole: "s \<in> set (drops_for types C) \<Longrightarrow> whole_borrow s"
  by (auto simp: drops_for_def)

lemma drop_block_terminator [simp]: "terminator (drop_block types inc (i, b)) = terminator b"
  by (simp add: drop_block_def Let_def split: option.split)

lemma insert_function_drops_fields [simp]:
  "fn_id (insert_function_drops f) = fn_id f" "fn_locals (insert_function_drops f) = fn_locals f"
  "parameter_count (insert_function_drops f) = parameter_count f"
  "return_type (insert_function_drops f) = return_type f"
  "length (fn_blocks (insert_function_drops f)) = length (fn_blocks f)"
  by (simp_all add: insert_function_drops_def Let_def)

lemma insert_function_drops_block:
  "i < length (fn_blocks f) \<Longrightarrow>
     fn_blocks (insert_function_drops f) ! i = drop_block (fn_locals f) (ownership_flow f) (i, fn_blocks f ! i)"
  by (auto simp: insert_function_drops_def Let_def)

lemma lower_to_mirD:
  assumes "lower_to_mir hir = Inr p"
  shows "verify p = Inr ()" and "whole_borrows p"
proof -
  show "verify p = Inr ()"
    using assms by (auto simp: lower_to_mir_def Let_def split: if_splits sum.splits)
  have p: "program_functions p = map insert_function_drops (map fst (lower_functions hir))"
    using assms by (auto simp: lower_to_mir_def Let_def insert_drops_def split: if_splits sum.splits)
  have "whole_borrow s"
    if fbs: "f \<in> set (program_functions p)" "b \<in> set (fn_blocks f)" "s \<in> set (statements b)" for f b s
  proof -
    obtain g ds where g: "(g, ds) \<in> set (lower_functions hir)" "f = insert_function_drops g"
      using fbs(1) p by auto
    then have plain: "\<forall>block \<in> set (fn_blocks g). \<forall>s \<in> set (statements block). whole_borrow s"
      using lower_function_shape by (auto simp: lower_functions_def split: option.splits) (metis lower_function_shape)
    show ?thesis
      using fbs(2,3) g(2) plain
      by (auto simp: insert_function_drops_def drop_block_def Let_def drops_for_whole
          split: if_splits option.splits dest!: set_zip_rightD)
  qed
  then show "whole_borrows p" by (auto simp: whole_borrows_def)
qed

lemma reach_loop_cong:
  assumes "\<And>i. i < length re \<Longrightarrow> block_successors (bs ! i) = block_successors (bs' ! i)"
  shows "reach_loop bs re q = reach_loop bs' re q"
  using assms
proof (induction bs re q rule: reach_loop.induct)
  case (2 bs re b q)
  then show ?case by (simp add: Let_def not_le)
qed simp

lemma insert_function_drops_successors:
  "i < length (fn_blocks f) \<Longrightarrow>
     block_successors (fn_blocks (insert_function_drops f) ! i) = block_successors (fn_blocks f ! i)"
  by (simp add: insert_function_drops_block block_successors_def)

lemma insert_function_drops_reachable [simp]:
  "reachable_blocks (insert_function_drops f) = reachable_blocks f"
  unfolding reachable_blocks_def insert_function_drops_fields(5)
  by (rule reach_loop_cong) (simp add: insert_function_drops_successors)

lemma insert_function_drops_initial [simp]:
  "initial_flow (insert_function_drops f) re = initial_flow f re"
  unfolding initial_flow_def universe_def parameters_def insert_function_drops_fields ..

definition needs_drop :: "MirType list \<Rightarrow> LocalId \<Rightarrow> bool" where
  "needs_drop types l \<longleftrightarrow> (\<exists>ty. nth_opt types (unat l) = Some ty \<and> mir_type_needs_drop ty)"

lemma fold_drops: "fold transfer_statement (map (\<lambda>l. Drop (PLocal l)) ls) S = S - set ls"
  by (induction ls arbitrary: S) auto

lemma fold_drops_for:
  "fold transfer_statement (drops_for types C) S = S - {l \<in> C. l \<noteq> 0 \<and> needs_drop types l}"
  unfolding drops_for_def fold_drops
  by (auto simp: needs_drop_def split: option.splits)

lemma drop_block_statements:
  assumes "inc ! i = Some S"
  shows "fold transfer_statement (statements (drop_block types inc (i, b))) T =
    fold transfer_statement (statements b) T -
      {l \<in> drop_candidates inc (terminator b) (fold transfer_statement (statements b) S).
         l \<noteq> 0 \<and> needs_drop types l}"
  using assms by (simp add: drop_block_def Let_def fold_drops_for mir_transfer_statements_def)

lemma drop_block_transfer:
  assumes "inc ! i = Some S"
  shows "transfer_block (drop_block types inc (i, b)) T =
    transfer_block b T -
      {l \<in> drop_candidates inc (terminator b) (fold transfer_statement (statements b) S).
         l \<noteq> 0 \<and> needs_drop types l}"
proof (cases "terminator b")
  case None
  then show ?thesis
    by (simp add: transfer_block_def drop_block_statements [OF assms] drop_candidates_def)
next
  case (Some t)
  then show ?thesis
    by (cases t) (simp_all add: transfer_block_def drop_block_statements [OF assms]
        drop_candidates_def)
qed

lemma flow_le_antisym:
  assumes le: "flow_le a b" "flow_le b a"
  shows "a = b"
proof (rule nth_equalityI)
  show len: "length a = length b" by (rule flow_le_length [OF le(1)])
  show "a ! i = b ! i" if "i < length a" for i
  proof -
    have "rel_option (\<subseteq>) (a ! i) (b ! i)" "rel_option (\<subseteq>) (b ! i) (a ! i)"
      using le that len by (auto simp: flow_le_def list_all2_conv_all_nth)
    then show ?thesis by (cases "a ! i"; cases "b ! i") auto
  qed
qed

lemma ownership_flow_stable:
  "flow_stable False transfer_block (reachable_blocks f) (fn_blocks f) (ownership_flow f)"
  by (simp add: ownership_flow_eq flow_solution_def flow_loop_stable)

lemma ownership_flow_above:
  assumes "flow_stable False transfer_block (reachable_blocks f) (fn_blocks f) X"
    and "flow_le X (initial_flow f (reachable_blocks f))"
  shows "flow_le X (ownership_flow f)"
  using own_flow.greatest [OF assms(1) _ assms(2)] flow_le_length [OF assms(2)]
  by (simp add: ownership_flow_eq flow_solution_def)

lemma drop_candidates_edge:
  assumes "s \<in> set (block_successors b)" and "inc ! unat s = Some c" and "unat s < length inc"
  shows "drop_candidates inc (terminator b) S \<inter> c = {}"
  using assms by (cases "terminator b")
    (auto simp: drop_candidates_def block_successors_def nth_opt_def split: Terminator.splits)

lemma insert_function_drops_flow:
  "ownership_flow (insert_function_drops f) = ownership_flow f" (is "?X' = ?X")
proof (rule flow_le_antisym)
  let ?f = "insert_function_drops f" and ?re = "reachable_blocks f"
  have tr: "edge_ok False ?re inc (transfer_block (fn_blocks ?f ! i) st) s
      \<longrightarrow> edge_ok False ?re inc (transfer_block (fn_blocks f ! i) st) s"
    if "i < length (fn_blocks f)" for inc i st s
  proof -
    have "transfer_block (fn_blocks ?f ! i) st \<subseteq> transfer_block (fn_blocks f ! i) st"
    proof (cases "?X ! i")
      case None
      then show ?thesis using that by (simp add: insert_function_drops_block drop_block_def)
    next
      case (Some S)
      then show ?thesis using that by (auto simp: insert_function_drops_block drop_block_transfer)
    qed
    then show ?thesis by (auto simp: edge_ok_def)
  qed
  have le: "flow_le ?X' (initial_flow f ?re)" "flow_le ?X (initial_flow f ?re)"
    using flow_solution_le [of False transfer_block] 
    by (metis insert_function_drops_initial insert_function_drops_reachable ownership_flow_eq)+
  show "flow_le ?X' ?X"
  proof (rule ownership_flow_above [OF _ le(1)])
    show "flow_stable False transfer_block ?re (fn_blocks f) ?X'"
      using ownership_flow_stable [of ?f] tr
      unfolding flow_stable_def by (simp add: insert_function_drops_successors)
  qed
  have "edge_ok False ?re ?X (transfer_block (fn_blocks ?f ! i) st) s"
    if i: "i < length (fn_blocks f)" "?X ! i = Some st" "s \<in> set (block_successors (fn_blocks f ! i))" for i st s
  proof -
    have "edge_ok False ?re ?X (transfer_block (fn_blocks f ! i) st) s"
      using ownership_flow_stable i unfolding flow_stable_def by blast
    then show ?thesis
      using i drop_candidates_edge [OF i(3), of ?X]
      by (fastforce simp: edge_ok_def insert_function_drops_block drop_block_transfer)
  qed
  then show "flow_le ?X ?X'"
    using le(2) by (intro ownership_flow_above)
      (simp_all add: flow_stable_def insert_function_drops_successors)
qed


section \<open>Inserted drops are valid\<close>

lemma check_read_drops [simp]: "check_read (insert_function_drops f) = check_read f"
  by (simp add: check_read_def fun_eq_iff)

lemma affine_local_drops [simp]: "affine_local (insert_function_drops f) = affine_local f"
  by (simp add: affine_local_def fun_eq_iff)

lemma check_operand_drops [simp]:
  "check_operand_ownership (insert_function_drops f) b x S I = check_operand_ownership f b x S I"
  by (cases x) simp_all

lemma check_operands_drops [simp]:
  "check_operands_ownership (insert_function_drops f) b xs S I = check_operands_ownership f b xs S I"
  by (induction xs arbitrary: S) simp_all

lemma check_statement_drops [simp]:
  "check_statement_ownership (insert_function_drops f) b s S I = check_statement_ownership f b s S I"
proof (cases s)
  case (Assign p v)
  then show ?thesis
    by (cases p; cases v) (simp_all add: split_beta del: check_operands_ownership.simps)
qed (simp add: Let_def)

lemma check_statements_drops [simp]:
  "check_statements_ownership (insert_function_drops f) b ss S I = check_statements_ownership f b ss S I"
  by (induction ss arbitrary: S) simp_all

lemma check_terminator_drops [simp]:
  "check_terminator_ownership (insert_function_drops f) b t S I = check_terminator_ownership f b t S I"
  by (cases t) simp_all

lemma check_statements_append:
  "check_statements_ownership f b (ss @ ts) S I =
     (let (S', e1) = check_statements_ownership f b ss S I;
          (S'', e2) = check_statements_ownership f b ts S' I
      in (S'', e1 @ e2))"
  by (induction ss arbitrary: S) (simp_all add: split_beta)

lemma check_drops_ok:
  "distinct ls \<Longrightarrow> set ls \<subseteq> S \<Longrightarrow>
     check_statements_ownership f b (map (\<lambda>l. Drop (PLocal l)) ls) S I = (S - set ls, [])"
proof (induction ls arbitrary: S)
  case (Cons l ls)
  then have "check_statements_ownership f b (map (\<lambda>l. Drop (PLocal l)) ls) (S - {l}) I
      = (S - {l} - set ls, [])"
    by (intro Cons.IH) auto
  then show ?case using Cons.prems by auto
qed simp

lemma check_drops_for_ok:
  assumes "C \<subseteq> S"
  shows "check_statements_ownership f b (drops_for types C) S I =
    (S - {l \<in> C. l \<noteq> 0 \<and> needs_drop types l}, [])"
proof -
  let ?ls = "filter (\<lambda>l. l \<noteq> 0 \<and>
      (case nth_opt types (unat l) of None \<Rightarrow> False | Some ty \<Rightarrow> mir_type_needs_drop ty))
    (rev (sorted_list_of_set C))"
  have "set ?ls = {l \<in> C. l \<noteq> 0 \<and> needs_drop types l}"
    by (auto simp: needs_drop_def split: option.splits)
  moreover have "distinct ?ls" by simp
  ultimately show ?thesis
    using check_drops_ok [of ?ls S f b I] assms unfolding drops_for_def by auto
qed

lemma drop_candidates_owned: "drop_candidates inc t S \<subseteq> S"
  by (auto simp: drop_candidates_def split: option.splits Terminator.splits)

lemma init_transfer_drops:
  "init_transfer (drop_block types inc (i, b)) S = init_transfer b S"
proof -
  have "fold assigned_statement (map (\<lambda>l. Drop (PLocal l)) ls) T = T" for ls T
    by (induction ls) auto
  then show ?thesis
    by (auto simp: init_transfer_def drop_block_def Let_def drops_for_def split: option.splits)
qed

lemma ever_initialized_drops [simp]:
  "ever_initialized (insert_function_drops f) P = ever_initialized f P"
proof -
  have "fold init_transfer (map (drop_block types inc) xs) P = fold init_transfer (map snd xs) P"
    for types inc xs
    by (induction xs arbitrary: P) (auto simp: init_transfer_drops)
  then show ?thesis
    by (simp add: ever_initialized_def insert_function_drops_def Let_def)
qed

lemma drop_block_ownership:
  assumes "inc ! i = Some S" and ok: "check_block_ownership f k b S I = []"
  shows "check_block_ownership (insert_function_drops f) k (drop_block types inc (i, b)) S I = []"
proof -
  obtain S1 where s1: "check_statements_ownership f k (statements b) S I = (S1, [])"
    and t: "\<And>t. terminator b = Some t \<Longrightarrow> check_terminator_ownership f k t S1 I = []"
    using ok by (auto simp: check_block_ownership_def Let_def split: prod.splits option.splits)
  have S1: "S1 = fold transfer_statement (statements b) S" by (rule check_statements_state [OF s1])
  let ?C = "drop_candidates inc (terminator b) S1"
  obtain S2 where s2: "check_statements_ownership f k (drops_for types ?C) S1 I = (S2, [])"
    and z: "0 \<in> S2 \<longleftrightarrow> 0 \<in> S1"
    using check_drops_for_ok [OF drop_candidates_owned [of inc "terminator b" S1]] by fastforce
  have "check_terminator_ownership f k u S2 I = []" if u: "terminator b = Some u" for u
  proof (cases u)
    case Return
    then show ?thesis using t [OF u] z by (auto simp: check_read_def split: if_splits)
  next
    case (SwitchInt x ts d)
    then have "S2 = S1" using s2 u by (simp add: drop_candidates_def drops_for_def)
    then show ?thesis using t [OF u] by simp
  next
    case (Call g args p n)
    then have "S2 = S1" using s2 u by (simp add: drop_candidates_def drops_for_def)
    then show ?thesis using t [OF u] by simp
  qed simp
  then show ?thesis
    using assms(1) s1 s2 S1
    by (auto simp: check_block_ownership_def check_statements_append drop_block_def Let_def
        mir_transfer_statements_def split: option.split)
qed

lemma insert_function_drops_ownership:
  assumes "verify_affine_ownership f = []"
  shows "verify_affine_ownership (insert_function_drops f) = []"
proof -
  let ?f = "insert_function_drops f"
  have "check_block_ownership ?f (block_id_of i) (fn_blocks ?f ! i) S (ever_initialized f (parameters f)) = []"
    if "i < length (fn_blocks f)" "ownership_flow f ! i = Some S" for i S
  proof -
    have "(i, fn_blocks f ! i) \<in> set (zip [0..<length (fn_blocks f)] (fn_blocks f))"
      by (rule in_zip_enumerate [OF that(1)])
    then have "check_block_ownership f (block_id_of i) (fn_blocks f ! i) S (ever_initialized f (parameters f)) = []"
      using assms that by (force simp: verify_affine_ownership_def Let_def split: if_splits)
    then show ?thesis
      using that drop_block_ownership by (simp add: insert_function_drops_block)
  qed
  moreover have "parameters ?f = parameters f" by (simp only: parameters_def insert_function_drops_fields)
  ultimately show ?thesis
    by (auto simp: verify_affine_ownership_def Let_def insert_function_drops_flow set_zip split: option.split)
qed

section \<open>Properties\<close>

text \<open>
  C1. End-to-end soundness of the compiler's back half: whatever the lowering returns runs
  safely. With an instruction limit below \<open>u64::MAX\<close> and fuel above that limit, every run of a
  compiled function without parameters ends; it does not end with a stuck error, that is a panic, a
  missing entry, block or argument or the use of an empty local; and a completed run reports a
  value of the function's declared MIR result type.
\<close>

theorem lowered_execution_sound:
  assumes "lower_to_mir hir = Inr p" and "function_table p d = Some f" and "parameter_count f = 0"
    and "max_instructions limits < - 1" and "unat (max_instructions limits) < fuel"
  shows "\<exists>r. execute fuel p d limits = Some r \<and>
    (case r of Inl e \<Rightarrow> \<not> stuck e | Inr res \<Rightarrow> runtime_has_type (result_value res) (return_type f))"
  using execute_returns [OF assms(4,5), of p d] lower_to_mirD [OF assms(1)]
    execute_not_stuck [OF _ assms(2,3)] execute_typed [OF _ assms(2)]
  by (auto split: sum.split)

theorem lowered_execution_sound_witness:
  "\<exists>p f r. lower_to_mir (add_two one_expr) = Inr p \<and> function_table p main_id = Some f \<and>
     execute 20 p main_id small_limits = Some r \<and>
     (case r of Inl e \<Rightarrow> \<not> stuck e | Inr res \<Rightarrow> runtime_has_type (result_value res) (return_type f))"
proof -
  define p where "p = projr (lower_to_mir (add_two one_expr))"
  define f where "f = hd (program_functions p)"
  have p: "lower_to_mir (add_two one_expr) = Inr p" unfolding p_def by code_simp
  have f: "function_table p main_id = Some f" "parameter_count f = 0"
    unfolding f_def p_def by code_simp+
  have l: "max_instructions small_limits < - 1" "unat (max_instructions small_limits) < 20"
    by (simp_all add: small_limits_def)
  show ?thesis using lowered_execution_sound [OF p f l] p f by blast
qed

text \<open>
  C27. Drop insertion is sound: it leaves the ownership analysis unchanged, and when the function
  passed the affine ownership check before, it passes it with the inserted drops.
\<close>

theorem drop_insertion_sound:
  "ownership_flow (insert_function_drops f) = ownership_flow f \<and>
   (verify_affine_ownership f = [] \<longrightarrow> verify_affine_ownership (insert_function_drops f) = [])"
  using insert_function_drops_flow insert_function_drops_ownership by blast

theorem drop_insertion_sound_witness:
  "verify_affine_ownership (insert_function_drops main_function) = []"
proof -
  have "verify_affine_ownership main_function = []" by code_simp
  then show ?thesis using drop_insertion_sound [of main_function] by blast
qed

text \<open>
  Drop insertion is complete at returns: when a block returns, no local the analysis still
  counts as owned needs a drop, the result local apart.
\<close>

theorem drop_insertion_complete:
  assumes "i < length (fn_blocks f)" and "ownership_flow (insert_function_drops f) ! i = Some S"
    and "terminator (fn_blocks f ! i) = Some Return"
    and "l \<in> fold transfer_statement (statements (fn_blocks (insert_function_drops f) ! i)) S"
    and "needs_drop (fn_locals f) l"
  shows "l = 0"
proof -
  have S: "ownership_flow f ! i = Some S" using assms(2) by (simp add: insert_function_drops_flow)
  show ?thesis
    using assms(1,3-5) drop_block_statements [OF S]
    by (auto simp: insert_function_drops_block drop_candidates_def)
qed

theorem drop_insertion_complete_witness:
  "{l \<in> fold transfer_statement (statements (fn_blocks (insert_function_drops leaky_function) ! 0)) {}.
      needs_drop (fn_locals leaky_function) l} \<subseteq> {0} \<and>
   0 \<in> fold transfer_statement (statements (fn_blocks (insert_function_drops leaky_function) ! 0)) {} \<and>
   needs_drop (fn_locals leaky_function) 0"
proof -
  have "ownership_flow (insert_function_drops leaky_function) ! 0 = Some {}" by code_simp
  moreover have "0 < length (fn_blocks leaky_function)"
    "terminator (fn_blocks leaky_function ! 0) = Some Return"
    by (simp_all add: leaky_function_def)
  moreover have "0 \<in> fold transfer_statement
      (statements (fn_blocks (insert_function_drops leaky_function) ! 0)) {}"
    by code_simp
  ultimately show ?thesis
    using drop_insertion_complete [of 0 leaky_function "{}"]
    by (auto simp: needs_drop_def leaky_function_def nth_opt_def)
qed

text \<open>
  A nested block ends the enclosing function: the lowering of a block expression emits the
  return of a function body, so \<open>let x = { 1 }; x + 2\<close> compiles to a function that returns 1,
  while \<open>let x = 1; x + 2\<close> returns 3.
\<close>

theorem nested_block_returns_early:
  "run_lowered (add_two one_expr) =
     Some (Inr \<lparr>result_value = RU64 3, result_stdout = [], result_drops = 0\<rparr>) \<and>
   run_lowered (add_two one_block) =
     Some (Inr \<lparr>result_value = RU64 1, result_stdout = [], result_drops = 0\<rparr>)"
  by (rule conjI; code_simp)

end
