(* ===== verification/Effects.thy ===== *)
theory Effects
  imports Hir_Examples
begin

text \<open>
  Whole-program effect inference of \<open>crates/syllog-compiler/src/effects.rs\<close>. A
  \<open>BTreeMap<DefId, _>\<close> that is iterated is its list of entries in key order. The theorems say
  that the inferred effects are exactly those of the definitions in the transitive call graph,
  that accepted programs respect their declared bounds, and that the manifest is their union.
\<close>

section \<open>Effects in their declaration order\<close>

fun effect_rank :: "Effect \<Rightarrow> nat" where
  "effect_rank Alloc = 0"
| "effect_rank Async = 1"
| "effect_rank Io = 2"
| "effect_rank Network = 3"
| "effect_rank Provider = 4"

lemma effect_rank_inject [simp]: "effect_rank a = effect_rank b \<longleftrightarrow> a = b"
  by (cases a; cases b) auto

instantiation Effect :: linorder
begin

definition less_eq_Effect :: "Effect \<Rightarrow> Effect \<Rightarrow> bool" where
  "less_eq_Effect a b \<longleftrightarrow> effect_rank a \<le> effect_rank b"

definition less_Effect :: "Effect \<Rightarrow> Effect \<Rightarrow> bool" where
  "less_Effect a b \<longleftrightarrow> effect_rank a < effect_rank b"

instance
  by standard (auto simp: less_eq_Effect_def less_Effect_def)

end

instantiation Effect :: enum
begin

definition enum_Effect :: "Effect list" where
  "enum_Effect = [Alloc, Async, Io, Network, Provider]"

definition enum_all_Effect :: "(Effect \<Rightarrow> bool) \<Rightarrow> bool" where
  "enum_all_Effect P \<longleftrightarrow> P Alloc \<and> P Async \<and> P Io \<and> P Network \<and> P Provider"

definition enum_ex_Effect :: "(Effect \<Rightarrow> bool) \<Rightarrow> bool" where
  "enum_ex_Effect P \<longleftrightarrow> P Alloc \<or> P Async \<or> P Io \<or> P Network \<or> P Provider"

instance
proof
  show univ: "(UNIV :: Effect set) = set enum_class.enum"
    by (auto simp: enum_Effect_def intro: Effect.exhaust)
  show "distinct (enum_class.enum :: Effect list)" by (simp add: enum_Effect_def)
  show "enum_class.enum_all P \<longleftrightarrow> Ball UNIV P" for P :: "Effect \<Rightarrow> bool"
    unfolding univ by (simp add: enum_all_Effect_def enum_Effect_def)
  show "enum_class.enum_ex P \<longleftrightarrow> Bex UNIV P" for P :: "Effect \<Rightarrow> bool"
    unfolding univ by (simp add: enum_ex_Effect_def enum_Effect_def)
qed

end

section \<open>Data\<close>

type_synonym effects = "Effect set"

record EffectError =
  effect_code :: string
  effect_message :: string
  effect_span :: Span

record EffectAnalysis =
  inferred_effects :: "(HirDefId \<times> effects) list"
  manifest :: CapabilityManifest

record LocalEffects =
  direct :: effects
  calls :: "HirDefId set"

definition default_effects :: LocalEffects where
  "default_effects = \<lparr>direct = {}, calls = {}\<rparr>"

section \<open>Local inspection\<close>

definition add_direct :: "Effect \<Rightarrow> LocalEffects \<Rightarrow> LocalEffects" where
  "add_direct e effs = effs\<lparr>direct := insert e (direct effs)\<rparr>"

definition add_call :: "HirDefId \<Rightarrow> LocalEffects \<Rightarrow> LocalEffects" where
  "add_call d effs = effs\<lparr>calls := insert d (calls effs)\<rparr>"

definition add_callee :: "TypedExpr \<Rightarrow> LocalEffects \<Rightarrow> LocalEffects" where
  "add_callee callee effs =
     (case expr_kind callee of HReference d \<Rightarrow> add_call d effs | _ \<Rightarrow> effs)"

fun inspect_expr :: "TypedExpr \<Rightarrow> LocalEffects \<Rightarrow> LocalEffects"
  and inspect_kind :: "HirExprKind \<Rightarrow> LocalEffects \<Rightarrow> LocalEffects"
  and inspect_arm :: "HirMatchArm \<Rightarrow> LocalEffects \<Rightarrow> LocalEffects"
  and inspect_statement :: "HirStatement \<Rightarrow> LocalEffects \<Rightarrow> LocalEffects"
  and inspect_block :: "HirBlock \<Rightarrow> LocalEffects \<Rightarrow> LocalEffects" where
  "inspect_expr (TypedExpr kind ty sp) effs = inspect_kind kind effs"
| "inspect_kind (HAwait x) effs = inspect_expr x (add_direct Async effs)"
| "inspect_kind (HLiteral l) effs =
     (case l of LString _ \<Rightarrow> add_direct Alloc effs | _ \<Rightarrow> effs)"
| "inspect_kind (HArray items) effs = fold inspect_expr items (add_direct Alloc effs)"
| "inspect_kind (HCall callee arguments) effs =
     fold inspect_expr arguments (inspect_expr callee (add_callee callee effs))"
| "inspect_kind (HBorrow is_mut x) effs = inspect_expr x effs"
| "inspect_kind (HField base field) effs = inspect_expr base effs"
| "inspect_kind (HUnary op x) effs = inspect_expr x effs"
| "inspect_kind (HBinary op left right) effs = inspect_expr right (inspect_expr left effs)"
| "inspect_kind (HMatch v arms) effs = fold inspect_arm arms (inspect_expr v effs)"
| "inspect_kind (HBlock block) effs = inspect_block block effs"
| "inspect_kind (HReference d) effs = effs"
| "inspect_arm (HirMatchArm pat guard body sp) effs =
     inspect_expr body (case guard of None \<Rightarrow> effs | Some g \<Rightarrow> inspect_expr g effs)"
| "inspect_statement (HLet d name ty v) effs = inspect_expr v effs"
| "inspect_statement (HExpression v) effs = inspect_expr v effs"
| "inspect_statement (HReturn v) effs =
     (case v of None \<Rightarrow> effs | Some e \<Rightarrow> inspect_expr e effs)"
| "inspect_block (HirBlock stmts sp) effs = fold inspect_statement stmts effs"

definition local_effects :: "HirDefinitionKind \<Rightarrow> LocalEffects option" where
  "local_effects kind =
     (case kind of
        DFunction f \<Rightarrow>
          Some (inspect_block (hir_body f)
            (if asynchronous f then add_direct Async default_effects else default_effects))
      | DPipeline p \<Rightarrow>
          (let effs = (if pipeline_agent p \<noteq> None
                       then add_direct Provider (add_direct Network default_effects)
                       else default_effects)
           in Some (case pipeline_body p of None \<Rightarrow> effs | Some body \<Rightarrow> inspect_expr body effs))
      | _ \<Rightarrow> None)"

section \<open>Declared bounds\<close>

definition bound_error :: "string \<Rightarrow> string \<Rightarrow> Span \<Rightarrow> EffectError" where
  "bound_error code message sp =
     \<lparr>effect_code = code, effect_message = message, effect_span = sp\<rparr>"

definition quoted :: "string \<Rightarrow> string" where
  "quoted name = CHR 0x27 # name @ [CHR 0x27]"

fun parse_names ::
  "string list \<Rightarrow> string set \<Rightarrow> Span \<Rightarrow> effects \<times> EffectError list" where
  "parse_names [] seen sp = ({}, [])"
| "parse_names (name # names) seen sp =
     (let (parsed, errs) = parse_names names (insert name seen) sp
      in if name \<in> seen
         then (parsed, bound_error ''SYL2701'' (''duplicate effect '' @ quoted name) sp # errs)
         else if name = ''pure'' then (parsed, errs)
         else case from_source name of
                Some e \<Rightarrow> (insert e parsed, errs)
              | None \<Rightarrow>
                  (parsed, bound_error ''SYL2701'' (''unknown effect '' @ quoted name) sp # errs))"

definition parse_declaration ::
  "string list option \<Rightarrow> Span \<Rightarrow> effects option \<times> EffectError list" where
  "parse_declaration declaration sp =
     (case declaration of
        None \<Rightarrow> (None, [])
      | Some names \<Rightarrow>
          (let e1 = (if ''pure'' \<in> set names \<and> length names \<noteq> 1
                     then [bound_error ''SYL2701''
                             (quoted ''pure'' @ '' cannot be combined with effect capabilities'') sp]
                     else []);
               (parsed, e2) = parse_names names {} sp
           in (Some parsed, e1 @ e2)))"

definition display_effects :: "Effect list \<Rightarrow> string" where
  "display_effects effs = concat (case map as_str effs of [] \<Rightarrow> [] | s # ss \<Rightarrow> s # map ((@) '', '') ss)"

section \<open>Transitive inference\<close>

type_synonym effect_table = "(HirDefId \<times> effects) list"

definition callee_effects :: "effect_table \<Rightarrow> HirDefId set \<Rightarrow> effects" where
  "callee_effects snapshot callees =
     (\<Union>callee \<in> callees. case map_of snapshot callee of None \<Rightarrow> {} | Some effs \<Rightarrow> effs)"

definition infer_pass :: "(HirDefId \<times> LocalEffects) list \<Rightarrow> effect_table \<Rightarrow> effect_table" where
  "infer_pass local snapshot =
     map (\<lambda>((d, effs), (_, target)). (d, target \<union> callee_effects snapshot (calls effs)))
       (zip local snapshot)"

definition infer_changed :: "effect_table \<Rightarrow> effect_table \<Rightarrow> bool" where
  "infer_changed old new \<longleftrightarrow> list_ex (\<lambda>((_, a), (_, b)). card b \<noteq> card a) (zip old new)"

definition missing_effects :: "effect_table \<Rightarrow> nat" where
  "missing_effects table = (\<Sum>entry \<leftarrow> table. card (- snd entry))"

lemma infer_pass_decreases:
  assumes "infer_changed snapshot (infer_pass local snapshot)"
  shows "missing_effects (infer_pass local snapshot) < missing_effects snapshot"
proof -
  define g where "g = (\<lambda>(x :: HirDefId \<times> LocalEffects) (y :: HirDefId \<times> effects).
    (fst x, snd y \<union> callee_effects snapshot (calls (snd x))))"
  have pass: "infer_pass local s = map (\<lambda>p. g (fst p) (snd p)) (zip local s)"
    if "callee_effects s = callee_effects snapshot" for s
    using that by (auto simp: infer_pass_def g_def split_beta)
  have le: "card (- snd (g x y)) \<le> card (- snd y)" for x y
    by (rule card_mono) (auto simp: g_def)
  have less: "card (- snd (g x y)) < card (- snd y)" if "card (snd (g x y)) \<noteq> card (snd y)" for x y
  proof (rule psubset_card_mono)
    have "snd (g x y) \<noteq> snd y" "snd y \<subseteq> snd (g x y)" using that by (auto simp: g_def)
    then show "- snd (g x y) \<subset> - snd y" by blast
  qed simp
  have "list_ex (\<lambda>((_, a), (_, b)). card b \<noteq> card a) (zip s (map (\<lambda>p. g (fst p) (snd p)) (zip ls s)))
      \<Longrightarrow> missing_effects (map (\<lambda>p. g (fst p) (snd p)) (zip ls s)) < missing_effects s" for ls s
  proof (induction s arbitrary: ls)
    case (Cons y s)
    show ?case
    proof (cases ls)
      case (Cons x ls')
      have weak: "missing_effects (map (\<lambda>p. g (fst p) (snd p)) (zip ls s)) \<le> missing_effects s" for ls s
      proof (induction s arbitrary: ls)
        case (Cons y s)
        show ?case using Cons.IH [of "tl ls"] le [of "hd ls" y]
          by (cases ls) (auto simp: missing_effects_def split_beta add_mono)
      qed (simp add: missing_effects_def)
      show ?thesis
        using Cons.prems Cons.IH [of ls'] le [of x y] less [of x y] weak [of ls' s]
        by (auto simp: \<open>ls = x # ls'\<close> missing_effects_def split_beta)
    qed (use Cons.prems in simp)
  qed simp
  then show ?thesis using assms unfolding infer_changed_def pass [OF refl] by blast
qed

function infer_loop :: "(HirDefId \<times> LocalEffects) list \<Rightarrow> effect_table \<Rightarrow> effect_table" where
  "infer_loop local snapshot =
     (let inferred = infer_pass local snapshot in
      if infer_changed snapshot inferred then infer_loop local inferred else inferred)"
  by pat_completeness auto
termination
  by (relation "measure (\<lambda>(local, snapshot). missing_effects snapshot)")
     (auto simp: infer_pass_decreases)

declare infer_loop.simps [simp del]

section \<open>The analysis\<close>

definition local_entries :: "HirProgram \<Rightarrow> (HirDefId \<times> LocalEffects) list" where
  "local_entries program =
     btree_entries (concat (map (\<lambda>d. case local_effects (definition_kind d) of
         None \<Rightarrow> [] | Some effs \<Rightarrow> [(definition_id d, effs)]) (all_definitions program)))"

definition declared_bounds ::
  "HirProgram \<Rightarrow> (HirDefId \<times> (effects option \<times> EffectError list) \<times> Span) list" where
  "declared_bounds program =
     concat (map (\<lambda>d. case definition_kind d of
         DFunction f \<Rightarrow>
           [(definition_id d, parse_declaration (declared_effects f) (definition_span d),
             definition_span d)]
       | _ \<Rightarrow> []) (all_definitions program))"

definition inferred_table :: "HirProgram \<Rightarrow> effect_table" where
  "inferred_table program =
     (let local = local_entries program
      in infer_loop local (map (\<lambda>(d, effs). (d, direct effs)) local))"

definition bound_violation ::
  "effect_table \<Rightarrow> HirDefId \<times> effects option \<times> Span \<Rightarrow> EffectError list" where
  "bound_violation inferred = (\<lambda>(d, declared, sp).
     (case declared of
        None \<Rightarrow> []
      | Some bound \<Rightarrow>
          (let actual = (case map_of inferred d of None \<Rightarrow> {} | Some effs \<Rightarrow> effs);
               missing = sorted_list_of_set (actual - bound)
           in if missing = [] then []
              else [bound_error ''SYL2702''
                      (''declared effect bound omits inferred effect(s): '' @
                         display_effects missing) sp])))"

definition effect_errors :: "HirProgram \<Rightarrow> EffectError list" where
  "effect_errors program =
     (let bounds = declared_bounds program;
          declarations = btree_entries (map (\<lambda>(d, (declared, _), sp). (d, declared, sp)) bounds)
      in concat (map (\<lambda>(_, (_, errs), _). errs) bounds) @
         concat (map (bound_violation (inferred_table program)) declarations))"

definition analyze_effects :: "HirProgram \<Rightarrow> EffectError list + EffectAnalysis" where
  "analyze_effects program =
     (let errs = effect_errors program; inferred = inferred_table program
      in if errs \<noteq> []
         then Inl (sort_key (\<lambda>e. (span_start (effect_span e), effect_code e)) errs)
         else Inr \<lparr>inferred_effects = inferred,
                   manifest = \<lparr>format_version = 1, required = \<Union> (snd ` set inferred)\<rparr>\<rparr>)"

section \<open>Inference is the transitive closure of the call graph\<close>

text \<open>The call graph between definitions that have effects of their own.\<close>

definition call_edges :: "(HirDefId \<times> LocalEffects) list \<Rightarrow> (HirDefId \<times> HirDefId) set" where
  "call_edges local =
     {(d, c). \<exists>effs. (d, effs) \<in> set local \<and> c \<in> calls effs \<and> c \<in> fst ` set local}"

definition reachable_effects :: "(HirDefId \<times> LocalEffects) list \<Rightarrow> HirDefId \<Rightarrow> effects" where
  "reachable_effects local d =
     {e. \<exists>c effs. (d, c) \<in> (call_edges local)\<^sup>* \<and> (c, effs) \<in> set local \<and> e \<in> direct effs}"

text \<open>What the loop keeps: the keys, the direct effects as a lower bound, soundness.\<close>

definition table_ok :: "(HirDefId \<times> LocalEffects) list \<Rightarrow> effect_table \<Rightarrow> bool" where
  "table_ok local table \<longleftrightarrow> map fst table = map fst local \<and>
     (\<forall>i < length local. direct (snd (local ! i)) \<subseteq> snd (table ! i)
        \<and> snd (table ! i) \<subseteq> reachable_effects local (fst (local ! i)))"

lemma table_ok_length: "table_ok local table \<Longrightarrow> length table = length local"
  by (metis length_map table_ok_def)

lemma infer_pass_nth:
  assumes "i < length local" and "length table = length local"
  shows "infer_pass local table ! i =
    (fst (local ! i), snd (table ! i) \<union> callee_effects table (calls (snd (local ! i))))"
  using assms by (simp add: infer_pass_def split_beta)

lemma table_lookup:
  assumes "table_ok local table" and "distinct (map fst local)" and "i < length local"
  shows "map_of table (fst (local ! i)) = Some (snd (table ! i))"
proof -
  have len: "length table = length local" by (rule table_ok_length [OF assms(1)])
  have keys: "map fst table = map fst local" using assms(1) by (simp add: table_ok_def)
  then have "fst (local ! i) = fst (table ! i)"
    using assms(3) len by (metis nth_map)
  moreover have "table ! i \<in> set table" using assms(3) len by simp
  ultimately show ?thesis
    using assms(2) keys by (metis map_of_eq_Some_iff prod.collapse)
qed

lemma reachable_effects_edge:
  "(d, c) \<in> call_edges local \<Longrightarrow> reachable_effects local c \<subseteq> reachable_effects local d"
  unfolding reachable_effects_def by (blast intro: converse_rtrancl_into_rtrancl)

lemma callee_effects_sound:
  assumes ok: "table_ok local table" and dist: "distinct (map fst local)" and i: "i < length local"
  shows "callee_effects table (calls (snd (local ! i))) \<subseteq> reachable_effects local (fst (local ! i))"
proof
  fix e
  assume "e \<in> callee_effects table (calls (snd (local ! i)))"
  then obtain c effs where c: "c \<in> calls (snd (local ! i))" "map_of table c = Some effs" "e \<in> effs"
    by (auto simp: callee_effects_def split: option.splits)
  then have "c \<in> fst ` set table" by (metis map_of_SomeD fst_conv image_eqI)
  then have "c \<in> fst ` set local" using ok by (metis table_ok_def list.set_map)
  then obtain j where j: "j < length local" "c = fst (local ! j)"
    by (auto simp: in_set_conv_nth)
  have "effs = snd (table ! j)" using table_lookup [OF ok dist j(1)] j(2) c(2) by simp
  then have "e \<in> reachable_effects local c" using ok j c(3) by (auto simp: table_ok_def)
  moreover have "(fst (local ! i), c) \<in> call_edges local"
    using c(1) \<open>c \<in> fst ` set local\<close> nth_mem [OF i] unfolding call_edges_def
    by (intro CollectI case_prodI exI [of _ "snd (local ! i)"]) simp
  ultimately show "e \<in> reachable_effects local (fst (local ! i))"
    using reachable_effects_edge by blast
qed

lemma infer_pass_ok:
  assumes "table_ok local table" and "distinct (map fst local)"
  shows "table_ok local (infer_pass local table)"
proof -
  have len: "length table = length local" by (rule table_ok_length [OF assms(1)])
  have "map fst (infer_pass local table) = map fst local"
    using len by (intro nth_equalityI) (simp_all add: infer_pass_def split_beta)
  moreover have "direct (snd (local ! i)) \<subseteq> snd (infer_pass local table ! i) \<and>
      snd (infer_pass local table ! i) \<subseteq> reachable_effects local (fst (local ! i))"
    if "i < length local" for i
    using assms that callee_effects_sound [OF assms that]
    by (auto simp: infer_pass_nth [OF that len] table_ok_def)
  ultimately show ?thesis by (simp add: table_ok_def)
qed

lemma infer_pass_fixed:
  assumes "\<not> infer_changed table (infer_pass local table)" and "length table = length local"
    and "i < length local"
  shows "callee_effects table (calls (snd (local ! i))) \<subseteq> snd (table ! i)"
proof -
  let ?new = "infer_pass local table"
  have "length ?new = length local" using assms(2) by (simp add: infer_pass_def)
  then have "(table ! i, ?new ! i) \<in> set (zip table ?new)"
    using assms(2,3) by (metis in_set_zip fst_conv snd_conv)
  then have "card (snd (?new ! i)) = card (snd (table ! i))"
    using assms(1) by (fastforce simp: infer_changed_def list_ex_iff split_beta)
  then have "snd (?new ! i) = snd (table ! i)"
    using infer_pass_nth [OF assms(3,2)] by (intro card_subset_eq [symmetric]) auto
  then show ?thesis using infer_pass_nth [OF assms(3,2)] by auto
qed

lemma infer_loop_result:
  assumes "table_ok local table" and "distinct (map fst local)"
  shows "table_ok local (infer_loop local table) \<and>
    (\<forall>i < length local. callee_effects (infer_loop local table) (calls (snd (local ! i)))
       \<subseteq> snd (infer_loop local table ! i))"
  using assms
proof (induction local table rule: infer_loop.induct)
  case (1 local table)
  let ?new = "infer_pass local table"
  have ok: "table_ok local ?new" using infer_pass_ok 1(2,3) by blast
  show ?case
  proof (cases "infer_changed table ?new")
    case True
    then show ?thesis using 1(1) [OF refl True ok 1(3)] by (simp add: infer_loop.simps Let_def)
  next
    case False
    note len = table_ok_length [OF 1(2)]
    have fixed: "\<And>i. i < length local \<Longrightarrow> callee_effects table (calls (snd (local ! i))) \<subseteq> snd (table ! i)"
      using infer_pass_fixed [OF False len] .
    then have "?new = table"
    proof (intro nth_equalityI)
      show "length ?new = length table" using len by (simp add: infer_pass_def)
      show "?new ! i = table ! i" if "i < length ?new" for i
      proof -
        have i: "i < length local" using that by (simp add: infer_pass_def)
        moreover have "fst (table ! i) = fst (local ! i)"
          using 1(2) i len by (metis nth_map table_ok_def)
        ultimately show ?thesis
          using fixed [OF i] infer_pass_nth [OF i len] by (metis Un_absorb2 prod.collapse)
      qed
    qed
    then show ?thesis using False ok fixed by (simp add: infer_loop.simps Let_def)
  qed
qed

lemma start_table_ok: "table_ok local (map (\<lambda>(d, effs). (d, direct effs)) local)"
  unfolding table_ok_def reachable_effects_def
  by (auto simp: split_beta) (metis nth_mem prod.collapse rtrancl.rtrancl_refl)

lemma infer_loop_exact:
  assumes dist: "distinct (map fst local)" and i: "i < length local"
  shows "infer_loop local (map (\<lambda>(d, effs). (d, direct effs)) local) ! i =
    (fst (local ! i), reachable_effects local (fst (local ! i)))"
proof -
  define start where "start = map (\<lambda>(d, effs). (d, direct effs)) local"
  define t where "t = infer_loop local start"
  have "table_ok local start" unfolding start_def by (rule start_table_ok)
  then have ok: "table_ok local t"
    and closed: "\<And>i. i < length local \<Longrightarrow> callee_effects t (calls (snd (local ! i))) \<subseteq> snd (t ! i)"
    using infer_loop_result [OF _ dist] by (simp_all add: t_def)
  have "e \<in> snd (t ! k)" if "(d, c) \<in> (call_edges local)\<^sup>*" "(c, effs) \<in> set local" "e \<in> direct effs"
    "k < length local" "fst (local ! k) = d" for d c effs e k
    using that
  proof (induction arbitrary: k rule: converse_rtrancl_induct)
    case base
    then obtain m where m: "m < length local" "local ! m = (c, effs)" by (auto simp: in_set_conv_nth)
    then have "m = k" using dist base by (metis distinct_conv_nth fst_conv length_map nth_map)
    then have "direct effs \<subseteq> snd (t ! k)" using ok m unfolding table_ok_def by (metis snd_conv)
    then show ?case using base by blast
  next
    case (step d d')
    then obtain effs' where e: "(d, effs') \<in> set local" "d' \<in> calls effs'" "d' \<in> fst ` set local"
      by (auto simp: call_edges_def)
    obtain m where m: "m < length local" "fst (local ! m) = d'"
      using e(3) by (auto simp: in_set_conv_nth)
    have "snd (local ! k) = effs'"
      using e(1) step.prems dist by (metis eq_key_imp_eq_value nth_mem prod.collapse)
    moreover have "e \<in> snd (t ! m)" using step m by blast
    ultimately have "e \<in> callee_effects t (calls (snd (local ! k)))"
      using e(2) table_lookup [OF ok dist m(1)] m(2) by (force simp: callee_effects_def)
    then show ?case using closed [OF step.prems(3)] by blast
  qed
  then have "reachable_effects local (fst (local ! i)) \<subseteq> snd (t ! i)"
    using i by (auto simp: reachable_effects_def)
  moreover have "fst (t ! i) = fst (local ! i)"
    using ok i table_ok_length [OF ok] by (metis nth_map table_ok_def)
  moreover have "snd (t ! i) \<subseteq> reachable_effects local (fst (local ! i))"
    using ok i by (simp add: table_ok_def)
  ultimately show ?thesis
    unfolding t_def [unfolded start_def, symmetric] by (metis prod.collapse subset_antisym)
qed

section \<open>Bounds\<close>

lemma from_source_Some: "from_source name = Some e \<Longrightarrow> as_str e = name"
  by (auto simp: from_source_def split: if_splits)

lemma parse_names_subset: "e \<in> fst (parse_names names seen sp) \<Longrightarrow> as_str e \<in> set names"
  by (induction names arbitrary: seen)
     (auto simp: split_beta Let_def split: if_splits option.splits dest: from_source_Some)

lemma bound_violation_Nil:
  assumes "bound_violation table (d, Some bound, sp) = []" and "map_of table d = Some effs"
  shows "effs \<subseteq> bound"
  using assms by (auto simp: bound_violation_def Let_def split: if_splits)

lemma analyze_effectsD:
  assumes "analyze_effects p = Inr a"
  shows "effect_errors p = []" and "inferred_effects a = inferred_table p"
    and "required (manifest a) = \<Union> (snd ` set (inferred_table p))"
proof -
  have "effect_errors p = [] \<and> a = \<lparr>inferred_effects = inferred_table p,
      manifest = \<lparr>format_version = 1, required = \<Union> (snd ` set (inferred_table p))\<rparr>\<rparr>"
    using assms unfolding analyze_effects_def Let_def by (metis sum.simps(2,4))
  then show "effect_errors p = []" "inferred_effects a = inferred_table p"
    "required (manifest a) = \<Union> (snd ` set (inferred_table p))"
    by simp_all
qed

lemma declaration_entry:
  assumes "distinct (map definition_id (all_definitions p))" and "d \<in> set (all_definitions p)"
    and "definition_kind d = DFunction f"
  shows "(definition_id d, fst (parse_declaration (declared_effects f) (definition_span d)), definition_span d)
    \<in> set (btree_entries (map (\<lambda>(d, (declared, _), sp). (d, declared, sp)) (declared_bounds p)))"
proof -
  have "distinct (map fst (declared_bounds p))"
    unfolding declared_bounds_def
    by (rule distinct_entries [OF _ assms(1)]) (auto split: HirDefinitionKind.split)
  then have "distinct (map fst (map (\<lambda>(d, (declared, _), sp). (d, declared, sp)) (declared_bounds p)))"
    by (simp add: comp_def split_beta)
  moreover have "(definition_id d, parse_declaration (declared_effects f) (definition_span d),
      definition_span d) \<in> set (declared_bounds p)"
    using assms(2,3) by (force simp: declared_bounds_def)
  then have "(definition_id d, fst (parse_declaration (declared_effects f) (definition_span d)), definition_span d)
    \<in> set (map (\<lambda>(d, (declared, _), sp). (d, declared, sp)) (declared_bounds p))"
    by (force simp: split_beta)
  ultimately show ?thesis by (simp add: btree_entries_in collect_map_distinct)
qed

lemma effect_table_keys: "map fst (inferred_table p) = map fst (local_entries p)"
proof -
  have dist: "distinct (map fst (local_entries p))" by (simp add: local_entries_def)
  show ?thesis
    using infer_loop_result [OF start_table_ok dist]
    by (auto simp: table_ok_def inferred_table_def Let_def)
qed

section \<open>Properties\<close>

text \<open>
  C15. Effect inference is exact: the table assigns to every function and pipeline the effects of
  precisely the definitions reachable from it in the call graph, no more and no fewer, and the
  fixed-point loop always ends.
\<close>

theorem effect_inference_exact:
  "inferred_table p =
     map (\<lambda>(d, _). (d, reachable_effects (local_entries p) d)) (local_entries p)"
proof (rule nth_equalityI)
  let ?local = "local_entries p"
  have dist: "distinct (map fst ?local)" by (simp add: local_entries_def)
  show len: "length (inferred_table p) = length (map (\<lambda>(d, _). (d, reachable_effects ?local d)) ?local)"
    using arg_cong [OF effect_table_keys, of length] by simp
  show "inferred_table p ! i = map (\<lambda>(d, _). (d, reachable_effects ?local d)) ?local ! i"
    if "i < length (inferred_table p)" for i
  proof -
    have "i < length ?local" using that len by simp
    then show ?thesis
      unfolding inferred_table_def Let_def
      by (simp only: infer_loop_exact [OF dist] nth_map) (simp add: split_beta)
  qed
qed

lemma effect_bounds:
  assumes "analyze_effects p = Inr a" and "distinct (map definition_id (all_definitions p))"
    and "d \<in> set (all_definitions p)" and "definition_kind d = DFunction f"
    and "declared_effects f = Some names"
    and "(definition_id d, effs) \<in> set (inferred_effects a)" and "e \<in> effs"
  shows "as_str e \<in> set names \<and> e \<in> required (manifest a)"
proof -
  have "map fst (inferred_table p) = map fst (local_entries p)"
    by (simp add: effect_table_keys)
  then have "map_of (inferred_table p) (definition_id d) = Some effs"
    using assms(6) analyze_effectsD(2) [OF assms(1)]
    by (simp add: local_entries_def)
  moreover have "bound_violation (inferred_table p)
      (definition_id d, fst (parse_declaration (declared_effects f) (definition_span d)), definition_span d) = []"
    using declaration_entry [OF assms(2,3,4)] analyze_effectsD(1) [OF assms(1)]
    by (auto simp: effect_errors_def Let_def)
  moreover obtain bound where "fst (parse_declaration (declared_effects f) (definition_span d)) = Some bound"
    "bound = fst (parse_names names {} (definition_span d))"
    using assms(5) by (auto simp: parse_declaration_def Let_def split_beta)
  ultimately have "e \<in> fst (parse_names names {} (definition_span d))"
    using bound_violation_Nil assms(7) by fastforce
  moreover have "e \<in> required (manifest a)"
    using analyze_effectsD [OF assms(1)] assms(6,7) by force
  ultimately show ?thesis using parse_names_subset by blast
qed

text \<open>
  C16. Accepted programs whose definitions have pairwise different identities respect their
  declared bounds: every effect a function with a declaration can have, through whatever it calls,
  is spelled in that declaration, and it is required by the artifact's manifest.
\<close>

theorem effect_bounds_respected:
  assumes "analyze_effects p = Inr a" and "distinct (map definition_id (all_definitions p))"
    and "d \<in> set (all_definitions p)" and "definition_kind d = DFunction f"
    and "declared_effects f = Some names"
    and "(definition_id d, effs) \<in> set (inferred_effects a)" and "e \<in> effs"
  shows "as_str e \<in> set names \<and> e \<in> required (manifest a)"
  using assms by (rule effect_bounds)

theorem effect_bounds_respected_witness:
  "\<exists>a. analyze_effects (effect_program [''alloc'']) = Inr a \<and>
     as_str Alloc \<in> set [''alloc''] \<and> Alloc \<in> required (manifest a)"
proof -
  let ?p = "effect_program [''alloc'']"
  define a where "a = projr (analyze_effects ?p)"
  have a: "analyze_effects ?p = Inr a" unfolding a_def by code_simp
  have i: "(hir_id 0, {Alloc}) \<in> set (inferred_effects a)" unfolding a_def by code_simp
  have d: "distinct (map definition_id (all_definitions ?p))" by code_simp
  let ?d = "function_definition 0 ''main'' (caller_function [''alloc''])"
  have m: "?d \<in> set (all_definitions ?p)" by (simp add: effect_program_def)
  show ?thesis
    using effect_bounds_respected [OF a d m, of "caller_function [''alloc'']" "[''alloc'']" "{Alloc}" Alloc] a i
    by (simp add: function_definition_def caller_function_def)
qed

text \<open>The same program with the bound \<open>pure\<close> gets one diagnostic, which names the missing effect.\<close>

lemma effect_bound_rejected:
  "analyze_effects (effect_program [''pure'']) =
     Inl [\<lparr>effect_code = ''SYL2702'',
           effect_message = ''declared effect bound omits inferred effect(s): alloc'',
           effect_span = default_span\<rparr>]"
  by code_simp

end
