(* ===== verification/Async_Machine.thy ===== *)
theory Async_Machine
  imports Hir_Examples
begin

text \<open>
  Async state machines: the data and the verifier of \<open>crates/syllog-ir/src/lib.rs\<close> and the
  lowering of \<open>crates/syllog-compiler/src/async_lower.rs\<close>. State numbers are 32-bit words and the
  additions of \<open>build_machine\<close> wrap, as in a release build; a debug build panics where they wrap,
  which needs more than \<open>2^31 - 2\<close> await points in one function.
\<close>

section \<open>Machines and their verifier\<close>

type_synonym AsyncStateId = u32

datatype AsyncTransition =
    Start AsyncStateId
  | Suspend u32 AsyncStateId AsyncStateId
  | Resume AsyncStateId AsyncStateId
  | Complete
  | Cancel "DefId list"

record AsyncState =
  state_id :: AsyncStateId
  transition :: AsyncTransition

record AsyncStateMachine =
  machine_function :: DefId
  parent_scope_required :: bool
  live_locals :: "DefId list"
  states :: "AsyncState list"

datatype AsyncVerificationError =
    InvalidStateTable
  | InvalidTarget AsyncStateId AsyncStateId
  | InvalidTerminalCount
  | MissingParentScope

fun transition_targets :: "AsyncTransition \<Rightarrow> AsyncStateId list" where
  "transition_targets (Start after) = [after]"
| "transition_targets (Suspend await_index resume cancel) = [resume, cancel]"
| "transition_targets (Resume after panic) = [after, panic]"
| "transition_targets Complete = []"
| "transition_targets (Cancel locals) = []"

fun is_complete :: "AsyncTransition \<Rightarrow> bool" where
  "is_complete Complete = True"
| "is_complete _ = False"

fun is_cancel :: "AsyncTransition \<Rightarrow> bool" where
  "is_cancel (Cancel locals) = True"
| "is_cancel _ = False"

definition verify_async_machine ::
  "AsyncStateMachine \<Rightarrow> AsyncVerificationError list + unit" where
  "verify_async_machine m =
     (let ss = states m;
          e1 = (if ss = [] \<or> list_ex (\<lambda>(index, s). state_id s \<noteq> try_from_or_max index)
                               (zip [0..<length ss] ss)
                then [InvalidStateTable] else []);
          e2 = (if \<not> parent_scope_required m then [MissingParentScope] else []);
          e3 = concat (map (\<lambda>s. concat (map (\<lambda>target.
                 if length ss \<le> unat target then [InvalidTarget (state_id s) target] else [])
                 (transition_targets (transition s)))) ss);
          complete = length (filter (\<lambda>s. is_complete (transition s)) ss);
          cancel = length (filter (\<lambda>s. is_cancel (transition s)) ss);
          e4 = (if complete \<noteq> 1 \<or> cancel \<noteq> 1 then [InvalidTerminalCount] else []);
          errs = e1 @ e2 @ e3 @ e4
      in if errs = [] then Inr () else Inl errs)"

section \<open>Lowering\<close>

fun contains_borrow :: "ResolvedType \<Rightarrow> bool" where
  "contains_borrow (RtPrimitive PrimStr) = True"
| "contains_borrow (RtOption inner) = contains_borrow inner"
| "contains_borrow (RtArray inner) = contains_borrow inner"
| "contains_borrow (RtResult ok err) = (contains_borrow ok \<or> contains_borrow err)"
| "contains_borrow (RtTuple items) = list_ex contains_borrow items"
| "contains_borrow (RtFunction params result) =
     (list_ex contains_borrow params \<or> contains_borrow result)"
| "contains_borrow _ = False"

text \<open>The suspend and the resume state of one await point.\<close>

definition await_states :: "u32 \<Rightarrow> AsyncStateId \<Rightarrow> AsyncStateId \<Rightarrow> u32 \<Rightarrow> AsyncState list" where
  "await_states awaits complete_id cancel_id await_index =
     (let suspend = 1 + await_index * 2;
          resume = suspend + 1;
          after = (if await_index + 1 = awaits then complete_id else suspend + 2)
      in [\<lparr>state_id = suspend, transition = Suspend await_index resume cancel_id\<rparr>,
          \<lparr>state_id = resume, transition = Resume after cancel_id\<rparr>])"

definition build_machine :: "DefId \<Rightarrow> u32 \<Rightarrow> DefId list \<Rightarrow> AsyncStateMachine" where
  "build_machine d awaits locals =
     (let complete_id = 1 + saturating_mul awaits 2;
          cancel_id = complete_id + 1
      in \<lparr>machine_function = d, parent_scope_required = True, live_locals = locals,
          states =
            [\<lparr>state_id = 0, transition = Start (if awaits = 0 then complete_id else 1)\<rparr>] @
            concat (map (\<lambda>i. await_states awaits complete_id cancel_id (of_nat i))
              [0..<unat awaits]) @
            [\<lparr>state_id = complete_id, transition = Complete\<rparr>,
             \<lparr>state_id = cancel_id, transition = Cancel locals\<rparr>]\<rparr>)"

definition is_await :: "TypedExpr \<Rightarrow> bool" where
  "is_await e = (case expr_kind e of HAwait _ \<Rightarrow> True | _ \<Rightarrow> False)"

definition count_expression_awaits :: "TypedExpr \<Rightarrow> u32 \<Rightarrow> u32" where
  "count_expression_awaits e count =
     fold (\<lambda>x n. if is_await x then saturating_add n 1 else n) (walk e) count"

fun count_statement_awaits :: "HirStatement \<Rightarrow> u32 \<Rightarrow> u32" where
  "count_statement_awaits (HLet d name ty v) count = count_expression_awaits v count"
| "count_statement_awaits (HExpression v) count = count_expression_awaits v count"
| "count_statement_awaits (HReturn v) count =
     (case v of None \<Rightarrow> count | Some e \<Rightarrow> count_expression_awaits e count)"

datatype AsyncLowerError =
    AsyncVerification "AsyncVerificationError list"
  | BorrowAcrossAwait DefId "DefId list"

fun let_local :: "HirStatement \<Rightarrow> DefId list" where
  "let_local (HLet d name ty v) = [mir_def_id d]"
| "let_local s = []"

fun borrowed_local :: "HirStatement \<Rightarrow> DefId list" where
  "borrowed_local (HLet d name ty v) = (if contains_borrow ty then [mir_def_id d] else [])"
| "borrowed_local s = []"

definition lower_async_function ::
  "HirDefId \<Rightarrow> HirFunction \<Rightarrow> AsyncLowerError + AsyncStateMachine" where
  "lower_async_function d f =
     (let stmts = block_statements (hir_body f);
          awaits = fold count_statement_awaits stmts 0;
          locals = map (\<lambda>p. mir_def_id (param_id p)) (hir_parameters f) @
                   concat (map let_local stmts);
          borrowed = map (\<lambda>p. mir_def_id (param_id p))
                       (filter (\<lambda>p. contains_borrow (param_ty p)) (hir_parameters f)) @
                     concat (map borrowed_local stmts)
      in if 0 < awaits \<and> borrowed \<noteq> [] then Inl (BorrowAcrossAwait (mir_def_id d) borrowed)
         else
           (let machine = build_machine (mir_def_id d) awaits (remdups_adj (sort locals))
            in case verify_async_machine machine of
                 Inl errs \<Rightarrow> Inl (AsyncVerification errs)
               | Inr _ \<Rightarrow> Inr machine))"

fun lower_async_definitions ::
  "HirDefinition list \<Rightarrow> AsyncLowerError + AsyncStateMachine list" where
  "lower_async_definitions [] = Inr []"
| "lower_async_definitions (d # ds) =
     (case as_function (definition_kind d) of
        None \<Rightarrow> lower_async_definitions ds
      | Some f \<Rightarrow>
          if \<not> asynchronous f then lower_async_definitions ds
          else bindR (lower_async_function (definition_id d) f) (\<lambda>m.
                 bindR (lower_async_definitions ds) (\<lambda>ms. Inr (m # ms))))"

definition lower_async_state_machines ::
  "HirProgram \<Rightarrow> AsyncLowerError + AsyncStateMachine list" where
  "lower_async_state_machines program = lower_async_definitions (all_definitions program)"

section \<open>The shape of a built machine\<close>

text \<open>The number of the \<open>k\<close>-th state.\<close>

definition async_id :: "nat \<Rightarrow> AsyncStateId" where
  "async_id k = of_nat k"

definition transition_at :: "nat \<Rightarrow> DefId list \<Rightarrow> nat \<Rightarrow> AsyncTransition" where
  "transition_at n locals k =
     (if k = 0 then Start (async_id 1)
      else if k = 2 * n + 1 then Complete
      else if k = 2 * n + 2 then Cancel locals
      else if odd k then Suspend (of_nat (k div 2)) (async_id (k + 1)) (async_id (2 * n + 2))
      else Resume (async_id (k + 1)) (async_id (2 * n + 2)))"

definition state_at :: "nat \<Rightarrow> DefId list \<Rightarrow> nat \<Rightarrow> AsyncState" where
  "state_at n locals k = \<lparr>state_id = async_id k, transition = transition_at n locals k\<rparr>"

lemma concat_pairs:
  "concat (map (\<lambda>i. [g (2 * i + 1), g (2 * i + 2)]) [0..<n]) = map g [1..<2 * n + 1]"
  by (induction n) auto

lemma unat_async_id [simp]: "k < 2 ^ 32 \<Longrightarrow> unat (async_id k) = k"
  by (simp add: async_id_def unat_of_nat)

lemma async_id_inject: "a < 2 ^ 32 \<Longrightarrow> b < 2 ^ 32 \<Longrightarrow> async_id a = async_id b \<longleftrightarrow> a = b"
  by (metis unat_async_id)

lemma await_states_at:
  assumes "n < 2 ^ 31 - 1" and "i < n"
  shows "await_states (of_nat n) (async_id (2 * n + 1)) (async_id (2 * n + 2)) (of_nat i) =
    [state_at n locals (2 * i + 1), state_at n locals (2 * i + 2)]"
proof -
  have "(of_nat i + 1 :: u32) = of_nat n \<longleftrightarrow> i + 1 = n"
    using assms async_id_inject [of "i + 1" n] by (simp add: async_id_def ac_simps)
  moreover have "i + 1 = n \<Longrightarrow> async_id (2 * n + 1) = async_id (2 * i + 3)"
    by (auto simp: numeral_3_eq_3)
  moreover have "(1 + of_nat i * 2 :: u32) = async_id (2 * i + 1)"
    "(1 + of_nat i * 2 + 1 :: u32) = async_id (2 * i + 2)"
    "(1 + of_nat i * 2 + 2 :: u32) = async_id (2 * i + 3)"
    by (simp_all add: async_id_def)
  ultimately show ?thesis
    using assms by (auto simp: await_states_def state_at_def transition_at_def Let_def numeral_3_eq_3)
qed

lemma build_machine_states:
  assumes "unat awaits < 2 ^ 31 - 1"
  shows "states (build_machine d awaits locals) =
    map (state_at (unat awaits) locals) [0..<2 * unat awaits + 3]"
proof -
  define n where "n = unat awaits"
  have a: "awaits = of_nat n" by (simp add: n_def)
  have n: "n < 2 ^ 31 - 1" using assms by (simp add: n_def)
  have "uint awaits = int n" by (simp add: n_def)
  then have "uint awaits * uint (2 :: u32) < 2 ^ 32" using n by simp
  then have ids: "1 + saturating_mul awaits 2 = async_id (2 * n + 1)"
    "async_id (2 * n + 1) + 1 = async_id (2 * n + 2)"
    by (simp_all add: saturating_mul_def a async_id_def)
  have first: "\<lparr>state_id = 0,
      transition = Start (if awaits = 0 then async_id (2 * n + 1) else 1)\<rparr> = state_at n locals 0"
    by (auto simp: state_at_def transition_at_def async_id_def n_def)
  have final: "\<lparr>state_id = async_id (2 * n + 1), transition = Complete\<rparr> = state_at n locals (2 * n + 1)"
    "\<lparr>state_id = async_id (2 * n + 2), transition = Cancel locals\<rparr> = state_at n locals (2 * n + 2)"
    by (simp_all add: state_at_def transition_at_def)
  have "map (\<lambda>i. await_states awaits (async_id (2 * n + 1)) (async_id (2 * n + 2)) (of_nat i)) [0..<n] =
      map (\<lambda>i. [state_at n locals (2 * i + 1), state_at n locals (2 * i + 2)]) [0..<n]"
    unfolding a by (rule map_cong [OF refl], rule await_states_at [OF n]) simp
  then have "states (build_machine d awaits locals) =
      state_at n locals 0 # map (state_at n locals) [1..<2 * n + 1] @
        [state_at n locals (2 * n + 1), state_at n locals (2 * n + 2)]"
    unfolding build_machine_def Let_def ids n_def [symmetric] first final
    by (simp only: concat_pairs AsyncStateMachine.simps append_Cons append_Nil)
  also have "\<dots> = map (state_at n locals) [0..<2 * n + 3]"
  proof -
    have "[0..<2 * n + 3] = 0 # [1..<2 * n + 1] @ [2 * n + 1, 2 * n + 2]"
      by (simp add: upt_rec [of 0] numeral_3_eq_3 upt_Suc_append)
    then show ?thesis by simp
  qed
  finally show ?thesis by (simp add: n_def)
qed

lemma state_at_simps [simp]:
  "state_id (state_at n locals k) = async_id k"
  "transition (state_at n locals k) = transition_at n locals k"
  by (simp_all add: state_at_def)

lemma filter_single: "k < m \<Longrightarrow> length (filter (\<lambda>i. i = k) [0..<m]) = 1"
  by (induction m) (auto simp: less_Suc_eq)

lemma build_machine_verifies:
  assumes "unat awaits < 2 ^ 31 - 1"
  shows "verify_async_machine (build_machine d awaits locals) = Inr ()"
proof -
  let ?n = "unat awaits" and ?ss = "states (build_machine d awaits locals)"
  have ss: "?ss = map (state_at ?n locals) [0..<2 * ?n + 3]" by (rule build_machine_states [OF assms])
  have small: "k < 2 * ?n + 3 \<Longrightarrow> k < 2 ^ 32" for k using assms by simp
  have ids: "list_all (\<lambda>(index, s). state_id s = try_from_or_max index) (zip [0..<length ?ss] ?ss)"
    unfolding ss using small by (auto simp: list_all_iff set_zip try_from_or_max_def async_id_def)
  have targets: "unat t < 2 * ?n + 3" if "k < 2 * ?n + 3" "t \<in> set (transition_targets (transition_at ?n locals k))" for k t
    using that small [of "k + 1"] small [of "2 * ?n + 2"]
    by (auto simp: transition_at_def split: if_splits)
  have "\<not> list_ex (\<lambda>(index, s). state_id s \<noteq> try_from_or_max index) (zip [0..<length ?ss] ?ss)"
    using ids by (auto simp: list_ex_iff list_all_iff)
  moreover have "concat (map (\<lambda>s. concat (map (\<lambda>target.
      if length ?ss \<le> unat target then [InvalidTarget (state_id s) target] else [])
      (transition_targets (transition s)))) ?ss) = []"
    unfolding ss by auto (metis targets not_le)
  moreover have "length (filter (\<lambda>s. is_complete (transition s)) ?ss) = 1"
  proof -
    have "is_complete (transition_at ?n locals k) \<longleftrightarrow> k = 2 * ?n + 1" for k
      by (simp add: transition_at_def)
    then show ?thesis unfolding ss by (simp add: filter_map comp_def filter_single)
  qed
  moreover have "length (filter (\<lambda>s. is_cancel (transition s)) ?ss) = 1"
  proof -
    have "is_cancel (transition_at ?n locals k) \<longleftrightarrow> k = 2 * ?n + 2" for k
      by (simp add: transition_at_def)
    then show ?thesis unfolding ss by (simp add: filter_map comp_def filter_single)
  qed
  moreover have "?ss \<noteq> []" unfolding ss by simp
  moreover have "parent_scope_required (build_machine d awaits locals)"
    by (simp add: build_machine_def Let_def)
  ultimately show ?thesis unfolding verify_async_machine_def Let_def by simp
qed

section \<open>Counting awaits\<close>

lemma count_awaits_unat:
  "unat (fold (\<lambda>x n. if is_await x then saturating_add n 1 else n) es (count :: u32)) =
     min (2 ^ 32 - 1) (unat count + length (filter is_await es))"
proof (induction es arbitrary: count)
  case Nil
  then show ?case using unat_less_exp [of count] by simp
next
  case (Cons e es)
  then show ?case by (auto simp: unat_saturating_add)
qed

lemma count_statement_awaits_unat:
  "unat (count_statement_awaits s count) =
     min (2 ^ 32 - 1) (unat count + length (filter is_await (walk_statement s)))"
  using unat_less_exp [of count]
  by (cases s) (auto simp: count_expression_awaits_def count_awaits_unat split: option.split)

lemma count_body_awaits:
  "unat (fold count_statement_awaits stmts 0) =
     min (2 ^ 32 - 1) (length (filter is_await (walk_block (HirBlock stmts sp))))"
proof -
  have "unat (fold count_statement_awaits stmts count) =
      min (2 ^ 32 - 1) (unat count + length (filter is_await (concat (map walk_statement stmts))))" for count
  proof (induction stmts arbitrary: count)
    case Nil
    then show ?case using unat_less_exp [of count] by simp
  next
    case (Cons s stmts)
    then show ?case by (simp add: count_statement_awaits_unat filter_concat)
  qed
  from this [of 0] show ?thesis by simp
qed

section \<open>Properties\<close>

text \<open>The number of await expressions in the body of a function.\<close>

definition await_count :: "HirFunction \<Rightarrow> nat" where
  "await_count f = length (filter is_await (walk_block (hir_body f)))"

lemma lower_async_function_built:
  assumes "lower_async_function d f = Inr m" and "await_count f < 2 ^ 31 - 1"
  obtains locals where "m = build_machine (mir_def_id d) (of_nat (await_count f)) locals"
proof -
  obtain stmts sp where body: "hir_body f = HirBlock stmts sp" by (cases "hir_body f")
  have "unat (fold count_statement_awaits stmts 0) = await_count f"
    using count_body_awaits [of stmts sp] assms(2) by (simp add: await_count_def body)
  then have "fold count_statement_awaits stmts 0 = of_nat (await_count f)"
    by (drule_tac arg_cong [where f = "of_nat :: nat \<Rightarrow> u32"]) simp
  then show ?thesis
    using assms(1) that by (auto simp: lower_async_function_def body Let_def split: if_splits sum.splits)
qed

lemma lower_async_definitions_in:
  assumes "lower_async_definitions ds = Inr ms" and "m \<in> set ms"
  shows "\<exists>d \<in> set ds. \<exists>f. as_function (definition_kind d) = Some f \<and> asynchronous f \<and>
    lower_async_function (definition_id d) f = Inr m"
  using assms
  by (induction ds arbitrary: ms) (fastforce split: option.splits if_splits)+

text \<open>What the lowering looks at: the parameters and the bindings of the outermost block with their
  types, and the types a value of a type carries: those it is built from by options, results,
  arrays, tuples and function types.\<close>

definition frame_locals :: "HirFunction \<Rightarrow> (DefId \<times> ResolvedType) list" where
  "frame_locals f =
     map (\<lambda>p. (mir_def_id (param_id p), param_ty p)) (hir_parameters f) @
     List.map_filter (\<lambda>s. case s of HLet d name ty v \<Rightarrow> Some (mir_def_id d, ty) | _ \<Rightarrow> None)
       (block_statements (hir_body f))"

inductive carries :: "ResolvedType \<Rightarrow> ResolvedType \<Rightarrow> bool" where
  itself: "carries t t"
| option: "carries t s \<Longrightarrow> carries (RtOption t) s"
| array: "carries t s \<Longrightarrow> carries (RtArray t) s"
| ok: "carries t s \<Longrightarrow> carries (RtResult t t') s"
| error: "carries t s \<Longrightarrow> carries (RtResult t' t) s"
| tuple: "t \<in> set ts \<Longrightarrow> carries t s \<Longrightarrow> carries (RtTuple ts) s"
| parameter: "t \<in> set ts \<Longrightarrow> carries t s \<Longrightarrow> carries (RtFunction ts t') s"
| result: "carries t s \<Longrightarrow> carries (RtFunction ts t) s"

abbreviation carries_slice :: "ResolvedType \<Rightarrow> bool" where
  "carries_slice t \<equiv> carries t (RtPrimitive PrimStr)"

inductive_simps carries_simps [simp]:
  "carries (RtPrimitive p) s" "carries (RtOption t) s" "carries (RtArray t) s" "carries (RtResult t t') s"
  "carries (RtTuple ts) s" "carries (RtFunction ts t) s" "carries (RtReference region is_mut t) s"
  "carries (RtStruct name) s" "carries (RtEnum name) s" "carries (RtState name) s"
  "carries RtUnit s" "carries RtUnknown s" "carries RtError s" "carries RtIntegerLiteral s" "carries RtFloatLiteral s"

lemma contains_borrow_iff: "contains_borrow t \<longleftrightarrow> carries_slice t"
  by (induction t rule: contains_borrow.induct) (auto simp: list_ex_iff)

lemma collected_borrowed:
  "map (\<lambda>p. mir_def_id (param_id p)) (filter (\<lambda>p. contains_borrow (param_ty p)) (hir_parameters f)) @
     concat (map borrowed_local (block_statements (hir_body f))) =
   map fst (filter (\<lambda>(x, t). carries_slice t) (frame_locals f))"
proof -
  have "concat (map borrowed_local stmts) = map fst (filter (\<lambda>(x, t). carries_slice t)
      (List.map_filter (\<lambda>s. case s of HLet d name ty v \<Rightarrow> Some (mir_def_id d, ty) | _ \<Rightarrow> None) stmts))" for stmts
    by (induction stmts) (auto simp: List.map_filter_simps contains_borrow_iff split: HirStatement.split)
  then show ?thesis
    by (simp add: frame_locals_def filter_map comp_def contains_borrow_iff)
qed

lemma collected_locals:
  "map (\<lambda>p. mir_def_id (param_id p)) (hir_parameters f) @
     concat (map let_local (block_statements (hir_body f))) = map fst (frame_locals f)"
proof -
  have "concat (map let_local stmts) =
      map fst (List.map_filter (\<lambda>s. case s of HLet d name ty v \<Rightarrow> Some (mir_def_id d, ty) | _ \<Rightarrow> None) stmts)" for stmts
    by (induction stmts) (auto simp: List.map_filter_simps split: HirStatement.split)
  then show ?thesis by (simp add: frame_locals_def comp_def)
qed

lemma build_machine_frame [simp]:
  "machine_function (build_machine d awaits locals) = d" "live_locals (build_machine d awaits locals) = locals"
  by (simp_all add: build_machine_def Let_def)

lemma distinct_sort_dedup: "distinct (remdups_adj (sort (xs :: 'a :: linorder list)))"
proof -
  have "sorted ys \<Longrightarrow> distinct (remdups_adj ys)" for ys :: "'a list"
    by (induction ys rule: remdups_adj.induct) auto
  then show ?thesis by simp
qed

lemma lower_async_function_cases:
  assumes "await_count f < 2 ^ 31 - 1"
  shows "lower_async_function d f =
    (if 0 < await_count f \<and> list_ex (\<lambda>(x, t). carries_slice t) (frame_locals f)
     then Inl (BorrowAcrossAwait (mir_def_id d) (map fst (filter (\<lambda>(x, t). carries_slice t) (frame_locals f))))
     else Inr (build_machine (mir_def_id d) (of_nat (await_count f)) (remdups_adj (sort (map fst (frame_locals f))))))"
proof -
  obtain stmts sp where body: "hir_body f = HirBlock stmts sp" by (cases "hir_body f")
  let ?n = "fold count_statement_awaits (block_statements (hir_body f)) 0"
  have c: "unat ?n = await_count f"
    using count_body_awaits [of stmts sp] assms by (simp add: await_count_def body)
  then have n: "?n = of_nat (await_count f)"
    by (drule_tac arg_cong [where f = "of_nat :: nat \<Rightarrow> u32"]) simp
  have "verify_async_machine (build_machine d' ?n locals) = Inr ()" for d' locals
    using c assms by (intro build_machine_verifies) simp
  moreover have "0 < ?n \<longleftrightarrow> 0 < await_count f" using c by (simp add: word_less_nat_alt)
  moreover have "map fst (filter P xs) \<noteq> [] \<longleftrightarrow> list_ex P xs" for P and xs :: "(DefId \<times> ResolvedType) list"
    by (auto simp: list_ex_iff filter_empty_conv)
  ultimately show ?thesis
    unfolding lower_async_function_def Let_def collected_borrowed collected_locals n
    by (cases "await_count f = 0") simp_all
qed

text \<open>
  C28. Below the numeric limit on await points, the async lowering rejects a function exactly when
  it has an await and some parameter or binding of its outermost block has a type that carries a
  string slice, used across the await or not, and the error lists exactly these locals; every other
  function gets a machine of its own identity that passes the verifier, whose frame, dropped on
  cancellation, holds each parameter and each such binding once and in order.
\<close>

theorem async_lowering_exact:
  assumes "await_count f < 2 ^ 31 - 1"
  shows "(lower_async_function d f = Inl e \<longleftrightarrow>
      0 < await_count f \<and> (\<exists>(x, t) \<in> set (frame_locals f). carries_slice t) \<and>
      e = BorrowAcrossAwait (mir_def_id d) (map fst (filter (\<lambda>(x, t). carries_slice t) (frame_locals f)))) \<and>
    (lower_async_function d f = Inr m \<longrightarrow>
      verify_async_machine m = Inr () \<and> machine_function m = mir_def_id d \<and>
      sorted (live_locals m) \<and> distinct (live_locals m) \<and> set (live_locals m) = fst ` set (frame_locals f))"
proof -
  have "unat (of_nat (await_count f) :: u32) < 2 ^ 31 - 1" using assms by (simp add: unat_of_nat)
  then have v: "verify_async_machine (build_machine d' (of_nat (await_count f)) locals) = Inr ()" for d' locals
    by (rule build_machine_verifies)
  show ?thesis
    unfolding lower_async_function_cases [OF assms] list_ex_iff
    by (auto simp: v build_machine_verifies distinct_sort_dedup image_iff) (metis fst_conv)+
qed

definition slice_type :: ResolvedType where
  "slice_type = RtOption (RtPrimitive PrimStr)"

definition slice_function :: HirFunction where
  "slice_function = async_function [\<lparr>param_id = hir_id 1, param_name = ''s'', param_ty = slice_type,
     param_span = default_span\<rparr>]"

theorem async_lowering_exact_witness:
  "await_count slice_function < 2 ^ 31 - 1 \<and>
   lower_async_function (hir_id 0) slice_function =
     Inl (BorrowAcrossAwait (mir_def_id (hir_id 0)) [mir_def_id (hir_id 1)])"
proof -
  have c: "await_count slice_function = 1" by code_simp
  then have n: "await_count slice_function < 2 ^ 31 - 1" by simp
  have f: "frame_locals slice_function = [(mir_def_id (hir_id 1), slice_type)]"
    by (simp add: frame_locals_def slice_function_def async_function_def plain_function_def List.map_filter_simps)
  have "carries_slice slice_type" by (simp add: slice_type_def)
  then show ?thesis using async_lowering_exact [OF n, of "hir_id 0"] n c by (simp add: f)
qed

text \<open>
  The rejection is conservative: a slice bound after the last await is reported as held across it.
  It is also incomplete: a slice bound in a nested block is neither seen nor dropped on cancellation.
\<close>

definition await_statement :: HirStatement where
  "await_statement = HExpression (u64_expr (HAwait (u64_expr (HLiteral (LInteger 1)))))"

definition slice_statement :: HirStatement where
  "slice_statement = HLet (hir_id 1) ''s'' (RtPrimitive PrimStr)
     (TypedExpr (HLiteral (LString ''a'')) (RtPrimitive PrimStr) default_span)"

definition async_body :: "HirStatement list \<Rightarrow> HirFunction" where
  "async_body stmts = (async_function [])\<lparr>hir_body := HirBlock stmts default_span\<rparr>"

lemma slice_after_await_rejected:
  "lower_async_function (hir_id 0) (async_body [await_statement, slice_statement]) =
     Inl (BorrowAcrossAwait (mir_def_id (hir_id 0)) [mir_def_id (hir_id 1)])"
  by code_simp

lemma nested_slice_accepted:
  "case lower_async_function (hir_id 0) (async_body
      [HExpression (u64_expr (HBlock (HirBlock [slice_statement, await_statement] default_span)))]) of
     Inl e \<Rightarrow> False | Inr m \<Rightarrow> length (states m) = 5 \<and> live_locals m = []"
  by code_simp

text \<open>
  The check for borrows across awaits misses references: only string slices count as
  borrowed, so an async function whose parameter is a mutable reference is lowered with that
  reference in its resumable frame.
\<close>

theorem reference_across_await_accepted:
  "\<exists>m. lower_async_function (hir_id 0)
         (async_function [\<lparr>param_id = hir_id 1, param_name = ''r'',
            param_ty = RtReference None True u64_type, param_span = default_span\<rparr>]) = Inr m \<and>
       live_locals m = [mir_def_id (hir_id 1)]"
proof -
  let ?f = "async_function [\<lparr>param_id = hir_id 1, param_name = ''r'',
            param_ty = RtReference None True u64_type, param_span = default_span\<rparr>]"
  have "(case lower_async_function (hir_id 0) ?f of
      Inl e \<Rightarrow> False | Inr m \<Rightarrow> live_locals m = [mir_def_id (hir_id 1)])"
    by code_simp
  then show ?thesis by (auto split: sum.splits)
qed

end
