(* ===== verification/Async_Task.thy ===== *)
theory Async_Task
  imports Async_Machine
begin

text \<open>
  Execution of async state machines, \<open>crates/syllog-runtime/src/task.rs\<close>. \<open>Runner::advance\<close> and
  the scheduler loop may run forever, so both take fuel, one unit per transition and per
  suspension; \<open>None\<close> is "still running". The Tokio variant runs the same loop with a yield
  before each wake, which has no effect on the task's state; it is the same definition here.
\<close>

section \<open>Data\<close>

type_synonym ParentScopeId = u64

datatype TaskControl =
    ControlComplete
  | CancelAt u32
  | PanicAt u32

datatype TaskEvent =
    Started ParentScopeId
  | Suspended u32
  | Woken u32
  | Resumed u32
  | Cancelled
  | Panicked
  | Dropped "DefId list"
  | Completed

datatype TaskFailure =
    InvalidMachine "AsyncVerificationError list"
  | InvalidRuntimeState AsyncStateId
  | TaskPanicked "TaskEvent list"

datatype Step =
    Pending u32 AsyncStateId
  | StepComplete

record Runner =
  r_machine :: AsyncStateMachine
  r_state :: AsyncStateId
  r_control :: TaskControl
  r_last_await :: "u32 option"
  r_events :: "TaskEvent list"
  r_panicked :: bool

section \<open>The runner\<close>

definition new_runner ::
  "AsyncStateMachine \<Rightarrow> ParentScopeId \<Rightarrow> TaskControl \<Rightarrow> TaskFailure + Runner" where
  "new_runner machine parent ctl =
     (case verify_async_machine machine of
        Inl errs \<Rightarrow> Inl (InvalidMachine errs)
      | Inr _ \<Rightarrow>
          Inr \<lparr>r_machine = machine, r_state = 0, r_control = ctl, r_last_await = None,
               r_events = [Started parent], r_panicked = False\<rparr>)"

definition push_event :: "TaskEvent \<Rightarrow> Runner \<Rightarrow> Runner" where
  "push_event e r = r\<lparr>r_events := r_events r @ [e]\<rparr>"

text \<open>One pass through the loop of \<open>advance\<close>: go on, or leave it with a result.\<close>

fun transition_step :: "AsyncTransition \<Rightarrow> Runner \<Rightarrow> Runner + (TaskFailure + Step \<times> Runner)" where
  "transition_step (Start after) r = Inl (r\<lparr>r_state := after\<rparr>)"
| "transition_step (Suspend await_index resume cancel) r =
     (let r1 = push_event (Suspended await_index) r in
      if r_control r = CancelAt await_index
      then Inl ((push_event Cancelled r1)\<lparr>r_state := cancel\<rparr>)
      else Inr (Inr (Pending await_index resume, r1)))"
| "transition_step (Resume after panic) r =
     (case r_last_await r of
        None \<Rightarrow> Inr (Inl (InvalidRuntimeState (r_state r)))
      | Some await_index \<Rightarrow>
          (let r1 = push_event (Resumed await_index) r in
           if r_control r = PanicAt await_index
           then Inl ((push_event Panicked r1)\<lparr>r_panicked := True, r_state := panic\<rparr>)
           else Inl (r1\<lparr>r_state := after\<rparr>)))"
| "transition_step Complete r = Inr (Inr (StepComplete, push_event Completed r))"
| "transition_step (Cancel locals) r =
     (let r1 = push_event (Dropped locals) r in
      if r_panicked r then Inr (Inl (TaskPanicked (r_events r1)))
      else Inr (Inr (StepComplete, r1)))"

fun advance :: "nat \<Rightarrow> Runner \<Rightarrow> (TaskFailure + Step \<times> Runner) option" where
  "advance 0 r = None"
| "advance (Suc fuel) r =
     (case nth_opt (states (r_machine r)) (unat (r_state r)) of
        None \<Rightarrow> Some (Inl (InvalidRuntimeState (r_state r)))
      | Some s \<Rightarrow>
          (case transition_step (transition s) r of
             Inl r' \<Rightarrow> advance fuel r'
           | Inr result \<Rightarrow> Some result))"

definition wake :: "u32 \<Rightarrow> AsyncStateId \<Rightarrow> Runner \<Rightarrow> Runner" where
  "wake await_index resume r =
     (push_event (Woken await_index) r)\<lparr>r_last_await := Some await_index, r_state := resume\<rparr>"

fun run_loop :: "nat \<Rightarrow> Runner \<Rightarrow> (TaskFailure + TaskEvent list) option" where
  "run_loop 0 r = None"
| "run_loop (Suc fuel) r =
     (case advance (Suc fuel) r of
        None \<Rightarrow> None
      | Some (Inl e) \<Rightarrow> Some (Inl e)
      | Some (Inr (Pending await_index resume, r')) \<Rightarrow> run_loop fuel (wake await_index resume r')
      | Some (Inr (StepComplete, r')) \<Rightarrow> Some (Inr (r_events r')))"

definition run_deterministic_task ::
  "nat \<Rightarrow> AsyncStateMachine \<Rightarrow> ParentScopeId \<Rightarrow> TaskControl
     \<Rightarrow> (TaskFailure + TaskEvent list) option" where
  "run_deterministic_task fuel machine parent ctl =
     (case new_runner machine parent ctl of
        Inl e \<Rightarrow> Some (Inl e)
      | Inr r \<Rightarrow> run_loop fuel r)"

section \<open>Traces of built machines\<close>

definition main_def :: DefId where
  "main_def = \<lparr>module_id = 0, def_index = 0\<rparr>"

definition await_trace :: "nat \<Rightarrow> TaskEvent list" where
  "await_trace i = [Suspended (of_nat i), Woken (of_nat i), Resumed (of_nat i)]"

definition awaits_trace :: "nat \<Rightarrow> nat \<Rightarrow> TaskEvent list" where
  "awaits_trace i k = concat (map await_trace [i..<k])"

text \<open>The runner of a built machine when it reaches the state after \<open>i\<close> await points.\<close>

definition reached ::
  "DefId \<Rightarrow> u32 \<Rightarrow> DefId list \<Rightarrow> TaskControl \<Rightarrow> nat \<Rightarrow> u32 option \<Rightarrow> TaskEvent list \<Rightarrow> Runner" where
  "reached d awaits locals ctl k waiting events =
     \<lparr>r_machine = build_machine d awaits locals, r_state = async_id k, r_control = ctl,
      r_last_await = waiting, r_events = events, r_panicked = False\<rparr>"

definition intervenes :: "TaskControl \<Rightarrow> nat \<Rightarrow> bool" where
  "intervenes ctl i \<longleftrightarrow> ctl = CancelAt (of_nat i) \<or> ctl = PanicAt (of_nat i)"

declare advance.simps [simp del] run_loop.simps [simp del]

lemma advance_mono: "advance f r = Some x \<Longrightarrow> f \<le> g \<Longrightarrow> advance g r = Some x"
proof (induction f arbitrary: g r)
  case (Suc f)
  then obtain g' where "g = Suc g'" "f \<le> g'" by (cases g) auto
  then show ?case using Suc by (auto simp: advance.simps split: option.splits sum.splits)
qed (simp add: advance.simps)

text \<open>A transition that stays inside \<open>advance\<close> does not end the pass of the scheduler.\<close>

lemma run_loop_inner:
  assumes "advance (Suc f) r = advance f r'" and "advance f r' = Some x"
  shows "run_loop (Suc f) r = run_loop (Suc f) r'"
  unfolding run_loop.simps assms advance_mono [OF assms(2) le_SucI [OF order_refl]] ..

lemma built_advance:
  assumes "unat awaits < 2 ^ 31 - 1" and "k < 2 * unat awaits + 3"
    and "r_machine r = build_machine d awaits locals" and "r_state r = async_id k"
  shows "advance (Suc f) r =
    (case transition_step (transition_at (unat awaits) locals k) r of
       Inl r' \<Rightarrow> advance f r' | Inr x \<Rightarrow> Some x)"
proof -
  have "nth_opt (states (r_machine r)) (unat (r_state r)) = Some (state_at (unat awaits) locals k)"
    using assms by (simp add: build_machine_states)
  then show ?thesis by (simp only: advance.simps option.case state_at_simps)
qed

lemma transition_at_cases:
  "i < n \<Longrightarrow> transition_at n locals (2 * i + 1) =
      Suspend (of_nat i) (async_id (2 * i + 2)) (async_id (2 * n + 2))"
  "i < n \<Longrightarrow> transition_at n locals (2 * i + 2) =
      Resume (async_id (2 * (i + 1) + 1)) (async_id (2 * n + 2))"
  "transition_at n locals 0 = Start (async_id 1)"
  "transition_at n locals (2 * n + 1) = Complete"
  "transition_at n locals (2 * n + 2) = Cancel locals"
  by (auto simp: transition_at_def)

lemma reached_fields [simp]:
  "r_machine (reached d a ls c k w ev) = build_machine d a ls"
  "r_state (reached d a ls c k w ev) = async_id k" "r_control (reached d a ls c k w ev) = c"
  "r_last_await (reached d a ls c k w ev) = w" "r_events (reached d a ls c k w ev) = ev"
  "r_panicked (reached d a ls c k w ev) = False"
  "push_event e (reached d a ls c k w ev) = reached d a ls c k w (ev @ [e])"
  "(reached d a ls c k w ev)\<lparr>r_state := async_id k'\<rparr> = reached d a ls c k' w ev"
  "wake i (async_id k') (reached d a ls c k w ev) = reached d a ls c k' (Some i) (ev @ [Woken i])"
  by (simp_all add: reached_def push_event_def wake_def)

lemma advance_cancel:
  assumes "unat awaits < 2 ^ 31 - 1"
  shows "advance (Suc f) (reached d awaits locals ctl (2 * unat awaits + 2) w ev) =
    Some (Inr (StepComplete,
      reached d awaits locals ctl (2 * unat awaits + 2) w (ev @ [Dropped locals])))"
  by (subst built_advance [OF assms, where k = "2 * unat awaits + 2"])
     (simp_all add: transition_at_cases Let_def del: One_nat_def Suc_eq_plus1 add_2_eq_Suc')

lemma advance_await:
  assumes "unat awaits < 2 ^ 31 - 1" and "i < unat awaits"
  shows "advance (Suc (Suc f)) (reached d awaits locals ctl (2 * i + 1) w ev) =
    Some (Inr (if ctl = CancelAt (of_nat i)
      then (StepComplete, reached d awaits locals ctl (2 * unat awaits + 2) w
              (ev @ [Suspended (of_nat i), Cancelled, Dropped locals]))
      else (Pending (of_nat i) (async_id (2 * i + 2)),
            reached d awaits locals ctl (2 * i + 1) w (ev @ [Suspended (of_nat i)]))))"
  using assms advance_cancel [OF assms(1)]
  by (subst built_advance [OF assms(1), where k = "2 * i + 1"])
     (simp_all add: transition_at_cases Let_def del: One_nat_def Suc_eq_plus1 add_2_eq_Suc')

lemma advance_complete:
  assumes "unat awaits < 2 ^ 31 - 1"
  shows "advance (Suc f) (reached d awaits locals ctl (2 * unat awaits + 1) w ev) =
    Some (Inr (StepComplete, reached d awaits locals ctl (2 * unat awaits + 1) w (ev @ [Completed])))"
  by (subst built_advance [OF assms, where k = "2 * unat awaits + 1"])
     (simp_all add: transition_at_cases del: One_nat_def Suc_eq_plus1)

lemma reached_advances:
  assumes "unat awaits < 2 ^ 31 - 1" and "i \<le> unat awaits" and "2 \<le> f"
  shows "\<exists>x. advance f (reached d awaits locals ctl (2 * i + 1) w ev) = Some x"
proof -
  obtain f' where f': "f = Suc (Suc f')"
    using assms(3) by (metis Suc_le_D Suc_le_mono numeral_2_eq_2)
  show ?thesis
    using advance_await [OF assms(1), of i] advance_complete [OF assms(1)] assms(2) unfolding f'
    by (cases "i = unat awaits") (blast, simp)
qed

lemma run_loop_await:
  assumes n: "unat awaits < 2 ^ 31 - 1" and i: "i < unat awaits" and free: "\<not> intervenes ctl i"
    and f: "3 \<le> f"
  shows "run_loop (Suc f) (reached d awaits locals ctl (2 * i + 1) w ev) =
    run_loop f (reached d awaits locals ctl (2 * (i + 1) + 1) (Some (of_nat i)) (ev @ await_trace i))"
proof -
  let ?r = "reached d awaits locals ctl (2 * i + 2) (Some (of_nat i))
    (ev @ [Suspended (of_nat i), Woken (of_nat i)])"
  let ?r' = "reached d awaits locals ctl (2 * (i + 1) + 1) (Some (of_nat i)) (ev @ await_trace i)"
  obtain f' where f': "f = Suc f'" "2 \<le> f'" using f by (cases f) auto
  have 1: "run_loop (Suc f) (reached d awaits locals ctl (2 * i + 1) w ev) = run_loop f ?r"
    unfolding run_loop.simps f' advance_await [OF n i] using free by (simp add: intervenes_def)
  obtain x where x: "advance f' ?r' = Some x"
    using reached_advances [OF n _ f'(2), of "i + 1"] i by (metis Suc_eq_plus1 Suc_leI)
  have "advance (Suc f') ?r = advance f' ?r'"
    using i free
    by (subst built_advance [OF n, where k = "2 * i + 2"])
       (simp_all add: transition_at_cases(2) Let_def intervenes_def await_trace_def
         del: One_nat_def Suc_eq_plus1 add_2_eq_Suc' mult_Suc_right)
  from run_loop_inner [OF this x] 1 show ?thesis by (simp add: f')
qed

lemma run_loop_awaits:
  assumes n: "unat awaits < 2 ^ 31 - 1" and "3 \<le> f" and "i + m \<le> unat awaits"
    and "\<And>j. i \<le> j \<Longrightarrow> j < i + m \<Longrightarrow> \<not> intervenes ctl j"
  shows "\<exists>w'. run_loop (f + m) (reached d awaits locals ctl (2 * i + 1) w ev) =
    run_loop f (reached d awaits locals ctl (2 * (i + m) + 1) w' (ev @ awaits_trace i (i + m)))"
  using assms(3,4)
proof (induction m arbitrary: i w ev)
  case 0
  then show ?case by (auto simp: awaits_trace_def)
next
  case (Suc m)
  have "run_loop (f + Suc m) (reached d awaits locals ctl (2 * i + 1) w ev) =
    run_loop (f + m) (reached d awaits locals ctl (2 * (i + 1) + 1) (Some (of_nat i)) (ev @ await_trace i))"
    using run_loop_await [OF n, of i ctl "f + m"] Suc.prems assms(2) by simp
  moreover have "awaits_trace i (i + Suc m) = await_trace i @ awaits_trace (i + 1) (i + 1 + m)"
  proof -
    have "[i..<i + Suc m] = i # [i + 1..<i + 1 + m]" by (simp add: upt_conv_Cons del: upt_Suc)
    then show ?thesis unfolding awaits_trace_def by simp
  qed
  ultimately show ?case
    using Suc.IH [of "i + 1" "Some (of_nat i)" "ev @ await_trace i"] Suc.prems by simp
qed

lemma run_start:
  assumes n: "unat awaits < 2 ^ 31 - 1" and "3 \<le> f"
  shows "run_deterministic_task f (build_machine d awaits locals) parent ctl =
    run_loop f (reached d awaits locals ctl 1 None [Started parent])"
proof -
  obtain f' where f': "f = Suc f'" "2 \<le> f'" using assms(2) by (cases f) auto
  have new: "new_runner (build_machine d awaits locals) parent ctl =
      Inr (reached d awaits locals ctl 0 None [Started parent])"
    by (simp add: new_runner_def build_machine_verifies [OF n] reached_def async_id_def)
  have "advance (Suc f') (reached d awaits locals ctl 0 None [Started parent]) =
      advance f' (reached d awaits locals ctl 1 None [Started parent])"
    by (subst built_advance [OF n, where k = 0]) (simp_all add: transition_at_cases(3) del: One_nat_def)
  moreover obtain x where "advance f' (reached d awaits locals ctl 1 None [Started parent]) = Some x"
    using reached_advances [OF n _ f'(2), of 0] by (metis add_0 mult_0_right zero_le)
  ultimately show ?thesis
    using run_loop_inner by (simp add: run_deterministic_task_def new f')
qed

section \<open>Properties\<close>

lemma intervenes_word:
  assumes "j < 2 ^ 32"
  shows "intervenes (CancelAt k) j \<longleftrightarrow> j = unat k" "intervenes (PanicAt k) j \<longleftrightarrow> j = unat k"
    "\<not> intervenes ControlComplete j"
  using assms unat_async_id [OF assms] by (auto simp: intervenes_def async_id_def)

text \<open>A built machine runs through its first \<open>m\<close> awaits when nothing intervenes before them.\<close>

lemma run_awaits:
  assumes n: "unat awaits < 2 ^ 31 - 1" and "m \<le> unat awaits" and "m + 3 \<le> fuel"
    and "\<And>j. j < m \<Longrightarrow> \<not> intervenes ctl j"
  obtains f w where "2 \<le> f" and "run_deterministic_task fuel (build_machine d awaits locals) parent ctl =
    run_loop (Suc f) (reached d awaits locals ctl (2 * m + 1) w (Started parent # awaits_trace 0 m))"
proof -
  define f where "f = fuel - m"
  then have f: "fuel = f + m" "3 \<le> f" using assms(3) by auto
  obtain f' where f': "f = Suc f'" "2 \<le> f'" using f(2) by (cases f) auto
  obtain w where "run_loop (f + m) (reached d awaits locals ctl (2 * 0 + 1) None [Started parent]) =
    run_loop f (reached d awaits locals ctl (2 * (0 + m) + 1) w ([Started parent] @ awaits_trace 0 (0 + m)))"
    using run_loop_awaits [OF n f(2), of 0 m ctl d locals None "[Started parent]"] assms(2,4) by auto
  then show ?thesis
    using that [of f' w] run_start [OF n, of fuel d locals parent ctl] f f' by simp
qed

text \<open>
  A task nobody interrupts suspends, wakes and resumes once per await point, in source order, and
  completes; a number of steps linear in the await points is enough.
\<close>

lemma built_task_completes:
  assumes "unat awaits < 2 ^ 31 - 1" and "unat awaits + 3 \<le> fuel"
    and "ctl = ControlComplete \<or> (\<exists>k. (ctl = CancelAt k \<or> ctl = PanicAt k) \<and> awaits \<le> k)"
  shows "run_deterministic_task fuel (build_machine d awaits locals) parent ctl =
    Some (Inr (Started parent # awaits_trace 0 (unat awaits) @ [Completed]))"
proof -
  have "\<not> intervenes ctl j" if "j < unat awaits" for j
    using assms(1,3) that by (auto simp: intervenes_word word_le_nat_alt)
  then obtain f w where
    "run_deterministic_task fuel (build_machine d awaits locals) parent ctl =
      run_loop (Suc f) (reached d awaits locals ctl (2 * unat awaits + 1) w
        (Started parent # awaits_trace 0 (unat awaits)))"
    using run_awaits [OF assms(1) order_refl assms(2)] by blast
  then show ?thesis
    by (simp add: run_loop.simps advance_complete [OF assms(1)] del: One_nat_def Suc_eq_plus1)
qed

text \<open>
  Cancellation at an await point runs the tasks before it, observes the cancellation there and
  drops the frame's locals once, without resuming; the task then ends normally.
\<close>

theorem task_cancelled:
  assumes "unat awaits < 2 ^ 31 - 1" and "k < awaits" and "unat k + 3 \<le> fuel"
  shows "run_deterministic_task fuel (build_machine d awaits locals) parent (CancelAt k) =
    Some (Inr (Started parent # awaits_trace 0 (unat k) @ [Suspended k, Cancelled, Dropped locals]))"
proof -
  have k: "unat k < unat awaits" using assms(2) by (simp add: word_less_nat_alt)
  have "\<not> intervenes (CancelAt k) j" if "j < unat k" for j
    using assms(1) k that by (simp add: intervenes_word)
  then obtain f w where f: "2 \<le> f" and
    "run_deterministic_task fuel (build_machine d awaits locals) parent (CancelAt k) =
      run_loop (Suc f) (reached d awaits locals (CancelAt k) (2 * unat k + 1) w
        (Started parent # awaits_trace 0 (unat k)))"
    using run_awaits [OF assms(1) less_imp_le [OF k] assms(3)] by blast
  moreover obtain f' where "f = Suc f'" using f by (cases f) auto
  ultimately show ?thesis
    by (simp add: run_loop.simps advance_await [OF assms(1) k] del: One_nat_def Suc_eq_plus1)
qed

theorem task_cancelled_witness:
  "run_deterministic_task 5 (build_machine main_def 2 [main_def]) 7 (CancelAt 1) =
     Some (Inr [Started 7, Suspended 0, Woken 0, Resumed 0, Suspended 1, Cancelled,
                Dropped [main_def]])"
  using task_cancelled [of 2 1 5 main_def "[main_def]" 7]
  by (simp add: awaits_trace_def await_trace_def upt_rec)

lemma advance_panic:
  assumes n: "unat awaits < 2 ^ 31 - 1" and i: "i < unat awaits"
  shows "advance (Suc (Suc f)) (reached d awaits locals (PanicAt (of_nat i)) (2 * i + 2)
      (Some (of_nat i)) ev) =
    Some (Inl (TaskPanicked (ev @ [Resumed (of_nat i), Panicked, Dropped locals])))"
proof -
  let ?r = "(reached d awaits locals (PanicAt (of_nat i)) (2 * unat awaits + 2) (Some (of_nat i))
    (ev @ [Resumed (of_nat i), Panicked]))\<lparr>r_panicked := True\<rparr>"
  have "advance (Suc f) ?r =
      Some (Inl (TaskPanicked (ev @ [Resumed (of_nat i), Panicked, Dropped locals])))"
    by (subst built_advance [OF n, where k = "2 * unat awaits + 2"])
       (simp_all add: transition_at_cases push_event_def Let_def
         del: One_nat_def Suc_eq_plus1 add_2_eq_Suc')
  moreover have "transition_step (transition_at (unat awaits) locals (2 * i + 2))
      (reached d awaits locals (PanicAt (of_nat i)) (2 * i + 2) (Some (of_nat i)) ev) = Inl ?r"
    unfolding transition_at_cases(2) [OF i] by (simp add: reached_def push_event_def)
  moreover have "advance (Suc (Suc f)) (reached d awaits locals (PanicAt (of_nat i)) (2 * i + 2)
      (Some (of_nat i)) ev) =
    (case transition_step (transition_at (unat awaits) locals (2 * i + 2))
      (reached d awaits locals (PanicAt (of_nat i)) (2 * i + 2) (Some (of_nat i)) ev) of
       Inl r' \<Rightarrow> advance (Suc f) r' | Inr x \<Rightarrow> Some x)"
    using i by (intro built_advance [OF n]) simp_all
  ultimately show ?thesis by (simp only: sum.case)
qed

text \<open>
  C29. A panic injected after an await point is reported as a failure, after the locals were
  dropped once, with the complete event history.
\<close>

theorem task_panicked:
  assumes "unat awaits < 2 ^ 31 - 1" and "k < awaits" and "unat k + 3 \<le> fuel"
  shows "run_deterministic_task fuel (build_machine d awaits locals) parent (PanicAt k) =
    Some (Inl (TaskPanicked (Started parent # awaits_trace 0 (unat k) @
      [Suspended k, Woken k, Resumed k, Panicked, Dropped locals])))"
proof -
  have k: "unat k < unat awaits" using assms(2) by (simp add: word_less_nat_alt)
  have "\<not> intervenes (PanicAt k) j" if "j < unat k" for j
    using assms(1) k that by (simp add: intervenes_word)
  then obtain f w where f: "2 \<le> f" and
    run: "run_deterministic_task fuel (build_machine d awaits locals) parent (PanicAt k) =
      run_loop (Suc f) (reached d awaits locals (PanicAt k) (2 * unat k + 1) w
        (Started parent # awaits_trace 0 (unat k)))"
    using run_awaits [OF assms(1) less_imp_le [OF k] assms(3)] by blast
  obtain f' where f': "f = Suc (Suc f')"
    using f by (metis Suc_le_D Suc_le_mono numeral_2_eq_2)
  show ?thesis
    unfolding run f'
    using advance_panic [OF assms(1) k, of f' d locals]
    by (simp add: run_loop.simps advance_await [OF assms(1) k] del: One_nat_def Suc_eq_plus1 add_2_eq_Suc')
qed

theorem task_panicked_witness:
  "run_deterministic_task 5 (build_machine main_def 2 [main_def]) 7 (PanicAt 0) =
     Some (Inl (TaskPanicked [Started 7, Suspended 0, Woken 0, Resumed 0, Panicked,
                              Dropped [main_def]]))"
  using task_panicked [of 2 0 5 main_def "[main_def]" 7]
  by (simp add: awaits_trace_def)

section \<open>Arbitrary machines\<close>

definition terminal_event :: "TaskEvent \<Rightarrow> bool" where
  "terminal_event e \<longleftrightarrow> e = Completed \<or> (\<exists>locals. e = Dropped locals)"

definition open_events :: "TaskEvent list \<Rightarrow> bool" where
  "open_events ev \<longleftrightarrow> (\<forall>e \<in> set ev. \<not> terminal_event e)"

definition closed_events :: "TaskEvent list \<Rightarrow> bool" where
  "closed_events ev \<longleftrightarrow> (\<exists>before e. ev = before @ [e] \<and> open_events before \<and> terminal_event e)"

lemma transition_step_events:
  assumes "open_events (r_events r)"
  shows "case transition_step t r of
      Inl r' \<Rightarrow> open_events (r_events r')
    | Inr (Inl (TaskPanicked ev)) \<Rightarrow> closed_events ev
    | Inr (Inl _) \<Rightarrow> True
    | Inr (Inr (Pending _ _, r')) \<Rightarrow> open_events (r_events r')
    | Inr (Inr (StepComplete, r')) \<Rightarrow> closed_events (r_events r')"
  using assms
  by (cases t) (auto simp: push_event_def open_events_def closed_events_def terminal_event_def Let_def
      split: option.split)

lemma advance_events:
  assumes "open_events (r_events r)" and "advance f r = Some x"
  shows "case x of
      Inl (TaskPanicked ev) \<Rightarrow> closed_events ev
    | Inl _ \<Rightarrow> True
    | Inr (Pending _ _, r') \<Rightarrow> open_events (r_events r')
    | Inr (StepComplete, r') \<Rightarrow> closed_events (r_events r')"
  using assms
proof (induction f arbitrary: r)
  case (Suc f)
  show ?case
  proof (cases "nth_opt (states (r_machine r)) (unat (r_state r))")
    case None
    have "Inl (InvalidRuntimeState (r_state r)) = x"
      using Suc.prems(2) by (simp only: advance.simps None option.case option.inject)
    then show ?thesis by auto
  next
    case (Some s)
    have "(case transition_step (transition s) r of Inl r' \<Rightarrow> advance f r' | Inr y \<Rightarrow> Some y) = Some x"
      using Suc.prems(2) by (simp only: advance.simps Some option.case)
    then show ?thesis
      using transition_step_events [OF Suc.prems(1), of "transition s"] Suc.IH
      by (auto split: sum.splits)
  qed
qed (simp add: advance.simps)

lemma run_loop_events:
  assumes "open_events (r_events r)" and "run_loop f r = Some x"
  shows "case x of Inl (TaskPanicked ev) \<Rightarrow> closed_events ev | Inl _ \<Rightarrow> True | Inr ev \<Rightarrow> closed_events ev"
  using assms
proof (induction f arbitrary: r)
  case (Suc f)
  obtain y where y: "advance (Suc f) r = Some y"
    using Suc.prems(2) by (auto simp: run_loop.simps split: option.splits)
  note ev = advance_events [OF Suc.prems(1) y]
  show ?case
  proof (cases y)
    case (Inl e)
    then have "x = Inl e" using Suc.prems(2) by (simp add: run_loop.simps y)
    then show ?thesis using ev Inl by simp
  next
    case (Inr result)
    obtain st r' where result: "result = (st, r')" by fastforce
    show ?thesis
    proof (cases st)
      case (Pending i k)
      have "open_events (r_events (wake i k r'))"
        using ev Inr result Pending
        by (simp add: wake_def push_event_def open_events_def terminal_event_def)
      moreover have "run_loop f (wake i k r') = Some x"
        using Suc.prems(2) by (simp add: run_loop.simps y Inr result Pending)
      ultimately show ?thesis using Suc.IH by blast
    next
      case StepComplete
      then have "x = Inr (r_events r')"
        using Suc.prems(2) by (simp add: run_loop.simps y Inr result)
      then show ?thesis using ev Inr result StepComplete by simp
    qed
  qed
qed (simp add: run_loop.simps)

text \<open>
  C30. Whatever machine a task runs and whoever interrupts it, its history ends with exactly one
  terminal event: it completes or drops its locals, once, as the last thing it does.
\<close>

theorem task_single_terminal_event:
  assumes "run_deterministic_task fuel m parent ctl = Some (Inr ev)
    \<or> run_deterministic_task fuel m parent ctl = Some (Inl (TaskPanicked ev))"
  shows "\<exists>before e. ev = before @ [e] \<and> terminal_event e \<and> (\<forall>x \<in> set before. \<not> terminal_event x)"
proof -
  obtain r where r: "new_runner m parent ctl = Inr r"
    "run_loop fuel r = Some (Inr ev) \<or> run_loop fuel r = Some (Inl (TaskPanicked ev))"
    using assms by (auto simp: run_deterministic_task_def new_runner_def split: sum.splits)
  have "open_events (r_events r)"
    using r(1) by (auto simp: new_runner_def open_events_def terminal_event_def split: sum.splits)
  then have "closed_events ev" using r(2) run_loop_events by fastforce
  then show ?thesis by (auto simp: closed_events_def open_events_def)
qed

theorem task_single_terminal_event_witness:
  "\<exists>before e. [Started 7, Suspended 0, Cancelled, Dropped []] = before @ [e] \<and> terminal_event e
     \<and> (\<forall>x \<in> set before. \<not> terminal_event x)"
  by (rule task_single_terminal_event
        [where fuel = 5 and m = "build_machine main_def 1 []" and parent = 7 and ctl = "CancelAt 0"])
     code_simp

definition looping_machine :: AsyncStateMachine where
  "looping_machine =
     \<lparr>machine_function = main_def, parent_scope_required = True, live_locals = [],
      states = [\<lparr>state_id = 0, transition = Start 0\<rparr>, \<lparr>state_id = 1, transition = Complete\<rparr>,
                \<lparr>state_id = 2, transition = Cancel []\<rparr>]\<rparr>"

lemma looping_advance:
  "r_machine r = looping_machine \<Longrightarrow> r_state r = 0 \<Longrightarrow> advance f r = None"
  by (induction f arbitrary: r) (simp_all add: advance.simps looping_machine_def nth_opt_def)

text \<open>
  The verifier does not exclude cycles: it accepts a machine whose start state leads back to
  itself, and the runtime then never returns.
\<close>

theorem verified_machine_may_loop:
  "verify_async_machine looping_machine = Inr () \<and>
   (\<forall>fuel. run_deterministic_task fuel looping_machine parent ctl = None)"
proof
  show v: "verify_async_machine looping_machine = Inr ()" by code_simp
  show "\<forall>fuel. run_deterministic_task fuel looping_machine parent ctl = None"
  proof
    fix fuel
    show "run_deterministic_task fuel looping_machine parent ctl = None"
      by (cases fuel) (simp_all add: run_deterministic_task_def new_runner_def v run_loop.simps
          looping_advance)
  qed
qed

end
