(* ===== verification/BTree.thy ===== *)
theory BTree
  imports Syllog_Prelude "HOL-Library.Char_ord" "HOL-Library.List_Lexorder"
    "HOL-Library.Product_Lexorder"
begin

text \<open>
  Ordered maps with updates, the part of \<open>BTreeMap\<close> the package resolver uses: a map is its list of
  entries in key order. The locale \<open>ordered_map\<close> states what the clients rely on; \<open>BTreeMap\<close>'s
  model is its interpretation.
\<close>

type_synonym ('k, 'v) btree = "('k \<times> 'v) list"

definition btree_ok :: "('k::linorder, 'v) btree \<Rightarrow> bool" where
  "btree_ok t \<longleftrightarrow> sorted_wrt (<) (map fst t)"

text \<open>\<open>insert\<close>: replaces the value of a present key, or adds the key at its place.\<close>

fun btree_insert :: "'k::linorder \<Rightarrow> 'v \<Rightarrow> ('k, 'v) btree \<Rightarrow> ('k, 'v) btree" where
  "btree_insert k v [] = [(k, v)]"
| "btree_insert k v ((k', v') # t) =
     (if k < k' then (k, v) # (k', v') # t
      else if k = k' then (k, v) # t
      else (k', v') # btree_insert k v t)"

text \<open>\<open>entry(k).or_default().push(x)\<close> on a map of vectors.\<close>

definition btree_push :: "'k::linorder \<Rightarrow> 'x \<Rightarrow> ('k, 'x list) btree \<Rightarrow> ('k, 'x list) btree" where
  "btree_push k x t =
     btree_insert k ((case map_of t k of None \<Rightarrow> [] | Some xs \<Rightarrow> xs) @ [x]) t"

locale ordered_map =
  fixes ok :: "('k \<times> 'v) list \<Rightarrow> bool"
    and put :: "'k \<Rightarrow> 'v \<Rightarrow> ('k \<times> 'v) list \<Rightarrow> ('k \<times> 'v) list"
  assumes ok_Nil: "ok []"
    and ok_distinct: "ok t \<Longrightarrow> distinct (map fst t)"
    and ok_put: "ok t \<Longrightarrow> ok (put k v t)"
    and lookup_put: "ok t \<Longrightarrow> map_of (put k v t) = (map_of t)(k \<mapsto> v)"
begin

lemma dom_put: "ok t \<Longrightarrow> fst ` set (put k v t) = insert k (fst ` set t)"
  using lookup_put [of t k v] by (metis dom_fun_upd dom_map_of_conv_image_fst option.distinct(1))

lemma in_put: "ok t \<Longrightarrow> (k', v') \<in> set (put k v t) \<longleftrightarrow> (k' = k \<and> v' = v) \<or> (k' \<noteq> k \<and> (k', v') \<in> set t)"
  using map_of_eq_Some_iff [OF ok_distinct [OF ok_put], of t k v k' v']
    map_of_eq_Some_iff [OF ok_distinct, of t k' v'] lookup_put [of t k v]
  by (auto split: if_splits)

lemma ok_fold: "ok t \<Longrightarrow> ok (fold (\<lambda>(k, v). put k v) xs t)"
  by (induction xs arbitrary: t) (auto simp: ok_put)

end

lemma btree_insert_keys:
  "fst ` set (btree_insert k v t) = insert k (fst ` set t)"
proof (induction t)
  case (Cons e t)
  then show ?case by (cases e) (simp add: insert_commute)
qed simp

lemma btree_insert_ok:
  "btree_ok t \<Longrightarrow> btree_ok (btree_insert k v t)"
proof (induction t)
  case (Cons e t)
  obtain k' v' where e: "e = (k', v')" by (cases e)
  have t: "btree_ok t" "\<forall>x \<in> fst ` set t. k' < x" using Cons.prems by (auto simp: btree_ok_def e)
  have "\<forall>x \<in> fst ` set (btree_insert k v t). k' < x" if "k' < k"
    using t(2) that by (simp add: btree_insert_keys)
  then show ?case
    using Cons.IH [OF t(1)] t by (auto simp: btree_ok_def e)
qed (simp add: btree_ok_def)

lemma btree_insert_lookup:
  "btree_ok t \<Longrightarrow> map_of (btree_insert k v t) = (map_of t)(k \<mapsto> v)"
proof (induction t)
  case (Cons e t)
  then show ?case by (cases e) (auto simp: btree_ok_def fun_eq_iff)
qed (simp add: fun_eq_iff)

interpretation bt: ordered_map btree_ok btree_insert
proof
  show "btree_ok []" by (simp add: btree_ok_def)
  show "btree_ok t \<Longrightarrow> distinct (map fst t)" for t :: "('a \<times> 'b) list"
    unfolding btree_ok_def using strict_sorted_iff by blast
qed (auto simp: btree_insert_ok btree_insert_lookup)

lemma btree_push_ok: "btree_ok t \<Longrightarrow> btree_ok (btree_push k x t)"
  by (simp add: btree_push_def bt.ok_put)

lemma btree_push_lookup:
  "btree_ok t \<Longrightarrow> map_of (btree_push k x t) =
     (map_of t)(k \<mapsto> (case map_of t k of None \<Rightarrow> [] | Some xs \<Rightarrow> xs) @ [x])"
  by (simp add: btree_push_def bt.lookup_put)

end
