(* ===== verification/Resolver.thy ===== *)
theory Resolver
  imports BTree "HOL-Library.Sublist"
begin

text \<open>
  Package resolution, \<open>crates/syllog-package/src/resolver.rs\<close>. The crates \<open>semver\<close> and \<open>sha2\<close>
  are parameters: a record of the parser of requirements, the match relation, the printed form of
  versions and the hexadecimal digest; versions are any linearly ordered type. Paths are Unix
  paths. The search recurses once per selected package and an index may know arbitrarily many
  names, so it has fuel, one unit per recursion; \<open>None\<close> is "still searching".
\<close>

section \<open>Parameters and data\<close>

record ('v, 'r) package_lib =
  parse_requirement :: "string \<Rightarrow> string + 'r"
  req_matches :: "'r \<Rightarrow> 'v \<Rightarrow> bool"
  show_version :: "'v \<Rightarrow> string"
  sha256_hex :: "8 word list \<Rightarrow> string"

record 'v PackageRelease =
  release_name :: string
  release_version :: 'v
  release_dependencies :: "(string, string) btree"
  release_checksum :: string
  release_content :: "8 word list"
  yanked :: bool
  available_offline :: bool
  archive_paths :: "string list"

type_synonym 'v package_index = "string \<Rightarrow> 'v PackageRelease list"

text \<open>\<open>InMemoryIndex\<close>: the releases grouped by name, in the order they were given.\<close>

type_synonym 'v InMemoryIndex = "(string, 'v PackageRelease list) btree"

definition new_index_of :: "'v PackageRelease list \<Rightarrow> 'v InMemoryIndex" where
  "new_index_of rels = fold (\<lambda>r. btree_push (release_name r) r) rels []"

definition in_memory_index :: "'v InMemoryIndex \<Rightarrow> 'v package_index" where
  "in_memory_index m name = (case map_of m name of None \<Rightarrow> [] | Some rels \<Rightarrow> rels)"

record ResolvePolicy =
  offline :: bool

record 'v LockedPackage =
  locked_name :: string
  locked_version :: 'v
  locked_checksum :: string
  locked_dependencies :: "(string, 'v) btree"

record 'v Resolution =
  resolution_format :: u32
  resolution_packages :: "'v LockedPackage list"

datatype 'v ResolveError =
    InvalidRequirement string string string
  | Conflict string "string list"
  | OfflineUnavailable string 'v
  | ChecksumMismatch string 'v string string
  | UnsafeArchivePath string 'v string
  | AmbiguousRelease string 'v

record 'r Constraint =
  requirement :: 'r
  constraint_text :: string
  origin :: string
  exact :: bool

type_synonym 'v selection = "(string, 'v PackageRelease) btree"
type_synonym 'r constraints = "(string, 'r Constraint list) btree"

record 'v SearchState =
  state_selected :: "(string \<times> 'v \<times> string) list"
  state_constraints :: "(string \<times> (string \<times> string) list) list"

type_synonym 'v failures = "'v SearchState \<rightharpoonup> 'v ResolveError"

section \<open>Constraints\<close>

text \<open>\<open>str::trim_start\<close>: the UTF-8 encodings of the Unicode white space characters.\<close>

definition white_space :: "string list" where
  "white_space =
     [[CHR 0x09], [CHR 0x0A], [CHR 0x0B], [CHR 0x0C], [CHR 0x0D], [CHR 0x20],
      [CHR 0xC2, CHR 0x85], [CHR 0xC2, CHR 0xA0], [CHR 0xE1, CHR 0x9A, CHR 0x80],
      [CHR 0xE2, CHR 0x80, CHR 0xA8], [CHR 0xE2, CHR 0x80, CHR 0xA9],
      [CHR 0xE2, CHR 0x80, CHR 0xAF], [CHR 0xE2, CHR 0x81, CHR 0x9F],
      [CHR 0xE3, CHR 0x80, CHR 0x80]] @
     map (\<lambda>k. [CHR 0xE2, CHR 0x80, char_of (k :: nat)]) [0x80..<0x8B]"

function trim_start :: "string \<Rightarrow> string" where
  "trim_start s =
     (case List.find (\<lambda>w. prefix w s) white_space of
        None \<Rightarrow> s
      | Some w \<Rightarrow> trim_start (drop (length w) s))"
  by pat_completeness auto
termination
proof (relation "measure length")
  fix s w
  assume "List.find (\<lambda>w. prefix w s) white_space = Some w"
  then have "w \<in> set white_space" "prefix w s"
    by (auto simp: find_Some_iff)
  then have "w \<noteq> []" "length w \<le> length s" by (auto simp: white_space_def prefix_length_le)
  then show "(drop (length w) s, s) \<in> measure length" by (cases s) auto
qed simp

declare trim_start.simps [simp del]

definition starts_exact :: "string \<Rightarrow> bool" where
  "starts_exact txt = (case trim_start txt of [] \<Rightarrow> False | c # _ \<Rightarrow> c = CHR ''='')"

definition add_constraint ::
  "('v, 'r) package_lib \<Rightarrow> 'r constraints \<Rightarrow> string \<Rightarrow> string \<Rightarrow> string
     \<Rightarrow> 'v ResolveError + 'r constraints" where
  "add_constraint lib cs package txt from =
     (case parse_requirement lib txt of
        Inl reason \<Rightarrow> Inl (InvalidRequirement package txt reason)
      | Inr req \<Rightarrow>
          Inr (btree_push package
                 \<lparr>requirement = req, constraint_text = txt, origin = from,
                  exact = starts_exact txt\<rparr> cs))"

definition conflict :: "string \<Rightarrow> 'r Constraint list \<Rightarrow> 'v ResolveError" where
  "conflict package active =
     Conflict package (sorted_list_of_set
       (set (map (\<lambda>c. origin c @ '' ('' @ constraint_text c @ '')'') active)))"

definition satisfies :: "('v, 'r) package_lib \<Rightarrow> 'r Constraint list \<Rightarrow> 'v \<Rightarrow> bool" where
  "satisfies lib active v = list_all (\<lambda>c. req_matches lib (requirement c) v) active"

text \<open>A withdrawn release is admitted only by an exact requirement that matches it.\<close>

definition admissible ::
  "('v, 'r) package_lib \<Rightarrow> 'r Constraint list \<Rightarrow> 'v PackageRelease \<Rightarrow> bool" where
  "admissible lib active r =
     (satisfies lib active (release_version r) \<and>
      (\<not> yanked r \<or>
       list_ex (\<lambda>c. exact c \<and> req_matches lib (requirement c) (release_version r)) active))"

definition candidate_count ::
  "('v, 'r) package_lib \<Rightarrow> 'v package_index \<Rightarrow> string \<Rightarrow> 'r Constraint list \<Rightarrow> ResolvePolicy
     \<Rightarrow> nat" where
  "candidate_count lib index name active policy =
     length (filter (\<lambda>r. admissible lib active r \<and> (\<not> offline policy \<or> available_offline r))
       (index name))"

section \<open>Releases\<close>

text \<open>\<open>Path::components\<close> on Unix.\<close>

datatype Component = RootDir | CurDir | ParentDir | Normal string

fun split_path :: "string \<Rightarrow> string \<Rightarrow> string list" where
  "split_path [] acc = [rev acc]"
| "split_path (c # cs) acc =
     (if c = CHR ''/'' then rev acc # split_path cs [] else split_path cs (c # acc))"

definition component_of :: "string \<Rightarrow> Component list" where
  "component_of s = (if s = [] \<or> s = ''.'' then [] else if s = ''..'' then [ParentDir] else [Normal s])"

definition path_components :: "string \<Rightarrow> Component list" where
  "path_components p =
     (let parts = split_path p []
      in (case p of
            [] \<Rightarrow> []
          | c # _ \<Rightarrow> if c = CHR ''/'' then [RootDir]
                      else if hd parts = ''.'' then [CurDir] else []) @
         concat (map component_of parts))"

definition is_normal :: "Component \<Rightarrow> bool" where
  "is_normal c = (case c of Normal _ \<Rightarrow> True | _ \<Rightarrow> False)"

definition safe_path :: "string \<Rightarrow> bool" where
  "safe_path p = (p \<noteq> [] \<and> list_all is_normal (path_components p))"

definition validate_release ::
  "('v, 'r) package_lib \<Rightarrow> 'v PackageRelease \<Rightarrow> 'v ResolveError + unit" where
  "validate_release lib r =
     (let actual = sha256_hex lib (release_content r) in
      if actual \<noteq> release_checksum r
      then Inl (ChecksumMismatch (release_name r) (release_version r) (release_checksum r) actual)
      else case List.find (\<lambda>p. \<not> safe_path p) (archive_paths r) of
             Some p \<Rightarrow> Inl (UnsafeArchivePath (release_name r) (release_version r) p)
           | None \<Rightarrow> Inr ())"

text \<open>Stable sort by descending version, then by checksum.\<close>

definition sort_releases :: "'v::linorder PackageRelease list \<Rightarrow> 'v PackageRelease list" where
  "sort_releases rs = rev (sort_key release_version (rev (sort_key release_checksum rs)))"

text \<open>The derived equality of releases: paths are compared by their components.\<close>

definition release_eq :: "'v PackageRelease \<Rightarrow> 'v PackageRelease \<Rightarrow> bool" where
  "release_eq a b =
     (a\<lparr>archive_paths := []\<rparr> = b\<lparr>archive_paths := []\<rparr> \<and>
      map path_components (archive_paths a) = map path_components (archive_paths b))"

fun reject_ambiguous :: "string \<Rightarrow> 'v PackageRelease list \<Rightarrow> 'v ResolveError + unit" where
  "reject_ambiguous name (a # b # rs) =
     (if release_version a = release_version b \<and> \<not> release_eq a b
      then Inl (AmbiguousRelease name (release_version a))
      else reject_ambiguous name (b # rs))"
| "reject_ambiguous name _ = Inr ()"

section \<open>Search\<close>

definition state_fingerprint :: "'v selection \<Rightarrow> 'r constraints \<Rightarrow> 'v SearchState" where
  "state_fingerprint selected cs =
     \<lparr>state_selected = map (\<lambda>(name, r). (name, release_version r, release_checksum r)) selected,
      state_constraints =
        map (\<lambda>(name, active). (name, sort (map (\<lambda>c. (constraint_text c, origin c)) active))) cs\<rparr>"

text \<open>The first selected package whose constraints are violated, in name order.\<close>

definition violated ::
  "('v, 'r) package_lib \<Rightarrow> 'v selection \<Rightarrow> 'r constraints \<Rightarrow> (string \<times> 'r Constraint list) option" where
  "violated lib selected cs =
     (case List.find (\<lambda>(name, r). case map_of cs name of
              None \<Rightarrow> False | Some active \<Rightarrow> \<not> satisfies lib active (release_version r)) selected of
        None \<Rightarrow> None
      | Some (name, r) \<Rightarrow> Some (name, case map_of cs name of None \<Rightarrow> [] | Some active \<Rightarrow> active))"

definition next_package ::
  "('v, 'r) package_lib \<Rightarrow> 'v package_index \<Rightarrow> ResolvePolicy \<Rightarrow> 'v selection \<Rightarrow> 'r constraints
     \<Rightarrow> (string \<times> 'r Constraint list) option" where
  "next_package lib index policy selected cs =
     (case sort_key (\<lambda>(name, active). (candidate_count lib index name active policy, name))
             (filter (\<lambda>(name, _). map_of selected name = None) cs) of
        [] \<Rightarrow> None
      | entry # _ \<Rightarrow> Some entry)"

text \<open>The releases the loop tries, in order, or the error raised before it.\<close>

definition candidates ::
  "('v::linorder, 'r) package_lib \<Rightarrow> 'v package_index \<Rightarrow> ResolvePolicy \<Rightarrow> string
     \<Rightarrow> 'r Constraint list \<Rightarrow> 'v ResolveError + 'v PackageRelease list" where
  "candidates lib index policy name active =
     (let releases = sort_releases (index name) in
      bindR (reject_ambiguous name releases) (\<lambda>_.
        let compatible = filter (admissible lib active) releases;
            usable = (if offline policy then filter available_offline compatible else compatible)
        in if offline policy \<and> compatible \<noteq> [] \<and> list_all (\<lambda>r. \<not> available_offline r) compatible
           then Inl (OfflineUnavailable name (release_version (hd compatible)))
           else if usable = [] then Inl (conflict name active)
           else Inr usable))"

fun add_dependencies ::
  "('v, 'r) package_lib \<Rightarrow> 'v PackageRelease \<Rightarrow> (string \<times> string) list \<Rightarrow> 'r constraints
     \<Rightarrow> 'v ResolveError + 'r constraints" where
  "add_dependencies lib r [] cs = Inr cs"
| "add_dependencies lib r ((dependency, txt) # deps) cs =
     bindR (add_constraint lib cs dependency txt
              (release_name r @ '' '' @ show_version lib (release_version r) @ '' requires '' @
               dependency @ '' '' @ txt))
       (add_dependencies lib r deps)"

fun is_conflict :: "'v ResolveError \<Rightarrow> bool" where
  "is_conflict (Conflict package reqs) = True"
| "is_conflict _ = False"

type_synonym 'v search_result = "(('v ResolveError + 'v selection) \<times> 'v failures) option"

function search ::
  "nat \<Rightarrow> ('v::linorder, 'r) package_lib \<Rightarrow> 'v package_index \<Rightarrow> ResolvePolicy \<Rightarrow> 'v selection
     \<Rightarrow> 'r constraints \<Rightarrow> 'v failures \<Rightarrow> 'v search_result"
  and try_releases ::
  "nat \<Rightarrow> ('v::linorder, 'r) package_lib \<Rightarrow> 'v package_index \<Rightarrow> ResolvePolicy \<Rightarrow> 'v selection
     \<Rightarrow> 'r constraints \<Rightarrow> string \<Rightarrow> 'v PackageRelease list \<Rightarrow> 'v ResolveError option
     \<Rightarrow> 'v failures \<Rightarrow> 'v search_result"
where
  "search 0 lib index policy selected cs failed = None"
| "search (Suc fuel) lib index policy selected cs failed =
     (let state = state_fingerprint selected cs in
      case failed state of
        Some e \<Rightarrow> Some (Inl e, failed)
      | None \<Rightarrow>
          (case violated lib selected cs of
             Some (name, active) \<Rightarrow>
               (let e = conflict name active in Some (Inl e, failed(state \<mapsto> e)))
           | None \<Rightarrow>
               (case next_package lib index policy selected cs of
                  None \<Rightarrow> Some (Inr selected, failed)
                | Some (name, active) \<Rightarrow>
                    (case candidates lib index policy name active of
                       Inl e \<Rightarrow> Some (Inl e, failed)
                     | Inr releases \<Rightarrow>
                         try_releases fuel lib index policy selected cs name releases None failed))))"
| "try_releases fuel lib index policy selected cs name [] last_conflict failed =
     (let e = (case last_conflict of
                 Some e \<Rightarrow> e
               | None \<Rightarrow> conflict name (case map_of cs name of None \<Rightarrow> [] | Some active \<Rightarrow> active))
      in Some (Inl e, failed(state_fingerprint selected cs \<mapsto> e)))"
| "try_releases fuel lib index policy selected cs name (r # rs) last_conflict failed =
     (case validate_release lib r of
        Inl e \<Rightarrow> Some (Inl e, failed)
      | Inr _ \<Rightarrow>
          (case add_dependencies lib r (release_dependencies r) cs of
             Inl e \<Rightarrow> Some (Inl e, failed)
           | Inr cs' \<Rightarrow>
               (case search fuel lib index policy (btree_insert name r selected) cs' failed of
                  None \<Rightarrow> None
                | Some (Inr solution, failed') \<Rightarrow> Some (Inr solution, failed')
                | Some (Inl e, failed') \<Rightarrow>
                    if is_conflict e
                    then try_releases fuel lib index policy selected cs name rs (Some e) failed'
                    else Some (Inl e, failed'))))"
  by pat_completeness auto
termination
  by (relation "measures [\<lambda>x. case x of Inl (fuel, _) \<Rightarrow> fuel | Inr (fuel, _) \<Rightarrow> fuel,
                 \<lambda>x. case x of Inl _ \<Rightarrow> 0 | Inr (_, _, _, _, _, _, _, rs, _) \<Rightarrow> Suc (length rs)]")
     auto

section \<open>The entry point\<close>

fun root_constraints ::
  "('v, 'r) package_lib \<Rightarrow> (string \<times> string) list \<Rightarrow> 'r constraints
     \<Rightarrow> 'v ResolveError + 'r constraints" where
  "root_constraints lib [] cs = Inr cs"
| "root_constraints lib ((name, txt) # deps) cs =
     bindR (add_constraint lib cs name txt (''root requires '' @ name @ '' '' @ txt))
       (root_constraints lib deps)"

definition locked_package :: "'v selection \<Rightarrow> 'v PackageRelease \<Rightarrow> 'v LockedPackage" where
  "locked_package selected r =
     \<lparr>locked_name = release_name r, locked_version = release_version r,
      locked_checksum = release_checksum r,
      locked_dependencies =
        List.map_filter (\<lambda>(name, _). map_option (\<lambda>d. (name, release_version d)) (map_of selected name))
          (release_dependencies r)\<rparr>"

definition resolve ::
  "nat \<Rightarrow> ('v::linorder, 'r) package_lib \<Rightarrow> (string, string) btree \<Rightarrow> 'v package_index
     \<Rightarrow> ResolvePolicy \<Rightarrow> ('v ResolveError + 'v Resolution) option" where
  "resolve fuel lib dependencies index policy =
     (case root_constraints lib dependencies [] of
        Inl e \<Rightarrow> Some (Inl e)
      | Inr cs \<Rightarrow>
          (case search fuel lib index policy [] cs Map.empty of
             None \<Rightarrow> None
           | Some (Inl e, _) \<Rightarrow> Some (Inl e)
           | Some (Inr selected, _) \<Rightarrow>
               Some (Inr \<lparr>resolution_format = 1,
                          resolution_packages = map (\<lambda>(_, r). locked_package selected r) selected\<rparr>)))"

end
