(* ===== verification/Resolver_Sound.thy ===== *)
theory Resolver_Sound
  imports Resolver
begin

text \<open>
  What a resolution promises: every requirement met, every selected release intact and available,
  the packages in name order; the search ends on an index of finitely many names; and a reported
  conflict is genuine, no choice of releases resolves the requirements.
\<close>

section \<open>Recorded requirements\<close>

text \<open>A requirement is recorded when a constraint on its package stems from it.\<close>

definition recorded :: "('v, 'r) package_lib \<Rightarrow> 'r constraints \<Rightarrow> string \<times> string \<Rightarrow> bool" where
  "recorded lib cs = (\<lambda>(name, txt). \<exists>active c. map_of cs name = Some active \<and> c \<in> set active \<and>
     parse_requirement lib txt = Inr (requirement c))"

text \<open>Constraints only accumulate.\<close>

definition extends :: "'r constraints \<Rightarrow> 'r constraints \<Rightarrow> bool" where
  "extends cs cs' \<longleftrightarrow> (\<forall>name active. map_of cs name = Some active \<longrightarrow>
     (\<exists>more. map_of cs' name = Some (active @ more)))"

lemma extends_refl [simp]: "extends cs cs"
  by (simp add: extends_def)

lemma extends_trans: "extends a b \<Longrightarrow> extends b c \<Longrightarrow> extends a c"
  unfolding extends_def by (metis append.assoc)

lemma recorded_extends: "recorded lib cs d \<Longrightarrow> extends cs cs' \<Longrightarrow> recorded lib cs' d"
  by (auto simp: recorded_def extends_def split: prod.splits) (metis UnCI set_append)

lemma add_constraint_result:
  assumes "add_constraint lib cs package txt from = Inr cs'" and "btree_ok cs"
  shows "btree_ok cs' \<and> extends cs cs' \<and> recorded lib cs' (package, txt)"
proof -
  obtain req where req: "parse_requirement lib txt = Inr req"
    and cs': "cs' = btree_push package \<lparr>requirement = req, constraint_text = txt, origin = from,
      exact = starts_exact txt\<rparr> cs"
    using assms(1) by (auto simp: add_constraint_def split: sum.splits)
  show ?thesis
    unfolding cs' extends_def recorded_def
    using assms(2) req by (auto simp: btree_push_ok btree_push_lookup)
qed

lemma add_dependencies_result:
  assumes "add_dependencies lib r deps cs = Inr cs'" and "btree_ok cs"
  shows "btree_ok cs' \<and> extends cs cs' \<and> (\<forall>d \<in> set deps. recorded lib cs' d)"
  using assms
proof (induction lib r deps cs rule: add_dependencies.induct)
  case (2 lib r dependency t deps cs)
  then obtain cs1 where c1: "add_constraint lib cs dependency t
      (release_name r @ '' '' @ show_version lib (release_version r) @ '' requires '' @
       dependency @ '' '' @ t) = Inr cs1" and c2: "add_dependencies lib r deps cs1 = Inr cs'"
    by auto
  note r1 = add_constraint_result [OF c1 2(3)]
  note r2 = 2(1) [OF c1 c2]
  show ?case using r1 r2 recorded_extends extends_trans by auto
qed simp

lemma root_constraints_result:
  assumes "root_constraints lib deps cs = Inr cs'" and "btree_ok cs"
  shows "btree_ok cs' \<and> extends cs cs' \<and> (\<forall>d \<in> set deps. recorded lib cs' d)"
  using assms
proof (induction lib deps cs rule: root_constraints.induct)
  case (2 lib name t deps cs)
  then obtain cs1 where c1: "add_constraint lib cs name t (''root requires '' @ name @ '' '' @ t) = Inr cs1"
    and c2: "root_constraints lib deps cs1 = Inr cs'"
    by auto
  note r1 = add_constraint_result [OF c1 2(3)]
  note r2 = 2(1) [OF c1 c2]
  show ?case using r1 r2 recorded_extends extends_trans by auto
qed simp

section \<open>What the search keeps\<close>

text \<open>A selected release is the index's own, intact, available, and its requirements are recorded.\<close>

definition sound_release ::
  "('v, 'r) package_lib \<Rightarrow> 'v package_index \<Rightarrow> ResolvePolicy \<Rightarrow> 'r constraints
     \<Rightarrow> string \<times> 'v PackageRelease \<Rightarrow> bool" where
  "sound_release lib index policy cs = (\<lambda>(name, r).
     r \<in> set (index name) \<and> validate_release lib r = Inr () \<and>
     (offline policy \<longrightarrow> available_offline r) \<and>
     (yanked r \<longrightarrow> (\<exists>active c. map_of cs name = Some active \<and> c \<in> set active \<and> exact c)) \<and>
     (\<forall>d \<in> set (release_dependencies r). recorded lib cs d))"

definition sound_state ::
  "('v, 'r) package_lib \<Rightarrow> 'v package_index \<Rightarrow> ResolvePolicy \<Rightarrow> 'v selection \<Rightarrow> 'r constraints \<Rightarrow> bool" where
  "sound_state lib index policy selected cs \<longleftrightarrow> btree_ok selected \<and> btree_ok cs \<and>
     (\<forall>entry \<in> set selected. sound_release lib index policy cs entry)"

definition solved :: "('v, 'r) package_lib \<Rightarrow> 'v selection \<Rightarrow> 'r constraints \<Rightarrow> bool" where
  "solved lib selected cs \<longleftrightarrow> (\<forall>name active. map_of cs name = Some active \<longrightarrow>
     (\<exists>r. map_of selected name = Some r \<and> satisfies lib active (release_version r)))"

lemma sound_release_extends:
  "sound_release lib index policy cs e \<Longrightarrow> extends cs cs' \<Longrightarrow> sound_release lib index policy cs' e"
proof -
  assume s: "sound_release lib index policy cs e" and x: "extends cs cs'"
  have "\<exists>active c. map_of cs' name = Some active \<and> c \<in> set active \<and> exact c"
    if "\<exists>active c. map_of cs name = Some active \<and> c \<in> set active \<and> exact c" for name
    using that x unfolding extends_def by (metis UnCI set_append)
  then show ?thesis
    using s unfolding sound_release_def by (auto intro: recorded_extends [OF _ x] split: prod.splits)
qed

lemma sort_releases_set [simp]: "set (sort_releases rs) = set rs"
  by (simp add: sort_releases_def)

lemma candidates_result:
  assumes "candidates lib index policy name active = Inr rs" and "r \<in> set rs"
  shows "r \<in> set (index name) \<and> admissible lib active r \<and> (offline policy \<longrightarrow> available_offline r)"
  using assms by (auto simp: candidates_def Let_def split: if_splits)

lemma next_package_Some:
  assumes "next_package lib index policy selected cs = Some (name, active)"
  shows "(name, active) \<in> set cs \<and> map_of selected name = None"
proof -
  let ?xs = "filter (\<lambda>(name, _). map_of selected name = None) cs"
  let ?ys = "sort_key (\<lambda>(name, active). (candidate_count lib index name active policy, name)) ?xs"
  have "(name, active) \<in> set ?ys"
    using assms by (auto simp: next_package_def simp del: set_sort split: list.splits)
  then have "(name, active) \<in> set ?xs" by (simp only: set_sort)
  then show ?thesis by simp
qed

lemma next_package_None:
  assumes "next_package lib index policy selected cs = None" and "(name, active) \<in> set cs"
  shows "\<exists>r. map_of selected name = Some r"
proof -
  let ?xs = "filter (\<lambda>(name, _). map_of selected name = None) cs"
  let ?ys = "sort_key (\<lambda>(name, active). (candidate_count lib index name active policy, name)) ?xs"
  have "?ys = []" using assms(1) by (auto simp: next_package_def split: list.splits)
  then have "set ?ys = {}" by (simp only: list.set)
  then have "set ?xs = {}" by (simp only: set_sort)
  then have "map_of selected name \<noteq> None" using assms(2) by (auto simp: filter_empty_conv)
  then show ?thesis by blast
qed

lemma violated_None:
  assumes "violated lib selected cs = None" and "map_of selected name = Some r"
    and "map_of cs name = Some active"
  shows "satisfies lib active (release_version r)"
proof -
  have "(name, r) \<in> set selected" using assms(2) by (rule map_of_SomeD)
  then show ?thesis
    using assms(1,3) by (fastforce simp: violated_def find_None_iff split: option.splits)
qed

lemma solved_when_done:
  assumes "violated lib selected cs = None" and "next_package lib index policy selected cs = None"
  shows "solved lib selected cs"
  unfolding solved_def
  using next_package_None [OF assms(2)] violated_None [OF assms(1)] by (metis map_of_SomeD)

lemma select_sound:
  assumes "sound_state lib index policy selected cs" and "next_package lib index policy selected cs = Some (name, active)"
    and "candidates lib index policy name active = Inr rs" and "r \<in> set rs"
    and "validate_release lib r = Inr ()"
    and "add_dependencies lib r (release_dependencies r) cs = Inr cs'"
  shows "sound_state lib index policy (btree_insert name r selected) cs' \<and> extends cs cs'"
proof -
  have ok: "btree_ok selected" "btree_ok cs" using assms(1) by (auto simp: sound_state_def)
  note deps = add_dependencies_result [OF assms(6) ok(2)]
  have act: "map_of cs name = Some active"
    using next_package_Some [OF assms(2)] bt.ok_distinct [OF ok(2)] by simp
  note cand = candidates_result [OF assms(3,4)]
  have "sound_release lib index policy cs' (name, r)"
  proof -
    have "\<exists>active c. map_of cs' name = Some active \<and> c \<in> set active \<and> exact c" if y: "yanked r"
    proof -
      obtain c where "c \<in> set active" "exact c"
        using cand y by (auto simp: admissible_def list_ex_iff)
      then show ?thesis using deps act unfolding extends_def by (metis UnCI set_append)
    qed
    then show ?thesis using cand assms(5) deps by (auto simp: sound_release_def)
  qed
  moreover have "\<forall>e \<in> set selected. sound_release lib index policy cs' e"
    using assms(1) deps sound_release_extends unfolding sound_state_def by blast
  ultimately show ?thesis
    using deps ok bt.ok_put bt.in_put [OF ok(1)] by (auto simp: sound_state_def)
qed

lemma search_sound:
  shows "search fuel lib index policy selected cs failed = Some (Inr solution, failed') \<Longrightarrow>
      sound_state lib index policy selected cs \<Longrightarrow>
      \<exists>cs'. extends cs cs' \<and> sound_state lib index policy solution cs' \<and> solved lib solution cs'"
    and "try_releases fuel lib index policy selected cs name rs lc failed = Some (Inr solution, failed') \<Longrightarrow>
      sound_state lib index policy selected cs \<Longrightarrow>
      next_package lib index policy selected cs = Some (name, active) \<Longrightarrow>
      candidates lib index policy name active = Inr all \<Longrightarrow> set rs \<subseteq> set all \<Longrightarrow>
      \<exists>cs'. extends cs cs' \<and> sound_state lib index policy solution cs' \<and> solved lib solution cs'"
proof (induction fuel lib index policy selected cs failed
    and fuel lib index policy selected cs name rs lc failed
    arbitrary: solution failed' and solution failed' active all rule: search_try_releases.induct)
  case (2 fuel lib index policy selected cs failed)
  show ?case
  proof (cases "next_package lib index policy selected cs")
    case None
    then show ?thesis
      using 2(2,3) solved_when_done [of lib selected cs index policy] extends_refl [of cs]
      by (auto simp: Let_def split: option.splits simp del: extends_refl)
  next
    case (Some entry)
    obtain name active where e: "entry = (name, active)" by fastforce
    then show ?thesis
      using 2 Some by (auto simp: Let_def split: option.splits sum.splits)
  qed
next
  case (4 fuel lib index policy selected cs name r rs lc failed)
  show ?case
  proof (cases "validate_release lib r")
    case (Inr u)
    then have v: "validate_release lib r = Inr ()" by simp
    show ?thesis
    proof (cases "add_dependencies lib r (release_dependencies r) cs")
      case (Inr cs1)
      note s1 = select_sound [OF 4(4,5,6) _ v Inr]
      have r: "r \<in> set all" "set rs \<subseteq> set all" using 4(7) by auto
      obtain x f1 where s: "search fuel lib index policy (btree_insert name r selected) cs1 failed = Some (x, f1)"
        using 4(3) v Inr by (auto split: option.splits)
      show ?thesis
      proof (cases x)
        case (Inl e)
        then have "is_conflict e" "try_releases fuel lib index policy selected cs name rs (Some e) f1 =
            Some (Inr solution, failed')"
          using 4(3) v \<open>add_dependencies lib r (release_dependencies r) cs = Inr cs1\<close> s
          by (auto split: if_splits)
        then show ?thesis
          using 4(2) [OF v \<open>add_dependencies lib r (release_dependencies r) cs = Inr cs1\<close> s refl Inl]
            4(4,5,6) r(2) by blast
      next
        case (Inr sol)
        then have "sol = solution"
          using 4(3) v \<open>add_dependencies lib r (release_dependencies r) cs = Inr cs1\<close> s by auto
        then show ?thesis
          using 4(1) [OF v \<open>add_dependencies lib r (release_dependencies r) cs = Inr cs1\<close>] s Inr
            s1 [OF r(1)] extends_trans by blast
      qed
    qed (use 4(3) v in simp)
  qed (use 4(3) in simp)
qed (simp_all add: Let_def)

section \<open>Termination\<close>

definition open_names :: "'v package_index \<Rightarrow> 'v selection \<Rightarrow> nat" where
  "open_names index selected = card ({name. index name \<noteq> []} - fst ` set selected)"

lemma open_names_insert:
  assumes "finite {name. index name \<noteq> []}" and "btree_ok selected"
    and "map_of selected name = None" and "index name \<noteq> []"
  shows "open_names index (btree_insert name r selected) < open_names index selected"
proof -
  have "name \<notin> fst ` set selected" using assms(3) by (simp add: map_of_eq_None_iff)
  then show ?thesis
    unfolding open_names_def bt.dom_put [OF assms(2)]
    using assms(1,4) by (intro psubset_card_mono) auto
qed

lemma search_returns_finite:
  shows "finite {name. index name \<noteq> []} \<Longrightarrow> btree_ok selected \<Longrightarrow> open_names index selected < fuel \<Longrightarrow>
      \<exists>x. search fuel lib index policy selected cs failed = Some x"
    and "finite {name. index name \<noteq> []} \<Longrightarrow> btree_ok selected \<Longrightarrow> map_of selected name = None \<Longrightarrow>
      set rs \<subseteq> set (index name) \<Longrightarrow> open_names index selected \<le> fuel \<Longrightarrow>
      \<exists>x. try_releases fuel lib index policy selected cs name rs lc failed = Some x"
proof (induction fuel lib index policy selected cs failed
    and fuel lib index policy selected cs name rs lc failed rule: search_try_releases.induct)
  case (2 fuel lib index policy selected cs failed)
  show ?case
  proof (cases "next_package lib index policy selected cs")
    case None
    then show ?thesis by (auto simp: Let_def split: option.splits)
  next
    case (Some entry)
    obtain name active where e: "entry = (name, active)" by fastforce
    have "\<exists>x. try_releases fuel lib index policy selected cs name rs None failed = Some x"
      if f: "failed (state_fingerprint selected cs) = None" "violated lib selected cs = None"
        and c: "candidates lib index policy name active = Inr rs" for rs
    proof -
      have "set rs \<subseteq> set (index name)" using candidates_result [OF c] by blast
      then show ?thesis
        using 2(1) [OF refl f Some e [symmetric] c] 2(2-4) next_package_Some [OF Some [unfolded e]] by simp
    qed
    then show ?thesis
      using Some e by (auto simp: Let_def split: option.split sum.split)
  qed
next
  case (4 fuel lib index policy selected cs name r rs lc failed)
  have "index name \<noteq> []" using 4(6) by auto
  then have less: "open_names index (btree_insert name r selected) < fuel"
    using open_names_insert [OF 4(3,4,5), of r] 4(7) by simp
  have s: "\<exists>x. search fuel lib index policy (btree_insert name r selected) cs' failed = Some x"
    if "validate_release lib r = Inr ()" "add_dependencies lib r (release_dependencies r) cs = Inr cs'" for cs'
    using 4(1) [OF that] 4(3) bt.ok_put [OF 4(4)] less by blast
  have t: "\<exists>x. try_releases fuel lib index policy selected cs name rs (Some e) f' = Some x"
    if "validate_release lib r = Inr ()" "add_dependencies lib r (release_dependencies r) cs = Inr cs'"
      "search fuel lib index policy (btree_insert name r selected) cs' failed = Some (Inl e, f')" "is_conflict e"
    for cs' e f'
    using 4(2) [OF that(1,2,3) refl refl that(4)] 4(3-7) by auto
  show ?case
    using s t by (auto split: sum.split option.split)
qed (simp_all add: Let_def)

text \<open>
  What the resolver relies on of an index: it returns releases of the asked name only, and it
  knows finitely many names. Both are promised by \<open>PackageIndex::releases\<close>, which returns a
  vector, and kept by the in-memory index.
\<close>

locale finite_index =
  fixes index :: "'v::linorder package_index"
  assumes finite_names: "finite {name. index name \<noteq> []}"
    and own_name: "r \<in> set (index name) \<Longrightarrow> release_name r = name"
begin

lemma resolve_returns:
  assumes "card {name. index name \<noteq> []} < fuel"
  shows "\<exists>r. resolve fuel lib deps index policy = Some r"
proof -
  have "open_names index [] < fuel" using assms by (simp add: open_names_def)
  then have "\<exists>x. search fuel lib index policy [] cs Map.empty = Some x" for cs
    using search_returns_finite(1) finite_names bt.ok_Nil by blast
  then show ?thesis
    by (auto simp: resolve_def split: sum.split option.split) (metis option.distinct(1))
qed

text \<open>The selection behind a successful resolution.\<close>

lemma resolve_selection:
  assumes "resolve fuel lib deps index policy = Some (Inr res)"
  obtains sel cs where "sound_state lib index policy sel cs" and "solved lib sel cs"
    and "\<forall>d \<in> set deps. recorded lib cs d"
    and "resolution_packages res = map (\<lambda>(_, r). locked_package sel r) sel"
    and "map locked_name (resolution_packages res) = map fst sel"
proof -
  obtain cs0 sel f where root: "root_constraints lib deps [] = Inr cs0"
    and s: "search fuel lib index policy [] cs0 Map.empty = Some (Inr sel, f)"
    and p: "resolution_packages res = map (\<lambda>(_, r). locked_package sel r) sel"
    using assms by (auto simp: resolve_def split: sum.splits option.splits)
  note r = root_constraints_result [OF root bt.ok_Nil]
  have "sound_state lib index policy [] cs0" using r bt.ok_Nil by (simp add: sound_state_def)
  then obtain cs where cs: "extends cs0 cs" "sound_state lib index policy sel cs" "solved lib sel cs"
    using search_sound(1) [OF s] by blast
  have "release_name r = name" if "(name, r) \<in> set sel" for name r
    using cs(2) that own_name by (force simp: sound_state_def sound_release_def)
  then have "map locked_name (resolution_packages res) = map fst sel"
    by (auto simp: p locked_package_def)
  then show ?thesis using that cs r recorded_extends p by blast
qed

lemma recorded_solved:
  assumes "recorded lib cs (name, t)" and "solved lib sel cs"
  shows "\<exists>r req. map_of sel name = Some r \<and> parse_requirement lib t = Inr req \<and>
    req_matches lib req (release_version r)"
proof -
  obtain active c where "map_of cs name = Some active" "c \<in> set active"
    "parse_requirement lib t = Inr (requirement c)"
    using assms(1) by (auto simp: recorded_def)
  then show ?thesis using assms(2) by (fastforce simp: solved_def satisfies_def list_all_iff)
qed

lemma locked_of:
  assumes "map_of sel name = Some r" and "sound_state lib index policy sel cs"
    and "resolution_packages res = map (\<lambda>(_, r). locked_package sel r) sel"
  shows "locked_package sel r \<in> set (resolution_packages res)"
    and "locked_name (locked_package sel r) = name"
    and "locked_version (locked_package sel r) = release_version r"
  using map_of_SomeD [OF assms(1)] assms(2,3) own_name
  by (force simp: locked_package_def sound_state_def sound_release_def)+

lemma resolve_satisfies:
  assumes "resolve fuel lib deps index policy = Some (Inr res)" and "(name, t) \<in> set deps"
  shows "\<exists>p \<in> set (resolution_packages res). \<exists>req. locked_name p = name \<and>
    parse_requirement lib t = Inr req \<and> req_matches lib req (locked_version p)"
proof -
  obtain sel cs where *: "sound_state lib index policy sel cs" "solved lib sel cs"
    "\<forall>d \<in> set deps. recorded lib cs d" "resolution_packages res = map (\<lambda>(_, r). locked_package sel r) sel"
    using resolve_selection [OF assms(1)] by blast
  then obtain r req where r: "map_of sel name = Some r" "parse_requirement lib t = Inr req"
    "req_matches lib req (release_version r)"
    using recorded_solved assms(2) by blast
  show ?thesis using locked_of [OF r(1) *(1,4)] r(2,3) by auto
qed

lemma resolve_closed:
  assumes "resolve fuel lib deps index policy = Some (Inr res)" and "p \<in> set (resolution_packages res)"
  shows "\<exists>r \<in> set (index (locked_name p)).
    release_version r = locked_version p \<and> release_checksum r = locked_checksum p \<and>
    validate_release lib r = Inr () \<and> (offline policy \<longrightarrow> available_offline r) \<and>
    (\<forall>(name, t) \<in> set (release_dependencies r).
       \<exists>q \<in> set (resolution_packages res). \<exists>req. locked_name q = name \<and>
         (name, locked_version q) \<in> set (locked_dependencies p) \<and>
         parse_requirement lib t = Inr req \<and> req_matches lib req (locked_version q))"
proof -
  obtain sel cs where *: "sound_state lib index policy sel cs" "solved lib sel cs"
    "resolution_packages res = map (\<lambda>(_, r). locked_package sel r) sel"
    using resolve_selection [OF assms(1)] by blast
  obtain name r where r: "(name, r) \<in> set sel" "p = locked_package sel r" using *(3) assms(2) by auto
  have sound: "sound_release lib index policy cs (name, r)" using * r by (auto simp: sound_state_def)
  have name: "locked_name p = name"
    using sound own_name by (auto simp: r(2) locked_package_def sound_release_def)
  have "\<exists>q \<in> set (resolution_packages res). \<exists>req. locked_name q = n \<and>
      (n, locked_version q) \<in> set (locked_dependencies p) \<and>
      parse_requirement lib t = Inr req \<and> req_matches lib req (locked_version q)"
    if d: "(n, t) \<in> set (release_dependencies r)" for n t
  proof -
    have "recorded lib cs (n, t)" using sound d by (auto simp: sound_release_def)
    then obtain r' req where r': "map_of sel n = Some r'" "parse_requirement lib t = Inr req"
      "req_matches lib req (release_version r')"
      using recorded_solved * by blast
    have "(n, release_version r') \<in> set (locked_dependencies p)"
      using d r'(1) by (force simp: r(2) locked_package_def map_filter_def)
    then show ?thesis using locked_of [OF r'(1) *(1,3)] r'(2,3) by auto
  qed
  then show ?thesis
    using sound name by (intro bexI [of _ r]) (auto simp: r(2) locked_package_def sound_release_def)
qed

lemma resolve_canonical:
  assumes "resolve fuel lib deps index policy = Some (Inr res)"
  shows "sorted_wrt (<) (map locked_name (resolution_packages res))"
  using resolve_selection [OF assms] unfolding sound_state_def btree_ok_def by metis

end

text \<open>Looking a name up in the grouped index gives the releases of that name, in order.\<close>

lemma new_index_of_fold:
  "btree_ok m \<Longrightarrow> btree_ok (fold (\<lambda>r. btree_push (release_name r) r) rels m) \<and>
     in_memory_index (fold (\<lambda>r. btree_push (release_name r) r) rels m) name =
       in_memory_index m name @ filter (\<lambda>r. release_name r = name) rels"
proof (induction rels arbitrary: m)
  case (Cons r rels)
  have "in_memory_index (btree_push (release_name r) r m) name =
      in_memory_index m name @ (if release_name r = name then [r] else [])"
    using Cons.prems by (auto simp: in_memory_index_def btree_push_lookup split: option.splits)
  then show ?case using Cons.IH [OF btree_push_ok [OF Cons.prems]] by simp
qed simp

lemma in_memory_index_filter:
  "in_memory_index (new_index_of rels) name = filter (\<lambda>r. release_name r = name) rels"
  using new_index_of_fold [OF bt.ok_Nil, of rels name]
  by (simp add: new_index_of_def in_memory_index_def)

lemma in_memory_names: "{name. in_memory_index (new_index_of rels) name \<noteq> []} = release_name ` set rels"
  by (auto simp: in_memory_index_filter filter_empty_conv)

interpretation in_memory: finite_index "in_memory_index (new_index_of rels)"
  for rels :: "'v::linorder PackageRelease list"
  by unfold_locales (simp_all add: in_memory_names, auto simp: in_memory_index_filter)

lemma validate_release_ok:
  "validate_release lib r = Inr () \<longleftrightarrow>
     sha256_hex lib (release_content r) = release_checksum r \<and> (\<forall>p \<in> set (archive_paths r). safe_path p)"
  by (auto simp: validate_release_def Let_def find_None_iff find_Some_iff split: option.splits if_splits)

section \<open>Conflicts are genuine\<close>

definition meets :: "('v, 'r) package_lib \<Rightarrow> string \<Rightarrow> 'v PackageRelease \<Rightarrow> bool" where
  "meets lib t r = (\<exists>req. parse_requirement lib t = Inr req \<and> req_matches lib req (release_version r))"

text \<open>
  The specification of package resolution: a choice of at most one release per name, from the
  index, not withdrawn and available, that meets the root requirements and those of every chosen
  release.
\<close>

definition solution ::
  "('v, 'r) package_lib \<Rightarrow> (string \<times> string) set \<Rightarrow> 'v package_index \<Rightarrow> ResolvePolicy
     \<Rightarrow> (string \<rightharpoonup> 'v PackageRelease) \<Rightarrow> bool" where
  "solution lib deps index policy sel \<longleftrightarrow>
     (\<forall>(name, t) \<in> deps. \<exists>r. sel name = Some r \<and> meets lib t r) \<and>
     (\<forall>name r. sel name = Some r \<longrightarrow>
        r \<in> set (index name) \<and> \<not> yanked r \<and> (offline policy \<longrightarrow> available_offline r) \<and>
        (\<forall>(n, t) \<in> set (release_dependencies r). \<exists>r'. sel n = Some r' \<and> meets lib t r'))"

text \<open>A choice agrees with a search state when it contains its selection and meets its constraints.\<close>

definition agrees :: "('v, 'r) package_lib \<Rightarrow> (string \<rightharpoonup> 'v PackageRelease) \<Rightarrow> 'v SearchState \<Rightarrow> bool" where
  "agrees lib sel st \<longleftrightarrow>
     (\<forall>(name, v, ck) \<in> set (state_selected st). \<exists>r. sel name = Some r \<and> release_version r = v) \<and>
     (\<forall>(name, reqs) \<in> set (state_constraints st). \<exists>r. sel name = Some r \<and>
        (\<forall>(t, _) \<in> set reqs. meets lib t r))"

definition parsed :: "('v, 'r) package_lib \<Rightarrow> 'r constraints \<Rightarrow> bool" where
  "parsed lib cs \<longleftrightarrow> (\<forall>(name, active) \<in> set cs. \<forall>c \<in> set active.
     parse_requirement lib (constraint_text c) = Inr (requirement c))"

definition memo_ok ::
  "('v, 'r) package_lib \<Rightarrow> (string \<times> string) set \<Rightarrow> 'v package_index \<Rightarrow> ResolvePolicy \<Rightarrow> 'v failures \<Rightarrow> bool" where
  "memo_ok lib deps index policy failed \<longleftrightarrow>
     (\<forall>st e sel. failed st = Some e \<longrightarrow> solution lib deps index policy sel \<longrightarrow> \<not> agrees lib sel st)"

lemma agrees_iff:
  "agrees lib sel (state_fingerprint selected cs) \<longleftrightarrow>
     (\<forall>(name, r) \<in> set selected. \<exists>r'. sel name = Some r' \<and> release_version r' = release_version r) \<and>
     (\<forall>(name, active) \<in> set cs. \<exists>r. sel name = Some r \<and>
        (\<forall>c \<in> set active. meets lib (constraint_text c) r))"
  by (fastforce simp: agrees_def state_fingerprint_def)

lemma agrees_satisfies:
  assumes "agrees lib sel (state_fingerprint selected cs)" and "parsed lib cs" and "(name, active) \<in> set cs"
  shows "\<exists>r. sel name = Some r \<and> satisfies lib active (release_version r)"
  using assms by (fastforce simp: agrees_iff parsed_def satisfies_def list_all_iff meets_def)

lemma agrees_not_violated:
  assumes "agrees lib sel (state_fingerprint selected cs)" and "parsed lib cs"
  shows "violated lib selected cs = None"
proof -
  have "satisfies lib active (release_version r)"
    if r: "(name, r) \<in> set selected" and m: "map_of cs name = Some active" for name r active
  proof -
    obtain r1 where "sel name = Some r1" "satisfies lib active (release_version r1)"
      using agrees_satisfies [OF assms map_of_SomeD [OF m]] by blast
    moreover obtain r2 where "sel name = Some r2" "release_version r2 = release_version r"
      using assms(1) r by (fastforce simp: agrees_iff)
    ultimately show ?thesis by simp
  qed
  then show ?thesis
    by (auto simp: violated_def split: option.splits dest!: find_SomeD)
qed

lemma add_constraint_agrees:
  assumes "add_constraint lib cs package t from = Inr cs'" and "btree_ok cs" and "parsed lib cs"
  shows "parsed lib cs'" and "agrees lib sel (state_fingerprint selected cs) \<Longrightarrow>
      sel package = Some r \<Longrightarrow> meets lib t r \<Longrightarrow> agrees lib sel (state_fingerprint selected cs')"
proof -
  obtain req where req: "parse_requirement lib t = Inr req"
    and cs': "cs' = btree_push package \<lparr>requirement = req, constraint_text = t, origin = from,
      exact = starts_exact t\<rparr> cs"
    using assms(1) by (auto simp: add_constraint_def split: sum.splits)
  let ?c = "\<lparr>requirement = req, constraint_text = t, origin = from, exact = starts_exact t\<rparr>"
  have in': "\<exists>old. active = old @ [?c] \<and> (old = [] \<or> (package, old) \<in> set cs)"
    if "(package, active) \<in> set cs'" for active
    using that bt.in_put [OF assms(2)]
    by (auto simp: cs' btree_push_def split: option.splits dest: map_of_SomeD)
  have other: "(name, active) \<in> set cs" if "(name, active) \<in> set cs'" "name \<noteq> package" for name active
    using that bt.in_put [OF assms(2)] by (auto simp: cs' btree_push_def)
  have "parse_requirement lib (constraint_text c) = Inr (requirement c)"
    if "(name, active) \<in> set cs'" "c \<in> set active" for name active c
    using that in' other assms(3) req unfolding parsed_def
    by (cases "name = package") fastforce+
  then show "parsed lib cs'" by (auto simp: parsed_def)
  assume ag: "agrees lib sel (state_fingerprint selected cs)" and r: "sel package = Some r" "meets lib t r"
  have "\<exists>r. sel name = Some r \<and> (\<forall>c \<in> set active. meets lib (constraint_text c) r)"
    if a: "(name, active) \<in> set cs'" for name active
  proof (cases "name = package")
    case True
    then obtain old where old: "active = old @ [?c]" "old = [] \<or> (package, old) \<in> set cs"
      using in' a by blast
    then have "\<forall>c \<in> set old. meets lib (constraint_text c) r"
      using ag r by (fastforce simp: agrees_iff)
    then show ?thesis using True r old by auto
  next
    case False
    then show ?thesis using ag other [OF a] by (fastforce simp: agrees_iff)
  qed
  then show "agrees lib sel (state_fingerprint selected cs')"
    using ag by (auto simp: agrees_iff)
qed

lemma add_dependencies_agrees:
  assumes "add_dependencies lib r deps cs = Inr cs'" and "btree_ok cs" and "parsed lib cs"
  shows "parsed lib cs' \<and> (agrees lib sel (state_fingerprint selected cs) \<longrightarrow>
      (\<forall>(n, t) \<in> set deps. \<exists>r'. sel n = Some r' \<and> meets lib t r') \<longrightarrow>
      agrees lib sel (state_fingerprint selected cs'))"
  using assms
proof (induction lib r deps cs rule: add_dependencies.induct)
  case (2 lib r dependency t deps cs)
  then obtain cs1 where c1: "add_constraint lib cs dependency t
      (release_name r @ '' '' @ show_version lib (release_version r) @ '' requires '' @
       dependency @ '' '' @ t) = Inr cs1" and c2: "add_dependencies lib r deps cs1 = Inr cs'"
    by auto
  note r1 = add_constraint_result [OF c1 2(3)]
  note a1 = add_constraint_agrees [OF c1 2(3,4)]
  show ?case using 2(1) [OF c1 c2 conjunct1 [OF r1] a1(1)] a1(2) by fastforce
qed simp

lemma root_constraints_agrees:
  assumes "root_constraints lib deps cs = Inr cs'" and "btree_ok cs" and "parsed lib cs"
  shows "parsed lib cs' \<and> (agrees lib sel (state_fingerprint selected cs) \<longrightarrow>
      (\<forall>(n, t) \<in> set deps. \<exists>r'. sel n = Some r' \<and> meets lib t r') \<longrightarrow>
      agrees lib sel (state_fingerprint selected cs'))"
  using assms
proof (induction lib deps cs rule: root_constraints.induct)
  case (2 lib name t deps cs)
  then obtain cs1 where c1: "add_constraint lib cs name t (''root requires '' @ name @ '' '' @ t) = Inr cs1"
    and c2: "root_constraints lib deps cs1 = Inr cs'"
    by auto
  note r1 = add_constraint_result [OF c1 2(3)]
  note a1 = add_constraint_agrees [OF c1 2(3,4)]
  show ?case using 2(1) [OF c1 c2 conjunct1 [OF r1] a1(1)] a1(2) by fastforce
qed simp

text \<open>The release a solution chooses for the next package is among the candidates.\<close>

lemma solution_candidate:
  assumes "solution lib deps index policy sel" and "agrees lib sel (state_fingerprint selected cs)"
    and "parsed lib cs" and "(name, active) \<in> set cs"
  obtains r where "sel name = Some r"
    and "\<And>rs. candidates lib index policy name active = Inr rs \<Longrightarrow> r \<in> set rs"
    and "\<And>e. candidates lib index policy name active = Inl e \<Longrightarrow> \<not> is_conflict e"
proof -
  obtain r where r: "sel name = Some r" "satisfies lib active (release_version r)"
    using agrees_satisfies [OF assms(2-4)] by blast
  then have i: "r \<in> set (index name)" "\<not> yanked r" "offline policy \<longrightarrow> available_offline r"
    using assms(1) by (auto simp: solution_def)
  have "r \<in> set rs" if "candidates lib index policy name active = Inr rs" for rs
    using that r i by (auto simp: candidates_def Let_def admissible_def split: if_splits)
  moreover have "\<not> is_conflict e" if c: "candidates lib index policy name active = Inl e" for e
  proof -
    have amb: "\<not> is_conflict e" if "reject_ambiguous name rs = Inl e" for rs
      using that by (induction name rs rule: reject_ambiguous.induct) (auto split: if_splits)
    have "r \<in> set (filter available_offline (filter (admissible lib active) (sort_releases (index name))))"
      if "offline policy" using that r i by (simp add: admissible_def)
    moreover have "r \<in> set (filter (admissible lib active) (sort_releases (index name)))"
      using r i by (simp add: admissible_def)
    ultimately show ?thesis
      using c amb by (auto simp: candidates_def Let_def bindR_Inl_iff filter_empty_conv split: if_splits)
  qed
  ultimately show ?thesis using that r(1) by blast
qed

lemma solution_extends:
  assumes "solution lib deps index policy sel" and "agrees lib sel (state_fingerprint selected cs)"
    and "sel name = Some r" and "add_dependencies lib r (release_dependencies r) cs = Inr cs'"
    and "btree_ok cs" and "parsed lib cs" and "btree_ok selected"
  shows "agrees lib sel (state_fingerprint (btree_insert name r selected) cs')"
proof -
  have "\<forall>(n, t) \<in> set (release_dependencies r). \<exists>r'. sel n = Some r' \<and> meets lib t r'"
    using assms(1,3) by (auto simp: solution_def)
  then have "agrees lib sel (state_fingerprint selected cs')"
    using add_dependencies_agrees [OF assms(4-6)] assms(2) by blast
  then show ?thesis
    using assms(3) bt.in_put [OF assms(7)] by (auto simp: agrees_iff)
qed

definition hopeless ::
  "('v, 'r) package_lib \<Rightarrow> (string \<times> string) set \<Rightarrow> 'v package_index \<Rightarrow> ResolvePolicy
     \<Rightarrow> 'v SearchState \<Rightarrow> bool" where
  "hopeless lib deps index policy st \<longleftrightarrow>
     (\<forall>sel. solution lib deps index policy sel \<longrightarrow> \<not> agrees lib sel st)"

lemma memo_ok_insert:
  "memo_ok lib deps index policy failed \<Longrightarrow> hopeless lib deps index policy st \<Longrightarrow>
     memo_ok lib deps index policy (failed(st \<mapsto> e))"
  by (auto simp: memo_ok_def hopeless_def)

lemma validate_release_no_conflict: "validate_release lib r = Inl e \<Longrightarrow> \<not> is_conflict e"
  by (auto simp: validate_release_def Let_def split: if_splits option.splits)

lemma add_dependencies_no_conflict: "add_dependencies lib r deps cs = Inl e \<Longrightarrow> \<not> is_conflict e"
  by (induction lib r deps cs rule: add_dependencies.induct)
     (auto simp: add_constraint_def bindR_Inl_iff split: sum.splits)

lemma search_conflict:
  shows "search fuel lib index policy selected cs failed = Some (Inl e, failed') \<Longrightarrow>
      btree_ok selected \<Longrightarrow> btree_ok cs \<Longrightarrow> parsed lib cs \<Longrightarrow> memo_ok lib deps index policy failed \<Longrightarrow>
      memo_ok lib deps index policy failed' \<and>
      (is_conflict e \<longrightarrow> hopeless lib deps index policy (state_fingerprint selected cs))"
    and "try_releases fuel lib index policy selected cs name rs lc failed = Some (Inl e, failed') \<Longrightarrow>
      btree_ok selected \<Longrightarrow> btree_ok cs \<Longrightarrow> parsed lib cs \<Longrightarrow> memo_ok lib deps index policy failed \<Longrightarrow>
      \<forall>sel. solution lib deps index policy sel \<longrightarrow> agrees lib sel (state_fingerprint selected cs) \<longrightarrow>
        (\<exists>r \<in> set rs. sel name = Some r) \<Longrightarrow>
      memo_ok lib deps index policy failed' \<and>
      (is_conflict e \<longrightarrow> hopeless lib deps index policy (state_fingerprint selected cs))"
proof (induction fuel lib index policy selected cs failed
    and fuel lib index policy selected cs name rs lc failed
    arbitrary: e failed' and e failed' rule: search_try_releases.induct)
  case (2 fuel lib index policy selected cs failed)
  let ?st = "state_fingerprint selected cs"
  show ?case
  proof (cases "failed ?st")
    case (Some e')
    then have "hopeless lib deps index policy ?st" using 2(6) by (auto simp: memo_ok_def hopeless_def)
    then show ?thesis using 2(2,6) Some by (auto simp: Let_def)
  next
    case None
    note f = this
    show ?thesis
    proof (cases "violated lib selected cs")
      case (Some entry)
      then have "hopeless lib deps index policy ?st"
        using agrees_not_violated [OF _ 2(5)] by (auto simp: hopeless_def)
      then show ?thesis using 2(2,6) f Some memo_ok_insert by (auto simp: Let_def split: prod.splits)
    next
      case None
      note v = this
      show ?thesis
      proof (cases "next_package lib index policy selected cs")
        case (Some entry)
        obtain name active where e: "entry = (name, active)" by fastforce
        have m: "(name, active) \<in> set cs" using next_package_Some Some e by fast
        note cand = solution_candidate [OF _ _ 2(5) m, where index = index and policy = policy]
        show ?thesis
        proof (cases "candidates lib index policy name active")
          case (Inl e')
          then have "e' = e" "failed' = failed" using 2(2) f v Some e by (auto simp: Let_def)
          moreover have "is_conflict e' \<longrightarrow> hopeless lib deps index policy ?st"
            unfolding hopeless_def using cand Inl by metis
          ultimately show ?thesis using 2(6) by simp
        next
          case (Inr rs)
          have "\<forall>sel. solution lib deps index policy sel \<longrightarrow> agrees lib sel ?st \<longrightarrow>
              (\<exists>r \<in> set rs. sel name = Some r)"
            using cand Inr by metis
          moreover have "try_releases fuel lib index policy selected cs name rs None failed = Some (Inl e, failed')"
            using 2(2) f v Some e Inr by (simp add: Let_def)
          ultimately show ?thesis
            using 2(1) [OF refl f v Some e [symmetric] Inr _ 2(3-6)] by blast
        qed
      qed (use 2(2) f v in \<open>simp add: Let_def\<close>)
    qed
  qed
next
  case (3 fuel lib index policy selected cs name lc failed)
  then have "hopeless lib deps index policy (state_fingerprint selected cs)" by (auto simp: hopeless_def)
  then show ?case using 3 memo_ok_insert by (auto simp: Let_def)
next
  case (4 fuel lib index policy selected cs name r rs lc failed)
  show ?case
  proof (cases "validate_release lib r")
    case (Inl e')
    then show ?thesis using 4(3,7) validate_release_no_conflict by auto
  next
    case (Inr u)
    then have v: "validate_release lib r = Inr ()" by simp
    show ?thesis
    proof (cases "add_dependencies lib r (release_dependencies r) cs")
      case (Inl e')
      then show ?thesis using 4(3,7) v add_dependencies_no_conflict [OF Inl] by auto
    next
      case (Inr cs1)
      note d = this
      have ok1: "btree_ok (btree_insert name r selected)" "btree_ok cs1" "parsed lib cs1"
        using bt.ok_put [OF 4(4)] add_dependencies_result [OF d 4(5)] add_dependencies_agrees [OF d 4(5,6)]
        by auto
      obtain e1 f1 where s: "search fuel lib index policy (btree_insert name r selected) cs1 failed = Some (Inl e1, f1)"
        using 4(3) v d by (auto split: option.splits sum.splits)
      note ih = 4(1) [OF v d s ok1 4(7)]
      show ?thesis
      proof (cases "is_conflict e1")
        case True
        then have "\<forall>sel. solution lib deps index policy sel \<longrightarrow> agrees lib sel (state_fingerprint selected cs) \<longrightarrow>
            (\<exists>r \<in> set rs. sel name = Some r)"
          using ih 4(8) solution_extends [OF _ _ _ d 4(5,6,4)] unfolding hopeless_def
          by (metis set_ConsD)
        moreover have "try_releases fuel lib index policy selected cs name rs (Some e1) f1 = Some (Inl e, failed')"
          using 4(3) v d s True by simp
        ultimately show ?thesis
          using 4(2) [OF v d s refl refl True _ 4(4-6)] ih by blast
      next
        case False
        then show ?thesis using 4(3) v d s ih by auto
      qed
    qed
  qed
qed simp

text \<open>More fuel does not change a result.\<close>

lemma search_more_fuel:
  shows "search fuel lib index policy selected cs failed = Some x \<Longrightarrow>
      search (Suc fuel) lib index policy selected cs failed = Some x"
    and "try_releases fuel lib index policy selected cs name rs lc failed = Some x \<Longrightarrow>
      try_releases (Suc fuel) lib index policy selected cs name rs lc failed = Some x"
proof (induction fuel lib index policy selected cs failed
    and fuel lib index policy selected cs name rs lc failed
    arbitrary: x and x rule: search_try_releases.induct)
  case (2 fuel lib index policy selected cs failed)
  then show ?case
    by (cases x, simp only: search.simps Let_def split: option.splits prod.splits sum.splits) auto
next
  case (4 fuel lib index policy selected cs name r rs lc failed)
  have s: "search (Suc fuel) lib index policy (btree_insert name r selected) cs1 failed = Some y"
    if "validate_release lib r = Inr ()" "add_dependencies lib r (release_dependencies r) cs = Inr cs1"
      "search fuel lib index policy (btree_insert name r selected) cs1 failed = Some y" for cs1 y
    using 4(1) that by blast
  show ?case
    using 4(3) s 4(2)
    by (cases x) (auto simp del: search.simps split: sum.splits option.splits if_splits)
qed (simp_all add: Let_def)

lemma search_fuel_mono:
  assumes "search fuel lib index policy selected cs failed = Some x" and "fuel \<le> fuel'"
  shows "search fuel' lib index policy selected cs failed = Some x"
  using assms(2,1)
  by (induction fuel' rule: dec_induct) (auto simp del: search.simps intro: search_more_fuel(1))

lemma resolve_fuel_mono:
  "resolve fuel lib deps index policy = Some x \<Longrightarrow> fuel \<le> fuel' \<Longrightarrow>
     resolve fuel' lib deps index policy = Some x"
  unfolding resolve_def by (auto dest: search_fuel_mono split: sum.splits option.splits)

definition example_lib :: "(nat, nat) package_lib" where
  "example_lib =
     \<lparr>parse_requirement = (\<lambda>t. Inr (length t)), req_matches = (\<lambda>r v. r \<le> v),
      show_version = (\<lambda>v. replicate v CHR ''I''), sha256_hex = (\<lambda>c. ''00'')\<rparr>"

definition example_release :: "string \<Rightarrow> nat \<Rightarrow> (string, string) btree \<Rightarrow> nat PackageRelease" where
  "example_release name v deps =
     \<lparr>release_name = name, release_version = v, release_dependencies = deps, release_checksum = ''00'',
      release_content = [1, 2], yanked = False, available_offline = True, archive_paths = [''src/lib'']\<rparr>"

definition example_releases :: "nat PackageRelease list" where
  "example_releases = [example_release ''a'' 1 [(''b'', ''I'')], example_release ''b'' 2 []]"

lemma example_resolve:
  "resolve 3 example_lib [(''a'', ''I'')] (in_memory_index (new_index_of example_releases)) \<lparr>offline = True\<rparr> =
     Some (Inr \<lparr>resolution_format = 1, resolution_packages =
       [\<lparr>locked_name = ''a'', locked_version = 1, locked_checksum = ''00'',
         locked_dependencies = [(''b'', 2)]\<rparr>,
        \<lparr>locked_name = ''b'', locked_version = 2, locked_checksum = ''00'', locked_dependencies = []\<rparr>]\<rparr>)"
  by code_simp

lemma example_conflict:
  "resolve 3 example_lib [(''b'', ''III'')] (in_memory_index (new_index_of example_releases)) \<lparr>offline = True\<rparr> =
     Some (Inl (Conflict ''b'' [''root requires b III (III)'']))"
  by code_simp

section \<open>Properties\<close>

text \<open>
  C11. A successful resolution is sound. Every root requirement is met by a package of the lockfile.
  Every package of the lockfile is a release of the index with the recorded checksum, which is the
  digest of its content, with safe archive paths only, available when offline, and every dependency
  of the release is met by a package of the lockfile whose exact version is recorded. The packages
  are listed in strictly increasing order of their names.
\<close>

theorem resolution_sound:
  assumes "resolve fuel lib deps (in_memory_index (new_index_of rels)) policy = Some (Inr res)"
  shows "(\<forall>(name, t) \<in> set deps. \<exists>p \<in> set (resolution_packages res). \<exists>req. locked_name p = name \<and>
      parse_requirement lib t = Inr req \<and> req_matches lib req (locked_version p)) \<and>
    (\<forall>p \<in> set (resolution_packages res). \<exists>r \<in> set rels.
      release_name r = locked_name p \<and> release_version r = locked_version p \<and>
      sha256_hex lib (release_content r) = locked_checksum p \<and>
      (\<forall>path \<in> set (archive_paths r). safe_path path) \<and> (offline policy \<longrightarrow> available_offline r) \<and>
      (\<forall>(name, t) \<in> set (release_dependencies r).
         \<exists>q \<in> set (resolution_packages res). \<exists>req. locked_name q = name \<and>
           (name, locked_version q) \<in> set (locked_dependencies p) \<and>
           parse_requirement lib t = Inr req \<and> req_matches lib req (locked_version q))) \<and>
    sorted_wrt (<) (map locked_name (resolution_packages res))"
proof (intro conjI ballI)
  show "case d of (name, t) \<Rightarrow> \<exists>p \<in> set (resolution_packages res). \<exists>req. locked_name p = name \<and>
      parse_requirement lib t = Inr req \<and> req_matches lib req (locked_version p)" if "d \<in> set deps" for d
    using in_memory.resolve_satisfies [OF assms] that by (cases d) auto
  show "sorted_wrt (<) (map locked_name (resolution_packages res))"
    by (rule in_memory.resolve_canonical [OF assms])
  fix p
  assume "p \<in> set (resolution_packages res)"
  from in_memory.resolve_closed [OF assms this]
  show "\<exists>r \<in> set rels.
      release_name r = locked_name p \<and> release_version r = locked_version p \<and>
      sha256_hex lib (release_content r) = locked_checksum p \<and>
      (\<forall>path \<in> set (archive_paths r). safe_path path) \<and> (offline policy \<longrightarrow> available_offline r) \<and>
      (\<forall>(name, t) \<in> set (release_dependencies r).
         \<exists>q \<in> set (resolution_packages res). \<exists>req. locked_name q = name \<and>
           (name, locked_version q) \<in> set (locked_dependencies p) \<and>
           parse_requirement lib t = Inr req \<and> req_matches lib req (locked_version q))"
    by (auto simp: in_memory_index_filter validate_release_ok)
qed

theorem resolution_sound_witness:
  "\<exists>res. resolve 3 example_lib [(''a'', ''I'')] (in_memory_index (new_index_of example_releases))
      \<lparr>offline = True\<rparr> = Some (Inr res) \<and> (\<exists>p \<in> set (resolution_packages res). locked_name p = ''a'') \<and>
      sorted_wrt (<) (map locked_name (resolution_packages res))"
  using resolution_sound [OF example_resolve] example_resolve by auto

text \<open>
  C12. A reported conflict is genuine: when the resolver answers with a conflict, no choice of
  releases that are not withdrawn meets the root requirements and the requirements of the chosen
  releases, for any index whatsoever. The search skips states it has failed in before, and never
  loses a solution by that.
\<close>

theorem resolution_conflict_genuine:
  assumes "resolve fuel lib deps index policy = Some (Inl (Conflict package requirements))"
  shows "\<not> (\<exists>sel. solution lib (set deps) index policy sel)"
proof
  assume "\<exists>sel. solution lib (set deps) index policy sel"
  then obtain sel where sel: "solution lib (set deps) index policy sel" ..
  have no_root: "root_constraints lib ds cs = Inl e \<Longrightarrow> \<not> is_conflict e" for ds cs e
    by (induction lib ds cs rule: root_constraints.induct)
       (auto simp: add_constraint_def bindR_Inl_iff split: sum.splits)
  obtain cs f where root: "root_constraints lib deps [] = Inr cs"
    and s: "search fuel lib index policy [] cs Map.empty = Some (Inl (Conflict package requirements), f)"
    using assms no_root by (fastforce simp: resolve_def split: sum.splits option.splits)
  have p: "parsed lib []" by (simp add: parsed_def)
  have "agrees lib sel (state_fingerprint [] [])" by (simp add: agrees_iff)
  then have "parsed lib cs" "agrees lib sel (state_fingerprint [] cs)"
    using root_constraints_agrees [OF root bt.ok_Nil p] sel by (auto simp: solution_def)
  moreover have "memo_ok lib (set deps) index policy Map.empty" by (simp add: memo_ok_def)
  ultimately show False
    using search_conflict(1) [OF s bt.ok_Nil] root_constraints_result [OF root bt.ok_Nil] sel
    unfolding hopeless_def by fastforce
qed

theorem resolution_conflict_genuine_witness:
  "\<not> (\<exists>sel. solution example_lib (set [(''b'', ''III'')])
       (in_memory_index (new_index_of example_releases)) \<lparr>offline = True\<rparr> sel)"
  by (rule resolution_conflict_genuine [OF example_conflict])

text \<open>
  C31. Resolution against an index of finitely many releases ends: one result is reported with
  every amount of fuel above the number of releases.
\<close>

theorem resolution_terminates:
  "\<exists>r. \<forall>fuel > length rels. resolve fuel lib deps (in_memory_index (new_index_of rels)) policy = Some r"
proof -
  have "card {name. in_memory_index (new_index_of rels) name \<noteq> []} \<le> length rels"
    unfolding in_memory_names by (metis card_image_le card_length finite_set le_trans)
  then obtain r where "resolve (Suc (length rels)) lib deps (in_memory_index (new_index_of rels)) policy = Some r"
    using in_memory.resolve_returns [of rels "Suc (length rels)"] by (metis le_imp_less_Suc)
  then have "\<forall>fuel > length rels. resolve fuel lib deps (in_memory_index (new_index_of rels)) policy = Some r"
    using resolve_fuel_mono by (metis Suc_leI)
  then show ?thesis ..
qed

theorem resolution_terminates_witness:
  "\<exists>r. resolve 3 example_lib [(''a'', ''I'')] (in_memory_index (new_index_of example_releases))
      \<lparr>offline = True\<rparr> = Some r"
  using resolution_terminates [of example_releases example_lib "[(''a'', ''I'')]" "\<lparr>offline = True\<rparr>"]
  by (force simp: example_releases_def)

end
