(* ===== verification/Pipeline.thy ===== *)
theory Pipeline
  imports Syllog_Prelude "HOL-Library.Sublist" "HOL-Library.Multiset"
begin

text \<open>
  Structured pipeline execution, \<open>crates/syllog-runtime/src/pipeline.rs\<close>. The asynchronous code is
  a transition function: a state is a point between two awaits, an input is what the scheduler,
  the clock or the caller does next. A stage operation is caller code: a relation between its
  input and its possible results. Times are natural numbers of nanoseconds; counters are words.
\<close>

section \<open>Policies, stages and plans\<close>

record RetryPolicy =
  max_attempts :: u32
  backoff :: nat

definition default_retry :: RetryPolicy where
  "default_retry = \<lparr>max_attempts = 1, backoff = 0\<rparr>"

record CircuitPolicy =
  failure_threshold :: u32
  reset_after :: nat

datatype JoinPolicy = PreserveInputOrder | CompletionOrder

datatype StageErrorKind = KRetryable | KFatal | KCancelled | KDeadline | KCircuitOpen | KJoin

datatype StageError =
    Retryable string
  | Fatal string
  | StageCancelled
  | Deadline string
  | CircuitOpen string
  | Join

fun error_kind :: "StageError \<Rightarrow> StageErrorKind" where
  "error_kind (Retryable _) = KRetryable"
| "error_kind (Fatal _) = KFatal"
| "error_kind StageCancelled = KCancelled"
| "error_kind (Deadline _) = KDeadline"
| "error_kind (CircuitOpen _) = KCircuitOpen"
| "error_kind Join = KJoin"

type_synonym operation = "string \<Rightarrow> StageError + string \<Rightarrow> bool"

record Stage =
  stage_name :: string
  stage_operation :: operation
  stage_retry :: RetryPolicy
  stage_deadline :: "nat option"
  stage_circuit :: "CircuitPolicy option"

definition new_stage :: "string \<Rightarrow> operation \<Rightarrow> Stage" where
  "new_stage name op =
     \<lparr>stage_name = name, stage_operation = op, stage_retry = default_retry, stage_deadline = None,
      stage_circuit = None\<rparr>"

definition with_retry :: "RetryPolicy \<Rightarrow> Stage \<Rightarrow> Stage" where
  "with_retry policy s =
     s\<lparr>stage_retry := \<lparr>max_attempts = max (max_attempts policy) 1, backoff = backoff policy\<rparr>\<rparr>"

definition with_deadline :: "nat \<Rightarrow> Stage \<Rightarrow> Stage" where
  "with_deadline d s = s\<lparr>stage_deadline := Some d\<rparr>"

definition with_circuit :: "CircuitPolicy \<Rightarrow> Stage \<Rightarrow> Stage" where
  "with_circuit policy s =
     s\<lparr>stage_circuit := Some \<lparr>failure_threshold = max (failure_threshold policy) 1,
                             reset_after = reset_after policy\<rparr>\<rparr>"

text \<open>The stages the constructors build.\<close>

inductive built_stage :: "Stage \<Rightarrow> bool" where
  "built_stage (new_stage name op)"
| "built_stage s \<Longrightarrow> built_stage (with_retry policy s)"
| "built_stage s \<Longrightarrow> built_stage (with_deadline d s)"
| "built_stage s \<Longrightarrow> built_stage (with_circuit circuit s)"

datatype PipelineGroup = Serial "Stage list" | FanOut "Stage list" JoinPolicy

type_synonym PipelinePlan = "PipelineGroup list"

definition serial_plan :: "Stage list \<Rightarrow> PipelinePlan" where
  "serial_plan stages = [Serial stages]"

definition fan_out_plan :: "Stage list \<Rightarrow> JoinPolicy \<Rightarrow> PipelinePlan" where
  "fan_out_plan stages join = [FanOut stages join]"

section \<open>Lifecycle log\<close>

datatype PipelineEvent =
    EvStarted
  | StageAttempt string u32
  | StageSucceeded string
  | StageFailed string StageErrorKind
  | FanOutStarted nat
  | Joined nat
  | EvCancelled
  | CancellationGraceElapsed u64
  | TaskDetached
  | EvCompleted

record LifecycleLog =
  capacity :: nat
  log_events :: "PipelineEvent list"

definition new_log :: "nat \<Rightarrow> LifecycleLog" where
  "new_log n = \<lparr>capacity = n, log_events = []\<rparr>"

definition log_push :: "PipelineEvent \<Rightarrow> LifecycleLog \<Rightarrow> LifecycleLog" where
  "log_push e l =
     (let events = (if length (log_events l) = capacity l then drop 1 (log_events l) else log_events l)
      in l\<lparr>log_events := events @ [e]\<rparr>)"

definition log_extend :: "PipelineEvent list \<Rightarrow> LifecycleLog \<Rightarrow> LifecycleLog" where
  "log_extend incoming l = fold log_push incoming l"

definition log_cancelled :: "LifecycleLog \<Rightarrow> LifecycleLog" where
  "log_cancelled l = (if EvCancelled \<in> set (log_events l) then l else log_push EvCancelled l)"

section \<open>Circuit breakers\<close>

record CircuitState =
  failures :: u32
  opened_at :: "nat option"

type_synonym circuits = "string \<rightharpoonup> CircuitState"

definition closed_circuit :: CircuitState where
  "closed_circuit = \<lparr>failures = 0, opened_at = None\<rparr>"

definition circuit_entry :: "string \<Rightarrow> circuits \<Rightarrow> CircuitState" where
  "circuit_entry name cs = (case cs name of None \<Rightarrow> closed_circuit | Some c \<Rightarrow> c)"

definition check_circuit :: "Stage \<Rightarrow> nat \<Rightarrow> circuits \<Rightarrow> (StageError + unit) \<times> circuits" where
  "check_circuit s now cs =
     (case stage_circuit s of
        None \<Rightarrow> (Inr (), cs)
      | Some policy \<Rightarrow>
          (let name = stage_name s; c = circuit_entry name cs; cs' = cs(name \<mapsto> c) in
           case opened_at c of
             None \<Rightarrow> (Inr (), cs')
           | Some t \<Rightarrow>
               if now - t < reset_after policy then (Inl (CircuitOpen name), cs')
               else (Inr (), cs'(name \<mapsto> closed_circuit))))"

definition record_circuit_success :: "Stage \<Rightarrow> circuits \<Rightarrow> circuits" where
  "record_circuit_success s cs =
     (if stage_circuit s = None then cs
      else case cs (stage_name s) of None \<Rightarrow> cs | Some _ \<Rightarrow> cs(stage_name s \<mapsto> closed_circuit))"

definition record_circuit_failure :: "Stage \<Rightarrow> nat \<Rightarrow> circuits \<Rightarrow> circuits" where
  "record_circuit_failure s now cs =
     (case stage_circuit s of
        None \<Rightarrow> cs
      | Some policy \<Rightarrow>
          (let c = circuit_entry (stage_name s) cs; n = saturating_add (failures c) 1 in
           cs(stage_name s \<mapsto>
             \<lparr>failures = n,
              opened_at = (if failure_threshold policy \<le> n then Some now else opened_at c)\<rparr>)))"

section \<open>One stage\<close>

text \<open>
  \<open>run_stage\<close> and \<open>run_stage_attempts\<close>, cut at their awaits: before the first step, at the head of
  the attempt loop, in the operation, in the back-off sleep, and ended.
\<close>

datatype Phase =
    Ready
  | LoopHead u32
  | InCall u32
  | Backoff u32 nat
  | Ended "StageError + string"

record StageRun =
  run_of :: Stage
  run_input :: string
  run_phase :: Phase
  run_deadline :: "nat option"

record Shared =
  now :: nat
  cancelled :: bool
  circuit_table :: circuits

definition new_run :: "Stage \<Rightarrow> string \<Rightarrow> StageRun" where
  "new_run s input = \<lparr>run_of = s, run_input = input, run_phase = Ready, run_deadline = None\<rparr>"

datatype StageInput = Poll | OperationDone "StageError + string" | DeadlineElapsed

type_synonym stage_state = "StageRun \<times> Shared \<times> LifecycleLog"

text \<open>The end of \<open>run_stage\<close>, after the operation returned without the deadline elapsing.\<close>

definition finish_stage :: "StageError + string \<Rightarrow> stage_state \<Rightarrow> stage_state" where
  "finish_stage result = (\<lambda>(r, sh, l).
     (let s = run_of r; r' = r\<lparr>run_phase := Ended result\<rparr> in
      case result of
        Inr _ \<Rightarrow>
          (r', sh\<lparr>circuit_table := record_circuit_success s (circuit_table sh)\<rparr>,
           log_push (StageSucceeded (stage_name s)) l)
      | Inl e \<Rightarrow>
          (r', sh\<lparr>circuit_table := record_circuit_failure s (now sh) (circuit_table sh)\<rparr>,
           log_push (StageFailed (stage_name s) (error_kind e)) l)))"

definition begin_stage :: "stage_state \<Rightarrow> stage_state" where
  "begin_stage = (\<lambda>(r, sh, l).
     (case check_circuit (run_of r) (now sh) (circuit_table sh) of
        (Inl e, cs) \<Rightarrow> (r\<lparr>run_phase := Ended (Inl e)\<rparr>, sh\<lparr>circuit_table := cs\<rparr>, l)
      | (Inr _, cs) \<Rightarrow>
          (r\<lparr>run_phase := LoopHead 1,
             run_deadline := map_option (\<lambda>d. now sh + d) (stage_deadline (run_of r))\<rparr>,
           sh\<lparr>circuit_table := cs\<rparr>, l)))"

definition exhausted_message :: string where
  "exhausted_message = ''retry policy exhausted without terminal result''"

definition stage_step :: "StageInput \<Rightarrow> stage_state \<Rightarrow> stage_state option" where
  "stage_step i = (\<lambda>(r, sh, l).
     (let s = run_of r; limit = max_attempts (stage_retry s) in
      case run_phase r of
        Ready \<Rightarrow> (if i = Poll then Some (begin_stage (r, sh, l)) else None)
      | LoopHead n \<Rightarrow>
          if i \<noteq> Poll then None
          else if limit < n then Some (finish_stage (Inl (Fatal exhausted_message)) (r, sh, l))
          else if cancelled sh then Some (finish_stage (Inl StageCancelled) (r, sh, l))
          else Some (r\<lparr>run_phase := InCall n\<rparr>, sh, log_push (StageAttempt (stage_name s) n) l)
      | InCall n \<Rightarrow>
          (case i of
             Poll \<Rightarrow> None
           | DeadlineElapsed \<Rightarrow>
               (case run_deadline r of
                  Some d \<Rightarrow> if d \<le> now sh
                            then Some (r\<lparr>run_phase := Ended (Inl (Deadline (stage_name s)))\<rparr>, sh, l)
                            else None
                | None \<Rightarrow> None)
           | OperationDone result \<Rightarrow>
               if \<not> stage_operation s (run_input r) result then None
               else case result of
                      Inl (Retryable m) \<Rightarrow>
                        if n < limit
                        then Some (r\<lparr>run_phase := Backoff n (now sh + backoff (stage_retry s))\<rparr>, sh, l)
                        else Some (finish_stage result (r, sh, l))
                    | _ \<Rightarrow> Some (finish_stage result (r, sh, l)))
      | Backoff n wake \<Rightarrow>
          (case i of
             Poll \<Rightarrow>
               if cancelled sh then Some (finish_stage (Inl StageCancelled) (r, sh, l))
               else if wake \<le> now sh then Some (r\<lparr>run_phase := LoopHead (n + 1)\<rparr>, sh, l)
               else None
           | DeadlineElapsed \<Rightarrow>
               (case run_deadline r of
                  Some d \<Rightarrow> if d \<le> now sh \<and> \<not> cancelled sh \<and> now sh < wake
                            then Some (r\<lparr>run_phase := Ended (Inl (Deadline (stage_name s)))\<rparr>, sh, l)
                            else None
                | None \<Rightarrow> None)
           | OperationDone _ \<Rightarrow> None)
      | Ended _ \<Rightarrow> None))"

section \<open>Fan-out\<close>

text \<open>
  A spawned child waits for a permit, runs its stage with a log of its own, has ended, has
  panicked, or was joined. The semaphore is never closed, so acquiring a permit cannot fail.
\<close>

datatype Child =
    Waiting
  | Running StageRun LifecycleLog
  | Exited "StageError + string" "PipelineEvent list"
  | ChildPanicked
  | JoinedChild

record FanOutScope =
  fan_stages :: "Stage list"
  fan_join :: JoinPolicy
  fan_input :: string
  children :: "Child list"
  permits :: nat
  fan_results :: "(nat \<times> string) list"
  fan_failure :: "StageError option"

record Executor =
  event_capacity :: nat
  max_fan_out :: nat
  cancellation_grace :: nat

datatype ProductionPipelineConfigError = ZeroEventCapacity | ZeroFanOut

definition new_executor :: "nat \<Rightarrow> nat \<Rightarrow> ProductionPipelineConfigError + Executor" where
  "new_executor events width =
     (if events = 0 then Inl ZeroEventCapacity
      else if width = 0 then Inl ZeroFanOut
      else Inr \<lparr>event_capacity = events, max_fan_out = width, cancellation_grace = 5000000000\<rparr>)"

definition with_cancellation_grace :: "nat \<Rightarrow> Executor \<Rightarrow> Executor" where
  "with_cancellation_grace grace ex = ex\<lparr>cancellation_grace := grace\<rparr>"

text \<open>The executors the constructors build.\<close>

inductive built_executor :: "nat \<Rightarrow> nat \<Rightarrow> Executor \<Rightarrow> bool" where
  "new_executor events width = Inr ex \<Longrightarrow> built_executor events width ex"
| "built_executor events width ex \<Longrightarrow> built_executor events width (with_cancellation_grace grace ex)"

definition open_fan_out :: "Executor \<Rightarrow> Stage list \<Rightarrow> JoinPolicy \<Rightarrow> string \<Rightarrow> FanOutScope" where
  "open_fan_out ex stages join input =
     \<lparr>fan_stages = stages, fan_join = join, fan_input = input,
      children = replicate (length stages) Waiting, permits = max_fan_out ex, fan_results = [],
      fan_failure = None\<rparr>"

definition set_child :: "nat \<Rightarrow> Child \<Rightarrow> FanOutScope \<Rightarrow> FanOutScope" where
  "set_child i c sc = sc\<lparr>children := (children sc)[i := c]\<rparr>"

definition acquire :: "Executor \<Rightarrow> nat \<Rightarrow> FanOutScope \<Rightarrow> FanOutScope option" where
  "acquire ex i sc =
     (case nth_opt (children sc) i of
        Some Waiting \<Rightarrow>
          if permits sc = 0 then None
          else Some (set_child i (Running (new_run (fan_stages sc ! i) (fan_input sc))
                       (new_log (event_capacity ex))) (sc\<lparr>permits := permits sc - 1\<rparr>))
      | _ \<Rightarrow> None)"

definition child_step ::
  "nat \<Rightarrow> StageInput \<Rightarrow> FanOutScope \<times> Shared \<Rightarrow> (FanOutScope \<times> Shared) option" where
  "child_step i inp = (\<lambda>(sc, sh).
     (case nth_opt (children sc) i of
        Some (Running r l) \<Rightarrow>
          (case stage_step inp (r, sh, l) of
             None \<Rightarrow> None
           | Some (r', sh', l') \<Rightarrow>
               (case run_phase r' of
                  Ended result \<Rightarrow>
                    Some (set_child i (Exited result (log_events l')) (sc\<lparr>permits := permits sc + 1\<rparr>), sh')
                | _ \<Rightarrow> Some (set_child i (Running r' l') sc, sh')))
      | _ \<Rightarrow> None))"

text \<open>The operation panics: the task is torn down and its permit released.\<close>

definition child_panic :: "nat \<Rightarrow> FanOutScope \<Rightarrow> FanOutScope option" where
  "child_panic i sc =
     (case nth_opt (children sc) i of
        Some (Running r l) \<Rightarrow>
          (case run_phase r of
             InCall _ \<Rightarrow> Some (set_child i ChildPanicked (sc\<lparr>permits := permits sc + 1\<rparr>))
           | _ \<Rightarrow> None)
      | _ \<Rightarrow> None)"

definition get_or_insert :: "'a \<Rightarrow> 'a option \<Rightarrow> 'a option" where
  "get_or_insert x o' = (case o' of None \<Rightarrow> Some x | Some y \<Rightarrow> Some y)"

text \<open>One iteration of the join loop.\<close>

definition join_next ::
  "nat \<Rightarrow> FanOutScope \<times> Shared \<times> LifecycleLog \<Rightarrow> (FanOutScope \<times> Shared \<times> LifecycleLog) option" where
  "join_next i = (\<lambda>(sc, sh, l).
     (case nth_opt (children sc) i of
        Some (Exited result events) \<Rightarrow>
          (let sc' = set_child i JoinedChild sc; l' = log_extend events l in
           case result of
             Inr out \<Rightarrow>
               Some (if fan_failure sc = None
                     then sc'\<lparr>fan_results := fan_results sc @ [(i, out)]\<rparr> else sc', sh, l')
           | Inl e \<Rightarrow>
               Some (sc'\<lparr>fan_failure := get_or_insert e (fan_failure sc)\<rparr>, sh\<lparr>cancelled := True\<rparr>, l'))
      | Some ChildPanicked \<Rightarrow>
          Some ((set_child i JoinedChild sc)\<lparr>fan_failure := get_or_insert Join (fan_failure sc)\<rparr>,
                sh\<lparr>cancelled := True\<rparr>, l)
      | _ \<Rightarrow> None))"

fun is_joined :: "Child \<Rightarrow> bool" where
  "is_joined JoinedChild = True"
| "is_joined _ = False"

definition fan_out_result :: "FanOutScope \<Rightarrow> (StageError + string list) option" where
  "fan_out_result sc =
     (if list_all is_joined (children sc)
      then Some (case fan_failure sc of
                   Some e \<Rightarrow> Inl e
                 | None \<Rightarrow> Inr (map snd (if fan_join sc = PreserveInputOrder
                                         then sort_key fst (fan_results sc) else fan_results sc)))
      else None)"

section \<open>The pipeline\<close>

record PipelineOutcome =
  outcome_output :: "string list"
  outcome_events :: "PipelineEvent list"

record PipelineFailure =
  failure_error :: StageError
  failure_events :: "PipelineEvent list"

type_synonym pipeline_result = "PipelineFailure + PipelineOutcome"

text \<open>Where the root task is: at the head of the group loop, in a stage of a serial group, in a
  fan-out, stopped with its result, or torn down by a panic.\<close>

datatype Activity =
    AtGroup
  | InSerial "Stage list" StageRun
  | InFanOut FanOutScope
  | Stopped pipeline_result
  | Crashed

record Pipeline =
  shared :: Shared
  log :: LifecycleLog
  groups :: "PipelineGroup list"
  outputs :: "string list"
  activity :: Activity

text \<open>The end of \<open>run\<close>.\<close>

definition conclude :: "StageError + string list \<Rightarrow> Pipeline \<Rightarrow> Pipeline" where
  "conclude result p =
     (case result of
        Inr outs \<Rightarrow>
          (let l = log_push EvCompleted (log p) in
           p\<lparr>log := l, activity := Stopped (Inr \<lparr>outcome_output = outs, outcome_events = log_events l\<rparr>)\<rparr>)
      | Inl e \<Rightarrow>
          (let l = (if e = StageCancelled then log_cancelled (log p) else log p) in
           p\<lparr>log := l, activity := Stopped (Inl \<lparr>failure_error = e, failure_events = log_events l\<rparr>)\<rparr>))"

definition next_serial :: "Stage list \<Rightarrow> string \<Rightarrow> Pipeline \<Rightarrow> Pipeline" where
  "next_serial stages out p =
     (case stages of
        [] \<Rightarrow> p\<lparr>outputs := [out], activity := AtGroup\<rparr>
      | s # rest \<Rightarrow> p\<lparr>activity := InSerial rest (new_run s out)\<rparr>)"

text \<open>\<open>run_groups\<close>, one turn of its loop.\<close>

definition enter_group :: "Executor \<Rightarrow> Pipeline \<Rightarrow> Pipeline" where
  "enter_group ex p =
     (case groups p of
        [] \<Rightarrow> conclude (Inr (outputs p)) p
      | g # rest \<Rightarrow>
          (let p' = p\<lparr>groups := rest\<rparr> in
           if cancelled (shared p) then conclude (Inl StageCancelled) p'
           else case g of
                  Serial stages \<Rightarrow>
                    if outputs p = [] then conclude (Inl (Fatal ''serial stage has no input'')) p'
                    else next_serial stages (last (outputs p)) p'
                | FanOut stages join \<Rightarrow>
                    if outputs p = [] then conclude (Inl (Fatal ''fan-out has no input'')) p'
                    else p'\<lparr>log := log_push (FanOutStarted (length stages)) (log p'),
                            activity := InFanOut (open_fan_out ex stages join (last (outputs p)))\<rparr>))"

datatype Input =
    Step
  | StageIn StageInput
  | Panic
  | Acquire nat
  | ChildIn nat StageInput
  | ChildPanic nat
  | JoinNext nat
  | JoinDone
  | RequestCancel
  | Tick nat
  | Interfere circuits

definition serial_step :: "StageInput \<Rightarrow> Stage list \<Rightarrow> StageRun \<Rightarrow> Pipeline \<Rightarrow> Pipeline option" where
  "serial_step inp rest r p =
     (case stage_step inp (r, shared p, log p) of
        None \<Rightarrow> None
      | Some (r', sh, l) \<Rightarrow>
          (let p' = p\<lparr>shared := sh, log := l\<rparr> in
           Some (case run_phase r' of
                   Ended (Inr out) \<Rightarrow> next_serial rest out p'
                 | Ended (Inl e) \<Rightarrow> conclude (Inl e) p'
                 | _ \<Rightarrow> p'\<lparr>activity := InSerial rest r'\<rparr>)))"

definition fan_out_step :: "Executor \<Rightarrow> Input \<Rightarrow> FanOutScope \<Rightarrow> Pipeline \<Rightarrow> Pipeline option" where
  "fan_out_step ex i sc p =
     (case i of
        Acquire k \<Rightarrow> map_option (\<lambda>sc'. p\<lparr>activity := InFanOut sc'\<rparr>) (acquire ex k sc)
      | ChildIn k inp \<Rightarrow>
          map_option (\<lambda>(sc', sh). p\<lparr>shared := sh, activity := InFanOut sc'\<rparr>)
            (child_step k inp (sc, shared p))
      | ChildPanic k \<Rightarrow> map_option (\<lambda>sc'. p\<lparr>activity := InFanOut sc'\<rparr>) (child_panic k sc)
      | JoinNext k \<Rightarrow>
          map_option (\<lambda>(sc', sh, l). p\<lparr>shared := sh, log := l, activity := InFanOut sc'\<rparr>)
            (join_next k (sc, shared p, log p))
      | JoinDone \<Rightarrow>
          map_option (\<lambda>result. case result of
              Inl e \<Rightarrow> conclude (Inl e) p
            | Inr outs \<Rightarrow> p\<lparr>outputs := outs, log := log_push (Joined (length outs)) (log p),
                           activity := AtGroup\<rparr>) (fan_out_result sc)
      | _ \<Rightarrow> None)"

text \<open>A move of the root task or of one of its children.\<close>

definition task_step :: "Executor \<Rightarrow> Input \<Rightarrow> Pipeline \<Rightarrow> Pipeline option" where
  "task_step ex i p =
     (case activity p of
        AtGroup \<Rightarrow> (case i of Step \<Rightarrow> Some (enter_group ex p) | _ \<Rightarrow> None)
      | InSerial rest r \<Rightarrow>
          (case i of
             StageIn inp \<Rightarrow> serial_step inp rest r p
           | Panic \<Rightarrow> (case run_phase r of InCall _ \<Rightarrow> Some (p\<lparr>activity := Crashed\<rparr>) | _ \<Rightarrow> None)
           | _ \<Rightarrow> None)
      | InFanOut sc \<Rightarrow> fan_out_step ex i sc p
      | Stopped _ \<Rightarrow> None
      | Crashed \<Rightarrow> None)"

text \<open>Cancellation by the handle, the clock, and other invocations that share the circuits.\<close>

definition pipeline_step :: "Executor \<Rightarrow> Input \<Rightarrow> Pipeline \<Rightarrow> Pipeline option" where
  "pipeline_step ex i p =
     (case i of
        RequestCancel \<Rightarrow> Some (p\<lparr>shared := (shared p)\<lparr>cancelled := True\<rparr>\<rparr>)
      | Tick d \<Rightarrow> Some (p\<lparr>shared := (shared p)\<lparr>now := now (shared p) + d\<rparr>\<rparr>)
      | Interfere cs \<Rightarrow> Some (p\<lparr>shared := (shared p)\<lparr>circuit_table := cs\<rparr>\<rparr>)
      | _ \<Rightarrow> task_step ex i p)"

definition start_pipeline :: "Executor \<Rightarrow> PipelinePlan \<Rightarrow> string \<Rightarrow> nat \<Rightarrow> circuits \<Rightarrow> Pipeline" where
  "start_pipeline ex plan input t cs =
     \<lparr>shared = \<lparr>now = t, cancelled = False, circuit_table = cs\<rparr>,
      log = log_push EvStarted (new_log (event_capacity ex)), groups = plan, outputs = [input],
      activity = AtGroup\<rparr>"

fun run_inputs :: "Executor \<Rightarrow> Input list \<Rightarrow> Pipeline \<Rightarrow> Pipeline option" where
  "run_inputs ex [] p = Some p"
| "run_inputs ex (i # is) p =
     (case pipeline_step ex i p of None \<Rightarrow> None | Some p' \<Rightarrow> run_inputs ex is p')"

section \<open>The handle\<close>

datatype Waiter = Awaiting | Grace nat | Returned pipeline_result

text \<open>The task that \<open>DetachedTaskSupervisor::supervise\<close> spawns: it awaits the pipeline's task and then
  lowers the counter of active tasks.\<close>

datatype Reaper = NotSpawned | AwaitingTask | Finished

record Handle =
  task :: Pipeline
  waiter :: Waiter
  reaper :: Reaper
  active_tasks :: nat

datatype HandleInput = TaskMoves Input | TaskJoined | CancelObserved | GraceElapsed | Reaped

definition flatten_pipeline_join :: "Activity \<Rightarrow> LifecycleLog \<Rightarrow> pipeline_result option" where
  "flatten_pipeline_join a l =
     (case a of
        Stopped result \<Rightarrow> Some result
      | Crashed \<Rightarrow> Some (Inl \<lparr>failure_error = Join, failure_events = log_events l\<rparr>)
      | _ \<Rightarrow> None)"

text \<open>\<open>wait\<close> and \<open>DetachedTaskSupervisor::supervise\<close>; milliseconds are whole, saturated to 64 bits.\<close>

definition handle_step :: "Executor \<Rightarrow> HandleInput \<Rightarrow> Handle \<Rightarrow> Handle option" where
  "handle_step ex i h =
     (let p = task h; joined = flatten_pipeline_join (activity p) (log p) in
      case i of
        TaskMoves inp \<Rightarrow> map_option (\<lambda>p'. h\<lparr>task := p'\<rparr>) (pipeline_step ex inp p)
      | TaskJoined \<Rightarrow>
          (case waiter h of
             Returned _ \<Rightarrow> None
           | _ \<Rightarrow> map_option (\<lambda>result. h\<lparr>waiter := Returned result\<rparr>) joined)
      | CancelObserved \<Rightarrow>
          if waiter h = Awaiting \<and> cancelled (shared p)
          then Some (h\<lparr>task := p\<lparr>log := log_cancelled (log p)\<rparr>,
                       waiter := Grace (now (shared p) + cancellation_grace ex)\<rparr>)
          else None
      | GraceElapsed \<Rightarrow>
          (case waiter h of
             Grace t \<Rightarrow>
               if t \<le> now (shared p) \<and> joined = None
               then (let l = log_push TaskDetached (log_push (CancellationGraceElapsed
                               (try_from_or_max (cancellation_grace ex div 1000000))) (log p))
                     in Some (h\<lparr>task := p\<lparr>log := l\<rparr>, reaper := AwaitingTask,
                                active_tasks := active_tasks h + 1,
                                waiter := Returned (Inl \<lparr>failure_error = StageCancelled,
                                                          failure_events = log_events l\<rparr>)\<rparr>))
               else None
           | _ \<Rightarrow> None)
      | Reaped \<Rightarrow>
          if reaper h = AwaitingTask \<and> joined \<noteq> None
          then Some (h\<lparr>reaper := Finished, active_tasks := active_tasks h - 1\<rparr>) else None)"

definition execute_pipeline :: "Executor \<Rightarrow> PipelinePlan \<Rightarrow> string \<Rightarrow> nat \<Rightarrow> circuits \<Rightarrow> nat \<Rightarrow> Handle" where
  "execute_pipeline ex plan input t cs active =
     \<lparr>task = start_pipeline ex plan input t cs, waiter = Awaiting, reaper = NotSpawned,
      active_tasks = active\<rparr>"

fun run_handle :: "Executor \<Rightarrow> HandleInput list \<Rightarrow> Handle \<Rightarrow> Handle option" where
  "run_handle ex [] h = Some h"
| "run_handle ex (i # is) h =
     (case handle_step ex i h of None \<Rightarrow> None | Some h' \<Rightarrow> run_handle ex is h')"

end
