(* ===== verification/Pipeline_Sound.thy ===== *)
theory Pipeline_Sound
  imports Pipeline
begin

text \<open>
  What pipeline execution promises: the lifecycle log is the recent past of an unbounded history,
  a circuit is a counter of consecutive failures, resources stay bounded, results are those of the
  plan read sequentially, and a run cannot go on for ever or get stuck.
\<close>

section \<open>The lifecycle log\<close>

lemma drop_recent:
  "drop (length (drop (length h - n) h @ [e]) - n) (drop (length h - n) h @ [e]) =
     drop (length (h @ [e]) - n) (h @ [e])"
  by (cases "length h \<le> n") (simp_all add: not_le Suc_diff_le)

locale event_log =
  fixes ok :: "'l \<Rightarrow> bool"
    and contents :: "'l \<Rightarrow> 'e list"
    and limit :: "'l \<Rightarrow> nat"
    and push :: "'e \<Rightarrow> 'l \<Rightarrow> 'l"
  assumes ok_bound: "ok l \<Longrightarrow> length (contents l) \<le> limit l"
    and ok_push: "ok l \<Longrightarrow> ok (push e l)"
    and limit_push: "limit (push e l) = limit l"
    and contents_push: "ok l \<Longrightarrow>
      contents (push e l) = drop (length (contents l @ [e]) - limit l) (contents l @ [e])"
begin

lemma ok_fold: "ok l \<Longrightarrow> ok (fold push es l) \<and> limit (fold push es l) = limit l"
  by (induction es arbitrary: l) (auto simp: ok_push limit_push)

lemma fold_contents:
  "ok l \<Longrightarrow> contents (fold push es l) =
     drop (length (contents l @ es) - limit l) (contents l @ es)"
proof (induction es rule: rev_induct)
  case Nil
  then show ?case using ok_bound by simp
next
  case (snoc e es)
  let ?h = "contents l @ es"
  have "contents (push e (fold push es l)) =
      drop (length (drop (length ?h - limit l) ?h @ [e]) - limit l) (drop (length ?h - limit l) ?h @ [e])"
    using snoc ok_fold contents_push by metis
  then show ?case by (simp only: drop_recent fold_append fold.simps comp_apply id_apply append_assoc [symmetric])
qed

end

definition log_ok :: "LifecycleLog \<Rightarrow> bool" where
  "log_ok l \<longleftrightarrow> 0 < capacity l \<and> length (log_events l) \<le> capacity l"

lemma log_push_events:
  "log_ok l \<Longrightarrow> log_events (log_push e l) =
     drop (length (log_events l @ [e]) - capacity l) (log_events l @ [e])"
  by (auto simp: log_push_def log_ok_def Let_def)

interpretation lifecycle: event_log log_ok log_events capacity log_push
proof
  show "capacity (log_push e l) = capacity l" for e l
    by (simp add: log_push_def Let_def)
  show "log_ok l \<Longrightarrow> log_ok (log_push e l)" for e l
    by (auto simp: log_push_def log_ok_def Let_def)
qed (auto simp: log_push_events, auto simp: log_ok_def)

lemma log_extend_ok [simp]:
  "log_ok l \<Longrightarrow> log_ok (log_extend es l)" "log_ok l \<Longrightarrow> capacity (log_extend es l) = capacity l"
  using lifecycle.ok_fold by (auto simp: log_extend_def)

lemma log_cancelled_ok [simp]:
  "log_ok l \<Longrightarrow> log_ok (log_cancelled l)" "capacity (log_cancelled l) = capacity l"
  by (auto simp: log_cancelled_def lifecycle.ok_push lifecycle.limit_push)

lemma new_log_ok [simp]: "0 < n \<Longrightarrow> log_ok (new_log n)" "capacity (new_log n) = n" "log_events (new_log n) = []"
  by (simp_all add: new_log_def log_ok_def)

lemmas log_ok_simps [simp] = lifecycle.ok_push lifecycle.limit_push

text \<open>
  C36. The lifecycle log refines an unbounded history: after any sequence of events it holds exactly
  the most recent ones, as many as its capacity, in order.
\<close>

theorem lifecycle_log_recent:
  assumes "0 < n"
  shows "log_events (log_extend events (new_log n)) = drop (length events - n) events"
  using assms lifecycle.fold_contents [of "new_log n" events]
  by (simp add: log_extend_def log_ok_def new_log_def)

theorem lifecycle_log_recent_witness:
  "log_events (log_extend [EvStarted, FanOutStarted 2, EvCompleted] (new_log 2)) = [FanOutStarted 2, EvCompleted]"
  using lifecycle_log_recent [of 2 "[EvStarted, FanOutStarted 2, EvCompleted]"] by simp

section \<open>Circuit breakers\<close>

text \<open>
  The calls on the circuit of one stage, and an abstraction of its entry: the number of consecutive
  failures since the entry was last closed and the time of the last of them.
\<close>

datatype CircuitCall = Check nat | Succeed | Fail nat

fun circuit_counter :: "CircuitPolicy \<Rightarrow> CircuitCall \<Rightarrow> nat \<times> nat \<Rightarrow> bool \<times> (nat \<times> nat)" where
  "circuit_counter policy (Check t) (k, latest) =
     (if k < unat (failure_threshold policy) then (True, (k, latest))
      else if t - latest < reset_after policy then (False, (k, latest))
      else (True, (0, latest)))"
| "circuit_counter policy Succeed (k, latest) = (True, (0, latest))"
| "circuit_counter policy (Fail t) (k, latest) = (True, (k + 1, t))"

fun circuit_code :: "Stage \<Rightarrow> CircuitCall \<Rightarrow> circuits \<Rightarrow> bool \<times> circuits" where
  "circuit_code s (Check t) cs = (case check_circuit s t cs of (r, cs') \<Rightarrow> (r = Inr (), cs'))"
| "circuit_code s Succeed cs = (True, record_circuit_success s cs)"
| "circuit_code s (Fail t) cs = (True, record_circuit_failure s t cs)"

fun run_calls :: "('c \<Rightarrow> 's \<Rightarrow> bool \<times> 's) \<Rightarrow> 'c list \<Rightarrow> 's \<Rightarrow> bool list \<times> 's" where
  "run_calls f [] s = ([], s)"
| "run_calls f (c # calls) s =
     (let (b, s1) = f c s; (bs, s2) = run_calls f calls s1 in (b # bs, s2))"

definition circuit_rel :: "CircuitPolicy \<Rightarrow> CircuitState \<Rightarrow> nat \<times> nat \<Rightarrow> bool" where
  "circuit_rel policy c = (\<lambda>(k, latest).
     unat (failures c) = min k (2 ^ 32 - 1) \<and>
     opened_at c = (if unat (failure_threshold policy) \<le> k then Some latest else None))"

lemma circuit_rel_closed: "0 < failure_threshold policy \<Longrightarrow> circuit_rel policy closed_circuit (0, t)"
  by (simp add: circuit_rel_def closed_circuit_def word_less_nat_alt)

lemma circuit_step_refines:
  assumes "stage_circuit s = Some policy" and "0 < failure_threshold policy"
    and "circuit_rel policy (circuit_entry (stage_name s) cs) a"
  shows "fst (circuit_code s c cs) = fst (circuit_counter policy c a) \<and>
    circuit_rel policy (circuit_entry (stage_name s) (snd (circuit_code s c cs))) (snd (circuit_counter policy c a))"
proof -
  obtain k latest where a: "a = (k, latest)" by fastforce
  note closed = circuit_rel_closed [OF assms(2)]
  show ?thesis
  proof (cases c)
    case (Check t)
    then show ?thesis
      using assms closed unfolding a
      by (auto simp: check_circuit_def Let_def circuit_entry_def circuit_rel_def closed_circuit_def
          split: option.splits if_splits)
  next
    case Succeed
    then show ?thesis
      using assms closed unfolding a
      by (auto simp: record_circuit_success_def circuit_entry_def split: option.splits)
  next
    case (Fail t)
    let ?c = "circuit_entry (stage_name s) cs"
    have "unat (saturating_add (failures ?c) 1) = min (k + 1) (2 ^ 32 - 1)"
      using assms(3) by (simp add: a circuit_rel_def unat_saturating_add min_def)
    moreover have "unat (failure_threshold policy) \<le> min (k + 1) (2 ^ 32 - 1) \<longleftrightarrow>
        unat (failure_threshold policy) \<le> k + 1"
      using unat_less_exp [of "failure_threshold policy"] by auto
    moreover have "unat (failure_threshold policy) \<le> k \<Longrightarrow> unat (failure_threshold policy) \<le> k + 1" by simp
    ultimately show ?thesis
      using Fail assms(1,3) unfolding a
      by (auto simp: record_circuit_failure_def circuit_rel_def circuit_entry_def Let_def word_le_nat_alt)
  qed
qed

lemma run_calls_refines:
  assumes "stage_circuit s = Some policy" and "0 < failure_threshold policy"
    and "circuit_rel policy (circuit_entry (stage_name s) cs) a"
  shows "fst (run_calls (circuit_code s) calls cs) = fst (run_calls (circuit_counter policy) calls a)"
  using assms(3)
proof (induction calls arbitrary: cs a)
  case (Cons c calls)
  then show ?case
    using circuit_step_refines [OF assms(1,2) Cons.prems, of c] by (fastforce simp: Let_def split: prod.splits)
qed simp

lemma run_calls_append:
  "run_calls f (xs @ ys) s =
     (fst (run_calls f xs s) @ fst (run_calls f ys (snd (run_calls f xs s))), snd (run_calls f ys (snd (run_calls f xs s))))"
  by (induction xs arbitrary: s) (auto simp: Let_def split: prod.split)

text \<open>
  The documented contract speaks of the history: the times of the failures recorded since the last
  success, latest first, and histories in which every check comes less than \<open>reset_after\<close> after
  the failure before it.
\<close>

fun add_result :: "CircuitCall \<Rightarrow> nat list \<Rightarrow> nat list" where
  "add_result (Check t) streak = streak"
| "add_result Succeed streak = []"
| "add_result (Fail t) streak = t # streak"

definition failure_streak :: "CircuitCall list \<Rightarrow> nat list" where
  "failure_streak calls = fold add_result calls []"

fun checked_early :: "nat \<Rightarrow> nat \<Rightarrow> CircuitCall list \<Rightarrow> bool" where
  "checked_early reset latest [] = True"
| "checked_early reset latest (Check t # calls) = (t - latest < reset \<and> checked_early reset latest calls)"
| "checked_early reset latest (Fail t # calls) = checked_early reset t calls"
| "checked_early reset latest (Succeed # calls) = False"

lemma counter_within_streak:
  assumes "run_calls (circuit_counter policy) calls (0, t) = (bs, (k, latest))"
  shows "k \<le> length (failure_streak calls) \<and> (0 < k \<longrightarrow> latest = hd (failure_streak calls))"
  using assms
proof (induction calls arbitrary: bs k latest rule: rev_induct)
  case (snoc c calls)
  obtain bs' k' latest' where r: "run_calls (circuit_counter policy) calls (0, t) = (bs', (k', latest'))"
    by (metis surj_pair)
  then show ?case
    using snoc.IH [OF r] snoc.prems
    by (cases c) (auto simp: run_calls_append failure_streak_def Let_def split: if_splits)
qed (simp add: failure_streak_def)

lemma early_streak:
  "checked_early reset latest calls \<Longrightarrow> fold add_result calls streak = failure_streak calls @ streak"
proof (induction reset latest calls arbitrary: streak rule: checked_early.induct)
  case (3 reset latest t calls)
  then have "checked_early reset t calls" by simp
  from 3(1) [OF this, of "t # streak"] 3(1) [OF this, of "[t]"] show ?case by (simp add: failure_streak_def)
next
  case (2 reset latest t calls)
  then have "checked_early reset latest calls" by simp
  from 2(1) [OF this, of streak] show ?case by (simp add: failure_streak_def)
qed (simp_all add: failure_streak_def)

lemma streak_Fail:
  "checked_early reset t calls \<Longrightarrow> failure_streak (Fail t # calls) = failure_streak calls @ [t]"
  using early_streak [of reset t calls "[t]"] by (simp add: failure_streak_def)

lemma streak_Check: "failure_streak (Check t # calls) = failure_streak calls"
  by (simp add: failure_streak_def)

lemma counter_early:
  "checked_early (reset_after policy) latest calls \<Longrightarrow>
     snd (run_calls (circuit_counter policy) calls (k, latest)) =
       (k + length (failure_streak calls), hd (failure_streak calls @ [latest]))"
proof (induction "reset_after policy" latest calls arbitrary: k rule: checked_early.induct)
  case (2 latest t calls)
  then show ?case by (simp add: Let_def split_beta streak_Check)
next
  case (3 latest t calls)
  then show ?case by (simp add: Let_def split_beta streak_Fail hd_append)
qed (simp_all add: failure_streak_def)

lemma early_snoc:
  "checked_early reset latest (calls @ [Check t]) \<longleftrightarrow>
     checked_early reset latest calls \<and> t - hd (failure_streak calls @ [latest]) < reset"
proof (induction reset latest calls rule: checked_early.induct)
  case (3 reset latest t' calls)
  then show ?case by (auto simp: streak_Fail hd_append)
qed (auto simp: failure_streak_def)

lemma counter_stays_open:
  assumes "checked_early (reset_after policy) latest (calls @ [Check t])"
    and "unat (failure_threshold policy) \<le> k + length (failure_streak calls)"
  shows "\<not> last (fst (run_calls (circuit_counter policy) (calls @ [Check t]) (k, latest)))"
  using assms by (simp add: early_snoc run_calls_append counter_early)


definition breaking_stage :: Stage where
  "breaking_stage = with_circuit \<lparr>failure_threshold = 2, reset_after = 10\<rparr> (new_stage ''s'' (\<lambda>x r. True))"


section \<open>One stage\<close>

definition stage_ok :: "Stage \<Rightarrow> bool" where
  "stage_ok s \<longleftrightarrow> 0 < unat (max_attempts (stage_retry s))"

lemma built_stage_ok: "built_stage s \<Longrightarrow> stage_ok s"
proof (induction rule: built_stage.induct)
  case (2 s policy)
  have "0 < max (max_attempts policy) (1 :: u32)" by (simp add: less_max_iff_disj)
  then show ?case by (simp add: stage_ok_def with_retry_def word_less_nat_alt)
qed (auto simp: stage_ok_def new_stage_def default_retry_def with_deadline_def with_circuit_def)

definition attempts :: "StageRun \<Rightarrow> nat" where
  "attempts r = unat (max_attempts (stage_retry (run_of r)))"

definition run_ok :: "StageRun \<Rightarrow> bool" where
  "run_ok r \<longleftrightarrow> stage_ok (run_of r) \<and>
     (case run_phase r of
        Ready \<Rightarrow> True
      | LoopHead n \<Rightarrow> 0 < unat n \<and> unat n \<le> attempts r
      | InCall n \<Rightarrow> 0 < unat n \<and> unat n \<le> attempts r
      | Backoff n wake \<Rightarrow> 0 < unat n \<and> unat n < attempts r
      | Ended result \<Rightarrow> (case result of Inl e \<Rightarrow> True | Inr y \<Rightarrow> stage_operation (run_of r) (run_input r) (Inr y)))"

fun is_ended :: "Phase \<Rightarrow> bool" where
  "is_ended (Ended result) = True"
| "is_ended _ = False"

text \<open>How many more moves a stage can make.\<close>

definition run_weight :: "StageRun \<Rightarrow> nat" where
  "run_weight r = (let k = attempts r in
     case run_phase r of
       Ready \<Rightarrow> 3 * k + 4
     | LoopHead n \<Rightarrow> 3 * (k + 1 - unat n) + 1
     | InCall n \<Rightarrow> 3 * (k + 1 - unat n)
     | Backoff n wake \<Rightarrow> 3 * (k + 1 - unat n) - 1
     | Ended result \<Rightarrow> 0)"

lemma unat_Suc_bound: "unat n < unat m \<Longrightarrow> unat (n + 1) = unat n + 1" for n m :: u32
  using unat_less_exp [of m] by (simp add: unat_word_ariths)

lemma finish_stage_simps:
  "finish_stage res (r, sh, l) = (r', sh', l') \<Longrightarrow>
     r' = r\<lparr>run_phase := Ended res\<rparr> \<and> now sh' = now sh \<and> cancelled sh' = cancelled sh \<and>
     (\<exists>e. l' = log_push e l)"
  by (cases res) (auto simp: finish_stage_def Let_def)

lemma begin_stage_simps:
  "begin_stage (r, sh, l) = (r', sh', l') \<Longrightarrow>
     run_of r' = run_of r \<and> run_input r' = run_input r \<and> l' = l \<and>
     (run_phase r' = LoopHead 1 \<or> (\<exists>e. run_phase r' = Ended (Inl e)))"
  by (auto simp: begin_stage_def split: prod.splits sum.splits)

lemma stage_step_keeps:
  assumes "stage_step i (r, sh, l) = Some (r', sh', l')"
  shows "run_of r' = run_of r" and "run_input r' = run_input r" and "l' = l \<or> (\<exists>e. l' = log_push e l)"
  using assms
  by (auto simp: stage_step_def Let_def dest!: finish_stage_simps begin_stage_simps
      split: Phase.splits StageInput.splits option.splits if_splits sum.splits StageError.splits)

lemma stage_step_run_ok:
  assumes "stage_step i (r, sh, l) = Some (r', sh', l')" and "run_ok r"
  shows "run_ok r'" and "run_weight r' < run_weight r"
proof -
  have one: "unat (1 :: u32) = 1" by simp
  have "run_ok r' \<and> run_weight r' < run_weight r"
    using assms one
    by (auto simp: stage_step_def Let_def run_ok_def run_weight_def attempts_def stage_ok_def word_less_nat_alt
        unat_Suc_bound
        dest!: finish_stage_simps begin_stage_simps
        split: Phase.splits StageInput.splits option.splits if_splits sum.splits StageError.splits)
  then show "run_ok r'" "run_weight r' < run_weight r" by auto
qed

section \<open>Results\<close>

text \<open>The specification of a plan: what its groups, run one after the other, may return.\<close>

fun serial_result :: "Stage list \<Rightarrow> string \<Rightarrow> string \<Rightarrow> bool" where
  "serial_result [] x y \<longleftrightarrow> y = x"
| "serial_result (s # stages) x y \<longleftrightarrow>
     (\<exists>z. stage_operation s x (Inr z) \<and> serial_result stages z y)"

definition branches_result :: "Stage list \<Rightarrow> string \<Rightarrow> string list \<Rightarrow> bool" where
  "branches_result stages x = list_all2 (\<lambda>s y. stage_operation s x (Inr y)) stages"

fun group_result :: "PipelineGroup \<Rightarrow> string \<Rightarrow> string list \<Rightarrow> bool" where
  "group_result (Serial stages) x outs \<longleftrightarrow> (\<exists>y. serial_result stages x y \<and> outs = [y])"
| "group_result (FanOut stages PreserveInputOrder) x outs \<longleftrightarrow> branches_result stages x outs"
| "group_result (FanOut stages CompletionOrder) x outs \<longleftrightarrow>
     (\<exists>ys. branches_result stages x ys \<and> mset outs = mset ys)"

fun plan_result :: "PipelinePlan \<Rightarrow> string list \<Rightarrow> string list \<Rightarrow> bool" where
  "plan_result [] xs outs \<longleftrightarrow> outs = xs"
| "plan_result (g # gs) xs outs \<longleftrightarrow>
     xs \<noteq> [] \<and> (\<exists>ys. group_result g (last xs) ys \<and> plan_result gs ys outs)"

text \<open>Fan-out scopes.\<close>

fun is_running :: "Child \<Rightarrow> bool" where
  "is_running (Running r l) = True"
| "is_running _ = False"

definition child_ok :: "Executor \<Rightarrow> Stage \<Rightarrow> string \<Rightarrow> Child \<Rightarrow> bool" where
  "child_ok ex s x c \<longleftrightarrow>
     (case c of
        Running r l \<Rightarrow> run_of r = s \<and> run_input r = x \<and> run_ok r \<and> \<not> is_ended (run_phase r) \<and>
          log_ok l \<and> capacity l = event_capacity ex
      | Exited result events \<Rightarrow> (case result of Inl e \<Rightarrow> True | Inr y \<Rightarrow> stage_operation s x (Inr y))
      | _ \<Rightarrow> True)"

definition results_ok :: "FanOutScope \<Rightarrow> bool" where
  "results_ok sc \<longleftrightarrow> distinct (map fst (fan_results sc)) \<and>
     (\<forall>(i, y) \<in> set (fan_results sc). i < length (children sc) \<and> children sc ! i = JoinedChild \<and>
        stage_operation (fan_stages sc ! i) (fan_input sc) (Inr y)) \<and>
     (fan_failure sc = None \<longrightarrow>
        (\<forall>i < length (children sc). children sc ! i = JoinedChild \<longrightarrow> i \<in> fst ` set (fan_results sc)))"

definition fan_ok :: "Executor \<Rightarrow> FanOutScope \<Rightarrow> bool" where
  "fan_ok ex sc \<longleftrightarrow> length (children sc) = length (fan_stages sc) \<and>
     (\<forall>s \<in> set (fan_stages sc). stage_ok s) \<and>
     (\<forall>i < length (children sc). child_ok ex (fan_stages sc ! i) (fan_input sc) (children sc ! i)) \<and>
     permits sc + length (filter is_running (children sc)) = max_fan_out ex \<and> results_ok sc"

lemma is_joined_iff [simp]: "is_joined c \<longleftrightarrow> c = JoinedChild"
  by (cases c) auto

lemma filter_update_length:
  "i < length xs \<Longrightarrow> length (filter P (xs[i := x])) + (if P (xs ! i) then 1 else 0) =
     length (filter P xs) + (if P x then 1 else 0)"
proof (induction xs arbitrary: i)
  case (Cons y ys)
  then show ?case by (cases i) auto
qed simp

text \<open>Replacing a child that is neither joined before nor after leaves the results alone.\<close>

lemma results_ok_child:
  assumes "results_ok sc" and "i < length (children sc)" and "children sc ! i \<noteq> JoinedChild" and "c \<noteq> JoinedChild"
  shows "results_ok (sc\<lparr>children := (children sc)[i := c], permits := n\<rparr>)"
  using assms unfolding results_ok_def by (force simp: nth_list_update)

lemma fan_ok_child:
  assumes "fan_ok ex sc" and "i < length (children sc)" and "children sc ! i \<noteq> JoinedChild" and "c \<noteq> JoinedChild"
    and "child_ok ex (fan_stages sc ! i) (fan_input sc) c"
    and "n + (if is_running c then 1 else 0) = permits sc + (if is_running (children sc ! i) then 1 else 0)"
  shows "fan_ok ex (sc\<lparr>children := (children sc)[i := c], permits := n\<rparr>)"
proof -
  have "n + length (filter is_running ((children sc)[i := c])) = max_fan_out ex"
    using filter_update_length [OF assms(2), of is_running c] assms(1,6) by (auto simp: fan_ok_def split: if_splits)
  then show ?thesis
    using assms results_ok_child unfolding fan_ok_def by (auto simp: nth_list_update)
qed

lemma fan_ok_same:
  assumes "fan_ok ex sc" and "i < length (children sc)" and "children sc ! i \<noteq> JoinedChild" and "c \<noteq> JoinedChild"
    and "child_ok ex (fan_stages sc ! i) (fan_input sc) c" and "is_running c \<longleftrightarrow> is_running (children sc ! i)"
  shows "fan_ok ex (set_child i c sc)"
  using fan_ok_child [OF assms(1-5), of "permits sc"] assms(6) by (simp add: set_child_def)

lemma set_child_permits: "set_child i c (sc\<lparr>permits := n\<rparr>) = sc\<lparr>children := (children sc)[i := c], permits := n\<rparr>"
  by (simp add: set_child_def)

lemma acquire_ok:
  assumes "acquire ex i sc = Some sc'" and "fan_ok ex sc" and "0 < event_capacity ex"
  shows "fan_ok ex sc'"
proof -
  have i: "i < length (children sc)" "children sc ! i = Waiting" "0 < permits sc"
    and sc': "sc' = set_child i (Running (new_run (fan_stages sc ! i) (fan_input sc)) (new_log (event_capacity ex)))
      (sc\<lparr>permits := permits sc - 1\<rparr>)"
    using assms(1) by (auto simp: acquire_def split: if_splits option.splits Child.splits)
  have "stage_ok (fan_stages sc ! i)" using assms(2) i(1) by (simp add: fan_ok_def)
  then show ?thesis
    unfolding sc' set_child_permits
    using i assms(3) by (intro fan_ok_child [OF assms(2)])
      (auto simp: child_ok_def new_run_def run_ok_def log_ok_def new_log_def)
qed

lemma child_step_ok:
  assumes "child_step i inp (sc, sh) = Some (sc', sh')" and "fan_ok ex sc"
  shows "fan_ok ex sc'"
proof -
  obtain r l r' l' where i: "i < length (children sc)" "children sc ! i = Running r l"
    and step: "stage_step inp (r, sh, l) = Some (r', sh', l')"
    and sc': "sc' = (case run_phase r' of
        Ended res \<Rightarrow> set_child i (Exited res (log_events l')) (sc\<lparr>permits := permits sc + 1\<rparr>)
      | _ \<Rightarrow> set_child i (Running r' l') sc)"
    using assms(1) by (auto simp: child_step_def split: option.splits Child.splits Phase.splits)
  have c: "child_ok ex (fan_stages sc ! i) (fan_input sc) (Running r l)"
    using assms(2) i by (metis fan_ok_def)
  note keep = stage_step_keeps [OF step] and ok' = stage_step_run_ok(1) [OF step]
  have "child_ok ex (fan_stages sc ! i) (fan_input sc) (Running r' l')" if "\<not> is_ended (run_phase r')"
    using c keep ok' that by (auto simp: child_ok_def)
  moreover have "child_ok ex (fan_stages sc ! i) (fan_input sc) (Exited res ev)" if "run_phase r' = Ended res" for res ev
    using c keep ok' that by (auto simp: child_ok_def run_ok_def split: sum.splits)
  ultimately show ?thesis
    unfolding sc' using i
    by (auto simp: set_child_permits split: Phase.split intro!: fan_ok_child [OF assms(2)])
      (auto intro!: fan_ok_same [OF assms(2)])
qed

lemma child_panic_ok:
  assumes "child_panic i sc = Some sc'" and "fan_ok ex sc"
  shows "fan_ok ex sc'"
  using assms(1)
  by (auto simp: child_panic_def set_child_permits child_ok_def
      split: option.splits Child.splits Phase.splits intro!: fan_ok_child [OF assms(2)])

lemma results_ok_success:
  assumes "results_ok sc" and "i < length (children sc)" and "children sc ! i \<noteq> JoinedChild"
    and "stage_operation (fan_stages sc ! i) (fan_input sc) (Inr y)"
  shows "results_ok (sc\<lparr>children := (children sc)[i := JoinedChild], fan_results := fan_results sc @ [(i, y)]\<rparr>)"
proof -
  have "i \<notin> fst ` set (fan_results sc)" using assms(1,3) by (force simp: results_ok_def)
  moreover have "\<forall>k < length (children sc). (children sc)[i := JoinedChild] ! k = JoinedChild \<longrightarrow>
      fan_failure sc = None \<longrightarrow> k = i \<or> k \<in> fst ` set (fan_results sc)"
    using assms(1) unfolding results_ok_def by (metis nth_list_update_neq)
  ultimately show ?thesis
    using assms unfolding results_ok_def by (force simp: nth_list_update)
qed

lemma results_ok_failure:
  assumes "results_ok sc" and "i < length (children sc)"
  shows "results_ok (sc\<lparr>children := (children sc)[i := JoinedChild], fan_failure := Some e\<rparr>)"
  using assms unfolding results_ok_def by (force simp: nth_list_update)

lemma fan_failure_same:
  "fan_failure sc = Some e \<Longrightarrow> sc\<lparr>children := cs, fan_failure := Some e\<rparr> = sc\<lparr>children := cs\<rparr>"
  by (cases sc) simp

lemma join_next_cases:
  assumes "join_next i (sc, sh, l) = Some (sc', sh', l')"
  obtains (success) y es where "children sc ! i = Exited (Inr y) es" "fan_failure sc = None"
      "sc' = sc\<lparr>children := (children sc)[i := JoinedChild], fan_results := fan_results sc @ [(i, y)]\<rparr>"
  | (failure) e where "children sc ! i \<noteq> JoinedChild" "\<not> is_running (children sc ! i)"
      "sc' = sc\<lparr>children := (children sc)[i := JoinedChild], fan_failure := Some e\<rparr>"
  using assms that
  by (auto simp: join_next_def Let_def get_or_insert_def set_child_def
      split: option.splits Child.splits sum.splits if_splits) (metis fan_failure_same)

lemma join_next_keeps:
  assumes "join_next i (sc, sh, l) = Some (sc', sh', l')"
  shows "i < length (children sc) \<and> (\<exists>es. l' = log_extend es l) \<and> fan_stages sc' = fan_stages sc \<and>
    fan_join sc' = fan_join sc \<and> fan_input sc' = fan_input sc \<and> permits sc' = permits sc \<and>
    children sc' = (children sc)[i := JoinedChild]"
proof -
  have "log_extend [] l = l" by (simp add: log_extend_def)
  then show ?thesis
    using assms by (auto simp: join_next_def Let_def set_child_def
        split: option.splits Child.splits sum.splits if_splits) metis
qed

lemma join_next_ok:
  assumes "join_next i (sc, sh, l) = Some (sc', sh', l')" and "fan_ok ex sc"
  shows "fan_ok ex sc'"
proof -
  note keep = join_next_keeps [OF assms(1)]
  have c: "child_ok ex (fan_stages sc ! i) (fan_input sc) (children sc ! i)" and r: "results_ok sc"
    using assms(2) keep by (simp_all add: fan_ok_def)
  have "results_ok sc' \<and> \<not> is_running (children sc ! i)"
    using assms(1)
  proof (cases rule: join_next_cases)
    case (success y es)
    then show ?thesis using c keep results_ok_success [OF r] by (simp add: child_ok_def)
  next
    case (failure e)
    then show ?thesis using results_ok_failure [OF r] keep by simp
  qed
  moreover have "length (filter is_running (children sc')) = length (filter is_running (children sc))"
    using filter_update_length [of i "children sc" is_running JoinedChild] keep calculation by simp
  ultimately show ?thesis
    using keep assms(2) unfolding fan_ok_def by (auto simp: nth_list_update child_ok_def)
qed

text \<open>When every child was joined without a failure, the results are one per branch.\<close>

lemma fan_out_result_ok:
  assumes "fan_out_result sc = Some (Inr outs)" and "fan_ok ex sc"
  shows "group_result (FanOut (fan_stages sc) (fan_join sc)) (fan_input sc) outs"
proof -
  let ?n = "length (fan_stages sc)" and ?rs = "sort_key fst (fan_results sc)"
  have all: "\<forall>c \<in> set (children sc). c = JoinedChild" and f: "fan_failure sc = None"
    and outs: "outs = map snd (if fan_join sc = PreserveInputOrder then ?rs else fan_results sc)"
    using assms(1) by (auto simp: fan_out_result_def list_all_iff split: if_splits option.splits)
  have ok: "results_ok sc" and n: "length (children sc) = ?n" using assms(2) by (auto simp: fan_ok_def)
  have "fst ` set (fan_results sc) = {0..<?n}"
  proof
    show "fst ` set (fan_results sc) \<subseteq> {0..<?n}" using ok n by (auto simp: results_ok_def)
    show "{0..<?n} \<subseteq> fst ` set (fan_results sc)" using ok n all f by (auto simp: results_ok_def)
  qed
  then have "set (map fst ?rs) = {0..<?n}" by simp
  moreover have "sorted (map fst ?rs)" by simp
  moreover have "distinct (map fst ?rs)"
  proof -
    have "mset (map fst ?rs) = mset (map fst (fan_results sc))" by simp
    then show ?thesis using ok mset_eq_imp_distinct_iff unfolding results_ok_def by blast
  qed
  ultimately have idx: "map fst ?rs = [0..<?n]"
    by (metis atLeastLessThan_upt distinct_upt sorted_distinct_set_unique sorted_upt)
  have "branches_result (fan_stages sc) (fan_input sc) (map snd ?rs)"
    unfolding branches_result_def list_all2_conv_all_nth
  proof (intro conjI allI impI)
    show len: "?n = length (map snd ?rs)" using idx by (metis length_map length_upt minus_nat.diff_0)
    fix i
    assume i: "i < ?n"
    then have "?rs ! i = (i, snd (?rs ! i))"
      using idx len by (metis add_0 length_map nth_map nth_upt prod.collapse diff_zero)
    then have "(i, snd (?rs ! i)) \<in> set (fan_results sc)"
      using i len by (metis length_map nth_mem set_sort)
    then show "stage_operation (fan_stages sc ! i) (fan_input sc) (Inr (map snd ?rs ! i))"
      using ok i len by (auto simp: results_ok_def)
  qed
  moreover have "mset (map snd (fan_results sc)) = mset (map snd ?rs)" by simp
  ultimately show ?thesis
    unfolding outs by (cases "fan_join sc") auto
qed

section \<open>Whole pipelines\<close>

fun group_stages :: "PipelineGroup \<Rightarrow> Stage set" where
  "group_stages (Serial stages) = set stages"
| "group_stages (FanOut stages join) = set stages"

definition pipe_ok :: "Executor \<Rightarrow> Pipeline \<Rightarrow> bool" where
  "pipe_ok ex p \<longleftrightarrow> log_ok (log p) \<and> capacity (log p) = event_capacity ex \<and>
     (\<forall>g \<in> set (groups p). \<forall>s \<in> group_stages g. stage_ok s) \<and>
     (case activity p of
        InSerial rest r \<Rightarrow> (\<forall>s \<in> set rest. stage_ok s) \<and> run_ok r \<and> \<not> is_ended (run_phase r)
      | InFanOut sc \<Rightarrow> fan_ok ex sc
      | _ \<Rightarrow> True)"

lemma conclude_ok [simp]: "pipe_ok ex p \<Longrightarrow> pipe_ok ex (conclude result p)"
  by (auto simp: pipe_ok_def conclude_def Let_def split: sum.splits)

lemma next_serial_ok:
  assumes "log_ok (log p)" and "capacity (log p) = event_capacity ex"
    and "\<forall>g \<in> set (groups p). \<forall>s \<in> group_stages g. stage_ok s" and "\<forall>s \<in> set stages. stage_ok s"
  shows "pipe_ok ex (next_serial stages x p)"
  using assms by (auto simp: pipe_ok_def next_serial_def run_ok_def new_run_def split: list.splits)

lemma fan_ok_open:
  "\<forall>s \<in> set stages. stage_ok s \<Longrightarrow> fan_ok ex (open_fan_out ex stages join x)"
  by (auto simp: fan_ok_def open_fan_out_def child_ok_def results_ok_def)

lemma enter_group_ok:
  assumes "pipe_ok ex p"
  shows "pipe_ok ex (enter_group ex p)"
proof (cases "groups p")
  case Nil
  then show ?thesis using assms by (simp add: enter_group_def)
next
  case (Cons g rest)
  let ?p = "p\<lparr>groups := rest\<rparr>"
  have g: "\<forall>s \<in> group_stages g. stage_ok s" "\<forall>g \<in> set rest. \<forall>s \<in> group_stages g. stage_ok s"
    and l: "log_ok (log p)" "capacity (log p) = event_capacity ex"
    using assms Cons by (auto simp: pipe_ok_def)
  have p: "pipe_ok ex (conclude (Inl e) ?p)" for e
    using l g by (auto simp: pipe_ok_def conclude_def Let_def)
  show ?thesis
  proof (cases g)
    case (Serial stages)
    then show ?thesis using Cons p g l next_serial_ok [of ?p] by (auto simp: enter_group_def Let_def)
  next
    case (FanOut stages join)
    then show ?thesis using Cons p g l fan_ok_open by (auto simp: enter_group_def Let_def pipe_ok_def)
  qed
qed

lemma serial_step_ok:
  assumes "serial_step inp rest r p = Some p'" and "pipe_ok ex p" and "activity p = InSerial rest r"
  shows "pipe_ok ex p'"
proof -
  obtain r' sh l where step: "stage_step inp (r, shared p, log p) = Some (r', sh, l)"
    and p': "p' = (let p' = p\<lparr>shared := sh, log := l\<rparr> in
           case run_phase r' of
             Ended (Inr out) \<Rightarrow> next_serial rest out p'
           | Ended (Inl e) \<Rightarrow> conclude (Inl e) p'
           | _ \<Rightarrow> p'\<lparr>activity := InSerial rest r'\<rparr>)"
    using assms(1) by (auto simp: serial_step_def Let_def split: option.splits)
  have r: "run_ok r" "\<forall>s \<in> set rest. stage_ok s" and l0: "log_ok (log p)" "capacity (log p) = event_capacity ex"
    using assms(2,3) by (auto simp: pipe_ok_def)
  have l: "log_ok l" "capacity l = event_capacity ex"
    using stage_step_keeps(3) [OF step] l0 by auto
  have g: "\<forall>g \<in> set (groups p). \<forall>s \<in> group_stages g. stage_ok s" using assms(2) by (simp add: pipe_ok_def)
  have c: "pipe_ok ex (conclude (Inl e) (p\<lparr>shared := sh, log := l\<rparr>))" for e
    using l g by (auto simp: pipe_ok_def conclude_def Let_def)
  show ?thesis
    unfolding p' Let_def
    using c next_serial_ok [of "p\<lparr>shared := sh, log := l\<rparr>"] l g r stage_step_run_ok(1) [OF step r(1)]
    by (auto split: Phase.splits sum.splits) (auto simp: pipe_ok_def)
qed

lemma fan_out_step_ok:
  assumes "fan_out_step ex i sc p = Some p'" and "pipe_ok ex p" and "activity p = InFanOut sc"
  shows "pipe_ok ex p'"
proof -
  have sc: "fan_ok ex sc" and l: "log_ok (log p)" "capacity (log p) = event_capacity ex"
    using assms(2,3) by (auto simp: pipe_ok_def)
  have e: "0 < event_capacity ex" using l by (simp add: log_ok_def)
  show ?thesis
  proof (cases i)
    case (JoinNext k)
    then show ?thesis
      using assms(1,2) join_next_ok [OF _ sc] join_next_keeps l by (fastforce simp: fan_out_step_def pipe_ok_def)
  next
    case JoinDone
    have "pipe_ok ex (p\<lparr>outputs := outs, log := log_push (Joined (length outs)) (log p), activity := AtGroup\<rparr>)" for outs
      using assms(2) l by (auto simp: pipe_ok_def)
    moreover obtain result where "fan_out_result sc = Some result"
      using JoinDone assms(1) by (auto simp: fan_out_step_def)
    ultimately show ?thesis
      using JoinDone assms(1,2) by (cases result) (auto simp: fan_out_step_def)
  next
    case (ChildIn k inp)
    then show ?thesis
      using assms(1,2) child_step_ok [OF _ sc] by (auto simp: fan_out_step_def pipe_ok_def)
  qed (use assms(1,2) acquire_ok [OF _ sc e] child_panic_ok [OF _ sc] in \<open>auto simp: fan_out_step_def pipe_ok_def\<close>)
qed

lemma pipeline_step_ok:
  assumes "pipeline_step ex i p = Some p'" and "pipe_ok ex p"
  shows "pipe_ok ex p'"
proof -
  have "pipe_ok ex p'" if "task_step ex i p = Some p'"
    using that assms(2) enter_group_ok serial_step_ok fan_out_step_ok
    by (auto simp: task_step_def pipe_ok_def [of ex "p\<lparr>activity := Crashed\<rparr>"]
        split: Activity.splits Input.splits Phase.splits if_splits)
      (auto simp: pipe_ok_def)
  then show ?thesis
    using assms by (auto simp: pipeline_step_def pipe_ok_def split: Input.splits)
qed

lemma run_inputs_ok: "run_inputs ex is p = Some p' \<Longrightarrow> pipe_ok ex p \<Longrightarrow> pipe_ok ex p'"
  by (induction ex "is" p rule: run_inputs.induct) (auto split: option.splits intro: pipeline_step_ok)

lemma built_executor_fields:
  "built_executor events width ex \<Longrightarrow> event_capacity ex = events \<and> max_fan_out ex = width \<and> 0 < events \<and> 0 < width"
  by (induction rule: built_executor.induct)
     (auto simp: new_executor_def with_cancellation_grace_def split: if_splits)

definition plan_ok :: "PipelinePlan \<Rightarrow> bool" where
  "plan_ok plan \<longleftrightarrow> (\<forall>g \<in> set plan. \<forall>s \<in> group_stages g. built_stage s)"

lemma start_pipeline_ok:
  assumes "built_executor events width ex" and "plan_ok plan"
  shows "pipe_ok ex (start_pipeline ex plan x t cs)"
proof -
  have "0 < event_capacity ex" using built_executor_fields [OF assms(1)] by simp
  then show ?thesis
    using assms(2) built_stage_ok by (auto simp: pipe_ok_def start_pipeline_def plan_ok_def)
qed

text \<open>What a run may still return.\<close>

definition remaining :: "Pipeline \<Rightarrow> string list \<Rightarrow> bool" where
  "remaining p outs \<longleftrightarrow>
     (case activity p of
        AtGroup \<Rightarrow> plan_result (groups p) (outputs p) outs
      | InSerial rest r \<Rightarrow> (\<exists>y z. stage_operation (run_of r) (run_input r) (Inr y) \<and>
          serial_result rest y z \<and> plan_result (groups p) [z] outs)
      | InFanOut sc \<Rightarrow> (\<exists>ys. group_result (FanOut (fan_stages sc) (fan_join sc)) (fan_input sc) ys \<and>
          plan_result (groups p) ys outs)
      | Stopped result \<Rightarrow> (case result of Inl e \<Rightarrow> False | Inr ok \<Rightarrow> outs = outcome_output ok)
      | Crashed \<Rightarrow> False)"

lemma remaining_conclude: "remaining (conclude result p) outs \<longleftrightarrow> result = Inr outs"
  by (auto simp: remaining_def conclude_def Let_def split: sum.splits)

lemma remaining_next_serial:
  "remaining (next_serial stages x p) outs \<Longrightarrow> \<exists>z. serial_result stages x z \<and> plan_result (groups p) [z] outs"
  by (cases stages) (auto simp: remaining_def next_serial_def new_run_def)

lemma remaining_enter:
  assumes "remaining (enter_group ex p) outs" and "activity p = AtGroup"
  shows "remaining p outs"
proof (cases "groups p")
  case Nil
  then show ?thesis
    using assms by (simp add: enter_group_def remaining_conclude) (simp add: remaining_def)
next
  case (Cons g rest)
  have *: "remaining (p\<lparr>groups := rest, log := l, activity := InFanOut (open_fan_out ex stages join x)\<rparr>) outs \<Longrightarrow>
      \<exists>ys. group_result (FanOut stages join) x ys \<and> plan_result rest ys outs" for l stages join x
    by (auto simp: remaining_def open_fan_out_def)
  show ?thesis
    using assms Cons *
    by (auto simp: enter_group_def Let_def remaining_conclude remaining_def [of p]
        dest: remaining_next_serial split: if_splits PipelineGroup.splits)
      (use remaining_next_serial in fastforce)+
qed

lemma remaining_serial:
  assumes "serial_step inp rest r p = Some p'" and "pipe_ok ex p" and "activity p = InSerial rest r"
    and "remaining p' outs"
  shows "remaining p outs"
proof -
  obtain r' sh l where step: "stage_step inp (r, shared p, log p) = Some (r', sh, l)"
    and p': "p' = (case run_phase r' of
             Ended (Inr out) \<Rightarrow> next_serial rest out (p\<lparr>shared := sh, log := l\<rparr>)
           | Ended (Inl e) \<Rightarrow> conclude (Inl e) (p\<lparr>shared := sh, log := l\<rparr>)
           | _ \<Rightarrow> p\<lparr>shared := sh, log := l, activity := InSerial rest r'\<rparr>)"
    using assms(1) by (auto simp: serial_step_def Let_def split: option.splits)
  have r: "run_ok r" using assms(2,3) by (auto simp: pipe_ok_def)
  note keep = stage_step_keeps(1,2) [OF step]
  show ?thesis
  proof (cases "run_phase r'")
    case (Ended result)
    then obtain y where y: "result = Inr y" "remaining (next_serial rest y (p\<lparr>shared := sh, log := l\<rparr>)) outs"
      using assms(4) by (cases result) (auto simp: p' remaining_conclude)
    have "stage_operation (run_of r) (run_input r) (Inr y)"
      using stage_step_run_ok(1) [OF step r] Ended y(1) keep by (simp add: run_ok_def)
    then show ?thesis
      using remaining_next_serial [OF y(2)] assms(3) by (auto simp: remaining_def)
  qed (use assms(3,4) keep in \<open>auto simp: p' remaining_def\<close>)
qed

lemma remaining_fan_out:
  assumes "fan_out_step ex i sc p = Some p'" and "pipe_ok ex p" and "activity p = InFanOut sc"
    and "remaining p' outs"
  shows "remaining p outs"
proof (cases i)
  case JoinDone
  have sc: "fan_ok ex sc" using assms(2,3) by (simp add: pipe_ok_def)
  obtain result where result: "fan_out_result sc = Some result"
    using JoinDone assms(1) by (auto simp: fan_out_step_def)
  show ?thesis
  proof (cases result)
    case (Inl e)
    then show ?thesis using assms(1,4) result JoinDone by (auto simp: fan_out_step_def remaining_conclude)
  next
    case (Inr ys)
    then have "plan_result (groups p) ys outs"
      using assms(1,4) result JoinDone by (auto simp: fan_out_step_def remaining_def)
    then show ?thesis
      using fan_out_result_ok [OF result [unfolded Inr] sc] assms(3) by (auto simp: remaining_def)
  qed
next
  case (JoinNext k)
  then show ?thesis
    using assms(1,3,4) join_next_keeps by (fastforce simp: fan_out_step_def remaining_def)
next
  case (ChildIn k inp)
  have "fan_stages sc' = fan_stages sc \<and> fan_join sc' = fan_join sc \<and> fan_input sc' = fan_input sc"
    if "child_step k inp (sc, sh) = Some (sc', sh')" for sc' sh sh'
    using that by (auto simp: child_step_def set_child_def split: option.splits Child.splits Phase.splits)
  then show ?thesis
    using ChildIn assms(1,3,4) by (fastforce simp: fan_out_step_def remaining_def)
qed (use assms(1,3,4) in \<open>auto simp: fan_out_step_def remaining_def acquire_def child_panic_def set_child_def
      split: if_splits option.splits Child.splits Phase.splits\<close>)

lemma remaining_step:
  assumes "pipeline_step ex i p = Some p'" and "pipe_ok ex p" and "remaining p' outs"
  shows "remaining p outs"
proof -
  have t: "remaining p outs" if t: "task_step ex i p = Some p'"
  proof (cases "activity p")
    case AtGroup
    then show ?thesis using t assms(3) remaining_enter [of ex p outs] by (simp add: task_step_def split: Input.splits)
  next
    case (InSerial rest r)
    have "serial_step inp rest r p = Some p'" if "i = StageIn inp" for inp
      using that t InSerial by (simp add: task_step_def)
    moreover have "activity p' = Crashed" if "i = Panic"
      using that t InSerial by (auto simp: task_step_def split: Phase.splits)
    moreover have "i = Panic \<or> (\<exists>inp. i = StageIn inp)"
      using t InSerial by (auto simp: task_step_def split: Input.splits)
    ultimately show ?thesis
      using remaining_serial [OF _ assms(2) InSerial assms(3)] assms(3) by (auto simp: remaining_def [of p'])
  next
    case (InFanOut sc)
    then show ?thesis using t remaining_fan_out [OF _ assms(2) InFanOut assms(3)] by (simp add: task_step_def)
  qed (use t in \<open>auto simp: task_step_def\<close>)
  have e: "remaining (p\<lparr>shared := sh\<rparr>) outs = remaining p outs" for sh
    by (cases "activity p") (simp_all add: remaining_def)
  show ?thesis
    using assms(1,3) t e by (cases i) (auto simp: pipeline_step_def)
qed

lemma remaining_run:
  "run_inputs ex is p = Some p' \<Longrightarrow> pipe_ok ex p \<Longrightarrow> remaining p' outs \<Longrightarrow> remaining p outs"
proof (induction ex "is" p rule: run_inputs.induct)
  case (2 ex i "is" p)
  then show ?case using pipeline_step_ok remaining_step by (auto split: option.splits)
qed simp

section \<open>Properties\<close>

text \<open>
  C13. Execution refines the sequential reading of the plan. Whatever the interleaving of children,
  retries, cancellations, clock and other invocations, the outputs of a pipeline that completes are
  those its groups produce one after the other: a serial group the chained results of its
  operations, a fan-out one result per branch, in declaration order or in some order of completion.
\<close>

theorem pipeline_refines_plan:
  assumes "built_executor events width ex" and "plan_ok plan"
    and "run_inputs ex is (start_pipeline ex plan x t cs) = Some p"
    and "activity p = Stopped (Inr outcome)"
  shows "plan_result plan [x] (outcome_output outcome)"
proof -
  have "remaining p (outcome_output outcome)" using assms(4) by (simp add: remaining_def)
  then have "remaining (start_pipeline ex plan x t cs) (outcome_output outcome)"
    using remaining_run [OF assms(3) start_pipeline_ok [OF assms(1,2)]] by blast
  then show ?thesis by (simp add: remaining_def start_pipeline_def)
qed

text \<open>
  C33. Resources stay bounded in every reachable state: the lifecycle log never exceeds its
  capacity, at most as many children run as the executor allows and none of the permits is lost,
  every child's own log is bounded, and no stage is ever called more often than its retry policy
  allows.
\<close>

theorem pipeline_bounded:
  assumes "built_executor events width ex" and "plan_ok plan"
    and "run_inputs ex is (start_pipeline ex plan x t cs) = Some p"
  shows "length (log_events (log p)) \<le> events \<and>
    (\<forall>rest r n. activity p = InSerial rest r \<longrightarrow> run_phase r = InCall n \<longrightarrow>
       n \<le> max_attempts (stage_retry (run_of r))) \<and>
    (\<forall>sc. activity p = InFanOut sc \<longrightarrow>
       permits sc + length (filter is_running (children sc)) = width \<and>
       (\<forall>r l. Running r l \<in> set (children sc) \<longrightarrow> length (log_events l) \<le> events \<and>
          (\<forall>n. run_phase r = InCall n \<longrightarrow> n \<le> max_attempts (stage_retry (run_of r)))))"
proof -
  have ok: "pipe_ok ex p" by (rule run_inputs_ok [OF assms(3) start_pipeline_ok [OF assms(1,2)]])
  have ex: "event_capacity ex = events" "max_fan_out ex = width"
    using built_executor_fields [OF assms(1)] by auto
  have run: "n \<le> max_attempts (stage_retry (run_of r))" if "run_ok r" "run_phase r = InCall n" for r n
    using that by (simp add: run_ok_def attempts_def word_le_nat_alt)
  have child: "length (log_events l) \<le> events \<and> run_ok r"
    if f: "fan_ok ex sc" and m: "Running r l \<in> set (children sc)" for sc r l
  proof -
    obtain i where "i < length (children sc)" "children sc ! i = Running r l"
      using m by (metis in_set_conv_nth)
    then have "child_ok ex (fan_stages sc ! i) (fan_input sc) (Running r l)"
      using f by (metis fan_ok_def)
    then show ?thesis by (auto simp: child_ok_def log_ok_def ex)
  qed
  show ?thesis
    using ok child run by (auto simp: pipe_ok_def log_ok_def ex fan_ok_def)
qed

section \<open>Examples\<close>

definition upper :: operation where
  "upper x r \<longleftrightarrow> r = Inr (x @ ''!'') \<or> r = Inl (Retryable ''busy'')"

definition example_stage :: "string \<Rightarrow> Stage" where
  "example_stage name = with_retry \<lparr>max_attempts = 2, backoff = 5\<rparr> (new_stage name upper)"

definition example_plan :: PipelinePlan where
  "example_plan = [Serial [example_stage ''a''], FanOut [example_stage ''b'', example_stage ''c''] PreserveInputOrder]"

definition example_executor :: Executor where
  "example_executor = \<lparr>event_capacity = 3, max_fan_out = 1, cancellation_grace = 7\<rparr>"

definition example_inputs :: "Input list" where
  "example_inputs =
     [Step, StageIn Poll, StageIn Poll, StageIn (OperationDone (Inl (Retryable ''busy''))), Tick 5,
      StageIn Poll, StageIn Poll, StageIn (OperationDone (Inr ''x!'')), Step, Acquire 1, ChildIn 1 Poll,
      ChildIn 1 Poll, ChildIn 1 (OperationDone (Inr ''x!!'')), Acquire 0, ChildIn 0 Poll, ChildIn 0 Poll,
      JoinNext 1, ChildIn 0 (OperationDone (Inr ''x!!'')), JoinNext 0, JoinDone, Step]"

lemma example_executor_built: "built_executor 3 1 example_executor"
proof -
  let ?ex = "\<lparr>event_capacity = 3, max_fan_out = 1, cancellation_grace = 5000000000\<rparr>"
  have "built_executor 3 1 ?ex" by (rule built_executor.intros) (simp add: new_executor_def)
  then have "built_executor 3 1 (with_cancellation_grace 7 ?ex)" by (rule built_executor.intros)
  then show ?thesis by (simp add: with_cancellation_grace_def example_executor_def)
qed

lemma example_plan_ok: "plan_ok example_plan"
  by (auto simp: plan_ok_def example_plan_def example_stage_def intro: built_stage.intros)

definition stopped_result :: "Pipeline \<Rightarrow> pipeline_result option" where
  "stopped_result p = (case activity p of Stopped result \<Rightarrow> Some result | _ \<Rightarrow> None)"

lemma stopped_result_iff: "stopped_result p = Some result \<longleftrightarrow> activity p = Stopped result"
  by (simp add: stopped_result_def split: Activity.splits)

lemma example_run:
  "Option.bind (run_inputs example_executor example_inputs
     (start_pipeline example_executor example_plan ''x'' 0 Map.empty)) stopped_result =
   Some (Inr \<lparr>outcome_output = [''x!!'', ''x!!''],
     outcome_events = [StageSucceeded ''b'', Joined 2, EvCompleted]\<rparr>)"
  by code_simp

theorem pipeline_refines_plan_witness:
  "plan_result example_plan [''x''] [''x!!'', ''x!!'']"
proof -
  obtain p where "run_inputs example_executor example_inputs
      (start_pipeline example_executor example_plan ''x'' 0 Map.empty) = Some p"
    "activity p = Stopped (Inr \<lparr>outcome_output = [''x!!'', ''x!!''],
       outcome_events = [StageSucceeded ''b'', Joined 2, EvCompleted]\<rparr>)"
    using example_run by (auto simp: Option.bind_eq_Some_conv stopped_result_iff)
  then show ?thesis
    using pipeline_refines_plan [OF example_executor_built example_plan_ok] by fastforce
qed

theorem pipeline_bounded_witness:
  "\<exists>p. run_inputs example_executor example_inputs
      (start_pipeline example_executor example_plan ''x'' 0 Map.empty) = Some p \<and> length (log_events (log p)) \<le> 3"
proof -
  obtain p where "run_inputs example_executor example_inputs
      (start_pipeline example_executor example_plan ''x'' 0 Map.empty) = Some p"
    using example_run by (auto simp: Option.bind_eq_Some_conv)
  then show ?thesis
    using pipeline_bounded [OF example_executor_built example_plan_ok] by blast
qed

text \<open>
  A deadline leaves no trace: when the deadline of a stage elapses, the stage ends with the
  deadline error, no failure is recorded in the circuit of the stage and no event is logged.
\<close>

theorem deadline_unrecorded:
  assumes "stage_step DeadlineElapsed (r, sh, l) = Some (r', sh', l')"
  shows "run_phase r' = Ended (Inl (Deadline (stage_name (run_of r)))) \<and> sh' = sh \<and> l' = l"
  using assms by (auto simp: stage_step_def Let_def split: Phase.splits option.splits if_splits)

theorem deadline_unrecorded_witness:
  "\<exists>r'. stage_step DeadlineElapsed
      (\<lparr>run_of = with_deadline 5 (new_stage ''s'' upper), run_input = ''x'', run_phase = InCall 1,
        run_deadline = Some 5\<rparr>, \<lparr>now = 9, cancelled = False, circuit_table = Map.empty\<rparr>, new_log 3) =
      Some (r', \<lparr>now = 9, cancelled = False, circuit_table = Map.empty\<rparr>, new_log 3) \<and>
    run_phase r' = Ended (Inl (Deadline ''s''))"
proof -
  let ?r = "\<lparr>run_of = with_deadline 5 (new_stage ''s'' upper), run_input = ''x'', run_phase = InCall 1,
        run_deadline = Some 5\<rparr>"
  let ?sh = "\<lparr>now = 9, cancelled = False, circuit_table = Map.empty\<rparr>"
  obtain r' sh' l' where step: "stage_step DeadlineElapsed (?r, ?sh, new_log 3) = Some (r', sh', l')"
    by (simp add: stage_step_def Let_def)
  show ?thesis
    using deadline_unrecorded [OF step] step by (simp add: with_deadline_def new_stage_def)
qed

text \<open>
  The circuit breaker has no half-open state: once the reset time has passed, a check closes the
  circuit, and every further check is admitted whatever the time, with no result recorded between.
\<close>

theorem circuit_reset_admits_all:
  assumes "stage_circuit s = Some policy" and "check_circuit s t cs = (Inr (), cs')"
  shows "fst (check_circuit s t' cs') = Inr ()"
  using assms by (auto simp: check_circuit_def Let_def circuit_entry_def closed_circuit_def
      split: option.splits if_splits)

theorem circuit_reset_admits_all_witness:
  "\<exists>cs'. check_circuit (with_circuit \<lparr>failure_threshold = 1, reset_after = 10\<rparr> (new_stage ''s'' upper)) 20
      [''s'' \<mapsto> \<lparr>failures = 1, opened_at = Some 3\<rparr>] = (Inr (), cs') \<and>
    fst (check_circuit (with_circuit \<lparr>failure_threshold = 1, reset_after = 10\<rparr> (new_stage ''s'' upper)) 20 cs') = Inr ()"
proof -
  let ?s = "with_circuit \<lparr>failure_threshold = 1, reset_after = 10\<rparr> (new_stage ''s'' upper)"
  have s: "stage_circuit ?s = Some \<lparr>failure_threshold = 1, reset_after = 10\<rparr>" "stage_name ?s = ''s''"
    by (simp_all add: with_circuit_def new_stage_def)
  obtain cs' where "check_circuit ?s 20 [''s'' \<mapsto> \<lparr>failures = 1, opened_at = Some 3\<rparr>] = (Inr (), cs')"
    using s by (simp add: check_circuit_def circuit_entry_def Let_def)
  then show ?thesis using circuit_reset_admits_all [OF s(1)] by blast
qed

end
