(* ===== verification/Pipeline_Live.thy ===== *)
theory Pipeline_Live
  imports Pipeline_Sound
begin

text \<open>
  Pipelines end: every move of the root task or a child uses up a weight fixed by the plan, and as
  long as the pipeline has not ended some task can move, at once or when the clock has advanced.
\<close>

section \<open>Weights\<close>

definition stage_weight :: "Stage \<Rightarrow> nat" where
  "stage_weight s = 3 * unat (max_attempts (stage_retry s)) + 5"

fun group_weight :: "PipelineGroup \<Rightarrow> nat" where
  "group_weight (Serial stages) = sum_list (map stage_weight stages) + 1"
| "group_weight (FanOut stages join) = sum_list (map (\<lambda>s. stage_weight s + 3) stages) + 2"

definition plan_weight :: "PipelinePlan \<Rightarrow> nat" where
  "plan_weight plan = sum_list (map group_weight plan)"

fun child_weight :: "Stage \<Rightarrow> Child \<Rightarrow> nat" where
  "child_weight s Waiting = stage_weight s + 2"
| "child_weight s (Running r l) = run_weight r + 2"
| "child_weight s (Exited result events) = 1"
| "child_weight s ChildPanicked = 1"
| "child_weight s JoinedChild = 0"

definition scope_weight :: "FanOutScope \<Rightarrow> nat" where
  "scope_weight sc = (\<Sum>i < length (children sc). child_weight (fan_stages sc ! i) (children sc ! i))"

definition pipe_weight :: "Pipeline \<Rightarrow> nat" where
  "pipe_weight p =
     (case activity p of
        AtGroup \<Rightarrow> plan_weight (groups p) + 1
      | InSerial rest r \<Rightarrow> run_weight r + sum_list (map stage_weight rest) + plan_weight (groups p) + 2
      | InFanOut sc \<Rightarrow> scope_weight sc + plan_weight (groups p) + 2
      | Stopped result \<Rightarrow> 0
      | Crashed \<Rightarrow> 0)"

lemma run_weight_new [simp]: "run_weight (new_run s x) + 1 = stage_weight s"
  by (simp add: run_weight_def new_run_def stage_weight_def attempts_def)

lemma pipe_weight_conclude [simp]: "pipe_weight (conclude result p) = 0"
  by (auto simp: pipe_weight_def conclude_def Let_def split: sum.splits)

lemma pipe_weight_next_serial:
  "pipe_weight (next_serial stages x p) \<le> sum_list (map stage_weight stages) + plan_weight (groups p) + 1"
proof (cases stages)
  case (Cons s rest)
  then show ?thesis using run_weight_new [of s x] by (simp add: pipe_weight_def next_serial_def)
qed (simp add: pipe_weight_def next_serial_def)

lemma scope_weight_child:
  assumes "i < length (children sc)" and "child_weight (fan_stages sc ! i) c < child_weight (fan_stages sc ! i) (children sc ! i)"
    and "children sc' = (children sc)[i := c]" and "fan_stages sc' = fan_stages sc"
  shows "scope_weight sc' < scope_weight sc"
proof -
  have "(\<Sum>k < length (children sc). child_weight (fan_stages sc ! k) ((children sc)[i := c] ! k)) <
      (\<Sum>k < length (children sc). child_weight (fan_stages sc ! k) (children sc ! k))"
    using assms(1,2) by (intro sum_strict_mono_ex1) (auto simp: nth_list_update intro: less_imp_le)
  then show ?thesis by (simp add: scope_weight_def assms(3,4))
qed

lemma scope_weight_open:
  "scope_weight (open_fan_out ex stages join x) = sum_list (map (\<lambda>s. stage_weight s + 2) stages)"
  by (simp add: scope_weight_def open_fan_out_def sum_list_sum_nth atLeast0LessThan)

lemma enter_group_weight:
  assumes "activity p = AtGroup"
  shows "pipe_weight (enter_group ex p) < pipe_weight p"
proof (cases "groups p")
  case Nil
  then show ?thesis using assms by (simp add: enter_group_def pipe_weight_def [of p])
next
  case (Cons g rest)
  let ?p = "p\<lparr>groups := rest\<rparr>"
  have w: "pipe_weight p = group_weight g + plan_weight rest + 1"
    using assms Cons by (simp add: pipe_weight_def plan_weight_def)
  show ?thesis
  proof (cases g)
    case (Serial stages)
    then show ?thesis
      using Cons w pipe_weight_next_serial [of stages "last (outputs p)" ?p]
      by (auto simp: enter_group_def Let_def)
  next
    case (FanOut stages join)
    have "sum_list (map (\<lambda>s. stage_weight s + 2) stages) \<le> sum_list (map (\<lambda>s. stage_weight s + 3) stages)"
      by (rule sum_list_mono) simp
    then show ?thesis
      using FanOut Cons w scope_weight_open [of ex stages join "last (outputs p)"]
      by (auto simp: enter_group_def Let_def) (simp add: pipe_weight_def)
  qed
qed

lemma serial_step_weight:
  assumes "serial_step inp rest r p = Some p'" and "run_ok r" and "activity p = InSerial rest r"
  shows "pipe_weight p' < pipe_weight p"
proof -
  obtain r' sh l where step: "stage_step inp (r, shared p, log p) = Some (r', sh, l)"
    and p': "p' = (case run_phase r' of
             Ended (Inr out) \<Rightarrow> next_serial rest out (p\<lparr>shared := sh, log := l\<rparr>)
           | Ended (Inl e) \<Rightarrow> conclude (Inl e) (p\<lparr>shared := sh, log := l\<rparr>)
           | _ \<Rightarrow> p\<lparr>shared := sh, log := l, activity := InSerial rest r'\<rparr>)"
    using assms(1) by (auto simp: serial_step_def Let_def split: option.splits)
  note less = stage_step_run_ok(2) [OF step assms(2)]
  have w: "pipe_weight p = run_weight r + sum_list (map stage_weight rest) + plan_weight (groups p) + 2"
    using assms(3) by (simp add: pipe_weight_def)
  have n: "pipe_weight (next_serial rest y (p\<lparr>shared := sh, log := l\<rparr>)) < pipe_weight p" for y
    using w pipe_weight_next_serial [of rest y "p\<lparr>shared := sh, log := l\<rparr>"] by simp
  show ?thesis
  proof (cases "run_phase r'")
    case (Ended result)
    then show ?thesis using n w by (cases result) (auto simp: p')
  qed (use w less in \<open>auto simp: p' pipe_weight_def\<close>)
qed

lemma child_step_weight:
  assumes "child_step i inp (sc, sh) = Some (sc', sh')" and "fan_ok ex sc"
  shows "scope_weight sc' < scope_weight sc"
proof -
  obtain r l r' l' where i: "i < length (children sc)" "children sc ! i = Running r l"
    and step: "stage_step inp (r, sh, l) = Some (r', sh', l')"
    and sc': "sc' = (case run_phase r' of
        Ended res \<Rightarrow> set_child i (Exited res (log_events l')) (sc\<lparr>permits := permits sc + 1\<rparr>)
      | _ \<Rightarrow> set_child i (Running r' l') sc)"
    using assms(1) by (auto simp: child_step_def split: option.splits Child.splits Phase.splits)
  have "child_ok ex (fan_stages sc ! i) (fan_input sc) (Running r l)"
    using assms(2) i by (metis fan_ok_def)
  then have "run_weight r' < run_weight r" using stage_step_run_ok(2) [OF step] by (simp add: child_ok_def)
  then show ?thesis
    unfolding sc' using i
    by (auto simp: set_child_def split: Phase.split intro!: scope_weight_child [of i sc])
qed

lemma join_next_weight:
  assumes "join_next i (sc, sh, l) = Some (sc', sh', l')"
  shows "scope_weight sc' < scope_weight sc"
proof -
  note keep = join_next_keeps [OF assms]
  have "children sc ! i \<noteq> JoinedChild"
    using assms by (cases rule: join_next_cases) auto
  then have "0 < child_weight (fan_stages sc ! i) (children sc ! i)" by (cases "children sc ! i") auto
  then show ?thesis using keep by (intro scope_weight_child [of i sc JoinedChild]) auto
qed

lemma acquire_weight: "acquire ex i sc = Some sc' \<Longrightarrow> scope_weight sc' < scope_weight sc"
  using run_weight_new [of "fan_stages sc ! i" "fan_input sc"]
  by (auto simp: acquire_def set_child_def split: option.splits Child.splits if_splits
      intro!: scope_weight_child [of i sc])

lemma child_panic_weight: "child_panic i sc = Some sc' \<Longrightarrow> scope_weight sc' < scope_weight sc"
  by (auto simp: child_panic_def set_child_def split: option.splits Child.splits Phase.splits
      intro!: scope_weight_child [of i sc])

lemma fan_out_step_weight:
  assumes "fan_out_step ex i sc p = Some p'" and "fan_ok ex sc" and "activity p = InFanOut sc"
  shows "pipe_weight p' < pipe_weight p"
proof -
  have w: "pipe_weight p = scope_weight sc + plan_weight (groups p) + 2"
    using assms(3) by (simp add: pipe_weight_def)
  show ?thesis
  proof (cases i)
    case JoinDone
    then obtain result where "fan_out_result sc = Some result"
      using assms(1) by (auto simp: fan_out_step_def)
    then show ?thesis
      using JoinDone assms(1) w by (cases result) (auto simp: fan_out_step_def pipe_weight_def [of "p\<lparr>outputs := _, log := _, activity := _\<rparr>"])
  next
    case (Acquire k)
    then show ?thesis using assms(1) w acquire_weight by (fastforce simp: fan_out_step_def pipe_weight_def)
  next
    case (ChildIn k inp)
    then show ?thesis using assms(1) w child_step_weight [OF _ assms(2)] by (fastforce simp: fan_out_step_def pipe_weight_def)
  next
    case (ChildPanic k)
    then show ?thesis using assms(1) w child_panic_weight by (fastforce simp: fan_out_step_def pipe_weight_def)
  next
    case (JoinNext k)
    then show ?thesis using assms(1) w join_next_weight by (fastforce simp: fan_out_step_def pipe_weight_def)
  qed (use assms(1) in \<open>auto simp: fan_out_step_def\<close>)
qed

text \<open>The clock, the caller and other invocations.\<close>

fun environment :: "Input \<Rightarrow> bool" where
  "environment RequestCancel = True"
| "environment (Tick d) = True"
| "environment (Interfere cs) = True"
| "environment _ = False"

lemma pipeline_step_weight:
  assumes "pipeline_step ex i p = Some p'" and "pipe_ok ex p"
  shows "if environment i then pipe_weight p' = pipe_weight p else pipe_weight p' < pipe_weight p"
proof (cases "environment i")
  case True
  have "pipe_weight (p\<lparr>shared := sh\<rparr>) = pipe_weight p" for sh
    by (cases "activity p") (simp_all add: pipe_weight_def)
  then show ?thesis using True assms(1) by (cases i) (auto simp: pipeline_step_def)
next
  case False
  then have t: "task_step ex i p = Some p'"
    using assms(1) by (cases i) (auto simp: pipeline_step_def)
  have "pipe_weight p' < pipe_weight p"
  proof (cases "activity p")
    case AtGroup
    then show ?thesis using t enter_group_weight [of p ex] by (auto simp: task_step_def split: Input.splits)
  next
    case (InSerial rest r)
    then have "run_ok r" using assms(2) by (simp add: pipe_ok_def)
    then show ?thesis
      using t InSerial serial_step_weight [of _ rest r p p']
      by (auto simp: task_step_def pipe_weight_def split: Input.splits Phase.splits)
  next
    case (InFanOut sc)
    then have "fan_ok ex sc" using assms(2) by (simp add: pipe_ok_def)
    then show ?thesis using t InFanOut fan_out_step_weight by (auto simp: task_step_def)
  qed (use t in \<open>auto simp: task_step_def\<close>)
  then show ?thesis using False by simp
qed

lemma run_inputs_weight:
  assumes "run_inputs ex is p = Some p'" and "pipe_ok ex p"
  shows "length (filter (\<lambda>i. \<not> environment i) is) + pipe_weight p' \<le> pipe_weight p"
  using assms
proof (induction ex "is" p rule: run_inputs.induct)
  case (2 ex i "is" p)
  then obtain p1 where p1: "pipeline_step ex i p = Some p1" "run_inputs ex is p1 = Some p'"
    by (auto split: option.splits)
  then show ?case
    using 2(1) [OF p1] pipeline_step_ok [OF p1(1) 2(3)] pipeline_step_weight [OF p1(1) 2(3)]
    by (auto split: if_splits)
qed simp

section \<open>Progress\<close>

text \<open>The stages a pipeline may still run.\<close>

definition stages_left :: "Pipeline \<Rightarrow> Stage set" where
  "stages_left p = (\<Union>g \<in> set (groups p). group_stages g) \<union>
     (case activity p of
        InSerial rest r \<Rightarrow> insert (run_of r) (set rest)
      | InFanOut sc \<Rightarrow> set (fan_stages sc)
      | _ \<Rightarrow> {})"

definition answers :: "Stage \<Rightarrow> bool" where
  "answers s \<longleftrightarrow> (\<forall>x. \<exists>result. stage_operation s x result)"

lemma stages_left_conclude: "stages_left (conclude result p) \<subseteq> stages_left p"
  by (auto simp: stages_left_def conclude_def Let_def split: sum.splits)

lemma stages_left_next_serial:
  "stages_left (next_serial stages x p) \<subseteq> (\<Union>g \<in> set (groups p). group_stages g) \<union> set stages"
  by (auto simp: stages_left_def next_serial_def new_run_def split: list.splits)

lemma stages_left_task_step:
  assumes "task_step ex i p = Some p'"
  shows "stages_left p' \<subseteq> stages_left p"
proof (cases "activity p")
  case AtGroup
  then have p': "p' = enter_group ex p" using assms by (auto simp: task_step_def split: Input.splits)
  show ?thesis
  proof (cases "groups p")
    case (Cons g rest)
    have c: "stages_left (conclude (Inl e) (p\<lparr>groups := rest\<rparr>)) \<subseteq> stages_left p" for e
      using stages_left_conclude [of "Inl e" "p\<lparr>groups := rest\<rparr>"] Cons AtGroup by (auto simp: stages_left_def)
    have n: "stages_left (next_serial stages x (p\<lparr>groups := rest\<rparr>)) \<subseteq> stages_left p" if "g = Serial stages" for stages x
      using stages_left_next_serial [of stages x "p\<lparr>groups := rest\<rparr>"] Cons that
      by (auto simp: stages_left_def [of p])
    have f: "stages_left (p\<lparr>groups := rest, log := l, activity := InFanOut (open_fan_out ex stages join x)\<rparr>)
        \<subseteq> stages_left p" if "g = FanOut stages join" for l stages join x
      using Cons that by (auto simp: stages_left_def open_fan_out_def)
    show ?thesis
      using c n f Cons by (cases g) (simp_all add: p' enter_group_def Let_def)
  qed (use stages_left_conclude in \<open>simp add: p' enter_group_def\<close>)
next
  case (InSerial rest r)
  have "stages_left p' \<subseteq> stages_left p" if s: "serial_step inp rest r p = Some p'" for inp
  proof -
    obtain r' sh l where step: "stage_step inp (r, shared p, log p) = Some (r', sh, l)"
      and p': "p' = (case run_phase r' of
               Ended (Inr out) \<Rightarrow> next_serial rest out (p\<lparr>shared := sh, log := l\<rparr>)
             | Ended (Inl e) \<Rightarrow> conclude (Inl e) (p\<lparr>shared := sh, log := l\<rparr>)
             | _ \<Rightarrow> p\<lparr>shared := sh, log := l, activity := InSerial rest r'\<rparr>)"
      using s by (auto simp: serial_step_def Let_def split: option.splits)
    have n: "stages_left (next_serial rest y (p\<lparr>shared := sh, log := l\<rparr>)) \<subseteq> stages_left p" for y
      using stages_left_next_serial [of rest y "p\<lparr>shared := sh, log := l\<rparr>"] InSerial by (auto simp: stages_left_def)
    have c: "stages_left (conclude (Inl e) (p\<lparr>shared := sh, log := l\<rparr>)) \<subseteq> stages_left p" for e
      using stages_left_conclude [of "Inl e" "p\<lparr>shared := sh, log := l\<rparr>"] by (auto simp: stages_left_def)
    have k: "stages_left (p\<lparr>shared := sh, log := l, activity := InSerial rest r'\<rparr>) \<subseteq> stages_left p"
      using stage_step_keeps(1) [OF step] InSerial by (auto simp: stages_left_def)
    show ?thesis using n c k by (cases "run_phase r'") (auto simp: p' split: sum.splits)
  qed
  then show ?thesis
    using assms InSerial by (cases i) (auto simp: task_step_def stages_left_def split: Phase.splits)
next
  case (InFanOut sc)
  have keep: "fan_stages sc' = fan_stages sc"
    if "acquire ex k sc = Some sc' \<or> child_step k inp (sc, shared p) = Some (sc', sh) \<or> child_panic k sc = Some sc'
      \<or> join_next k (sc, shared p, log p) = Some (sc', sh, l)" for k inp sc' sh l
    using that join_next_keeps [of k sc "shared p" "log p" sc' sh l]
    by (auto simp: acquire_def child_step_def child_panic_def set_child_def
        split: option.splits Child.splits Phase.splits if_splits)
  have c: "stages_left (conclude (Inl e) p) \<subseteq> stages_left p" for e by (rule stages_left_conclude)
  show ?thesis
    using assms InFanOut
  proof (cases i)
    case JoinDone
    then obtain result where "fan_out_result sc = Some result"
      using assms InFanOut by (auto simp: task_step_def fan_out_step_def)
    then have result: "(case result of Inl e \<Rightarrow> conclude (Inl e) p
        | Inr outs \<Rightarrow> p\<lparr>outputs := outs, log := log_push (Joined (length outs)) (log p), activity := AtGroup\<rparr>) = p'"
      using JoinDone assms InFanOut by (simp add: task_step_def fan_out_step_def)
    show ?thesis
    proof (cases result)
      case (Inl e)
      then have "p' = conclude (Inl e) p" using result by simp
      then show ?thesis using c by simp
    next
      case (Inr outs)
      then have "p' = p\<lparr>outputs := outs, log := log_push (Joined (length outs)) (log p), activity := AtGroup\<rparr>"
        using result by simp
      then show ?thesis by (auto simp: stages_left_def)
    qed
  qed (use keep in \<open>fastforce simp: task_step_def fan_out_step_def stages_left_def\<close>)+
qed (use assms in \<open>auto simp: task_step_def\<close>)

lemma stage_can_move:
  assumes "\<not> is_ended (run_phase r)" and "answers (run_of r)"
  shows "\<exists>d inp. stage_step inp (r, sh\<lparr>now := now sh + d\<rparr>, l) \<noteq> None"
proof (cases "run_phase r")
  case (InCall n)
  obtain result where "stage_operation (run_of r) (run_input r) result"
    using assms(2) by (auto simp: answers_def)
  then have "stage_step (OperationDone result) (r, sh\<lparr>now := now sh + 0\<rparr>, l) \<noteq> None"
    using InCall by (simp add: stage_step_def Let_def del: not_None_eq split: sum.split StageError.split)
  then show ?thesis by blast
next
  case (Backoff n wake)
  then have "stage_step Poll (r, sh\<lparr>now := now sh + wake\<rparr>, l) \<noteq> None" by (simp add: stage_step_def Let_def del: not_None_eq)
  then show ?thesis by blast
next
  case Ready
  then have "stage_step Poll (r, sh\<lparr>now := now sh + 0\<rparr>, l) \<noteq> None" by (simp add: stage_step_def Let_def del: not_None_eq)
  then show ?thesis by blast
next
  case (LoopHead n)
  then have "stage_step Poll (r, sh\<lparr>now := now sh + 0\<rparr>, l) \<noteq> None" by (simp add: stage_step_def Let_def del: not_None_eq)
  then show ?thesis by blast
qed (use assms(1) in simp)

fun ended :: "Activity \<Rightarrow> bool" where
  "ended (Stopped result) = True"
| "ended Crashed = True"
| "ended _ = False"

text \<open>A fan-out can move: a child can be joined, run, or given a permit another child has released.\<close>

lemma fan_out_can_move:
  assumes "activity p = InFanOut sc" and "fan_ok ex sc" and "0 < max_fan_out ex"
    and "\<forall>s \<in> set (fan_stages sc). answers s"
  shows "\<exists>d i. \<not> environment i \<and> fan_out_step ex i sc (p\<lparr>shared := (shared p)\<lparr>now := now (shared p) + d\<rparr>\<rparr>) \<noteq> None"
proof -
  have run: ?thesis if k: "k < length (children sc)" "is_running (children sc ! k)" for k
  proof -
    obtain r l where c: "children sc ! k = Running r l" using k(2) by (cases "children sc ! k") auto
    then have "child_ok ex (fan_stages sc ! k) (fan_input sc) (Running r l)" using assms(2) k(1) by (metis fan_ok_def)
    moreover have "answers (fan_stages sc ! k)" using assms(2,4) k(1) by (simp add: fan_ok_def)
    ultimately have "\<not> is_ended (run_phase r)" "answers (run_of r)" by (auto simp: child_ok_def)
    then obtain d inp where "stage_step inp (r, (shared p)\<lparr>now := now (shared p) + d\<rparr>, l) \<noteq> None"
      using stage_can_move by blast
    then have "fan_out_step ex (ChildIn k inp) sc (p\<lparr>shared := (shared p)\<lparr>now := now (shared p) + d\<rparr>\<rparr>) \<noteq> None"
      using c k(1) by (auto simp: fan_out_step_def child_step_def nth_opt_def split: Phase.split)
    moreover have "\<not> environment (ChildIn k inp)" by simp
    ultimately show ?thesis by blast
  qed
  show ?thesis
  proof (cases "\<exists>k < length (children sc). is_running (children sc ! k)")
    case True
    then show ?thesis using run by blast
  next
    case none: False
    then have "filter is_running (children sc) = []" by (auto simp: filter_empty_conv in_set_conv_nth)
    then have permits: "0 < permits sc" using assms(2,3) by (simp add: fan_ok_def)
    show ?thesis
    proof (cases "\<forall>c \<in> set (children sc). c = JoinedChild")
      case True
      then have "fan_out_step ex JoinDone sc (p\<lparr>shared := (shared p)\<lparr>now := now (shared p) + 0\<rparr>\<rparr>) \<noteq> None"
        by (simp add: fan_out_step_def fan_out_result_def list_all_iff)
      moreover have "\<not> environment JoinDone" by simp
      ultimately show ?thesis by blast
    next
      case False
      then obtain k where k: "k < length (children sc)" "children sc ! k \<noteq> JoinedChild" by (metis in_set_conv_nth)
      have "fan_out_step ex (if children sc ! k = Waiting then Acquire k else JoinNext k) sc
          (p\<lparr>shared := (shared p)\<lparr>now := now (shared p) + 0\<rparr>\<rparr>) \<noteq> None"
        using none k permits
        by (cases "children sc ! k")
          (auto simp: fan_out_step_def acquire_def join_next_def nth_opt_def Let_def split: sum.split)
      moreover have "\<not> environment (if children sc ! k = Waiting then Acquire k else JoinNext k)" by simp
      ultimately show ?thesis by blast
    qed
  qed
qed

lemma pipeline_can_move:
  assumes "pipe_ok ex p" and "0 < max_fan_out ex" and "\<not> ended (activity p)" and "\<forall>s \<in> stages_left p. answers s"
  shows "\<exists>d i p'. \<not> environment i \<and> run_inputs ex [Tick d, i] p = Some p'"
proof -
  have "\<exists>d i. \<not> environment i \<and> task_step ex i (p\<lparr>shared := (shared p)\<lparr>now := now (shared p) + d\<rparr>\<rparr>) \<noteq> None"
  proof (cases "activity p")
    case AtGroup
    then have "task_step ex Step (p\<lparr>shared := (shared p)\<lparr>now := now (shared p) + 0\<rparr>\<rparr>) \<noteq> None"
      by (simp add: task_step_def)
    moreover have "\<not> environment Step" by simp
    ultimately show ?thesis by blast
  next
    case (InSerial rest r)
    then have "\<not> is_ended (run_phase r)" "answers (run_of r)"
      using assms(1,4) by (auto simp: pipe_ok_def stages_left_def)
    then obtain d inp where "stage_step inp (r, (shared p)\<lparr>now := now (shared p) + d\<rparr>, log p) \<noteq> None"
      using stage_can_move by blast
    then have "task_step ex (StageIn inp) (p\<lparr>shared := (shared p)\<lparr>now := now (shared p) + d\<rparr>\<rparr>) \<noteq> None"
      using InSerial by (auto simp: task_step_def serial_step_def Let_def)
    moreover have "\<not> environment (StageIn inp)" by simp
    ultimately show ?thesis by blast
  next
    case (InFanOut sc)
    then have "fan_ok ex sc" "\<forall>s \<in> set (fan_stages sc). answers s"
      using assms(1,4) by (auto simp: pipe_ok_def stages_left_def)
    then show ?thesis using fan_out_can_move [OF InFanOut] assms(2) InFanOut by (simp add: task_step_def)
  qed (use assms(3) in auto)
  then obtain d i where *: "\<not> environment i" "task_step ex i (p\<lparr>shared := (shared p)\<lparr>now := now (shared p) + d\<rparr>\<rparr>) \<noteq> None"
    by blast
  have "run_inputs ex [Tick d, i] p = task_step ex i (p\<lparr>shared := (shared p)\<lparr>now := now (shared p) + d\<rparr>\<rparr>)"
    using *(1) by (cases i) (auto simp: pipeline_step_def split: option.splits)
  then show ?thesis using * by (metis option.exhaust)
qed

text \<open>Therefore a run can always be continued to its end.\<close>

lemma pipeline_can_end:
  assumes "pipe_ok ex p" and "0 < max_fan_out ex" and "\<forall>s \<in> stages_left p. answers s"
  shows "\<exists>is p'. run_inputs ex is p = Some p' \<and> ended (activity p')"
  using assms
proof (induction "pipe_weight p" arbitrary: p rule: less_induct)
  case less
  show ?case
  proof (cases "ended (activity p)")
    case True
    then show ?thesis by (intro exI [of _ "[]"]) simp
  next
    case False
    then obtain d i p1 where i: "\<not> environment i" and p1: "run_inputs ex [Tick d, i] p = Some p1"
      using pipeline_can_move less.prems by blast
    have "pipe_weight p1 < pipe_weight p" using run_inputs_weight [OF p1 less.prems(1)] i by simp
    moreover have ok1: "pipe_ok ex p1" by (rule run_inputs_ok [OF p1 less.prems(1)])
    moreover have "stages_left p1 \<subseteq> stages_left p"
    proof -
      let ?p = "p\<lparr>shared := (shared p)\<lparr>now := now (shared p) + d\<rparr>\<rparr>"
      have "task_step ex i ?p = Some p1"
        using p1 i by (cases i) (auto simp: pipeline_step_def split: option.splits)
      moreover have "stages_left ?p = stages_left p" by (simp add: stages_left_def)
      ultimately show ?thesis using stages_left_task_step by blast
    qed
    ultimately obtain "is" p2 where "run_inputs ex is p1 = Some p2" "ended (activity p2)"
      using less.hyps [of p1] less.prems by blast
    then have "run_inputs ex (Tick d # i # is) p = Some p2" using p1 by (auto split: option.splits)
    then show ?thesis using \<open>ended (activity p2)\<close> by blast
  qed
qed

lemma run_inputs_append:
  "run_inputs ex (xs @ ys) p = Option.bind (run_inputs ex xs p) (run_inputs ex ys)"
  by (induction ex xs p rule: run_inputs.induct) (auto split: option.splits)

lemma stages_left_run:
  "run_inputs ex is p = Some p' \<Longrightarrow> stages_left p' \<subseteq> stages_left p"
proof (induction ex "is" p rule: run_inputs.induct)
  case (2 ex i "is" p)
  then obtain p1 where p1: "pipeline_step ex i p = Some p1" "run_inputs ex is p1 = Some p'"
    by (auto split: option.splits)
  have "stages_left p1 \<subseteq> stages_left p"
    using p1(1) stages_left_task_step [of ex i p p1]
    by (cases i) (auto simp: pipeline_step_def stages_left_def [of "p\<lparr>shared := _\<rparr>"] stages_left_def [of p])
  then show ?case using 2(1) [OF p1] by blast
qed simp

lemma pipe_weight_start: "pipe_weight (start_pipeline ex plan x t cs) = plan_weight plan + 1"
  by (simp add: pipe_weight_def start_pipeline_def)

lemma stages_left_start: "stages_left (start_pipeline ex plan x t cs) = (\<Union>g \<in> set plan. group_stages g)"
  by (simp add: stages_left_def start_pipeline_def)

section \<open>Properties\<close>

text \<open>
  C32. The tasks of a pipeline make at most one move more than the weight of its plan, whatever the
  operations answer and however the clock, the caller and other invocations interleave; the weight
  counts three moves per attempt and a constant number per stage and group, and the one move more
  is the last step of the root task.
\<close>

theorem pipeline_steps_bounded:
  assumes "built_executor events width ex" and "plan_ok plan"
    and "run_inputs ex is (start_pipeline ex plan x t cs) = Some p"
  shows "length (filter (\<lambda>i. \<not> environment i) is) \<le> plan_weight plan + 1"
  using run_inputs_weight [OF assms(3) start_pipeline_ok [OF assms(1,2)]]
  by (simp add: pipe_weight_start)

theorem pipeline_steps_bounded_witness:
  "length (filter (\<lambda>i. \<not> environment i) example_inputs) \<le> plan_weight example_plan + 1"
proof -
  obtain p where "run_inputs example_executor example_inputs
      (start_pipeline example_executor example_plan ''x'' 0 Map.empty) = Some p"
    using example_run by (auto simp: Option.bind_eq_Some_conv)
  then show ?thesis by (rule pipeline_steps_bounded [OF example_executor_built example_plan_ok])
qed

text \<open>
  C14. A pipeline never gets stuck: when its operations can answer, every reachable state can be
  continued to one in which the pipeline has ended. No permit is lost, no child is forgotten and no
  join waits for ever.
\<close>

theorem pipeline_can_always_end:
  assumes "built_executor events width ex" and "plan_ok plan"
    and "\<forall>g \<in> set plan. \<forall>s \<in> group_stages g. answers s"
    and "run_inputs ex is (start_pipeline ex plan x t cs) = Some p"
  shows "\<exists>more p'. run_inputs ex (is @ more) (start_pipeline ex plan x t cs) = Some p' \<and> ended (activity p')"
proof -
  have ok: "pipe_ok ex p" by (rule run_inputs_ok [OF assms(4) start_pipeline_ok [OF assms(1,2)]])
  have "\<forall>s \<in> stages_left p. answers s"
    using stages_left_run [OF assms(4)] assms(3) by (auto simp: stages_left_start)
  then obtain more p' where "run_inputs ex more p = Some p'" "ended (activity p')"
    using pipeline_can_end [OF ok] built_executor_fields [OF assms(1)] by metis
  then show ?thesis using assms(4) by (auto simp: run_inputs_append)
qed

theorem pipeline_can_always_end_witness:
  "\<exists>more p'. run_inputs example_executor ([] @ more) (start_pipeline example_executor example_plan ''x'' 0 Map.empty) =
     Some p' \<and> ended (activity p')"
proof (rule pipeline_can_always_end [OF example_executor_built example_plan_ok])
  have "answers (example_stage name)" for name
    by (auto simp: answers_def example_stage_def with_retry_def new_stage_def upper_def)
  then show "\<forall>g \<in> set example_plan. \<forall>s \<in> group_stages g. answers s"
    by (auto simp: example_plan_def)
qed simp

section \<open>The handle\<close>

text \<open>
  The state of the handle after a history with \<open>g\<close> expired grace periods and \<open>r\<close> reaped tasks: a
  caller that gave up was told so, and any other result is the one the task ended with.
\<close>

definition gave_up :: "Handle \<Rightarrow> bool" where
  "gave_up h \<longleftrightarrow> (\<exists>events. waiter h = Returned (Inl \<lparr>failure_error = StageCancelled, failure_events = events\<rparr>) \<and>
     events \<noteq> [] \<and> last events = TaskDetached)"

abbreviation joined :: "Pipeline \<Rightarrow> pipeline_result option" where
  "joined p \<equiv> flatten_pipeline_join (activity p) (log p)"

definition handle_ok :: "Executor \<Rightarrow> nat \<Rightarrow> nat \<Rightarrow> nat \<Rightarrow> Handle \<Rightarrow> bool" where
  "handle_ok ex base g r h \<longleftrightarrow> pipe_ok ex (task h) \<and>
     (case reaper h of
        NotSpawned \<Rightarrow> g = 0 \<and> r = 0 \<and> active_tasks h = base \<and>
          (\<forall>result. waiter h = Returned result \<longrightarrow> joined (task h) = Some result)
      | AwaitingTask \<Rightarrow> g = 1 \<and> r = 0 \<and> active_tasks h = base + 1 \<and> gave_up h
      | Finished \<Rightarrow> g = 1 \<and> r = 1 \<and> active_tasks h = base \<and> gave_up h)"

lemma pipe_ok_log: "pipe_ok ex p \<Longrightarrow> log_ok l \<Longrightarrow> capacity l = capacity (log p) \<Longrightarrow> pipe_ok ex (p\<lparr>log := l\<rparr>)"
  by (auto simp: pipe_ok_def)

lemma joined_stays: "pipeline_step ex i p = Some p' \<Longrightarrow> joined p = Some result \<Longrightarrow> joined p' = Some result"
  by (auto simp: pipeline_step_def task_step_def flatten_pipeline_join_def split: Input.splits Activity.splits)

lemma log_push_last: "log_ok l \<Longrightarrow> log_events (log_push e l) \<noteq> [] \<and> last (log_events (log_push e l)) = e"
  by (auto simp: log_push_events log_ok_def)

lemma handle_step_ok:
  assumes "handle_step ex i h = Some h'" and "handle_ok ex base g r h"
  shows "handle_ok ex base (g + of_bool (i = GraceElapsed)) (r + of_bool (i = Reaped)) h'"
proof -
  have ok: "pipe_ok ex (task h)" and l: "log_ok (log (task h))"
    using assms(2) by (auto simp: handle_ok_def pipe_ok_def)
  show ?thesis
  proof (cases i)
    case (TaskMoves inp)
    then obtain p' where p: "pipeline_step ex inp (task h) = Some p'" "h' = h\<lparr>task := p'\<rparr>"
      using assms(1) by (auto simp: handle_step_def Let_def)
    then show ?thesis
      using assms(2) TaskMoves pipeline_step_ok [OF p(1) ok] joined_stays [OF p(1)]
      by (auto simp: handle_ok_def gave_up_def split: Reaper.split)
  next
    case TaskJoined
    then obtain result where "joined (task h) = Some result" "h' = h\<lparr>waiter := Returned result\<rparr>" "\<not> gave_up h"
      using assms by (auto simp: handle_step_def Let_def gave_up_def split: Waiter.splits)
    then show ?thesis using assms(2) TaskJoined by (auto simp: handle_ok_def split: Reaper.splits)
  next
    case CancelObserved
    then have "h' = h\<lparr>task := (task h)\<lparr>log := log_cancelled (log (task h))\<rparr>,
        waiter := Grace (now (shared (task h)) + cancellation_grace ex)\<rparr>" "waiter h = Awaiting"
      using assms(1) by (auto simp: handle_step_def Let_def split: if_splits)
    then show ?thesis
      using assms(2) CancelObserved l pipe_ok_log [OF ok, of "log_cancelled (log (task h))"]
      by (auto simp: handle_ok_def gave_up_def split: Reaper.splits)
  next
    case GraceElapsed
    let ?l = "log_push TaskDetached (log_push (CancellationGraceElapsed
        (try_from_or_max (cancellation_grace ex div 1000000))) (log (task h)))"
    have h': "h' = h\<lparr>task := (task h)\<lparr>log := ?l\<rparr>, reaper := AwaitingTask, active_tasks := active_tasks h + 1,
        waiter := Returned (Inl \<lparr>failure_error = StageCancelled, failure_events = log_events ?l\<rparr>)\<rparr>"
      and w: "\<not> gave_up h"
      using GraceElapsed assms(1) by (auto simp: handle_step_def Let_def gave_up_def split: Waiter.splits if_splits)
    have "gave_up h'" using h' l log_push_last [of _ TaskDetached] by (simp add: gave_up_def)
    moreover have "pipe_ok ex (task h')" using h' l pipe_ok_log [OF ok, of ?l] by simp
    ultimately show ?thesis
      using assms(2) w h' GraceElapsed by (auto simp: handle_ok_def split: Reaper.splits)
  next
    case Reaped
    then have "h' = h\<lparr>reaper := Finished, active_tasks := active_tasks h - 1\<rparr>" "reaper h = AwaitingTask"
      using assms(1) by (auto simp: handle_step_def Let_def split: if_splits)
    then show ?thesis using assms(2) Reaped by (auto simp: handle_ok_def gave_up_def)
  qed
qed

lemma run_handle_ok:
  "run_handle ex is h = Some h' \<Longrightarrow> handle_ok ex base g r h \<Longrightarrow>
     handle_ok ex base (g + count_list is GraceElapsed) (r + count_list is Reaped) h'"
proof (induction ex "is" h arbitrary: g r rule: run_handle.induct)
  case (2 ex i "is" h)
  then obtain h1 where h1: "handle_step ex i h = Some h1" "run_handle ex is h1 = Some h'"
    by (auto split: option.splits)
  from 2(1) [OF h1 handle_step_ok [OF h1(1) 2(3)]] show ?case by (simp add: of_bool_def split: if_splits)
qed simp

lemma run_handle_append:
  "run_handle ex (is @ js) h = (case run_handle ex is h of None \<Rightarrow> None | Some h' \<Rightarrow> run_handle ex js h')"
  by (induction ex "is" h rule: run_handle.induct) (auto split: option.split)

text \<open>The moves of a caller that cancels and lets the grace period pass.\<close>

definition give_up :: "Executor \<Rightarrow> HandleInput \<Rightarrow> HandleInput list" where
  "give_up ex i = [TaskMoves RequestCancel, CancelObserved, TaskMoves (Tick (cancellation_grace ex)), i]"

lemma give_up_returns:
  assumes "waiter h = Awaiting"
  shows "\<exists>i \<in> {TaskJoined, GraceElapsed}. \<exists>h' result. run_handle ex (give_up ex i) h = Some h' \<and> waiter h' = Returned result"
proof (cases "joined ((task h)\<lparr>log := log_cancelled (log (task h))\<rparr>)")
  case None
  then have "\<exists>h' result. run_handle ex (give_up ex GraceElapsed) h = Some h' \<and> waiter h' = Returned result"
    using assms by (simp add: give_up_def handle_step_def pipeline_step_def Let_def)
  then show ?thesis by blast
next
  case (Some result)
  then have "\<exists>h' result. run_handle ex (give_up ex TaskJoined) h = Some h' \<and> waiter h' = Returned result"
    using assms by (simp add: give_up_def handle_step_def pipeline_step_def Let_def)
  then show ?thesis by blast
qed


definition example_moves :: "HandleInput list" where
  "example_moves =
     [TaskMoves Step, TaskMoves (StageIn Poll), TaskMoves RequestCancel, CancelObserved, TaskMoves (Tick 7)]"

lemma example_wait:
  "map_option (\<lambda>h. (waiter h, now (shared (task h)), joined (task h)))
     (run_handle example_executor example_moves (execute_pipeline example_executor example_plan ''x'' 0 Map.empty 2)) =
   Some (Grace 7, 7, None)"
  by code_simp


end
