(* ===== verification/Wasm.thy ===== *)
theory Wasm
  imports Syllog_Prelude
begin

text \<open>
  The part of WebAssembly the code generator targets: the instructions \<open>wasm_encoder\<close> writes,
  their structured reading, the validation of a function body and its execution, after the
  WebAssembly core specification. Execution has fuel, one unit per instruction; \<open>None\<close> is "still
  running" and \<open>Stuck\<close> is code that validation rejects.
\<close>

section \<open>Instructions and modules\<close>

datatype ValType = I32 | I64

datatype BlockType = BlockEmpty | BlockResult ValType

datatype Instruction =
    LocalGet u32
  | LocalSet u32
  | I32Const u32
  | I64Const i64
  | I32Eq
  | I64Eq
  | I64LtS
  | I64LtU
  | I64Add
  | I64Sub
  | I64Mul
  | I64DivS
  | I64DivU
  | I64And
  | I64Or
  | IfI BlockType
  | ElseI
  | EndI
  | LoopI BlockType
  | Br u32
  | ReturnI
  | CallI u32
  | Unreachable

text \<open>A body as \<open>Function\<close> holds it: runs of locals and the instruction sequence with its \<open>End\<close>.\<close>

record Function =
  function_locals :: "(u32 \<times> ValType) list"
  function_code :: "Instruction list"

record FuncType =
  func_params :: "ValType list"
  func_results :: "ValType list"

record Module =
  module_types :: "FuncType list"
  module_functions :: "u32 list"
  module_exports :: "(string \<times> u32) list"
  module_code :: "Function list"
  module_custom :: "(string \<times> 8 word list) list"

section \<open>Structured code\<close>

datatype wcode =
    Plain Instruction
  | IfElse BlockType "wcode list" "wcode list"
  | LoopBlock BlockType "wcode list"

fun flatten :: "wcode list \<Rightarrow> Instruction list"
  and flatten1 :: "wcode \<Rightarrow> Instruction list" where
  "flatten [] = []"
| "flatten (c # cs) = flatten1 c @ flatten cs"
| "flatten1 (Plain i) = [i]"
| "flatten1 (IfElse bt th el) =
     [IfI bt] @ flatten th @ (if el = [] then [] else ElseI # flatten el) @ [EndI]"
| "flatten1 (LoopBlock bt body) = [LoopI bt] @ flatten body @ [EndI]"

text \<open>Reading a sequence up to the \<open>Else\<close> or \<open>End\<close> that closes it.\<close>

fun structured :: "nat \<Rightarrow> Instruction list \<Rightarrow> (wcode list \<times> Instruction list) option" where
  "structured 0 is = None"
| "structured (Suc n) [] = Some ([], [])"
| "structured (Suc n) (i # is) =
     (case i of
        EndI \<Rightarrow> Some ([], i # is)
      | ElseI \<Rightarrow> Some ([], i # is)
      | IfI bt \<Rightarrow>
          (case structured n is of
             Some (th, EndI # is1) \<Rightarrow>
               map_option (\<lambda>(cs, rest). (IfElse bt th [] # cs, rest)) (structured n is1)
           | Some (th, ElseI # is1) \<Rightarrow>
               (case structured n is1 of
                  Some (el, EndI # is2) \<Rightarrow>
                    map_option (\<lambda>(cs, rest). (IfElse bt th el # cs, rest)) (structured n is2)
                | _ \<Rightarrow> None)
           | _ \<Rightarrow> None)
      | LoopI bt \<Rightarrow>
          (case structured n is of
             Some (body, EndI # is1) \<Rightarrow>
               map_option (\<lambda>(cs, rest). (LoopBlock bt body # cs, rest)) (structured n is1)
           | _ \<Rightarrow> None)
      | _ \<Rightarrow> map_option (\<lambda>(cs, rest). (Plain i # cs, rest)) (structured n is))"

definition function_body :: "Instruction list \<Rightarrow> wcode list option" where
  "function_body code =
     (case structured (length code + 1) code of Some (cs, [EndI]) \<Rightarrow> Some cs | _ \<Rightarrow> None)"

fun plain :: "Instruction \<Rightarrow> bool" where
  "plain (IfI bt) = False"
| "plain ElseI = False"
| "plain EndI = False"
| "plain (LoopI bt) = False"
| "plain i = True"

fun well_formed :: "wcode list \<Rightarrow> bool"
  and well_formed1 :: "wcode \<Rightarrow> bool" where
  "well_formed [] = True"
| "well_formed (c # cs) = (well_formed1 c \<and> well_formed cs)"
| "well_formed1 (Plain i) = plain i"
| "well_formed1 (IfElse bt th el) = (well_formed th \<and> well_formed el)"
| "well_formed1 (LoopBlock bt body) = well_formed body"

section \<open>Validation\<close>

text \<open>
  The operand stack known to the validator, top first, and whether the code is unreachable, where
  a pop from the empty stack gives any type.
\<close>

type_synonym stack_type = "ValType list \<times> bool"

fun pop :: "ValType \<Rightarrow> stack_type \<Rightarrow> stack_type option" where
  "pop t (u # ts, dead) = (if u = t then Some (ts, dead) else None)"
| "pop t ([], dead) = (if dead then Some ([], dead) else None)"

fun pops :: "ValType list \<Rightarrow> stack_type \<Rightarrow> stack_type option" where
  "pops [] st = Some st"
| "pops (t # ts) st = Option.bind (pop t st) (pops ts)"

definition push :: "ValType list \<Rightarrow> stack_type \<Rightarrow> stack_type" where
  "push ts = (\<lambda>(us, dead). (ts @ us, dead))"

record wcontext =
  ctx_locals :: "ValType list"
  ctx_labels :: "ValType list list"
  ctx_return :: "ValType list"
  ctx_funcs :: "FuncType list"

fun block_results :: "BlockType \<Rightarrow> ValType list" where
  "block_results BlockEmpty = []"
| "block_results (BlockResult t) = [t]"

fun plain_type :: "wcontext \<Rightarrow> Instruction \<Rightarrow> (ValType list \<times> ValType list) option" where
  "plain_type c (LocalGet x) = map_option (\<lambda>t. ([], [t])) (nth_opt (ctx_locals c) (unat x))"
| "plain_type c (LocalSet x) = map_option (\<lambda>t. ([t], [])) (nth_opt (ctx_locals c) (unat x))"
| "plain_type c (I32Const k) = Some ([], [I32])"
| "plain_type c (I64Const k) = Some ([], [I64])"
| "plain_type c I32Eq = Some ([I32, I32], [I32])"
| "plain_type c I64Eq = Some ([I64, I64], [I32])"
| "plain_type c I64LtS = Some ([I64, I64], [I32])"
| "plain_type c I64LtU = Some ([I64, I64], [I32])"
| "plain_type c I64Add = Some ([I64, I64], [I64])"
| "plain_type c I64Sub = Some ([I64, I64], [I64])"
| "plain_type c I64Mul = Some ([I64, I64], [I64])"
| "plain_type c I64DivS = Some ([I64, I64], [I64])"
| "plain_type c I64DivU = Some ([I64, I64], [I64])"
| "plain_type c I64And = Some ([I64, I64], [I64])"
| "plain_type c I64Or = Some ([I64, I64], [I64])"
| "plain_type c (CallI f) =
     map_option (\<lambda>t. (rev (func_params t), func_results t)) (nth_opt (ctx_funcs c) (unat f))"
| "plain_type c i = None"

definition check_plain :: "wcontext \<Rightarrow> Instruction \<Rightarrow> stack_type \<Rightarrow> stack_type option" where
  "check_plain c i st =
     (case i of
        Br k \<Rightarrow>
          Option.bind (nth_opt (ctx_labels c) (unat k)) (\<lambda>ts.
            map_option (\<lambda>_. ([], True)) (pops ts st))
      | ReturnI \<Rightarrow> map_option (\<lambda>_. ([], True)) (pops (ctx_return c) st)
      | Unreachable \<Rightarrow> Some ([], True)
      | _ \<Rightarrow>
          Option.bind (plain_type c i) (\<lambda>(ins, outs). map_option (push outs) (pops ins st)))"

definition ends_with :: "ValType list \<Rightarrow> stack_type \<Rightarrow> bool" where
  "ends_with ts st = (case pops ts st of Some (us, _) \<Rightarrow> us = [] | None \<Rightarrow> False)"

fun check_code :: "wcontext \<Rightarrow> wcode list \<Rightarrow> stack_type \<Rightarrow> stack_type option"
  and check_code1 :: "wcontext \<Rightarrow> wcode \<Rightarrow> stack_type \<Rightarrow> stack_type option" where
  "check_code c [] st = Some st"
| "check_code c (i # is) st = Option.bind (check_code1 c i st) (check_code c is)"
| "check_code1 c (Plain i) st = check_plain c i st"
| "check_code1 c (IfElse bt th el) st =
     (let ts = block_results bt; c' = c\<lparr>ctx_labels := ts # ctx_labels c\<rparr> in
      Option.bind (pop I32 st) (\<lambda>st'.
        case (check_code c' th ([], False), check_code c' el ([], False)) of
          (Some a, Some b) \<Rightarrow> if ends_with ts a \<and> ends_with ts b then Some (push ts st') else None
        | _ \<Rightarrow> None))"
| "check_code1 c (LoopBlock bt body) st =
     (let c' = c\<lparr>ctx_labels := [] # ctx_labels c\<rparr> in
      case check_code c' body ([], False) of
        Some a \<Rightarrow> if ends_with (block_results bt) a then Some (push (block_results bt) st) else None
      | None \<Rightarrow> None)"

text \<open>A function body against its type, in a module with the given function types.\<close>

definition expand_locals :: "(u32 \<times> ValType) list \<Rightarrow> ValType list" where
  "expand_locals runs = concat (map (\<lambda>(n, t). replicate (unat n) t) runs)"

definition validate_function :: "FuncType list \<Rightarrow> FuncType \<Rightarrow> Function \<Rightarrow> bool" where
  "validate_function funcs ty f =
     (case function_body (function_code f) of
        None \<Rightarrow> False
      | Some body \<Rightarrow>
          (case check_code
                  \<lparr>ctx_locals = func_params ty @ expand_locals (function_locals f),
                   ctx_labels = [func_results ty], ctx_return = func_results ty, ctx_funcs = funcs\<rparr>
                  body ([], False) of
             None \<Rightarrow> False
           | Some st \<Rightarrow> ends_with (func_results ty) st))"

definition function_types :: "Module \<Rightarrow> FuncType option list" where
  "function_types m = map (\<lambda>t. nth_opt (module_types m) (unat t)) (module_functions m)"

definition validate_module :: "Module \<Rightarrow> bool" where
  "validate_module m =
     (let types = function_types m in
      list_all (\<lambda>t. t \<noteq> None) types \<and> length (module_code m) = length types \<and>
      list_all (\<lambda>(_, i). unat i < length types) (module_exports m) \<and>
      distinct (map fst (module_exports m)) \<and>
      list_all2 (\<lambda>t f. validate_function (map the types) (the t) f) types (module_code m))"

section \<open>Execution\<close>

datatype wval = W32 u32 | W64 u64

fun zero_of :: "ValType \<Rightarrow> wval" where
  "zero_of I32 = W32 0"
| "zero_of I64 = W64 0"

type_synonym wstack = "wval list"

datatype outcome =
    Next wstack "wval list"
  | Jump nat wstack "wval list"
  | Result wstack
  | Trapped
  | Stuck

record wfunc =
  wf_type :: FuncType
  wf_locals :: "ValType list"
  wf_body :: "wcode list"

definition i64_op :: "(u64 \<Rightarrow> u64 \<Rightarrow> wval option) \<Rightarrow> wstack \<Rightarrow> wval list \<Rightarrow> outcome" where
  "i64_op f st ls =
     (case st of
        W64 b # W64 a # st' \<Rightarrow> (case f a b of None \<Rightarrow> Trapped | Some v \<Rightarrow> Next (v # st') ls)
      | _ \<Rightarrow> Stuck)"

definition bool32 :: "bool \<Rightarrow> wval" where
  "bool32 b = W32 (if b then 1 else 0)"

text \<open>Signed division truncates, and traps on a zero divisor and on overflow.\<close>

fun exec_plain :: "Instruction \<Rightarrow> wstack \<Rightarrow> wval list \<Rightarrow> outcome" where
  "exec_plain (LocalGet x) st ls =
     (case nth_opt ls (unat x) of None \<Rightarrow> Stuck | Some v \<Rightarrow> Next (v # st) ls)"
| "exec_plain (LocalSet x) st ls =
     (case st of
        v # st' \<Rightarrow> if unat x < length ls then Next st' (ls[unat x := v]) else Stuck
      | [] \<Rightarrow> Stuck)"
| "exec_plain (I32Const k) st ls = Next (W32 k # st) ls"
| "exec_plain (I64Const k) st ls = Next (W64 k # st) ls"
| "exec_plain I32Eq st ls =
     (case st of W32 b # W32 a # st' \<Rightarrow> Next (bool32 (a = b) # st') ls | _ \<Rightarrow> Stuck)"
| "exec_plain I64Eq st ls = i64_op (\<lambda>a b. Some (bool32 (a = b))) st ls"
| "exec_plain I64LtS st ls = i64_op (\<lambda>a b. Some (bool32 (sint a < sint b))) st ls"
| "exec_plain I64LtU st ls = i64_op (\<lambda>a b. Some (bool32 (a < b))) st ls"
| "exec_plain I64Add st ls = i64_op (\<lambda>a b. Some (W64 (a + b))) st ls"
| "exec_plain I64Sub st ls = i64_op (\<lambda>a b. Some (W64 (a - b))) st ls"
| "exec_plain I64Mul st ls = i64_op (\<lambda>a b. Some (W64 (a * b))) st ls"
| "exec_plain I64DivS st ls = i64_op (\<lambda>a b. map_option W64 (checked_sdiv a b)) st ls"
| "exec_plain I64DivU st ls = i64_op (\<lambda>a b. map_option W64 (checked_div a b)) st ls"
| "exec_plain I64And st ls = i64_op (\<lambda>a b. Some (W64 (and a b))) st ls"
| "exec_plain I64Or st ls = i64_op (\<lambda>a b. Some (W64 (or a b))) st ls"
| "exec_plain (Br k) st ls = Jump (unat k) st ls"
| "exec_plain ReturnI st ls = Result st"
| "exec_plain Unreachable st ls = Trapped"
| "exec_plain i st ls = Stuck"

text \<open>Leaving a block: a jump to its own label keeps the results, one to an outer label goes on.\<close>

definition leave :: "nat \<Rightarrow> wstack \<Rightarrow> outcome \<Rightarrow> outcome" where
  "leave arity st r =
     (case r of
        Next st' ls \<Rightarrow> Next (take arity st' @ st) ls
      | Jump 0 st' ls \<Rightarrow> Next (take arity st' @ st) ls
      | Jump (Suc k) st' ls \<Rightarrow> Jump k st' ls
      | _ \<Rightarrow> r)"

definition call_result :: "FuncType \<Rightarrow> wstack \<Rightarrow> wval list \<Rightarrow> outcome \<Rightarrow> outcome" where
  "call_result ty st ls r =
     (let n = length (func_results ty) in
      case r of
        Next st' _ \<Rightarrow> Next (take n st' @ st) ls
      | Jump 0 st' _ \<Rightarrow> Next (take n st' @ st) ls
      | Result st' \<Rightarrow> Next (take n st' @ st) ls
      | Trapped \<Rightarrow> Trapped
      | _ \<Rightarrow> Stuck)"

fun exec :: "nat \<Rightarrow> wfunc list \<Rightarrow> wcode list \<Rightarrow> wstack \<Rightarrow> wval list \<Rightarrow> outcome option"
  and exec1 :: "nat \<Rightarrow> wfunc list \<Rightarrow> wcode \<Rightarrow> wstack \<Rightarrow> wval list \<Rightarrow> outcome option" where
  "exec 0 funcs is st ls = None"
| "exec (Suc n) funcs [] st ls = Some (Next st ls)"
| "exec (Suc n) funcs (i # is) st ls =
     (case exec1 n funcs i st ls of
        Some (Next st' ls') \<Rightarrow> exec n funcs is st' ls'
      | r \<Rightarrow> r)"
| "exec1 0 funcs i st ls = None"
| "exec1 (Suc n) funcs (Plain j) st ls =
     (case j of
        CallI x \<Rightarrow>
          (case nth_opt funcs (unat x) of
             None \<Rightarrow> Some Stuck
           | Some f \<Rightarrow>
               (let k = length (func_params (wf_type f)) in
                if length st < k then Some Stuck
                else map_option (call_result (wf_type f) (drop k st) ls)
                       (exec n funcs (wf_body f) []
                          (rev (take k st) @ map zero_of (wf_locals f)))))
      | _ \<Rightarrow> Some (exec_plain j st ls))"
| "exec1 (Suc n) funcs (IfElse bt th el) st ls =
     (case st of
        W32 c # st' \<Rightarrow>
          map_option (leave (length (block_results bt)) st')
            (exec n funcs (if c \<noteq> 0 then th else el) [] ls)
      | _ \<Rightarrow> Some Stuck)"
| "exec1 (Suc n) funcs (LoopBlock bt body) st ls =
     (case exec n funcs body [] ls of
        Some (Jump 0 st' ls') \<Rightarrow> exec1 n funcs (LoopBlock bt body) st ls'
      | r \<Rightarrow> map_option (leave (length (block_results bt)) st) r)"

text \<open>The functions of a module, in index order, and a call from outside.\<close>

definition module_funcs :: "Module \<Rightarrow> wfunc list option" where
  "module_funcs m =
     those (map2 (\<lambda>t f. Option.bind t (\<lambda>ty.
         map_option (\<lambda>body. \<lparr>wf_type = ty, wf_locals = expand_locals (function_locals f), wf_body = body\<rparr>)
           (function_body (function_code f)))) (function_types m) (module_code m))"

definition invoke :: "nat \<Rightarrow> wfunc list \<Rightarrow> u32 \<Rightarrow> wval list \<Rightarrow> outcome option" where
  "invoke fuel funcs x args = exec fuel funcs [Plain (CallI x)] (rev args) []"

section \<open>Lemmas\<close>

fun closes :: "Instruction list \<Rightarrow> bool" where
  "closes [] = True"
| "closes (i # is) = (i = EndI \<or> i = ElseI)"

lemma structured_plain:
  "plain i \<Longrightarrow> structured (Suc n) (i # is) = map_option (\<lambda>(cs, rest). (Plain i # cs, rest)) (structured n is)"
  by (cases i) auto

text \<open>Reading what was written gives back the structured code.\<close>

lemma structured_flatten:
  shows "well_formed cs \<Longrightarrow> closes rest \<Longrightarrow> length (flatten cs) < n \<Longrightarrow>
      structured n (flatten cs @ rest) = Some (cs, rest)"
    and "well_formed1 c \<Longrightarrow> length (flatten1 c) \<le> n \<Longrightarrow>
      structured (Suc n) (flatten1 c @ tail) = map_option (\<lambda>(cs, rest). (c # cs, rest)) (structured n tail)"
proof (induction cs and c arbitrary: n rest and n tail rule: flatten_flatten1.induct)
  case 1
  then obtain m where "n = Suc m" by (cases n) auto
  then show ?case using 1 by (cases rest) (auto split: Instruction.split)
next
  case (2 c cs)
  have "0 < length (flatten1 c)" by (cases c) auto
  moreover obtain m where "n = Suc m" using 2(5) by (cases n) auto
  ultimately have m: "n = Suc m" "length (flatten cs) < m" "length (flatten1 c) \<le> m"
    using 2(5) by (simp_all del: length_greater_0_conv)
  show ?case
    using 2(1) [of m "flatten cs @ rest"] 2(2) [of rest m] 2(3,4) m by simp
next
  case (3 i)
  then show ?case by (simp add: structured_plain del: structured.simps)
next
  case (4 bt th el)
  have th: "structured n (flatten th @ ElseI # is) = Some (th, ElseI # is)"
    "structured n (flatten th @ EndI # is) = Some (th, EndI # is)" for "is"
    using 4(1) [of "ElseI # is" n] 4(1) [of "EndI # is" n] 4(3,4) by (auto split: if_splits)
  show ?case
  proof (cases "el = []")
    case True
    then show ?thesis using th by simp
  next
    case False
    then have "structured n (flatten el @ EndI # is) = Some (el, EndI # is)" for "is"
      using 4(2) [of "EndI # is" n] 4(3,4) by auto
    then show ?thesis using th False by simp
  qed
next
  case (5 bt body)
  then show ?case using 5(1) [of "EndI # tail" n] by simp
qed

lemma function_body_flatten: "well_formed cs \<Longrightarrow> function_body (flatten cs @ [EndI]) = Some cs"
  using structured_flatten(1) [of cs "[EndI]" "length (flatten cs @ [EndI]) + 1"] by (simp add: function_body_def)

lemma flatten_append [simp]: "flatten (xs @ ys) = flatten xs @ flatten ys"
  by (induction xs) auto

lemma well_formed_append [simp]: "well_formed (xs @ ys) \<longleftrightarrow> well_formed xs \<and> well_formed ys"
  by (induction xs) auto

lemma flatten_Plain [simp]: "flatten (map Plain is) = is"
  by (induction "is") auto

lemma well_formed_Plain [simp]: "well_formed (map Plain is) \<longleftrightarrow> list_all plain is"
  by (induction "is") auto

text \<open>More fuel does not change an outcome.\<close>

lemma exec_Suc:
  shows "exec n funcs is st ls = Some r \<Longrightarrow> exec (Suc n) funcs is st ls = Some r"
    and "exec1 n funcs i st ls = Some r \<Longrightarrow> exec1 (Suc n) funcs i st ls = Some r"
proof (induction n funcs "is" st ls and n funcs i st ls arbitrary: r and r rule: exec_exec1.induct)
  case (3 n funcs i "is" st ls)
  then show ?case
    by (simp only: exec.simps exec1.simps split: option.splits outcome.splits) auto
next
  case (5 n funcs j st ls)
  then show ?case
    by (cases j) (auto simp del: exec.simps simp: Let_def split: option.splits if_splits)
next
  case (6 n funcs bt th el st ls)
  show ?case
  proof (cases "\<exists>c st'. st = W32 c # st'")
    case True
    then obtain c st' where st: "st = W32 c # st'" by blast
    let ?b = "if c \<noteq> 0 then th else el"
    obtain z where z: "exec n funcs ?b [] ls = Some z" "r = leave (length (block_results bt)) st' z"
      using 6(2) unfolding st exec1.simps list.case wval.case by auto
    have "exec (Suc n) funcs ?b [] ls = Some z" by (rule 6(1) [OF st refl z(1)])
    then show ?thesis unfolding st exec1.simps list.case wval.case by (simp only: z option.map)
  next
    case False
    then show ?thesis using 6(2) by (auto split: list.splits wval.splits)
  qed
next
  case (7 n funcs bt body st ls)
  obtain z where z: "exec n funcs body [] ls = Some z" using 7(3) by (cases "exec n funcs body [] ls") auto
  have z': "exec (Suc n) funcs body [] ls = Some z" by (rule 7(1) [OF z])
  show ?case
  proof (cases "\<exists>st' ls'. z = Jump 0 st' ls'")
    case True
    then obtain st' ls' where j: "z = Jump 0 st' ls'" by blast
    have "exec1 n funcs (LoopBlock bt body) st ls' = Some r" using 7(3) z j by simp
    then have "exec1 (Suc n) funcs (LoopBlock bt body) st ls' = Some r" using 7(2) z j by blast
    then show ?thesis
      by (subst exec1.simps(4)) (simp only: z' j option.case outcome.case nat.case)
  next
    case False
    then have "r = leave (length (block_results bt)) st z"
      using 7(3) z by (auto split: outcome.splits nat.splits)
    moreover have "exec1 (Suc (Suc n)) funcs (LoopBlock bt body) st ls = Some (leave (length (block_results bt)) st z)"
      using False by (subst exec1.simps(4)) (auto simp only: z' option.case option.map split: outcome.split nat.split)
    ultimately show ?thesis by simp
  qed
qed auto

lemma exec_mono:
  "exec n funcs is st ls = Some r \<Longrightarrow> n \<le> m \<Longrightarrow> exec m funcs is st ls = Some r"
  by (induction m) (auto simp: le_Suc_eq intro: exec_Suc(1))

lemma exec1_mono:
  "exec1 n funcs i st ls = Some r \<Longrightarrow> n \<le> m \<Longrightarrow> exec1 m funcs i st ls = Some r"
  by (induction m) (auto simp: le_Suc_eq intro: exec_Suc(2))

text \<open>Big-step rules.\<close>

definition runs :: "wfunc list \<Rightarrow> wcode list \<Rightarrow> wstack \<Rightarrow> wval list \<Rightarrow> outcome \<Rightarrow> bool" where
  "runs funcs is st ls r \<longleftrightarrow> (\<exists>n. exec n funcs is st ls = Some r)"

definition runs1 :: "wfunc list \<Rightarrow> wcode \<Rightarrow> wstack \<Rightarrow> wval list \<Rightarrow> outcome \<Rightarrow> bool" where
  "runs1 funcs i st ls r \<longleftrightarrow> (\<exists>n. exec1 n funcs i st ls = Some r)"

fun is_next :: "outcome \<Rightarrow> bool" where
  "is_next (Next st ls) = True"
| "is_next _ = False"

lemma runs_Nil: "runs funcs [] st ls (Next st ls)"
  unfolding runs_def by (rule exI [of _ 1]) simp

lemma runs_Cons:
  assumes "runs1 funcs i st ls (Next st' ls')" and "runs funcs is st' ls' r"
  shows "runs funcs (i # is) st ls r"
proof -
  obtain n m where "exec1 n funcs i st ls = Some (Next st' ls')" "exec m funcs is st' ls' = Some r"
    using assms by (auto simp: runs_def runs1_def)
  then have "exec1 (max n m) funcs i st ls = Some (Next st' ls')" "exec (max n m) funcs is st' ls' = Some r"
    by (blast intro: exec_mono exec1_mono max.cobounded1 max.cobounded2)+
  then have "exec (Suc (max n m)) funcs (i # is) st ls = Some r" by simp
  then show ?thesis unfolding runs_def by blast
qed

lemma runs_stop:
  assumes "runs1 funcs i st ls r" and "\<not> is_next r"
  shows "runs funcs (i # is) st ls r"
proof -
  obtain n where "exec1 n funcs i st ls = Some r" using assms(1) by (auto simp: runs1_def)
  then have "exec (Suc n) funcs (i # is) st ls = Some r" using assms(2) by (cases r) auto
  then show ?thesis unfolding runs_def by blast
qed

lemma runs_ConsE:
  assumes "runs funcs (i # is) st ls (Next st2 ls2)"
  obtains st1 ls1 where "runs1 funcs i st ls (Next st1 ls1)" and "runs funcs is st1 ls1 (Next st2 ls2)"
proof -
  obtain n where n: "exec n funcs (i # is) st ls = Some (Next st2 ls2)" using assms by (auto simp: runs_def)
  then obtain k where k: "n = Suc k" by (cases n) auto
  then show ?thesis
    using n that by (auto simp: runs_def runs1_def split: option.splits outcome.splits)
qed

lemma runs_append:
  assumes "runs funcs xs st ls (Next st1 ls1)" and "runs funcs ys st1 ls1 r"
  shows "runs funcs (xs @ ys) st ls r"
  using assms
proof (induction xs arbitrary: st ls)
  case Nil
  then have "st1 = st \<and> ls1 = ls"
    by (auto simp: runs_def elim!: exec.elims)
  then show ?case using Nil by simp
next
  case (Cons i "is")
  then show ?case using runs_Cons by (metis append_Cons runs_ConsE)
qed

lemma runs_append_stop:
  assumes "runs funcs xs st ls r" and "\<not> is_next r"
  shows "runs funcs (xs @ ys) st ls r"
proof -
  have "exec n funcs xs st ls = Some r \<Longrightarrow> exec n funcs (xs @ ys) st ls = Some r" for n xs st ls
  proof (induction n arbitrary: xs st ls)
    case (Suc n)
    show ?case
    proof (cases xs)
      case Nil
      then show ?thesis using Suc.prems assms(2) by auto
    next
      case (Cons i "is")
      then show ?thesis
        using Suc by (auto split: option.splits outcome.splits)
    qed
  qed simp
  then show ?thesis using assms(1) unfolding runs_def by blast
qed

lemma runs1_plain: "(\<forall>x. j \<noteq> CallI x) \<Longrightarrow> runs1 funcs (Plain j) st ls (exec_plain j st ls)"
  unfolding runs1_def by (rule exI [of _ 1]) (simp split: Instruction.split)

lemma runs1_if:
  assumes "runs funcs (if c \<noteq> 0 then th else el) [] ls r"
  shows "runs1 funcs (IfElse bt th el) (W32 c # st) ls (leave (length (block_results bt)) st r)"
proof -
  obtain n where n: "exec n funcs (if c \<noteq> 0 then th else el) [] ls = Some r" using assms by (auto simp: runs_def)
  then have "exec1 (Suc n) funcs (IfElse bt th el) (W32 c # st) ls = Some (leave (length (block_results bt)) st r)"
    by (simp only: exec1.simps list.case wval.case option.map)
  then show ?thesis unfolding runs1_def by blast
qed

lemma runs1_loop_again:
  assumes "runs funcs body [] ls (Jump 0 st' ls')" and "runs1 funcs (LoopBlock bt body) st ls' r"
  shows "runs1 funcs (LoopBlock bt body) st ls r"
proof -
  obtain n m where "exec n funcs body [] ls = Some (Jump 0 st' ls')" "exec1 m funcs (LoopBlock bt body) st ls' = Some r"
    using assms by (auto simp: runs_def runs1_def)
  then have e: "exec (max n m) funcs body [] ls = Some (Jump 0 st' ls')"
    "exec1 (max n m) funcs (LoopBlock bt body) st ls' = Some r"
    by (blast intro: exec_mono exec1_mono max.cobounded1 max.cobounded2)+
  have "exec1 (Suc (max n m)) funcs (LoopBlock bt body) st ls = Some r"
    by (subst exec1.simps(4)) (simp only: e option.case outcome.case nat.case)
  then show ?thesis unfolding runs1_def by blast
qed

lemma runs1_loop_result:
  assumes "runs funcs body [] ls (Result v)"
  shows "runs1 funcs (LoopBlock bt body) st ls (Result v)"
proof -
  obtain n where "exec n funcs body [] ls = Some (Result v)" using assms by (auto simp: runs_def)
  then have "exec1 (Suc n) funcs (LoopBlock bt body) st ls = Some (Result v)" by (simp add: leave_def)
  then show ?thesis unfolding runs1_def by blast
qed

lemma runs1_call:
  assumes "unat x < length funcs" and "funcs ! unat x = f" and "length args = length (func_params (wf_type f))"
    and "runs funcs (wf_body f) [] (args @ map zero_of (wf_locals f)) (Result (v # st'))"
    and "func_results (wf_type f) = [t]"
  shows "runs1 funcs (Plain (CallI x)) (rev args @ st) ls (Next (v # st) ls)"
proof -
  obtain n where "exec n funcs (wf_body f) [] (args @ map zero_of (wf_locals f)) = Some (Result (v # st'))"
    using assms(4) by (auto simp: runs_def)
  then have "exec1 (Suc n) funcs (Plain (CallI x)) (rev args @ st) ls = Some (Next (v # st) ls)"
    using assms(1,2,3,5) by (simp add: nth_opt_def Let_def call_result_def)
  then show ?thesis unfolding runs1_def by blast
qed

lemma runs_plain:
  assumes "exec_plain j st ls = Next st' ls'" and "\<forall>x. j \<noteq> CallI x" and "runs funcs is st' ls' r"
  shows "runs funcs (Plain j # is) st ls r"
  using runs1_plain [OF assms(2), of funcs st ls] assms(1,3) runs_Cons by metis

lemma runs_plain_stop:
  assumes "exec_plain j st ls = r" and "\<forall>x. j \<noteq> CallI x" and "\<not> is_next r"
  shows "runs funcs (Plain j # is) st ls r"
  using runs1_plain [OF assms(2), of funcs st ls] assms(1,3) runs_stop by metis

lemma runs_single:
  "exec_plain j st ls = Next st' ls' \<Longrightarrow> \<forall>x. j \<noteq> CallI x \<Longrightarrow> runs funcs [Plain j] st ls (Next st' ls')"
  by (rule runs_plain [OF _ _ runs_Nil])

end
