(* ===== verification/Wasm_Codegen.thy ===== *)
theory Wasm_Codegen
  imports Wasm Async_Machine Mir_Verify
begin

text \<open>
  The code generator, \<open>crates/syllog-codegen-wasm/src/lib.rs\<close>. A Rust function that appends
  instructions to a body returns the instructions it appends. JSON encoding, SHA-256 and the binary
  encoding of modules are library code: the two digests of the inputs are parameters, and the
  artifact carries the module instead of its bytes. Writing to a string and JSON encoding of these
  types do not fail.
\<close>

section \<open>Data\<close>

record ArtifactMetadata =
  artifact_format_version :: u32
  artifact_entry :: DefId
  artifact_source_hash :: "8 word list"
  async_frame_count :: u32
  artifact_capabilities :: CapabilityManifest

record WasmOptions =
  debug_info :: bool
  canonicalize_nan :: bool

definition default_options :: WasmOptions where
  "default_options = \<lparr>debug_info = True, canonicalize_nan = True\<rparr>"

record WasmArtifact =
  artifact_module :: Module
  artifact_metadata :: ArtifactMetadata

datatype CodegenError =
    InvalidMirInput errors
  | InvalidAsyncFrame "AsyncVerificationError list"
  | MissingEntryFunction
  | UnsupportedType MirType
  | UnsupportedOperation string

text \<open>The library functions: JSON of the async frames and of the manifest, and the SHA-256 digest
  of the JSON of program, frames and manifest.\<close>

record codegen_lib =
  json_frames :: "AsyncStateMachine list \<Rightarrow> 8 word list"
  json_capabilities :: "CapabilityManifest \<Rightarrow> 8 word list"
  sha256_of_inputs :: "MirProgram \<Rightarrow> AsyncStateMachine list \<Rightarrow> CapabilityManifest \<Rightarrow> 8 word list"

section \<open>Numbers\<close>

text \<open>\<open>u32::try_from\<close> on a length, \<open>i64::try_from\<close> on a block index, \<open>i32::try_from\<close> on a state.\<close>

definition u32_of_length :: "string \<Rightarrow> nat \<Rightarrow> CodegenError + u32" where
  "u32_of_length msg n = (if n < 2 ^ 32 then Inr (of_nat n) else Inl (UnsupportedOperation msg))"

definition i64_of_index :: "nat \<Rightarrow> CodegenError + i64" where
  "i64_of_index n =
     (if n < 2 ^ 63 then Inr (of_nat n) else Inl (UnsupportedOperation ''too many blocks''))"

definition async_i32 :: "u32 \<Rightarrow> CodegenError + u32" where
  "async_i32 state =
     (if unat state < 2 ^ 31 then Inr state
      else Inl (UnsupportedOperation ''async state exceeds i32 ABI''))"

section \<open>Functions\<close>

definition wasm_local :: "MirFunction \<Rightarrow> LocalId \<Rightarrow> u32" where
  "wasm_local f l =
     (let parameters = parameter_count f in
      if l = 0 then parameters else if l \<le> parameters then l - 1 else l)"

definition codegen_operand_type :: "MirFunction \<Rightarrow> Operand \<Rightarrow> MirType option" where
  "codegen_operand_type f x =
     (case x of
        OpConstant c \<Rightarrow> Some (constant_ty c)
      | OpCopy l \<Rightarrow> nth_opt (fn_locals f) (unat l)
      | OpMove l \<Rightarrow> nth_opt (fn_locals f) (unat l))"

fun supported_abi_type :: "MirType \<Rightarrow> CodegenError + unit" where
  "supported_abi_type (TyReference is_mut inner) = supported_abi_type inner"
| "supported_abi_type TyString = Inl (UnsupportedType TyString)"
| "supported_abi_type ty = Inr ()"

fun supported_signature_types :: "MirType list \<Rightarrow> CodegenError + unit" where
  "supported_signature_types [] = Inr ()"
| "supported_signature_types (ty # tys) =
     bindR (case ty of
              TyReference is_mut inner \<Rightarrow> supported_abi_type inner
            | TyString \<Rightarrow> Inl (UnsupportedType ty)
            | _ \<Rightarrow> Inr ())
       (\<lambda>_. supported_signature_types tys)"

definition supported_signature :: "MirFunction \<Rightarrow> CodegenError + unit" where
  "supported_signature f = supported_signature_types (fn_locals f)"

definition encode_constant :: "Constant \<Rightarrow> CodegenError + i64" where
  "encode_constant c =
     (case c of
        CUnit \<Rightarrow> Inr 0
      | CBool b \<Rightarrow> Inr (if b then 1 else 0)
      | CI64 i \<Rightarrow> Inr i
      | CU64 n \<Rightarrow> Inr n
      | CString s \<Rightarrow> Inl (UnsupportedType TyString))"

fun encode_operand :: "MirFunction \<Rightarrow> Operand \<Rightarrow> CodegenError + Instruction list" where
  "encode_operand f (OpCopy l) = Inr [LocalGet (wasm_local f l)]"
| "encode_operand f (OpMove l) = Inr [LocalGet (wasm_local f l)]"
| "encode_operand f (OpConstant c) = bindR (encode_constant c) (\<lambda>k. Inr [I64Const k])"

fun encode_set_place :: "MirFunction \<Rightarrow> Place \<Rightarrow> CodegenError + Instruction list" where
  "encode_set_place f (PLocal l) = Inr [LocalSet (wasm_local f l)]"
| "encode_set_place f (PField base field) = Inl (UnsupportedOperation ''aggregate field assignment'')"

definition binary_instruction :: "BinaryOp \<Rightarrow> bool \<Rightarrow> Instruction" where
  "binary_instruction op is_unsigned =
     (case op of
        Add \<Rightarrow> I64Add
      | Subtract \<Rightarrow> I64Sub
      | Multiply \<Rightarrow> I64Mul
      | Divide \<Rightarrow> if is_unsigned then I64DivU else I64DivS
      | Equal \<Rightarrow> I64Eq
      | Less \<Rightarrow> if is_unsigned then I64LtU else I64LtS
      | And \<Rightarrow> I64And
      | Or \<Rightarrow> I64Or)"

fun encode_rvalue :: "MirFunction \<Rightarrow> Rvalue \<Rightarrow> CodegenError + Instruction list" where
  "encode_rvalue f (Borrow is_mut (PLocal l)) = Inr [LocalGet (wasm_local f l)]"
| "encode_rvalue f (Borrow is_mut (PField base field)) =
     Inl (UnsupportedOperation ''aggregate field borrow'')"
| "encode_rvalue f (Use x) = encode_operand f x"
| "encode_rvalue f (Discriminant x) = encode_operand f x"
| "encode_rvalue f (Aggregate ty d flds) = Inr [I64Const d]"
| "encode_rvalue f (Binary op left right) =
     bindR (encode_operand f left) (\<lambda>a. bindR (encode_operand f right) (\<lambda>b.
       Inr (a @ b @ [binary_instruction op (codegen_operand_type f left = Some TyU64)])))"

definition encode_continue :: "u32 \<Rightarrow> BlockId \<Rightarrow> u32 \<Rightarrow> Instruction list" where
  "encode_continue pc target depth = [I64Const (ucast target), LocalSet pc, Br depth]"

fun encode_statement :: "MirFunction \<Rightarrow> Statement \<Rightarrow> CodegenError + Instruction list" where
  "encode_statement f (Assign destination value) =
     bindR (encode_rvalue f value) (\<lambda>a. bindR (encode_set_place f destination) (\<lambda>b. Inr (a @ b)))"
| "encode_statement f (Drop (PLocal l)) = Inr []"
| "encode_statement f (Drop (PField base field)) = Inl (UnsupportedOperation ''aggregate field drop'')"

fun encode_all :: "('a \<Rightarrow> CodegenError + Instruction list) \<Rightarrow> 'a list \<Rightarrow> CodegenError + Instruction list" where
  "encode_all g [] = Inr []"
| "encode_all g (x # xs) = bindR (g x) (\<lambda>a. bindR (encode_all g xs) (\<lambda>b. Inr (a @ b)))"

definition encode_switch_case ::
  "MirFunction \<Rightarrow> u32 \<Rightarrow> Operand \<Rightarrow> 128 word \<times> BlockId \<Rightarrow> CodegenError + Instruction list" where
  "encode_switch_case f pc x = (\<lambda>(candidate, target).
     bindR (encode_operand f x) (\<lambda>a.
       if unat candidate < 2 ^ 64
       then Inr (a @ [I64Const (ucast candidate), I64Eq, IfI BlockEmpty] @ encode_continue pc target 2 @ [EndI])
       else Inl (UnsupportedOperation ''switch value exceeds the i64 ABI'')))"

text \<open>Indexing the table of functions with a callee that is not there panics; verified programs
  have none.\<close>

fun encode_terminator ::
  "MirFunction \<Rightarrow> u32 \<Rightarrow> (DefId \<rightharpoonup> u32) \<Rightarrow> Terminator \<Rightarrow> CodegenError + Instruction list" where
  "encode_terminator f pc indices Return = Inr [LocalGet (wasm_local f 0), ReturnI]"
| "encode_terminator f pc indices (Goto target) = Inr (encode_continue pc target 1)"
| "encode_terminator f pc indices (Call callee args destination continue) =
     bindR (encode_all (encode_operand f) args) (\<lambda>a.
       bindR (encode_set_place f destination) (\<lambda>b.
         Inr (a @ [CallI (the (indices callee))] @ b @ encode_continue pc continue 1)))"
| "encode_terminator f pc indices (SwitchInt x targets otherwise) =
     bindR (encode_all (encode_switch_case f pc x) targets) (\<lambda>a.
       Inr (a @ encode_continue pc otherwise 1))"

definition encode_block ::
  "MirFunction \<Rightarrow> u32 \<Rightarrow> (DefId \<rightharpoonup> u32) \<Rightarrow> BasicBlock \<Rightarrow> CodegenError + Instruction list" where
  "encode_block f pc indices block =
     bindR (encode_all (encode_statement f) (statements block)) (\<lambda>a.
       bindR (encode_terminator f pc indices (the (terminator block))) (\<lambda>b. Inr (a @ b)))"

definition encode_indexed_block ::
  "MirFunction \<Rightarrow> u32 \<Rightarrow> (DefId \<rightharpoonup> u32) \<Rightarrow> nat \<times> BasicBlock \<Rightarrow> CodegenError + Instruction list" where
  "encode_indexed_block f pc indices = (\<lambda>(index, block).
     bindR (i64_of_index index) (\<lambda>k.
       bindR (encode_block f pc indices block) (\<lambda>b.
         Inr ([LocalGet pc, I64Const k, I64Eq, IfI BlockEmpty] @ b @ [EndI]))))"

definition encode_function :: "(DefId \<rightharpoonup> u32) \<Rightarrow> MirFunction \<Rightarrow> CodegenError + Function" where
  "encode_function indices f =
     bindR (u32_of_length ''too many locals'' (length (fn_locals f))) (\<lambda>pc.
       bindR (encode_all (encode_indexed_block f pc indices)
                (zip [0..<length (fn_blocks f)] (fn_blocks f))) (\<lambda>body.
         Inr \<lparr>function_locals = [(saturating_add (saturating_sub pc (parameter_count f)) 1, I64)],
              function_code =
                [I64Const 0, LocalSet pc, LoopI BlockEmpty] @ body @
                [Unreachable, EndI, I64Const 0, EndI]\<rparr>))"

section \<open>Async frames\<close>

fun encode_async_transition :: "u32 \<Rightarrow> AsyncTransition \<Rightarrow> CodegenError + Instruction list" where
  "encode_async_transition current (Start after) = bindR (async_i32 after) (\<lambda>k. Inr [I32Const k])"
| "encode_async_transition current (Suspend await_index resume cancel) =
     bindR (async_i32 cancel) (\<lambda>c. bindR (async_i32 resume) (\<lambda>r. bindR (async_i32 current) (\<lambda>s.
       Inr [LocalGet 1, I32Const 2, I32Eq, IfI (BlockResult I32), I32Const c, ElseI,
            LocalGet 1, I32Const 1, I32Eq, IfI (BlockResult I32), I32Const r, ElseI, I32Const s,
            EndI, EndI])))"
| "encode_async_transition current (Resume after panic) =
     bindR (async_i32 panic) (\<lambda>p. bindR (async_i32 after) (\<lambda>k.
       Inr [LocalGet 1, I32Const 3, I32Eq, IfI (BlockResult I32), I32Const p, ElseI, I32Const k, EndI]))"
| "encode_async_transition current Complete = bindR (async_i32 current) (\<lambda>k. Inr [I32Const k])"
| "encode_async_transition current (Cancel locals) = bindR (async_i32 current) (\<lambda>k. Inr [I32Const k])"

definition encode_async_state :: "AsyncState \<Rightarrow> CodegenError + Instruction list" where
  "encode_async_state s =
     bindR (async_i32 (state_id s)) (\<lambda>k.
       bindR (encode_async_transition (state_id s) (transition s)) (\<lambda>t.
         Inr ([LocalGet 0, I32Const k, I32Eq, IfI BlockEmpty] @ t @ [ReturnI, EndI])))"

definition encode_async_frame :: "AsyncStateMachine \<Rightarrow> CodegenError + Function" where
  "encode_async_frame frame =
     bindR (encode_all encode_async_state (states frame)) (\<lambda>body.
       Inr \<lparr>function_locals = [], function_code = body @ [I32Const (- 1), EndI]\<rparr>)"

section \<open>Modules\<close>

definition bool_name :: "bool \<Rightarrow> string" where
  "bool_name b = (if b then ''true'' else ''false'')"

definition string_bytes :: "string \<Rightarrow> 8 word list" where
  "string_bytes s = map (\<lambda>c. of_nat (of_char c)) s"

definition encode_source_map :: "MirProgram \<Rightarrow> WasmOptions \<Rightarrow> 8 word list" where
  "encode_source_map program options = string_bytes
     (''version=1;debug='' @ bool_name (debug_info options) @ '';nan='' @
      bool_name (canonicalize_nan options) @ '';'' @
      concat (map (\<lambda>f. decimal (unat (module_id (fn_id f))) @ '':'' @ decimal (unat (def_index (fn_id f))) @
                    '':'' @ decimal (length (fn_blocks f)) @ '';'') (program_functions program)))"

fun collectR :: "('a \<Rightarrow> 'e + 'b) \<Rightarrow> 'a list \<Rightarrow> 'e + 'b list" where
  "collectR g [] = Inr []"
| "collectR g (x # xs) = bindR (g x) (\<lambda>y. bindR (collectR g xs) (\<lambda>ys. Inr (y # ys)))"

fun verify_frames :: "AsyncStateMachine list \<Rightarrow> CodegenError + unit" where
  "verify_frames [] = Inr ()"
| "verify_frames (frame # frames) =
     (case verify_async_machine frame of
        Inl errs \<Rightarrow> Inl (InvalidAsyncFrame errs)
      | Inr _ \<Rightarrow> verify_frames frames)"

definition function_indices :: "MirProgram \<Rightarrow> CodegenError + (DefId \<rightharpoonup> u32)" where
  "function_indices program =
     bindR (collectR (\<lambda>(index, f). bindR (u32_of_length ''too many functions'' index) (\<lambda>k. Inr (fn_id f, k)))
              (zip [0..<length (program_functions program)] (program_functions program)))
       (\<lambda>entries. Inr (collect_map entries))"

definition i64_type :: "MirFunction \<Rightarrow> FuncType" where
  "i64_type f = \<lparr>func_params = replicate (unat (parameter_count f)) I64, func_results = [I64]\<rparr>"

definition step_type :: FuncType where
  "step_type = \<lparr>func_params = [I32, I32], func_results = [I32]\<rparr>"

definition sync_types :: "MirProgram \<Rightarrow> CodegenError + (FuncType \<times> u32) list" where
  "sync_types program =
     collectR (\<lambda>(index, f). bindR (supported_signature f) (\<lambda>_.
         bindR (u32_of_length ''too many function types'' index) (\<lambda>k. Inr (i64_type f, k))))
       (zip [0..<length (program_functions program)] (program_functions program))"

definition step_export_name :: "AsyncStateMachine \<Rightarrow> string" where
  "step_export_name frame =
     ''syllog_async_'' @ decimal (unat (module_id (machine_function frame))) @ ''_'' @
     decimal (unat (def_index (machine_function frame))) @ ''_step''"

definition async_exports :: "u32 \<Rightarrow> AsyncStateMachine list \<Rightarrow> CodegenError + (string \<times> u32) list" where
  "async_exports sync_count frames =
     collectR (\<lambda>(index, frame). bindR (u32_of_length ''too many async frames'' index) (\<lambda>k.
         Inr (step_export_name frame, saturating_add sync_count k)))
       (zip [0..<length frames] frames)"

definition emit_with_capabilities ::
  "codegen_lib \<Rightarrow> MirProgram \<Rightarrow> AsyncStateMachine list \<Rightarrow> CapabilityManifest \<Rightarrow> WasmOptions
     \<Rightarrow> CodegenError + WasmArtifact" where
  "emit_with_capabilities lib program frames caps options =
     (case verify program of
        Inl errs \<Rightarrow> Inl (InvalidMirInput errs)
      | Inr _ \<Rightarrow>
          bindR (verify_frames frames) (\<lambda>_.
          bindR (ok_or MissingEntryFunction (program_entry program)) (\<lambda>entry.
          bindR (function_indices program) (\<lambda>indices.
          bindR (sync_types program) (\<lambda>sync.
          bindR (u32_of_length ''too many function types'' (length (program_functions program))) (\<lambda>async_type.
          bindR (ok_or MissingEntryFunction (indices entry)) (\<lambda>entry_index.
          bindR (u32_of_length ''too many functions'' (length (program_functions program))) (\<lambda>sync_count.
          bindR (async_exports sync_count frames) (\<lambda>steps.
          bindR (collectR (encode_function indices) (program_functions program)) (\<lambda>code.
          bindR (collectR encode_async_frame frames) (\<lambda>async_code.
            Inr \<lparr>artifact_module =
                   \<lparr>module_types = map fst sync @ (if frames = [] then [] else [step_type]),
                    module_functions = map snd sync @ map (\<lambda>_. async_type) frames,
                    module_exports = (''main'', entry_index) # steps,
                    module_code = code @ async_code,
                    module_custom =
                      [(''syllog.source_map'', encode_source_map program options)] @
                      (if frames = [] then [] else [(''syllog.async_frames'', json_frames lib frames)]) @
                      [(''syllog.capabilities'', json_capabilities lib caps)]\<rparr>,
                 artifact_metadata =
                   \<lparr>artifact_format_version = 1, artifact_entry = entry,
                    artifact_source_hash = sha256_of_inputs lib program frames caps,
                    async_frame_count = try_from_or_max (length frames),
                    artifact_capabilities = caps\<rparr>\<rparr>)))))))))))"

definition emit_with_async_frames ::
  "codegen_lib \<Rightarrow> MirProgram \<Rightarrow> AsyncStateMachine list \<Rightarrow> WasmOptions \<Rightarrow> CodegenError + WasmArtifact" where
  "emit_with_async_frames lib program frames options =
     emit_with_capabilities lib program frames default_manifest options"

definition emit :: "codegen_lib \<Rightarrow> MirProgram \<Rightarrow> WasmOptions \<Rightarrow> CodegenError + WasmArtifact" where
  "emit lib program options = emit_with_async_frames lib program [] options"

end
