(* ===== verification/Wasm_Correct.thy ===== *)
theory Wasm_Correct
  imports Wasm_Sim
begin

text \<open>
  Whole functions: the structured reading of an emitted body, the dispatch loop over its blocks,
  and the simulation of the interpreter's call loop.
\<close>

section \<open>The structured body\<close>

definition block_code :: "MirFunction \<Rightarrow> u32 \<Rightarrow> (DefId \<rightharpoonup> u32) \<Rightarrow> BasicBlock \<Rightarrow> wcode list" where
  "block_code f pc indices block =
     map Plain (case encode_all (encode_statement f) (statements block) of Inr code \<Rightarrow> code | Inl e \<Rightarrow> []) @
     terminator_code f pc indices (the (terminator block))"

definition indexed_code :: "MirFunction \<Rightarrow> u32 \<Rightarrow> (DefId \<rightharpoonup> u32) \<Rightarrow> nat \<times> BasicBlock \<Rightarrow> wcode list" where
  "indexed_code f pc indices = (\<lambda>(index, block).
     [Plain (LocalGet pc), Plain (I64Const (of_nat index)), Plain I64Eq,
      IfElse BlockEmpty (block_code f pc indices block) []])"

definition blocks_code :: "MirFunction \<Rightarrow> u32 \<Rightarrow> (DefId \<rightharpoonup> u32) \<Rightarrow> (nat \<times> BasicBlock) list \<Rightarrow> wcode list" where
  "blocks_code f pc indices bs = concat (map (indexed_code f pc indices) bs) @ [Plain Unreachable]"

definition pc_local :: "MirFunction \<Rightarrow> u32" where
  "pc_local f = of_nat (length (fn_locals f))"

definition dispatch :: "(DefId \<rightharpoonup> u32) \<Rightarrow> MirFunction \<Rightarrow> wcode" where
  "dispatch indices f =
     LoopBlock BlockEmpty (blocks_code f (pc_local f) indices (zip [0..<length (fn_blocks f)] (fn_blocks f)))"

definition body_code :: "(DefId \<rightharpoonup> u32) \<Rightarrow> MirFunction \<Rightarrow> wcode list" where
  "body_code indices f =
     [Plain (I64Const 0), Plain (LocalSet (pc_local f)), dispatch indices f, Plain (I64Const 0)]"

lemma block_code_ok:
  assumes "encode_block f pc indices block = Inr code"
  shows "flatten (block_code f pc indices block) = code \<and> well_formed (block_code f pc indices block)"
proof -
  obtain a b where a: "encode_all (encode_statement f) (statements block) = Inr a"
    and b: "encode_terminator f pc indices (the (terminator block)) = Inr b" and "code = a @ b"
    using assms by (auto simp: encode_block_def)
  moreover have "list_all plain a" using encode_all_plain [OF a] encode_statement_plain by blast
  ultimately show ?thesis using terminator_code_ok [OF b] by (simp add: block_code_def)
qed

lemma blocks_code_ok:
  "encode_all (encode_indexed_block f pc indices) bs = Inr code \<Longrightarrow>
     flatten (blocks_code f pc indices bs) = code @ [Unreachable] \<and> well_formed (blocks_code f pc indices bs)"
proof (induction bs arbitrary: code)
  case (Cons b bs)
  obtain i block where b: "b = (i, block)" by fastforce
  obtain k c rest where "i64_of_index i = Inr k" and c: "encode_block f pc indices block = Inr c"
    and rest: "encode_all (encode_indexed_block f pc indices) bs = Inr rest"
    and "code = [LocalGet pc, I64Const k, I64Eq, IfI BlockEmpty] @ c @ [EndI] @ rest"
    using Cons.prems b by (auto simp: encode_indexed_block_def)
  then show ?case
    using Cons.IH [OF rest] block_code_ok [OF c] b
    by (auto simp: blocks_code_def indexed_code_def i64_of_index_def split: if_splits)
qed (simp add: blocks_code_def)

lemma encode_functionE:
  assumes "encode_function indices f = Inr F"
  obtains body where "length (fn_locals f) < 2 ^ 32"
    and "encode_all (encode_indexed_block f (pc_local f) indices)
           (zip [0..<length (fn_blocks f)] (fn_blocks f)) = Inr body"
    and "function_locals F = [(saturating_add (saturating_sub (pc_local f) (parameter_count f)) 1, I64)]"
    and "function_body (function_code F) = Some (body_code indices f)"
proof -
  obtain body where n: "length (fn_locals f) < 2 ^ 32"
    and body: "encode_all (encode_indexed_block f (pc_local f) indices)
           (zip [0..<length (fn_blocks f)] (fn_blocks f)) = Inr body"
    and F: "F = \<lparr>function_locals = [(saturating_add (saturating_sub (pc_local f) (parameter_count f)) 1, I64)],
        function_code = [I64Const 0, LocalSet (pc_local f), LoopI BlockEmpty] @ body @
                [Unreachable, EndI, I64Const 0, EndI]\<rparr>"
    using assms by (auto simp: encode_function_def u32_of_length_def pc_local_def split: if_splits)
  have "function_code F = flatten (body_code indices f) @ [EndI]" and "well_formed (body_code indices f)"
    using blocks_code_ok [OF body] F by (simp_all add: body_code_def dispatch_def)
  then have "function_body (function_code F) = Some (body_code indices f)"
    using function_body_flatten by simp
  then show thesis using that n body F by simp
qed

lemma encode_all_nth:
  "encode_all g xs = Inr code \<Longrightarrow> i < length xs \<Longrightarrow> \<exists>c. g (xs ! i) = Inr c"
  by (induction xs arbitrary: i code) (auto simp: nth_Cons split: nat.splits)

lemma encoded_block:
  assumes "encode_all (encode_indexed_block f pc indices) (zip [0..<length bs] bs) = Inr body" and "i < length bs"
  obtains sc tc where "i < 2 ^ 63" and "encode_all (encode_statement f) (statements (bs ! i)) = Inr sc"
    and "encode_terminator f pc indices (the (terminator (bs ! i))) = Inr tc"
  using encode_all_nth [OF assms(1), of i] assms(2) that
  by (auto simp: encode_indexed_block_def i64_of_index_def encode_block_def split: if_splits)

section \<open>Dispatch\<close>

lemma runs_test:
  assumes "unat pc < length ws" and "ws ! unat pc = W64 n"
    and "runs funcs is [bool32 (n = k)] ws r"
  shows "runs funcs (Plain (LocalGet pc) # Plain (I64Const k) # Plain I64Eq # is) [] ws r"
proof -
  have "runs funcs (Plain I64Eq # is) [W64 k, W64 n] ws r"
    using assms(3) by (rule runs_plain [rotated 2]) (simp_all add: i64_op_def)
  then have "runs funcs (Plain (I64Const k) # Plain I64Eq # is) [W64 n] ws r"
    by (rule runs_plain [rotated 2]) simp_all
  then show ?thesis by (rule runs_plain [rotated 2]) (use assms(1,2) in \<open>simp_all add: nth_opt_def\<close>)
qed

text \<open>The test of the block whose index the program counter holds is the only one that succeeds.\<close>

lemma runs_blocks:
  assumes "unat pc < length ws" and "ws ! unat pc = W64 (of_nat i)" and "i < 2 ^ 63"
    and "\<forall>(k, b) \<in> set bs. k < 2 ^ 63" and "distinct (map fst bs)" and "(i, block) \<in> set bs"
    and r: "runs funcs (block_code f pc indices block) [] ws r" "\<not> is_next (leave 0 [] r)"
  shows "runs funcs (blocks_code f pc indices bs) [] ws (leave 0 [] r)"
  using assms(4-6)
proof (induction bs)
  case (Cons b bs)
  obtain k b' where b: "b = (k, b')" by fastforce
  let ?if = "IfElse BlockEmpty (block_code f pc indices b') []"
  have split: "blocks_code f pc indices (b # bs) =
      Plain (LocalGet pc) # Plain (I64Const (of_nat k)) # Plain I64Eq # ?if # blocks_code f pc indices bs"
    by (simp add: blocks_code_def indexed_code_def b)
  have eq: "of_nat i = (of_nat k :: u64) \<longleftrightarrow> i = k"
    using Cons.prems(1) assms(3) b by (auto simp: word_of_nat_eq_iff take_bit_nat_eq_self)
  show ?case
  proof (cases "i = k")
    case True
    then have "b' = block" using Cons.prems(2,3) b by force
    then have "runs1 funcs ?if [W32 1] ws (leave 0 [] r)"
      using runs1_if [of funcs 1 _ _ ws r BlockEmpty "[]"] r(1) by simp
    from runs_stop [OF this r(2)] show ?thesis
      unfolding split using True by (intro runs_test [OF assms(1,2)]) (simp add: bool32_def)
  next
    case False
    have "runs1 funcs ?if [W32 0] ws (Next [] ws)"
      using runs1_if [of funcs 0 _ "[]" ws "Next [] ws" BlockEmpty "[]"] runs_Nil by (simp add: leave_def)
    moreover have "runs funcs (blocks_code f pc indices bs) [] ws (leave 0 [] r)"
      using Cons False b by auto
    ultimately show ?thesis
      unfolding split using runs_Cons False eq by (intro runs_test [OF assms(1,2)]) (simp add: bool32_def)
  qed
qed simp

section \<open>Terminators\<close>

lemma pc_local_index: "layout_ok f \<Longrightarrow> unat (pc_local f) = length (fn_locals f)"
  by (simp add: pc_local_def layout_ok_def unat_of_nat take_bit_nat_eq_self)

lemma runs_return:
  assumes "terminator_step Return m ls = Inr (Finish v, m', ls')" and "agree f ls ws" and "layout_ok f"
  shows "runs funcs (terminator_code f pc indices Return) [] ws (Result [W64 (enc v)])"
proof -
  have l: "unat 0 < length ls" "ls ! unat (0 :: u32) = Some v" using assms(1) by auto
  have "runs funcs [Plain ReturnI] [W64 (enc v)] ws (Result [W64 (enc v)])"
    by (rule runs_plain_stop) auto
  then have "runs funcs [Plain (LocalGet (wasm_local f 0)), Plain ReturnI] [] ws (Result [W64 (enc v)])"
    by (rule runs_plain [OF agree_local [OF assms(2,3) l], rotated]) simp
  then show ?thesis by (simp add: terminator_code_def)
qed

lemma integer_operand_enc:
  assumes "integer_operand x m ls = Inr (k, m', ls')"
  obtains v where "operand x m ls = Inr (v, m', ls')" and "k = ucast (enc v)"
proof -
  obtain v m1 ls1 where v: "operand x m ls = Inr (v, m1, ls1)"
    using assms by (auto simp: integer_operand_def)
  then show thesis
    using assms that by (cases v) (auto simp: integer_operand_def split: if_splits)
qed

text \<open>Control stays in the function: the code jumps back to the loop with the counter set.\<close>

definition continues ::
  "wfunc list \<Rightarrow> wcode list \<Rightarrow> MirFunction \<Rightarrow> wval list \<Rightarrow> BlockId \<Rightarrow> frame_locals \<Rightarrow> bool" where
  "continues funcs code f ws k ls \<longleftrightarrow> (\<exists>ws'. runs funcs code [] ws (Jump 1 [] ws') \<and>
     agree f ls ws' \<and> ws' ! unat (pc_local f) = W64 (ucast k))"

lemma continues_setI:
  assumes "runs funcs code [] ws (Jump 1 [] (ws1[unat (pc_local f) := W64 (ucast k)]))"
    and "agree f ls ws1" and "layout_ok f"
  shows "continues funcs code f ws k ls"
  unfolding continues_def
  by (rule exI [of _ "ws1[unat (pc_local f) := W64 (ucast k)]"])
     (use assms agree_pc [OF assms(2,3)] in \<open>auto simp: pc_local_index agree_def\<close>)

lemma pc_local_bound: "agree f ls ws \<Longrightarrow> layout_ok f \<Longrightarrow> unat (pc_local f) < length ws"
  by (simp add: pc_local_index agree_def)

lemma runs_goto:
  assumes "terminator_step t m ls = Inr (Continue k, m', ls')"
    and "encode_terminator f (pc_local f) indices t = Inr code" and "agree f ls ws" and "layout_ok f"
  shows "continues funcs (terminator_code f (pc_local f) indices t) f ws k ls'"
proof (cases t)
  case (Goto target)
  then show ?thesis
    using assms runs_continue [OF pc_local_bound [OF assms(3,4)], of funcs target 1]
    by (intro continues_setI [OF _ _ assms(4), of _ _ _ ws]) (auto simp: terminator_code_def)
next
  case (SwitchInt x targets otherwise)
  obtain c where "integer_operand x m ls = Inr (c, m', ls')" and k: "k = switch_target c targets otherwise"
    using assms(1) SwitchInt by auto
  then obtain v where v: "operand x m ls = Inr (v, m', ls')" "c = ucast (enc v)"
    using integer_operand_enc by blast
  obtain a where a: "encode_all (encode_switch_case f (pc_local f) x) targets = Inr a"
    using assms(2) SwitchInt by auto
  have small: "\<forall>(candidate, target) \<in> set targets. unat candidate < 2 ^ 64"
    using switch_code_flatten [OF a] by blast
  note pc = pc_local_bound [OF assms(3,4)]
  show ?thesis
  proof (cases "encode_operand f x")
    case (Inr code)
    note op = runs_operand [OF Inr v(1) assms(3,4), of funcs]
    have "runs funcs (map Plain (operand_code f x)) st ws (Next (W64 (enc v) # st) ws)" for st
      using op Inr by (simp add: operand_code_def)
    from runs_switch [OF this pc small] runs_continue [OF pc, of funcs otherwise 1]
    have "runs funcs (terminator_code f (pc_local f) indices t) [] ws
        (Jump 1 [] (ws[unat (pc_local f) := W64 (ucast k)]))"
      using SwitchInt k v(2) by (simp add: terminator_code_def)
    then show ?thesis using op by (intro continues_setI [OF _ _ assms(4)]) auto
  next
    case (Inl e)
    then have "targets = []" using a by (cases targets) (auto simp: encode_switch_case_def)
    then have "runs funcs (terminator_code f (pc_local f) indices t) [] ws
        (Jump 1 [] (ws[unat (pc_local f) := W64 (ucast k)]))"
      using SwitchInt k runs_continue [OF pc, of funcs otherwise 1]
      by (simp add: terminator_code_def switch_code_def switch_target_def)
    then show ?thesis using operand_agree [OF v(1) assms(3)] by (intro continues_setI [OF _ _ assms(4)])
  qed
qed (use assms(1) in auto)

lemma runs_invoke:
  assumes "terminator_step t m ls = Inr (Invoke d vs p k, m', ls')"
    and "encode_terminator f (pc_local f) indices t = Inr code" and "agree f ls ws" and "layout_ok f"
    and "runs1 funcs (Plain (CallI (the (indices d)))) (rev (map (\<lambda>v. W64 (enc v)) vs)) ws (Next [W64 (enc v)] ws)"
    and "assign p v ls' = Inr ls2"
  shows "continues funcs (terminator_code f (pc_local f) indices t) f ws k ls2"
proof -
  obtain args where t: "t = Call d args p k" and vs: "operand_list args m ls = Inr (vs, m', ls')"
    using assms(1) by (cases t) auto
  obtain a b where a: "encode_all (encode_operand f) args = Inr a" and b: "encode_set_place f p = Inr b"
    and code: "code = a @ [CallI (the (indices d))] @ b @ encode_continue (pc_local f) k 1"
    using assms(2) t by auto
  note r1 = runs_operands [OF a vs assms(3,4), of funcs "[]"]
  obtain ws1 where r2: "runs funcs (map Plain b) [W64 (enc v)] ws (Next [] ws1)" and agr: "agree f ls2 ws1"
    using runs_set_place [OF b assms(6) _ assms(4)] r1 by blast
  have "runs funcs (map Plain (b @ encode_continue (pc_local f) k 1)) [W64 (enc v)] ws
      (Jump 1 [] (ws1[unat (pc_local f) := W64 (ucast k)]))"
    using runs_append [OF r2 runs_continue [OF pc_local_bound [OF agr assms(4)], of funcs k 1]] by simp
  from runs_append [OF conjunct1 [OF r1] runs_Cons [OF _ this], of "Plain (CallI (the (indices d)))"] assms(5)
  have "runs funcs (terminator_code f (pc_local f) indices t) [] ws
      (Jump 1 [] (ws1[unat (pc_local f) := W64 (ucast k)]))"
    using a b t by (simp add: terminator_code_def)
  then show ?thesis by (rule continues_setI [OF _ agr assms(4)])
qed

section \<open>Functions\<close>

definition compiled_as :: "(DefId \<rightharpoonup> u32) \<Rightarrow> MirFunction \<Rightarrow> wfunc" where
  "compiled_as indices f =
     \<lparr>wf_type = i64_type f,
      wf_locals = replicate (Suc (length (fn_locals f) - unat (parameter_count f))) I64,
      wf_body = body_code indices f\<rparr>"

text \<open>What the simulation needs of every function of the program.\<close>

definition supported ::
  "wfunc list \<Rightarrow> (DefId \<rightharpoonup> u32) \<Rightarrow> (DefId \<rightharpoonup> MirFunction) \<Rightarrow> DefId \<Rightarrow> MirFunction \<Rightarrow> bool" where
  "supported funcs indices table d f \<longleftrightarrow>
     verify_function f table = [] \<and>
     (\<forall>b \<in> set (fn_blocks f). \<forall>s \<in> set (statements b). whole_borrow s \<and> \<not> comparison s) \<and>
     (\<exists>F. encode_function indices f = Inr F) \<and>
     (\<exists>x. indices d = Some x \<and> unat x < length funcs \<and> funcs ! unat x = compiled_as indices f)"

lemma supported_layout: "supported funcs indices table d f \<Longrightarrow> layout_ok f"
  by (auto simp: supported_def layout_ok_def dest: verify_functionD(4) elim: encode_functionE)

lemma supported_blocks:
  assumes "supported funcs indices table d f"
  obtains body where "encode_all (encode_indexed_block f (pc_local f) indices)
           (zip [0..<length (fn_blocks f)] (fn_blocks f)) = Inr body"
  using assms by (auto simp: supported_def elim: encode_functionE)

lemma runs_dispatch:
  assumes "supported funcs indices table d f" and "i < length (fn_blocks f)"
    and "agree f ls ws" and "ws ! unat (pc_local f) = W64 (of_nat i)"
    and "runs funcs (block_code f (pc_local f) indices (fn_blocks f ! i)) [] ws r" and "\<not> is_next (leave 0 [] r)"
  shows "runs funcs (blocks_code f (pc_local f) indices (zip [0..<length (fn_blocks f)] (fn_blocks f))) [] ws
    (leave 0 [] r)"
proof -
  obtain body where body: "encode_all (encode_indexed_block f (pc_local f) indices)
      (zip [0..<length (fn_blocks f)] (fn_blocks f)) = Inr body"
    using supported_blocks [OF assms(1)] .
  have "k < 2 ^ 63" if "k < length (fn_blocks f)" for k
    using encoded_block [OF body that] by blast
  then show ?thesis
    using pc_local_bound [OF assms(3) supported_layout [OF assms(1)]] assms(2)
    by (intro runs_blocks [OF _ assms(4) _ _ _ in_zip_enumerate [OF assms(2)] assms(5,6)])
       (auto simp: set_zip)
qed

lemma runs_loop_finish:
  assumes "supported funcs indices table d f" and "i < length (fn_blocks f)"
    and "agree f ls ws" and "ws ! unat (pc_local f) = W64 (of_nat i)"
    and "runs funcs (block_code f (pc_local f) indices (fn_blocks f ! i)) [] ws (Result v)"
  shows "runs1 funcs (dispatch indices f) [] ws (Result v)"
  using runs_dispatch [OF assms] unfolding dispatch_def
  by (intro runs1_loop_result) (simp add: leave_def)

lemma runs_loop_continue:
  assumes "supported funcs indices table d f" and "i < length (fn_blocks f)"
    and "agree f ls ws" and "ws ! unat (pc_local f) = W64 (of_nat i)"
    and "continues funcs (block_code f (pc_local f) indices (fn_blocks f ! i)) f ws k ls'"
    and "\<And>ws'. agree f ls' ws' \<Longrightarrow> ws' ! unat (pc_local f) = W64 (of_nat (unat k)) \<Longrightarrow>
      runs1 funcs (dispatch indices f) [] ws' r"
  shows "runs1 funcs (dispatch indices f) [] ws r"
proof -
  obtain ws' where ws': "runs funcs (block_code f (pc_local f) indices (fn_blocks f ! i)) [] ws (Jump 1 [] ws')"
    "agree f ls' ws'" "ws' ! unat (pc_local f) = W64 (ucast k)"
    using assms(5) by (auto simp: continues_def)
  have "W64 (ucast k) = W64 (of_nat (unat k))" by simp
  then have "runs1 funcs (dispatch indices f) [] ws' r" using assms(6) ws'(2,3) by metis
  moreover have "runs funcs (blocks_code f (pc_local f) indices (zip [0..<length (fn_blocks f)] (fn_blocks f))) [] ws
      (Jump 0 [] ws')"
    using runs_dispatch [OF assms(1-4) ws'(1)] by (simp add: leave_def)
  ultimately show ?thesis unfolding dispatch_def using runs1_loop_again by metis
qed

text \<open>The frame of a call.\<close>

lemma agree_enter:
  assumes "enter m d vs k = Inr (g, ls)" and "layout_ok g"
  shows "agree g ls (map (\<lambda>v. W64 (enc v)) vs @ map zero_of (wf_locals (compiled_as indices g)))"
    and "length vs = unat (parameter_count g)"
proof -
  have n: "length vs = unat (parameter_count g)" and e: "enter_locals g vs = Inr ls"
    using assms(1) by (auto simp: enter_def split: if_splits)
  then have "length vs < length (fn_locals g)" using assms(2) by (simp add: layout_ok_def)
  then have "ls = None # map Some vs @ replicate (length (fn_locals g) - Suc (length vs)) None"
    using e enter_locals_eq by auto
  then show "agree g ls (map (\<lambda>v. W64 (enc v)) vs @ map zero_of (wf_locals (compiled_as indices g)))"
    using n \<open>length vs < length (fn_locals g)\<close>
    by (auto simp: agree_def compiled_as_def widx_def Let_def nth_Cons nth_append split: nat.splits if_splits)
  show "length vs = unat (parameter_count g)" by (rule n)
qed

lemma runs_body:
  assumes "layout_ok f" and "agree f ls ws"
    and "\<And>ws'. agree f ls ws' \<Longrightarrow> ws' ! unat (pc_local f) = W64 (of_nat 0) \<Longrightarrow>
      runs1 funcs (dispatch indices f) [] ws' (Result v)"
  shows "runs funcs (body_code indices f) [] ws (Result v)"
proof -
  let ?ws = "ws[unat (pc_local f) := W64 0]"
  have pc: "unat (pc_local f) < length ws" by (rule pc_local_bound [OF assms(2,1)])
  have "agree f ls ?ws" using agree_pc [OF assms(2,1)] by (simp add: pc_local_index [OF assms(1)])
  then have "runs1 funcs (dispatch indices f) [] ?ws (Result v)" using assms(3) pc by simp
  from runs_stop [OF this]
  have "runs funcs [dispatch indices f, Plain (I64Const 0)] [] ?ws (Result v)" by simp
  then have "runs funcs [Plain (LocalSet (pc_local f)), dispatch indices f, Plain (I64Const 0)] [W64 0] ws (Result v)"
    by (rule runs_plain [rotated 2]) (use pc in simp_all)
  then show ?thesis unfolding body_code_def by (rule runs_plain [rotated 2]) simp_all
qed

lemma runs_call:
  assumes "supported funcs indices table d g" and "enter m d vs k = Inr (g, ls)"
    and "\<And>ws. agree g ls ws \<Longrightarrow> ws ! unat (pc_local g) = W64 (of_nat 0) \<Longrightarrow>
      runs1 funcs (dispatch indices g) [] ws (Result [W64 (enc v)])"
  shows "runs1 funcs (Plain (CallI (the (indices d)))) (rev (map (\<lambda>v. W64 (enc v)) vs)) ws (Next [W64 (enc v)] ws)"
proof -
  note lay = supported_layout [OF assms(1)]
  obtain x where x: "indices d = Some x" "unat x < length funcs" "funcs ! unat x = compiled_as indices g"
    using assms(1) by (auto simp: supported_def)
  have "runs funcs (body_code indices g) [] (map (\<lambda>v. W64 (enc v)) vs @ map zero_of (wf_locals (compiled_as indices g)))
      (Result [W64 (enc v)])"
    by (rule runs_body [OF lay agree_enter(1) [OF assms(2) lay] assms(3)])
  moreover have "func_results (wf_type (compiled_as indices g)) = [I64]"
    "wf_body (compiled_as indices g) = body_code indices g"
    "length (map (\<lambda>v. W64 (enc v)) vs) = length (func_params (wf_type (compiled_as indices g)))"
    using agree_enter(2) [OF assms(2) lay] by (simp_all add: compiled_as_def i64_type_def)
  ultimately show ?thesis
    using runs1_call [OF x(2,3), of "map (\<lambda>v. W64 (enc v)) vs" "W64 (enc v)" "[]" I64 "[]"] x(1) by simp
qed

section \<open>Simulation\<close>

lemma runs_block_statements:
  assumes sup: "supported funcs indices table d f" and i: "i < length (fn_blocks f)"
    and r: "reachable_blocks f ! i" and "conforms f ls" and "agree f ls ws"
    and step: "block_step f i m ls = Inr (c, m', ls')"
  obtains t tc m2 ls1 ws1 where "terminator (fn_blocks f ! i) = Some t"
    and "encode_terminator f (pc_local f) indices t = Inr tc"
    and "terminator_step t m2 ls1 = Inr (c, m', ls')" and "agree f ls1 ws1"
    and "\<And>r. runs funcs (terminator_code f (pc_local f) indices t) [] ws1 r \<Longrightarrow>
      runs funcs (block_code f (pc_local f) indices (fn_blocks f ! i)) [] ws r"
proof -
  have v: "verify_function f table = []" using sup by (simp add: supported_def)
  have w: "\<forall>s \<in> set (statements (fn_blocks f ! i)). \<not> comparison s"
    "\<forall>s \<in> set (statements (fn_blocks f ! i)). whole_borrow s"
    using sup i by (auto simp: supported_def)
  note vf = verify_functionD [OF v]
  obtain D where D: "definite_initialization f ! i = Some D" using definite_in_ever [OF i r] by blast
  obtain t where t: "terminator (fn_blocks f ! i) = Some t" using verify_targetsD [OF vf(5) i] by blast
  obtain D1 where v1: "verify_statements f (block_id_of i) (statements (fn_blocks f ! i)) D = (D1, [])"
    using verify_blocksD [OF vf(6) i D] t by (auto simp: verify_block_def split: prod.splits)
  obtain m1 ls1 m2 where e: "execute_statements (statements (fn_blocks f ! i)) m ls = Inr (m1, ls1)"
    and e2: "terminator_step t m2 ls1 = Inr (c, m', ls')"
    using step t i by (auto simp: block_step_def)
  obtain body where "encode_all (encode_indexed_block f (pc_local f) indices)
      (zip [0..<length (fn_blocks f)] (fn_blocks f)) = Inr body"
    using supported_blocks [OF sup] .
  then obtain sc tc where sc: "encode_all (encode_statement f) (statements (fn_blocks f ! i)) = Inr sc"
    and tc: "encode_terminator f (pc_local f) indices t = Inr tc"
    using encoded_block [OF _ i] t by (metis option.sel)
  obtain ws1 where "runs funcs (map Plain sc) [] ws (Next [] ws1)" "agree f ls1 ws1"
    using runs_statements [OF sc e assms(5) supported_layout [OF sup] assms(4) v1 w] by blast
  then show thesis
    using that [OF t tc e2] runs_append sc t by (fastforce simp: block_code_def)
qed

lemma successor_reachable:
  assumes "verify_function f table = []" and "i < length (fn_blocks f)" and "reachable_blocks f ! i"
    and "k \<in> set (block_successors (fn_blocks f ! i))"
  shows "unat k < length (fn_blocks f)" and "reachable_blocks f ! unat k"
  using verify_targetsD [OF verify_functionD(5) [OF assms(1)] assms(2)] assms(4)
    reachable_blocks_edge [OF assms(2-4)] by (auto simp: block_successors_def)

text \<open>Types across a call that returns.\<close>

lemma invoke_typed:
  assumes tab: "\<And>d g. table d = Some g \<Longrightarrow> supported funcs indices table d g"
    and "control_typed table f ks (Invoke e vs p k) ls1" and m1: "m_functions m1 = table"
    and en: "enter m1 e vs depth = Inr (g, gls)"
    and c1: "call_loop fuel g 0 gls depth m1 = Some (Inr (u, m3))" and a: "assign p u ls1 = Inr ls3"
  shows "table e = Some g" "0 < length (fn_blocks g)" "reachable_blocks g ! 0" "conforms g gls"
    "conforms f ls3" "m_functions m3 = table" "k \<in> set ks"
proof -
  show g: "table e = Some g" using en m1 by (auto simp: enter_def split: if_splits)
  have vg: "verify_function g table = []" "\<forall>b \<in> set (fn_blocks g). \<forall>s \<in> set (statements b). whole_borrow s"
    using tab [OF g] by (auto simp: supported_def)
  have ls1: "conforms f ls1" and dest: "\<And>l. p = PLocal l \<Longrightarrow> fn_locals f ! unat l = return_type g"
    and args: "\<forall>i < length vs. i + 1 < length (fn_locals g) \<longrightarrow> has_type (vs ! i) (fn_locals g ! (i + 1))"
    using assms(2) g by (auto simp: control_typed_def)
  show k: "k \<in> set ks" using assms(2) g by (auto simp: control_typed_def)
  show gls: "conforms g gls" using enter_typed [OF en vg(1) _ args] g m1 by auto
  show entry: "0 < length (fn_blocks g)" "reachable_blocks g ! 0"
    using verify_functionD(2) [OF vg(1)] reachable_blocks_entry by auto
  have tab': "verify_function h table = [] \<and> (\<forall>b \<in> set (fn_blocks h). \<forall>s \<in> set (statements b). whole_borrow s)"
    if "table d' = Some h" for d' h
    using tab [OF that] by (simp add: supported_def)
  have "has_type u (return_type g)" by (rule call_loop_typed [OF tab' vg entry gls m1 c1])
  then show "conforms f ls3" using assign_typed [OF ls1 a] dest by metis
  show "m_functions m3 = table" using call_loop_advances [OF c1] m1 by (simp add: advances_def)
qed

lemma call_loop_simulated:
  assumes tab: "\<And>d g. table d = Some g \<Longrightarrow> supported funcs indices table d g"
    and "supported funcs indices table d0 f"
    and "i < length (fn_blocks f)" and "reachable_blocks f ! i" and "conforms f ls"
    and "m_functions m = table" and "call_loop fuel f i ls d m = Some (Inr (v, m'))"
    and "agree f ls ws" and "ws ! unat (pc_local f) = W64 (of_nat i)"
  shows "runs1 funcs (dispatch indices f) [] ws (Result [W64 (enc v)])"
  using assms(2-)
proof (induction fuel arbitrary: d0 f i ls d m v m' ws)
  case 0
  then show ?case by simp
next
  case (Suc fuel)
  note sup = Suc.prems(1) and i = Suc.prems(2) and lay = supported_layout [OF Suc.prems(1)]
  have vf: "verify_function f table = []" and w: "\<forall>s \<in> set (statements (fn_blocks f ! i)). whole_borrow s"
    using sup i by (auto simp: supported_def)
  obtain c m1 ls1 where step: "block_step f i m ls = Inr (c, m1, ls1)"
    using Suc.prems(6) by (auto split: sum.splits)
  note typed = typed_block_step [OF vf Suc.prems(2,3,4) w step] and succ = successor_reachable [OF vf Suc.prems(2,3)]
  have m1: "m_functions m1 = table"
    using block_step_advances [OF step] Suc.prems(5) by (simp add: advances_def)
  obtain t tc m2 ls2 ws1 where t: "encode_terminator f (pc_local f) indices t = Inr tc"
    "terminator_step t m2 ls2 = Inr (c, m1, ls1)" "agree f ls2 ws1"
    and blk: "\<And>r. runs funcs (terminator_code f (pc_local f) indices t) [] ws1 r \<Longrightarrow>
      runs funcs (block_code f (pc_local f) indices (fn_blocks f ! i)) [] ws r"
    using runs_block_statements [OF Suc.prems(1-4,7) step] by metis
  have again: "runs1 funcs (dispatch indices f) [] ws (Result [W64 (enc v)])"
    if "continues funcs (terminator_code f (pc_local f) indices t) f ws1 k ls'"
      "k \<in> set (block_successors (fn_blocks f ! i))" "conforms f ls'" "m_functions n = table"
      "call_loop fuel f (unat k) ls' d n = Some (Inr (v, m'))" for k ls' n
    using that(1) blk Suc.IH [OF sup succ [OF that(2)] that(3-5)]
    by (intro runs_loop_continue [OF sup i Suc.prems(7,8)]) (auto simp: continues_def)
  show ?case
  proof (cases c)
    case (Finish u)
    then have "t = Return" "u = v" using t(2) step Suc.prems(6) by (cases t; auto)+
    then have "runs funcs (terminator_code f (pc_local f) indices t) [] ws1 (Result [W64 (enc v)])"
      using runs_return [OF _ t(3) lay] t(2) Finish by blast
    then show ?thesis by (rule runs_loop_finish [OF sup i Suc.prems(7,8) blk])
  next
    case (Continue k)
    then have "k \<in> set (block_successors (fn_blocks f ! i))" "conforms f ls1"
      "call_loop fuel f (unat k) ls1 d m1 = Some (Inr (v, m'))"
      using step typed Suc.prems(6) by (auto simp: control_typed_def)
    then show ?thesis using again [OF runs_goto [OF _ t(1,3) lay]] t(2) Continue m1 by blast
  next
    case (Invoke e vs p k)
    then obtain g gls u m3 ls3 where en: "enter m1 e vs (saturating_add d 1) = Inr (g, gls)"
      and c1: "call_loop fuel g 0 gls (saturating_add d 1) m1 = Some (Inr (u, m3))"
      and a: "assign p u ls1 = Inr ls3"
      and c2: "call_loop fuel f (unat k) ls3 d m3 = Some (Inr (v, m'))"
      using step Suc.prems(6) by (auto split: sum.splits option.splits)
    note g = invoke_typed [OF tab typed [unfolded Invoke] m1 en c1 a]
    have "runs1 funcs (Plain (CallI (the (indices e)))) (rev (map (\<lambda>v. W64 (enc v)) vs)) ws1 (Next [W64 (enc u)] ws1)"
      using Suc.IH [OF tab [OF g(1)] g(2-4) m1 c1] by (intro runs_call [OF tab [OF g(1)] en])
    then have "continues funcs (terminator_code f (pc_local f) indices t) f ws1 k ls3"
      using runs_invoke [OF _ t(1,3) lay _ a] t(2) Invoke by blast
    then show ?thesis by (rule again [OF _ g(7,5,6) c2])
  qed
qed

end
