(* ===== verification/Wasm_Async.thy ===== *)
theory Wasm_Async
  imports Wasm_Codegen
begin

text \<open>
  The exported step function of an async frame computes the transition table of its machine.
\<close>

section \<open>The transition table\<close>

text \<open>Signal 1 wakes a suspended task, 2 cancels it and 3 reports that the awaited task panicked.\<close>

fun next_state :: "u32 \<Rightarrow> u32 \<Rightarrow> AsyncTransition \<Rightarrow> u32" where
  "next_state current signal (Start after) = after"
| "next_state current signal (Suspend await_index resume cancel) =
     (if signal = 2 then cancel else if signal = 1 then resume else current)"
| "next_state current signal (Resume after panic) = (if signal = 3 then panic else after)"
| "next_state current signal Complete = current"
| "next_state current signal (Cancel locals) = current"

definition machine_next :: "AsyncStateMachine \<Rightarrow> u32 \<Rightarrow> u32 \<Rightarrow> u32" where
  "machine_next frame state signal =
     (case nth_opt (states frame) (unat state) of
        None \<Rightarrow> - 1
      | Some s \<Rightarrow> next_state state signal (transition s))"

section \<open>The structured body\<close>

fun transition_code :: "u32 \<Rightarrow> AsyncTransition \<Rightarrow> wcode list" where
  "transition_code current (Start after) = [Plain (I32Const after)]"
| "transition_code current (Suspend await_index resume cancel) =
     [Plain (LocalGet 1), Plain (I32Const 2), Plain I32Eq,
      IfElse (BlockResult I32) [Plain (I32Const cancel)]
        [Plain (LocalGet 1), Plain (I32Const 1), Plain I32Eq,
         IfElse (BlockResult I32) [Plain (I32Const resume)] [Plain (I32Const current)]]]"
| "transition_code current (Resume after panic) =
     [Plain (LocalGet 1), Plain (I32Const 3), Plain I32Eq,
      IfElse (BlockResult I32) [Plain (I32Const panic)] [Plain (I32Const after)]]"
| "transition_code current Complete = [Plain (I32Const current)]"
| "transition_code current (Cancel locals) = [Plain (I32Const current)]"

definition state_code :: "AsyncState \<Rightarrow> wcode list" where
  "state_code s =
     [Plain (LocalGet 0), Plain (I32Const (state_id s)), Plain I32Eq,
      IfElse BlockEmpty (transition_code (state_id s) (transition s) @ [Plain ReturnI]) []]"

definition states_code :: "AsyncState list \<Rightarrow> wcode list" where
  "states_code ss = concat (map state_code ss) @ [Plain (I32Const (- 1))]"

lemma async_i32_Inr [simp]: "async_i32 s = Inr k \<longleftrightarrow> k = s \<and> unat s < 2 ^ 31"
  by (auto simp: async_i32_def)

lemma transition_code_ok:
  "encode_async_transition current t = Inr code \<Longrightarrow>
     flatten (transition_code current t) = code \<and> well_formed (transition_code current t)"
  by (cases t) auto

lemma states_code_ok:
  "encode_all encode_async_state ss = Inr code \<Longrightarrow>
     flatten (states_code ss) = code @ [I32Const (- 1)] \<and> well_formed (states_code ss) \<and>
     (\<forall>s \<in> set ss. unat (state_id s) < 2 ^ 31)"
proof (induction ss arbitrary: code)
  case (Cons s ss)
  have [simp]: "encode_async_state s = Inr c \<longleftrightarrow> (\<exists>t. unat (state_id s) < 2 ^ 31 \<and>
      encode_async_transition (state_id s) (transition s) = Inr t \<and>
      c = [LocalGet 0, I32Const (state_id s), I32Eq, IfI BlockEmpty] @ t @ [ReturnI, EndI])" for c
    by (auto simp: encode_async_state_def)
  obtain t rest where t: "encode_async_transition (state_id s) (transition s) = Inr t"
    and rest: "encode_all encode_async_state ss = Inr rest" and "unat (state_id s) < 2 ^ 31"
    and "code = [LocalGet 0, I32Const (state_id s), I32Eq, IfI BlockEmpty] @ t @ [ReturnI, EndI] @ rest"
    using Cons.prems by auto
  then show ?case
    using Cons.IH [OF rest] transition_code_ok [OF t] by (simp add: states_code_def state_code_def)
qed (simp add: states_code_def)

lemma encode_async_frameD:
  assumes "encode_async_frame frame = Inr F"
  shows "function_body (function_code F) = Some (states_code (states frame))" and "function_locals F = []"
    and "\<forall>s \<in> set (states frame). unat (state_id s) < 2 ^ 31"
proof -
  obtain code where code: "encode_all encode_async_state (states frame) = Inr code"
    and F: "F = \<lparr>function_locals = [], function_code = code @ [I32Const (- 1), EndI]\<rparr>"
    using assms by (auto simp: encode_async_frame_def)
  note ok = states_code_ok [OF code]
  have "function_code F = flatten (states_code (states frame)) @ [EndI]" using ok F by simp
  then show "function_body (function_code F) = Some (states_code (states frame))"
    using function_body_flatten ok by metis
  show "function_locals F = []" and "\<forall>s \<in> set (states frame). unat (state_id s) < 2 ^ 31"
    using F ok by simp_all
qed

section \<open>Running a step\<close>

lemma runs_test32:
  assumes "unat x < length ls" and "ls ! unat x = W32 n"
    and "runs funcs is [bool32 (n = k)] ls r"
  shows "runs funcs (Plain (LocalGet x) # Plain (I32Const k) # Plain I32Eq # is) [] ls r"
proof -
  have "runs funcs (Plain I32Eq # is) [W32 k, W32 n] ls r"
    using assms(3) by (rule runs_plain [rotated 2]) simp_all
  then have "runs funcs (Plain (I32Const k) # Plain I32Eq # is) [W32 n] ls r"
    by (rule runs_plain [rotated 2]) simp_all
  then show ?thesis by (rule runs_plain [rotated 2]) (use assms(1,2) in \<open>simp_all add: nth_opt_def\<close>)
qed

lemma runs_const32: "runs funcs [Plain (I32Const k)] st ls (Next (W32 k # st) ls)"
  by (rule runs_single) auto

lemma runs_select:
  assumes "runs funcs th [] ls (Next [W32 a] ls)" and "runs funcs el [] ls (Next [W32 b] ls)"
  shows "runs funcs [IfElse (BlockResult I32) th el] [bool32 c] ls (Next [W32 (if c then a else b)] ls)"
  using runs1_if [of funcs "if c then 1 else 0" th el ls "Next [W32 (if c then a else b)] ls" "BlockResult I32" "[]"] assms
  by (intro runs_Cons [OF _ runs_Nil]) (simp add: bool32_def leave_def)

lemma runs_transition:
  "runs funcs (transition_code current t) [] [W32 state, W32 signal]
     (Next [W32 (next_state current signal t)] [W32 state, W32 signal])"
proof (cases t)
  case (Suspend await_index resume cancel)
  have "runs funcs [Plain (LocalGet 1), Plain (I32Const 1), Plain I32Eq,
      IfElse (BlockResult I32) [Plain (I32Const resume)] [Plain (I32Const current)]] [] [W32 state, W32 signal]
      (Next [W32 (if signal = 1 then resume else current)] [W32 state, W32 signal])"
    by (rule runs_test32 [OF _ _ runs_select [OF runs_const32 runs_const32]]) simp_all
  then show ?thesis
    unfolding Suspend transition_code.simps next_state.simps
    by (rule runs_test32 [OF _ _ runs_select [OF runs_const32], rotated 2]) simp_all
next
  case (Resume after panic)
  show ?thesis
    unfolding Resume transition_code.simps next_state.simps
    by (rule runs_test32 [OF _ _ runs_select [OF runs_const32 runs_const32]]) simp_all
qed (simp_all add: runs_const32)

definition step_outcome :: "AsyncState list \<Rightarrow> u32 \<Rightarrow> u32 \<Rightarrow> outcome" where
  "step_outcome ss state signal =
     (case List.find (\<lambda>s. state_id s = state) ss of
        None \<Rightarrow> Next [W32 (- 1)] [W32 state, W32 signal]
      | Some s \<Rightarrow> Result [W32 (next_state state signal (transition s))])"

lemma runs_states:
  "runs funcs (states_code ss) [] [W32 state, W32 signal] (step_outcome ss state signal)"
proof (induction ss)
  case Nil
  show ?case by (simp add: states_code_def step_outcome_def runs_const32)
next
  case (Cons s ss)
  let ?ls = "[W32 state, W32 signal]"
  let ?th = "transition_code (state_id s) (transition s) @ [Plain ReturnI]"
  let ?ret = "Result [W32 (next_state (state_id s) signal (transition s))]"
  have th: "runs funcs ?th [] ?ls ?ret"
    by (rule runs_append [OF runs_transition runs_plain_stop]) auto
  have split: "states_code (s # ss) = Plain (LocalGet 0) # Plain (I32Const (state_id s)) # Plain I32Eq #
      IfElse BlockEmpty ?th [] # states_code ss"
    by (simp add: states_code_def state_code_def)
  show ?case
  proof (cases "state = state_id s")
    case True
    have "runs1 funcs (IfElse BlockEmpty ?th []) [bool32 (state = state_id s)] ?ls ?ret"
      using runs1_if [of funcs 1 ?th "[]" ?ls ?ret BlockEmpty "[]"] th True by (simp add: leave_def bool32_def)
    from runs_stop [OF this]
    have "runs funcs (states_code (s # ss)) [] ?ls ?ret" unfolding split by (intro runs_test32) simp_all
    then show ?thesis using True by (simp add: step_outcome_def)
  next
    case False
    have "runs1 funcs (IfElse BlockEmpty ?th []) [bool32 (state = state_id s)] ?ls (Next [] ?ls)"
      using runs1_if [of funcs 0 ?th "[]" ?ls "Next [] ?ls" BlockEmpty "[]"] False runs_Nil
      by (simp add: leave_def bool32_def)
    from runs_Cons [OF this Cons]
    have "runs funcs (states_code (s # ss)) [] ?ls (step_outcome ss state signal)"
      unfolding split by (intro runs_test32) simp_all
    then show ?thesis using False by (simp add: step_outcome_def)
  qed
qed

text \<open>In a verified frame a state's number is its position.\<close>

lemma verified_state_ids:
  assumes "verify_async_machine frame = Inr ()" and "\<forall>s \<in> set (states frame). unat (state_id s) < 2 ^ 31"
    and "i < length (states frame)"
  shows "unat (state_id (states frame ! i)) = i"
proof -
  have "(i, states frame ! i) \<in> set (zip [0..<length (states frame)] (states frame))"
    using assms(3) by (auto simp: set_zip intro!: exI [of _ i])
  then have "state_id (states frame ! i) = try_from_or_max i"
    using assms(1) by (auto simp: verify_async_machine_def Let_def list_ex_iff split: if_splits)
  moreover have "unat (state_id (states frame ! i)) < 2 ^ 31" using assms(2,3) by simp
  ultimately show ?thesis
    by (auto simp: try_from_or_max_def unat_of_nat take_bit_nat_eq_self split: if_splits)
qed

lemma step_outcome_machine_next:
  assumes "verify_async_machine frame = Inr ()" and "\<forall>s \<in> set (states frame). unat (state_id s) < 2 ^ 31"
  shows "step_outcome (states frame) state signal =
    (if unat state < length (states frame) then Result [W32 (machine_next frame state signal)]
     else Next [W32 (machine_next frame state signal)] [W32 state, W32 signal])"
proof (cases "unat state < length (states frame)")
  case True
  note ids = verified_state_ids [OF assms]
  have "state_id (states frame ! unat state) = state" using ids [OF True] by (simp add: word_unat_eq_iff)
  moreover have "state_id (states frame ! j) \<noteq> state" if "j < unat state" for j
    using ids [of j] that True by auto
  ultimately have "List.find (\<lambda>s. state_id s = state) (states frame) = Some (states frame ! unat state)"
    using True by (auto simp: find_Some_iff)
  then show ?thesis using True by (simp add: step_outcome_def machine_next_def nth_opt_def)
next
  case False
  have "state_id s \<noteq> state" if "s \<in> set (states frame)" for s
    using that verified_state_ids [OF assms] False by (auto simp: in_set_conv_nth)
  then have "List.find (\<lambda>s. state_id s = state) (states frame) = None" by (simp add: find_None_iff)
  then show ?thesis using False by (simp add: step_outcome_def machine_next_def nth_opt_def)
qed

end
