(* ===== verification/Wasm_Module.thy ===== *)
theory Wasm_Module
  imports Wasm_Correct Wasm_Async Mir_Examples
begin

text \<open>
  Emitted modules: the functions behind their exports, agreement of the exported entry with the
  reference interpreter and of the exported step functions with the async machines.
\<close>

section \<open>What emission gives\<close>

lemma collectR_nth:
  "collectR g xs = Inr ys \<Longrightarrow> length ys = length xs \<and> (\<forall>i < length xs. g (xs ! i) = Inr (ys ! i))"
  by (induction xs arbitrary: ys) (auto simp: nth_Cons split: nat.splits)

lemma collectR_enumerate:
  assumes "collectR g (zip [0..<length xs] xs) = Inr ys"
  shows "length ys = length xs" and "i < length xs \<Longrightarrow> g (i, xs ! i) = Inr (ys ! i)"
  using collectR_nth [OF assms] by auto

lemma u32_of_length_Inr [simp]: "u32_of_length msg n = Inr k \<longleftrightarrow> n < 2 ^ 32 \<and> k = of_nat n"
  by (auto simp: u32_of_length_def)

definition step_func :: "AsyncStateMachine \<Rightarrow> wfunc" where
  "step_func frame = \<lparr>wf_type = step_type, wf_locals = [], wf_body = states_code (states frame)\<rparr>"

definition small_tables :: "MirProgram \<Rightarrow> AsyncStateMachine list \<Rightarrow> bool" where
  "small_tables p frames \<longleftrightarrow> length (program_functions p) + length frames < 2 ^ 32 \<and>
     (\<forall>f \<in> set (program_functions p). length (fn_locals f) < 2 ^ 32 - 1)"

lemma emitE:
  assumes "emit_with_capabilities lib p frames caps options = Inr artifact"
  obtains entry indices sync steps code async_code x where "verify p = Inr ()" and "verify_frames frames = Inr ()"
    and "program_entry p = Some entry" and "function_indices p = Inr indices" and "sync_types p = Inr sync"
    and "indices entry = Some x" and "async_exports (of_nat (length (program_functions p))) frames = Inr steps"
    and "length (program_functions p) < 2 ^ 32"
    and "collectR (encode_function indices) (program_functions p) = Inr code"
    and "collectR encode_async_frame frames = Inr async_code"
    and "module_types (artifact_module artifact) = map fst sync @ (if frames = [] then [] else [step_type])"
    and "module_functions (artifact_module artifact) =
      map snd sync @ map (\<lambda>_. of_nat (length (program_functions p))) frames"
    and "module_exports (artifact_module artifact) = (''main'', x) # steps"
    and "module_code (artifact_module artifact) = code @ async_code"
  using assms that
  by (auto simp: emit_with_capabilities_def split: sum.splits)

lemma unat_of_nat_u32: "n < 2 ^ 32 \<Longrightarrow> unat (of_nat n :: u32) = n"
  by (simp add: unat_of_nat take_bit_nat_eq_self)

lemma sync_typesD:
  assumes "sync_types p = Inr sync"
  shows "length sync = length (program_functions p)"
    and "i < length sync \<Longrightarrow> sync ! i = (i64_type (program_functions p ! i), of_nat i)"
  using collectR_enumerate [OF assms [unfolded sync_types_def]]
  by auto

lemma emit_function_types:
  assumes "sync_types p = Inr sync" and "length (program_functions p) < 2 ^ 32"
    and "module_types m = map fst sync @ (if frames = [] then [] else [step_type])"
    and "module_functions m = map snd sync @ map (\<lambda>_. of_nat (length (program_functions p))) frames"
  shows "function_types m = map (\<lambda>f. Some (i64_type f)) (program_functions p) @ map (\<lambda>_. Some step_type) frames"
proof (rule nth_equalityI)
  note sync = sync_typesD [OF assms(1)]
  show "length (function_types m) =
      length (map (\<lambda>f. Some (i64_type f)) (program_functions p) @ map (\<lambda>_. Some step_type) frames)"
    by (simp add: function_types_def assms(4) sync(1))
  fix i
  assume "i < length (function_types m)"
  then have "i < length (program_functions p) + length frames"
    by (simp add: function_types_def assms(4) sync(1))
  then show "function_types m ! i =
      (map (\<lambda>f. Some (i64_type f)) (program_functions p) @ map (\<lambda>_. Some step_type) frames) ! i"
    using assms(2) sync
    by (auto simp: function_types_def assms(3,4) nth_append nth_opt_def unat_of_nat_u32)
qed

lemma declared_locals:
  assumes "encode_function indices f = Inr F" and "unat (parameter_count f) < length (fn_locals f)"
    and "length (fn_locals f) < 2 ^ 32 - 1"
  shows "expand_locals (function_locals F) = replicate (Suc (length (fn_locals f) - unat (parameter_count f))) I64"
proof -
  have pc: "unat (pc_local f) = length (fn_locals f)"
    using assms(3) by (simp add: pc_local_def unat_of_nat_u32)
  then have "unat (saturating_sub (pc_local f) (parameter_count f)) = length (fn_locals f) - unat (parameter_count f)"
    using assms(2) by (simp add: saturating_sub_def unat_sub word_le_nat_alt)
  then have "unat (saturating_add (saturating_sub (pc_local f) (parameter_count f)) 1) =
      Suc (length (fn_locals f) - unat (parameter_count f))"
    using assms(3) by (simp add: unat_saturating_add)
  then show ?thesis using assms(1) by (auto simp: expand_locals_def elim!: encode_functionE)
qed

lemma those_map_Some: "(\<And>x. x \<in> set xs \<Longrightarrow> g x = Some (h x)) \<Longrightarrow> those (map g xs) = Some (map h xs)"
  by (induction xs) auto

lemma those_nth: "length xs = length ys \<Longrightarrow> (\<And>i. i < length ys \<Longrightarrow> xs ! i = Some (ys ! i)) \<Longrightarrow> those xs = Some ys"
proof -
  assume "length xs = length ys" "\<And>i. i < length ys \<Longrightarrow> xs ! i = Some (ys ! i)"
  then have "xs = map Some ys" by (intro nth_equalityI) auto
  then show "those xs = Some ys" using those_map_Some [of ys Some id] by simp
qed

definition emitted_funcs :: "(DefId \<rightharpoonup> u32) \<Rightarrow> MirProgram \<Rightarrow> AsyncStateMachine list \<Rightarrow> wfunc list" where
  "emitted_funcs indices p frames =
     map (compiled_as indices) (program_functions p) @ map step_func frames"

lemma emitted_module_funcs:
  assumes "verify p = Inr ()" and "small_tables p frames"
    and "function_types m = map (\<lambda>f. Some (i64_type f)) (program_functions p) @ map (\<lambda>_. Some step_type) frames"
    and "collectR (encode_function indices) (program_functions p) = Inr code"
    and "collectR encode_async_frame frames = Inr async_code" and "module_code m = code @ async_code"
  shows "module_funcs m = Some (emitted_funcs indices p frames)"
  unfolding module_funcs_def
proof (rule those_nth)
  note code = collectR_nth [OF assms(4)] and async = collectR_nth [OF assms(5)]
  show "length (map2 (\<lambda>t f. Option.bind t (\<lambda>ty.
         map_option (\<lambda>body. \<lparr>wf_type = ty, wf_locals = expand_locals (function_locals f), wf_body = body\<rparr>)
           (function_body (function_code f)))) (function_types m) (module_code m)) =
      length (emitted_funcs indices p frames)"
    using code async by (simp add: assms(3,6) emitted_funcs_def)
  fix i
  assume i: "i < length (emitted_funcs indices p frames)"
  have sync: "Option.bind (Some (i64_type f)) (\<lambda>ty.
         map_option (\<lambda>body. \<lparr>wf_type = ty, wf_locals = expand_locals (function_locals F), wf_body = body\<rparr>)
           (function_body (function_code F))) = Some (compiled_as indices f)"
    if "f \<in> set (program_functions p)" "encode_function indices f = Inr F" for f F
    using declared_locals [OF that(2) verify_functionD(4) [OF verifyD(1) [OF assms(1) that(1)]]]
      assms(2) that by (auto simp: small_tables_def compiled_as_def elim!: encode_functionE)
  have step: "Option.bind (Some step_type) (\<lambda>ty.
         map_option (\<lambda>body. \<lparr>wf_type = ty, wf_locals = expand_locals (function_locals F), wf_body = body\<rparr>)
           (function_body (function_code F))) = Some (step_func frame)"
    if "encode_async_frame frame = Inr F" for frame F
    using encode_async_frameD [OF that] by (simp add: step_func_def expand_locals_def)
  show "map2 (\<lambda>t f. Option.bind t (\<lambda>ty.
         map_option (\<lambda>body. \<lparr>wf_type = ty, wf_locals = expand_locals (function_locals f), wf_body = body\<rparr>)
           (function_body (function_code f)))) (function_types m) (module_code m) ! i =
      Some (emitted_funcs indices p frames ! i)"
    using i code async sync step by (auto simp: assms(3,6) emitted_funcs_def nth_append)
qed

text \<open>Both together.\<close>

lemma emittedE:
  assumes "emit_with_capabilities lib p frames caps options = Inr artifact" and "small_tables p frames"
  obtains entry indices x steps code async_code where "verify p = Inr ()" and "verify_frames frames = Inr ()"
    and "program_entry p = Some entry" and "function_indices p = Inr indices" and "indices entry = Some x"
    and "async_exports (of_nat (length (program_functions p))) frames = Inr steps"
    and "length (program_functions p) < 2 ^ 32"
    and "collectR (encode_function indices) (program_functions p) = Inr code"
    and "collectR encode_async_frame frames = Inr async_code"
    and "module_funcs (artifact_module artifact) = Some (emitted_funcs indices p frames)"
    and "module_exports (artifact_module artifact) = (''main'', x) # steps"
proof (rule emitE [OF assms(1)], goal_cases)
  case (1 entry indices sync steps code async_code x)
  show ?thesis
    by (rule that [OF 1(2-5) 1(7-11) emitted_module_funcs [OF 1(2) assms(2) emit_function_types [OF 1(6,9,12,13)] 1(10,11,15)] 1(14)])
qed

section \<open>The table of functions\<close>

lemma collect_map_map:
  "collect_map (map (\<lambda>z. (k z, v z)) zs) d = map_option v (collect_map (map (\<lambda>z. (k z, z)) zs) d)"
proof -
  have "map_of (map (\<lambda>z. (k z, v z)) xs) d = map_option v (map_of (map (\<lambda>z. (k z, z)) xs) d)" for xs
    by (induction xs) auto
  then show ?thesis by (simp add: collect_map_def rev_map)
qed

lemma function_indices_eq:
  assumes "function_indices p = Inr indices"
  shows "indices = collect_map (map (\<lambda>z. (fn_id (snd z), of_nat (fst z)))
    (zip [0..<length (program_functions p)] (program_functions p)))"
proof -
  let ?zs = "zip [0..<length (program_functions p)] (program_functions p)"
  obtain entries where e: "collectR (\<lambda>(index, f). bindR (u32_of_length ''too many functions'' index)
      (\<lambda>k. Inr (fn_id f, k))) ?zs = Inr entries" and i: "indices = collect_map entries"
    using assms(1) by (auto simp: function_indices_def)
  have "entries = map (\<lambda>z. (fn_id (snd z), of_nat (fst z))) ?zs"
    using collectR_enumerate [OF e] by (intro nth_equalityI) auto
  then show ?thesis using i by simp
qed

lemma function_indices_bound:
  assumes "function_indices p = Inr indices" and "length (program_functions p) < 2 ^ 32" and "indices d = Some x"
  shows "unat x < length (program_functions p)"
  using collect_map_in [of _ d x] function_indices_eq [OF assms(1)] assms(2,3)
  by (fastforce simp: set_zip unat_of_nat_u32)

lemma function_indicesD:
  assumes "function_indices p = Inr indices" and "function_table p d = Some f"
  obtains i where "i < length (program_functions p)" and "program_functions p ! i = f"
    and "indices d = Some (of_nat i)"
proof -
  let ?zs = "zip [0..<length (program_functions p)] (program_functions p)"
  have "map (\<lambda>f. (fn_id f, f)) (program_functions p) = map (\<lambda>z. (fn_id (snd z), snd z)) ?zs"
    by (intro nth_equalityI) auto
  then obtain z where z: "collect_map (map (\<lambda>z. (fn_id (snd z), z)) ?zs) d = Some z" "snd z = f"
    "indices d = Some (of_nat (fst z))"
    using assms(2) function_indices_eq [OF assms(1)] collect_map_map [of "\<lambda>z. fn_id (snd z)" snd ?zs d]
      collect_map_map [of "\<lambda>z. fn_id (snd z)" "\<lambda>z. of_nat (fst z)" ?zs d]
    by (auto simp: function_table_def)
  moreover have "z \<in> set ?zs" using collect_map_in [OF z(1)] by auto
  ultimately show thesis using that by (force simp: set_zip)
qed

definition comparison_free :: "MirProgram \<Rightarrow> bool" where
  "comparison_free p = list_all (\<lambda>f. list_all (\<lambda>b. list_all (\<lambda>s. \<not> comparison s) (statements b))
     (fn_blocks f)) (program_functions p)"

text \<open>The code generator rejects borrows of fields, so emitted programs borrow whole locals.\<close>

lemma encode_statement_borrow: "encode_statement f s = Inr code \<Longrightarrow> whole_borrow s"
  by (cases s rule: whole_borrow.cases) auto

lemma encode_all_in: "encode_all g xs = Inr code \<Longrightarrow> x \<in> set xs \<Longrightarrow> \<exists>c. g x = Inr c"
  using encode_all_nth by (metis in_set_conv_nth)

lemma encode_function_borrows:
  assumes "encode_function indices f = Inr F" and "b \<in> set (fn_blocks f)" and "s \<in> set (statements b)"
  shows "whole_borrow s"
proof -
  obtain i where i: "i < length (fn_blocks f)" "fn_blocks f ! i = b" using assms(2) by (metis in_set_conv_nth)
  obtain sc where "encode_all (encode_statement f) (statements b) = Inr sc"
    using assms(1) encoded_block [OF _ i(1)] i(2) by (metis encode_functionE)
  then obtain c where "encode_statement f s = Inr c" using encode_all_in [OF _ assms(3)] by blast
  then show ?thesis by (rule encode_statement_borrow)
qed

lemma emitted_supported:
  assumes "verify p = Inr ()" and "comparison_free p" and "function_indices p = Inr indices"
    and "length (program_functions p) < 2 ^ 32"
    and "collectR (encode_function indices) (program_functions p) = Inr code"
    and "function_table p d = Some f"
  shows "supported (emitted_funcs indices p frames) indices (function_table p) d f"
proof -
  have f: "f \<in> set (program_functions p)" using function_table_in [OF assms(6)] by blast
  obtain i where i: "i < length (program_functions p)" "program_functions p ! i = f" "indices d = Some (of_nat i)"
    by (rule function_indicesD [OF assms(3,6)])
  have F: "\<exists>F. encode_function indices f = Inr F" using collectR_nth [OF assms(5)] i by auto
  then show ?thesis
    using verifyD(1) [OF assms(1) f] assms(2,4) f i encode_function_borrows
    by (auto simp: supported_def comparison_free_def list_all_iff emitted_funcs_def nth_append unat_of_nat_u32)
qed

section \<open>Agreement with the interpreter\<close>

text \<open>The word an exported function returns for a value. The discriminant of an aggregate is not
  part of the value the interpreter reports.\<close>

fun abi_value :: "RuntimeValue \<Rightarrow> u64 \<Rightarrow> bool" where
  "abi_value (RReference v) w = abi_value v w"
| "abi_value RUnit w \<longleftrightarrow> w = 0"
| "abi_value (RBool b) w \<longleftrightarrow> w = (if b then 1 else 0)"
| "abi_value (RI64 i) w \<longleftrightarrow> w = i"
| "abi_value (RU64 n) w \<longleftrightarrow> w = n"
| "abi_value (RString s) w \<longleftrightarrow> w = 0"
| "abi_value (RAggregate vs) w \<longleftrightarrow> True"

lemma abi_value_enc: "abi_value (into_runtime v) (enc v)"
  by (induction v) auto

definition returns :: "Module \<Rightarrow> string \<Rightarrow> wval list \<Rightarrow> wval \<Rightarrow> bool" where
  "returns m name args v \<longleftrightarrow> (\<exists>funcs x fuel. module_funcs m = Some funcs \<and>
     (name, x) \<in> set (module_exports m) \<and> invoke fuel funcs x args = Some (Next [v] []))"

lemma returnsI:
  assumes "module_funcs m = Some funcs" and "(name, x) \<in> set (module_exports m)"
    and "runs1 funcs (Plain (CallI x)) (rev args) [] (Next [v] [])"
  shows "returns m name args v"
  using assms runs_Cons [OF assms(3) runs_Nil] by (auto simp: returns_def runs_def invoke_def)

lemma emitted_main:
  assumes "emit_with_capabilities lib p frames caps options = Inr artifact" and "small_tables p frames"
    and "comparison_free p" and "program_entry p = Some d" and "execute fuel p d limits = Some (Inr res)"
  shows "\<exists>w. returns (artifact_module artifact) ''main'' [] (W64 w) \<and> abi_value (result_value res) w"
proof -
  obtain entry indices x steps code async_code where v: "verify p = Inr ()" and "verify_frames frames = Inr ()"
    and entry: "program_entry p = Some entry" and ind: "function_indices p = Inr indices" and x': "indices entry = Some x"
    and "async_exports (of_nat (length (program_functions p))) frames = Inr steps"
    and n: "length (program_functions p) < 2 ^ 32"
    and code: "collectR (encode_function indices) (program_functions p) = Inr code"
    and "collectR encode_async_frame frames = Inr async_code"
    and funcs: "module_funcs (artifact_module artifact) = Some (emitted_funcs indices p frames)"
    and ex: "module_exports (artifact_module artifact) = (''main'', x) # steps"
    by (rule emittedE [OF assms(1,2)])
  have x: "indices d = Some x" using x' entry assms(4) by simp
  note sup = emitted_supported [OF v assms(3) ind n code, of _ _ frames]
  show ?thesis
    using assms(5)
  proof (rule execute_InrE)
    fix u m g ls
    assume *: "enter (initial_machine p limits) d [] 1 = Inr (g, ls)"
      "call_loop fuel g 0 ls 1 (initial_machine p limits) = Some (Inr (u, m))"
      "res = \<lparr>result_value = into_runtime u, result_stdout = m_stdout m, result_drops = m_drops_executed m\<rparr>"
    have g: "function_table p d = Some g"
      using *(1) by (auto simp: enter_def initial_machine_def split: if_splits)
    have vg: "verify_function g (function_table p) = []" using sup [OF g] by (simp add: supported_def)
    have "conforms g ls" using enter_typed [OF *(1) vg] g by (auto simp: initial_machine_def)
    moreover have "0 < length (fn_blocks g)" "reachable_blocks g ! 0"
      using verify_functionD(2) [OF vg] reachable_blocks_entry by auto
    ultimately have "runs1 (emitted_funcs indices p frames) (dispatch indices g) [] ws (Result [W64 (enc u)])"
      if "agree g ls ws" "ws ! unat (pc_local g) = W64 (of_nat 0)" for ws
      using call_loop_simulated [OF sup sup [OF g] _ _ _ _ *(2) that] by (simp add: initial_machine_def)
    from runs_call [OF sup [OF g] *(1) this]
    have "runs1 (emitted_funcs indices p frames) (Plain (CallI x)) (rev []) [] (Next [W64 (enc u)] [])"
      using x by simp
    from returnsI [OF funcs _ this] have "returns (artifact_module artifact) ''main'' [] (W64 (enc u))"
      using ex by simp
    then show ?thesis using *(3) abi_value_enc by (intro exI [of _ "enc u"]) simp
  qed
qed

section \<open>Step functions\<close>

lemma runs1_call_results:
  assumes "unat x < length funcs" and "funcs ! unat x = f" and "length args = length (func_params (wf_type f))"
    and "runs funcs (wf_body f) [] (args @ map zero_of (wf_locals f)) r"
  shows "runs1 funcs (Plain (CallI x)) (rev args) [] (call_result (wf_type f) [] [] r)"
proof -
  obtain n where "exec n funcs (wf_body f) [] (args @ map zero_of (wf_locals f)) = Some r"
    using assms(4) by (auto simp: runs_def)
  then have "exec1 (Suc n) funcs (Plain (CallI x)) (rev args) [] = Some (call_result (wf_type f) [] [] r)"
    using assms(1,2,3) by (simp add: nth_opt_def Let_def)
  then show ?thesis unfolding runs1_def by blast
qed

lemma verify_framesD: "verify_frames frames = Inr () \<Longrightarrow> frame \<in> set frames \<Longrightarrow> verify_async_machine frame = Inr ()"
  by (induction frames) (auto split: sum.splits)

lemma async_exportsD:
  assumes "async_exports (of_nat n) frames = Inr steps" and "n + length frames < 2 ^ 32" and "i < length frames"
  shows "length steps = length frames" and "fst (steps ! i) = step_export_name (frames ! i)"
    and "unat (snd (steps ! i)) = n + i"
proof -
  note ex = collectR_enumerate [OF assms(1) [unfolded async_exports_def]]
  have "steps ! i = (step_export_name (frames ! i), saturating_add (of_nat n) (of_nat i))"
    using ex(2) [OF assms(3)] by auto
  then show "fst (steps ! i) = step_export_name (frames ! i)" "unat (snd (steps ! i)) = n + i"
    using assms(2,3) by (simp_all add: unat_saturating_add unat_of_nat_u32)
  show "length steps = length frames" by (rule ex(1))
qed

lemma emitted_step:
  assumes "emit_with_capabilities lib p frames caps options = Inr artifact" and "small_tables p frames"
    and "frame \<in> set frames"
  shows "returns (artifact_module artifact) (step_export_name frame) [W32 state, W32 signal]
    (W32 (machine_next frame state signal))"
proof -
  let ?n = "length (program_functions p)"
  obtain entry indices x steps code async_code where "verify p = Inr ()" and vf: "verify_frames frames = Inr ()"
    and "program_entry p = Some entry" and "function_indices p = Inr indices" and "indices entry = Some x"
    and steps: "async_exports (of_nat ?n) frames = Inr steps" and n: "?n < 2 ^ 32"
    and "collectR (encode_function indices) (program_functions p) = Inr code"
    and code: "collectR encode_async_frame frames = Inr async_code"
    and funcs: "module_funcs (artifact_module artifact) = Some (emitted_funcs indices p frames)"
    and ex: "module_exports (artifact_module artifact) = (''main'', x) # steps"
    by (rule emittedE [OF assms(1,2)])
  obtain i where i: "i < length frames" "frames ! i = frame" using assms(3) by (metis in_set_conv_nth)
  let ?x = "snd (steps ! i)"
  note ex' = async_exportsD [OF steps _ i(1)]
  have small: "?n + length frames < 2 ^ 32" using assms(2) by (simp add: small_tables_def)
  have "(step_export_name frame, ?x) = steps ! i" using ex'(2) [OF small] i(2) by (simp add: prod_eq_iff)
  then have e: "(step_export_name frame, ?x) \<in> set (module_exports (artifact_module artifact))"
    using ex'(1) [OF small] i(1) ex by simp
  have f: "unat ?x < length (emitted_funcs indices p frames)"
    "emitted_funcs indices p frames ! unat ?x = step_func frame"
    using ex'(3) [OF small] i by (simp_all add: emitted_funcs_def nth_append)
  obtain F where F: "encode_async_frame frame = Inr F" using collectR_nth [OF code] i by auto
  have "runs1 (emitted_funcs indices p frames) (Plain (CallI ?x)) (rev [W32 state, W32 signal]) []
      (call_result step_type [] [] (step_outcome (states frame) state signal))"
    using runs1_call_results [OF f, of "[W32 state, W32 signal]"] runs_states
    by (simp add: step_func_def step_type_def)
  moreover have "call_result step_type [] [] (step_outcome (states frame) state signal) =
      Next [W32 (machine_next frame state signal)] []"
    using step_outcome_machine_next [OF verify_framesD [OF vf assms(3)] encode_async_frameD(3) [OF F]]
    by (simp add: call_result_def step_type_def)
  ultimately show ?thesis using returnsI [OF funcs e] by simp
qed

end
