(* ===== verification/Wasm_Valid.thy ===== *)
theory Wasm_Valid
  imports Wasm_Module
begin

text \<open>
  Validation of emitted modules: the stack effect of each piece of generated code. An assigned
  comparison leaves a 32-bit truth value where a 64-bit local is set, which is the only thing that
  makes the code of a verified program invalid.
\<close>

section \<open>Straight-line code\<close>

definition i64_context :: "MirFunction \<Rightarrow> wcontext \<Rightarrow> bool" where
  "i64_context f c \<longleftrightarrow> ctx_locals c = replicate (Suc (length (fn_locals f))) I64"

lemma i64_context_labels [simp]: "i64_context f (c\<lparr>ctx_labels := ls\<rparr>) \<longleftrightarrow> i64_context f c"
  by (simp add: i64_context_def)

lemma check_code_append: "check_code c (xs @ ys) st = Option.bind (check_code c xs st) (check_code c ys)"
proof (induction xs arbitrary: st)
  case (Cons x xs)
  then show ?case by (cases "check_code1 c x st") simp_all
qed simp

lemma local_type:
  assumes "i64_context f c" and "layout_ok f" and "unat l < length (fn_locals f)"
  shows "nth_opt (ctx_locals c) (unat (wasm_local f l)) = Some I64"
  using assms widx_bound [of "unat l" "Suc (length (fn_locals f))" f]
  by (simp add: unat_wasm_local i64_context_def layout_ok_def del: replicate_Suc)

lemma pc_type: "i64_context f c \<Longrightarrow> layout_ok f \<Longrightarrow> nth_opt (ctx_locals c) (unat (pc_local f)) = Some I64"
  by (simp add: pc_local_index i64_context_def del: replicate_Suc)

lemma check_get:
  "nth_opt (ctx_locals c) (unat x) = Some t \<Longrightarrow> check_plain c (LocalGet x) (ts, dead) = Some (t # ts, dead)"
  by (simp add: check_plain_def push_def nth_opt_def)

lemma check_set:
  "nth_opt (ctx_locals c) (unat x) = Some t \<Longrightarrow>
     check_plain c (LocalSet x) (u # ts, dead) = (if u = t then Some (ts, dead) else None)"
  by (simp add: check_plain_def push_def nth_opt_def)

lemma check_const [simp]:
  "check_plain c (I64Const k) (ts, dead) = Some (I64 # ts, dead)"
  "check_plain c (I32Const n) (ts, dead) = Some (I32 # ts, dead)"
  by (simp_all add: check_plain_def push_def)

lemma check_eq [simp]:
  "check_plain c I64Eq (I64 # I64 # ts, dead) = Some (I32 # ts, dead)"
  "check_plain c I32Eq (I32 # I32 # ts, dead) = Some (I32 # ts, dead)"
  by (simp_all add: check_plain_def push_def)

lemma check_operand:
  assumes "encode_operand f x = Inr code" and "snd (operand_type f b x D) = []"
    and "i64_context f c" and "layout_ok f"
  shows "check_code c (map Plain code) (ts, dead) = Some (I64 # ts, dead)"
  using assms(1,2) local_type [OF assms(3,4)]
  by (cases x) (auto simp: verify_local_use_ok check_get)

lemma check_operands:
  "encode_all (encode_operand f) xs = Inr code \<Longrightarrow> \<forall>x \<in> set xs. snd (operand_type f b x D) = [] \<Longrightarrow>
     i64_context f c \<Longrightarrow> layout_ok f \<Longrightarrow>
     check_code c (map Plain code) (ts, dead) = Some (replicate (length xs) I64 @ ts, dead)"
proof (induction xs arbitrary: code ts)
  case (Cons x xs)
  obtain a d where "encode_operand f x = Inr a" "encode_all (encode_operand f) xs = Inr d" "code = a @ d"
    using Cons.prems(1) by auto
  then show ?case
    using Cons.IH [of d "I64 # ts"] Cons.prems check_operand [of f x a b D c ts dead]
    by (simp add: check_code_append replicate_app_Cons_same)
qed simp

lemma check_binary:
  "check_plain c (binary_instruction op u) (I64 # I64 # ts, dead) =
     Some ((if op = Equal \<or> op = Less then I32 else I64) # ts, dead)"
  by (cases op) (auto simp: binary_instruction_def check_plain_def push_def)

lemma check_rvalue:
  assumes "encode_rvalue f r = Inr code" and "snd (verify_rvalue f b r D) = []"
    and "i64_context f c" and "layout_ok f"
  shows "check_code c (map Plain code) (ts, dead) =
    Some ((if comparison (Assign p r) then I32 else I64) # ts, dead)"
proof (cases r)
  case (Borrow is_mut q)
  then obtain l where "q = PLocal l" using assms(1) by (cases q) auto
  then show ?thesis
    using assms(1,2) Borrow check_get [OF local_type [OF assms(3,4)]]
    by (auto simp: verify_local_use_ok Let_def split: prod.splits option.splits)
next
  case (Binary op x y)
  obtain c1 c2 where code: "encode_operand f x = Inr c1" "encode_operand f y = Inr c2"
    "code = c1 @ c2 @ [binary_instruction op (codegen_operand_type f x = Some TyU64)]"
    using assms(1) Binary by auto
  have v: "snd (operand_type f b x D) = []" "snd (operand_type f b y D) = []"
    using verify_binary_operands [of f b op x y D] assms(2) Binary by auto
  then show ?thesis
    unfolding Binary code(3)
    by (simp add: check_code_append check_binary check_operand [OF code(1) v(1) assms(3,4)] check_operand [OF code(2) v(2) assms(3,4)])
qed (use assms check_operand in \<open>auto\<close>)

lemma check_set_place:
  assumes "encode_set_place f p = Inr code" and "snd (place_type f b p) = []"
    and "i64_context f c" and "layout_ok f"
  shows "check_code c (map Plain code) (u # ts, dead) = (if u = I64 then Some (ts, dead) else None)"
proof (cases p)
  case (PLocal l)
  then have "unat l < length (fn_locals f)" using assms(2) by (auto simp: Let_def split: option.splits)
  then show ?thesis
    using PLocal assms(1) check_set [OF local_type [OF assms(3,4)], of l u ts dead] by auto
qed (use assms(1) in simp)

lemma check_statement:
  assumes "encode_statement f s = Inr code" and "verify_statement f b s D = (D', [])"
    and "i64_context f c" and "layout_ok f"
  shows "check_code c (map Plain code) (ts, dead) = (if comparison s then None else Some (ts, dead))"
proof (cases s)
  case (Assign p r)
  obtain c1 c2 where code: "encode_rvalue f r = Inr c1" "encode_set_place f p = Inr c2" "code = c1 @ c2"
    using assms(1) Assign by auto
  have v: "snd (verify_rvalue f b r D) = []" "snd (place_type f b p) = []"
    using assms(2) Assign by (auto simp: Let_def split: prod.splits option.splits simp del: place_type.simps)
  show ?thesis
    using check_rvalue [OF code(1) v(1) assms(3,4), of ts dead p] check_set_place [OF code(2) v(2) assms(3,4)] Assign code(3)
    by (simp add: check_code_append)
next
  case (Drop p)
  then show ?thesis using assms(1) by (cases p) auto
qed

lemma check_statements:
  "encode_all (encode_statement f) ss = Inr code \<Longrightarrow> verify_statements f b ss D = (D', []) \<Longrightarrow>
     i64_context f c \<Longrightarrow> layout_ok f \<Longrightarrow>
     check_code c (map Plain code) (ts, dead) = (if list_ex comparison ss then None else Some (ts, dead))"
proof (induction ss arbitrary: code D)
  case (Cons s ss)
  obtain c1 c2 where code: "encode_statement f s = Inr c1" "encode_all (encode_statement f) ss = Inr c2" "code = c1 @ c2"
    using Cons.prems(1) by auto
  obtain D1 where v: "verify_statement f b s D = (D1, [])" "verify_statements f b ss D1 = (D', [])"
    using verify_statements_Cons [OF Cons.prems(2)] .
  show ?case
    using Cons.IH [OF code(2) v(2) Cons.prems(3,4)] check_statement [OF code(1) v(1) Cons.prems(3,4)] code(3)
    by (simp add: check_code_append)
qed simp

section \<open>Blocks\<close>

lemma check_continue:
  assumes "i64_context f c" and "layout_ok f" and "nth_opt (ctx_labels c) (unat depth) = Some []"
  shows "check_code c (map Plain (encode_continue (pc_local f) target depth)) (ts, dead) = Some ([], True)"
  using assms pc_type [OF assms(1,2)]
  by (simp add: encode_continue_def check_set) (simp add: check_plain_def nth_opt_def)

lemma check_switch:
  assumes "\<And>c ts. i64_context f c \<Longrightarrow> check_code c (map Plain a) (ts, False) = Some (I64 # ts, False)"
    and "i64_context f c" and "layout_ok f" and "nth_opt (ctx_labels c) 1 = Some []"
  shows "check_code c (switch_code (pc_local f) a targets) ([], False) = Some ([], False)"
proof (induction targets)
  case (Cons t targets)
  obtain candidate target where t: "t = (candidate, target)" by fastforce
  have "check_code (c\<lparr>ctx_labels := [] # ctx_labels c\<rparr>) (map Plain (encode_continue (pc_local f) target 2)) ([], False) =
      Some ([], True)"
    using check_continue [of f "c\<lparr>ctx_labels := [] # ctx_labels c\<rparr>" 2 target "[]" False] assms(2-4)
    by (simp add: nth_opt_def nth_Cons' split: if_splits)
  then show ?case
    using Cons assms(1) [OF assms(2)]
    by (simp add: switch_code_def t check_code_append Let_def ends_with_def push_def)
qed (simp add: switch_code_def)

definition callable :: "(DefId \<rightharpoonup> u32) \<Rightarrow> (DefId \<rightharpoonup> MirFunction) \<Rightarrow> FuncType list \<Rightarrow> bool" where
  "callable indices table types \<longleftrightarrow> (\<forall>d g. table d = Some g \<longrightarrow>
     (\<exists>x. indices d = Some x \<and> nth_opt types (unat x) = Some (i64_type g)))"

lemma pops_replicate: "pops (replicate n t) (replicate n t @ ts, dead) = Some (ts, dead)"
  by (induction n) auto

lemma check_terminator:
  assumes "encode_terminator f (pc_local f) indices t = Inr code" and "verify_terminator f b t table D = []"
    and "i64_context f c" and "layout_ok f" and "nth_opt (ctx_labels c) 1 = Some []" and "ctx_return c = [I64]"
    and "callable indices table (ctx_funcs c)" and "\<And>d args p k. t = Call d args p k \<Longrightarrow> table d \<noteq> None"
  shows "check_code c (terminator_code f (pc_local f) indices t) ([], False) = Some ([], True)"
proof (cases t)
  case Return
  then have "unat 0 < length (fn_locals f)" using assms(2) by (simp add: verify_local_use_ok)
  then show ?thesis
    using Return check_get [OF local_type [OF assms(3,4)], of 0 "[]" False] assms(6)
    by (simp add: terminator_code_def) (simp add: check_plain_def)
next
  case (Goto target)
  then show ?thesis
    using check_continue [OF assms(3,4), of 1 target] assms(5) by (simp add: terminator_code_def)
next
  case (SwitchInt x targets otherwise)
  obtain a where a: "encode_all (encode_switch_case f (pc_local f) x) targets = Inr a"
    using assms(1) SwitchInt by auto
  have v: "snd (operand_type f b x D) = []"
    using assms(2) SwitchInt by (auto split: prod.splits option.splits)
  have "check_code c (switch_code (pc_local f) (operand_code f x) targets) ([], False) = Some ([], False)"
  proof (cases "encode_operand f x")
    case (Inl e)
    then have "targets = []" using a by (cases targets) (auto simp: encode_switch_case_def)
    then show ?thesis by (simp add: switch_code_def)
  next
    case (Inr oc)
    then show ?thesis
      using check_switch [OF _ assms(3-5)] check_operand [OF Inr v _ assms(4)] by (simp add: operand_code_def)
  qed
  then show ?thesis
    using SwitchInt check_continue [OF assms(3,4), of 1 otherwise] assms(5)
    by (simp add: terminator_code_def check_code_append)
next
  case (Call d args p k)
  obtain a e where a: "encode_all (encode_operand f) args = Inr a" and e: "encode_set_place f p = Inr e"
    using assms(1) Call by auto
  obtain g where g: "table d = Some g" using assms(8) Call by blast
  then obtain x where x: "indices d = Some x" "nth_opt (ctx_funcs c) (unat x) = Some (i64_type g)"
    using assms(7) by (auto simp: callable_def)
  have v: "length args = unat (parameter_count g)" "verify_arguments f b g D args = []" "snd (place_type f b p) = []"
    using assms(2) Call g by (auto simp: Let_def split: prod.splits option.splits if_splits)
  have "\<forall>x \<in> set args. snd (operand_type f b x D) = []"
    using verify_argumentsD [OF v(2)] by (fastforce simp: in_set_conv_nth)
  note args = check_operands [OF a this assms(3,4)]
  have "check_plain c (CallI x) (replicate (length args) I64, False) = Some ([I64], False)"
    using x(2) v(1) pops_replicate [of "length args" I64 "[]"] by (simp add: check_plain_def i64_type_def push_def nth_opt_def)
  then show ?thesis
    using Call a e x(1) args [of "[]" False] check_set_place [OF e v(3) assms(3,4)]
      check_continue [OF assms(3,4), of 1 k] assms(5)
    by (simp add: terminator_code_def check_code_append)
qed

definition compares :: "BasicBlock \<Rightarrow> bool" where
  "compares block = list_ex comparison (statements block)"

lemma check_block:
  assumes "encode_block f (pc_local f) indices block = Inr code" and "verify_block f b block table D = []"
    and "terminator block = Some t" and "\<And>d args p k. t = Call d args p k \<Longrightarrow> table d \<noteq> None"
    and "i64_context f c" and "layout_ok f" and "nth_opt (ctx_labels c) 1 = Some []" and "ctx_return c = [I64]"
    and "callable indices table (ctx_funcs c)"
  shows "check_code c (block_code f (pc_local f) indices block) ([], False) =
    (if compares block then None else Some ([], True))"
proof -
  obtain sc tc where sc: "encode_all (encode_statement f) (statements block) = Inr sc"
    and tc: "encode_terminator f (pc_local f) indices t = Inr tc"
    using assms(1,3) by (auto simp: encode_block_def)
  obtain D1 where v: "verify_statements f b (statements block) D = (D1, [])" "verify_terminator f b t table D1 = []"
    using assms(2,3) by (auto simp: verify_block_def split: prod.splits)
  show ?thesis
    using check_statements [OF sc v(1) assms(5,6)] check_terminator [OF tc v(2) assms(5-9,4)] sc assms(3)
    by (simp add: block_code_def check_code_append compares_def)
qed

text \<open>One \<open>If\<close> per block, then \<open>Unreachable\<close>.\<close>

lemma check_blocks:
  assumes "\<And>c. i64_context f c \<Longrightarrow> nth_opt (ctx_labels c) 1 = Some [] \<Longrightarrow> ctx_return c = [I64] \<Longrightarrow>
      ctx_funcs c = types \<Longrightarrow> \<forall>(i, b) \<in> set bs.
      check_code c (block_code f (pc_local f) indices b) ([], False) = (if compares b then None else Some ([], True))"
    and "i64_context f c" and "layout_ok f" and "nth_opt (ctx_labels c) 0 = Some []" and "ctx_return c = [I64]"
    and "ctx_funcs c = types"
  shows "check_code c (blocks_code f (pc_local f) indices bs) ([], False) =
    (if list_ex (\<lambda>(i, b). compares b) bs then None else Some ([], True))"
proof -
  let ?c = "c\<lparr>ctx_labels := [] # ctx_labels c\<rparr>"
  have "\<forall>(i, b) \<in> set bs.
      check_code ?c (block_code f (pc_local f) indices b) ([], False) = (if compares b then None else Some ([], True))"
    by (rule assms(1)) (use assms(2-6) in \<open>simp_all add: nth_opt_def split: if_splits\<close>)
  then show ?thesis
  proof (induction bs)
    case Nil
    then show ?case by (simp add: blocks_code_def check_plain_def)
  next
    case (Cons b bs)
    obtain i block where b: "b = (i, block)" by fastforce
    have "check_code c (indexed_code f (pc_local f) indices b) ([], False) =
        (if compares block then None else Some ([], False))"
      using Cons.prems b check_get [OF pc_type [OF assms(2,3)]]
      by (simp add: indexed_code_def Let_def ends_with_def push_def)
    moreover have "blocks_code f (pc_local f) indices (b # bs) =
        indexed_code f (pc_local f) indices b @ blocks_code f (pc_local f) indices bs"
      by (simp add: blocks_code_def)
    ultimately show ?case using Cons b by (simp add: check_code_append)
  qed
qed

section \<open>Functions\<close>

definition function_compares :: "MirFunction \<Rightarrow> bool" where
  "function_compares f = list_ex compares (fn_blocks f)"

definition all_reachable :: "MirFunction \<Rightarrow> bool" where
  "all_reachable f = list_all (\<lambda>i. reachable_blocks f ! i) [0..<length (fn_blocks f)]"

lemma check_function_blocks:
  assumes "encode_function indices f = Inr F" and v: "verify_function f table = []" and "all_reachable f"
    and "callable indices table types" and "layout_ok f"
    and c: "i64_context f c" "nth_opt (ctx_labels c) 1 = Some []" "ctx_return c = [I64]" "ctx_funcs c = types"
  shows "\<forall>(i, b) \<in> set (zip [0..<length (fn_blocks f)] (fn_blocks f)).
      check_code c (block_code f (pc_local f) indices b) ([], False) = (if compares b then None else Some ([], True))"
proof clarify
  fix i b
  assume "(i, b) \<in> set (zip [0..<length (fn_blocks f)] (fn_blocks f))"
  then have i: "i < length (fn_blocks f)" "fn_blocks f ! i = b" by (auto simp: set_zip)
  note vf = verify_functionD [OF v]
  have "reachable_blocks f ! i" using assms(3) i(1) by (simp add: all_reachable_def list_all_iff)
  then obtain D where D: "definite_initialization f ! i = Some D" using definite_in_ever [OF i(1)] by blast
  obtain t where t: "terminator b = Some t" "\<And>d args p k. t = Call d args p k \<Longrightarrow> table d \<noteq> None"
    using verify_targetsD [OF vf(5) i(1)] i(2) by blast
  obtain body where "encode_all (encode_indexed_block f (pc_local f) indices)
      (zip [0..<length (fn_blocks f)] (fn_blocks f)) = Inr body"
    using assms(1) by (rule encode_functionE)
  from encode_all_nth [OF this, of i] obtain code where "encode_block f (pc_local f) indices b = Inr code"
    using i by (auto simp: encode_indexed_block_def)
  from check_block [OF this _ t c(1) assms(5) c(2,3)] verify_blocksD [OF vf(6) i(1) D] i(2) assms(4) c(4)
  show "check_code c (block_code f (pc_local f) indices b) ([], False) = (if compares b then None else Some ([], True))"
    by simp
qed

lemma list_ex_zip: "list_ex (\<lambda>(i, b). P b) (zip [0..<length bs] bs) \<longleftrightarrow> list_ex P bs"
  by (force simp: list_ex_iff set_zip in_set_conv_nth)

lemma emitted_function_valid:
  assumes "encode_function indices f = Inr F" and "verify_function f table = []" and "all_reachable f"
    and "callable indices table types" and "length (fn_locals f) < 2 ^ 32 - 1"
  shows "validate_function types (i64_type f) F \<longleftrightarrow> \<not> function_compares f"
proof -
  have lay: "layout_ok f" using assms(5) verify_functionD(4) [OF assms(2)] by (simp add: layout_ok_def)
  let ?c = "\<lparr>ctx_locals = func_params (i64_type f) @ expand_locals (function_locals F),
    ctx_labels = [[I64]], ctx_return = [I64], ctx_funcs = types\<rparr>"
  let ?l = "?c\<lparr>ctx_labels := [[], [I64]]\<rparr>"
  have "unat (parameter_count f) + Suc (length (fn_locals f) - unat (parameter_count f)) = Suc (length (fn_locals f))"
    using lay by (simp add: layout_ok_def)
  then have c: "i64_context f ?c"
    using declared_locals [OF assms(1) verify_functionD(4) [OF assms(2)] assms(5)]
    by (simp add: i64_context_def i64_type_def replicate_add [symmetric] del: replicate_Suc)
  have "check_code ?l (blocks_code f (pc_local f) indices (zip [0..<length (fn_blocks f)] (fn_blocks f))) ([], False) =
      (if list_ex (\<lambda>(i, b). compares b) (zip [0..<length (fn_blocks f)] (fn_blocks f)) then None else Some ([], True))"
    by (rule check_blocks [OF check_function_blocks [OF assms(1-4) lay]])
       (use c lay in \<open>simp_all add: i64_context_def nth_opt_def\<close>)
  then have "check_code1 ?c (dispatch indices f) ([], False) = (if function_compares f then None else Some ([], False))"
    by (simp add: dispatch_def function_compares_def list_ex_zip ends_with_def push_def)
  then have "check_code ?c (body_code indices f) ([], False) = (if function_compares f then None else Some ([I64], False))"
    using check_set [OF pc_type [OF c lay]] by (simp add: body_code_def)
  moreover have "function_body (function_code F) = Some (body_code indices f)"
    using assms(1) by (rule encode_functionE)
  ultimately show ?thesis
    by (simp add: validate_function_def ends_with_def i64_type_def)
qed

section \<open>Step functions\<close>

lemma emitted_step_valid:
  assumes "encode_async_frame frame = Inr F"
  shows "validate_function types step_type F"
proof -
  let ?c = "\<lparr>ctx_locals = [I32, I32], ctx_labels = [[I32]], ctx_return = [I32], ctx_funcs = types\<rparr>"
  have get: "check_plain c (LocalGet x) (ts, dead) = Some (I32 # ts, dead)"
    if "ctx_locals c = [I32, I32]" "x = 0 \<or> x = 1" for c ts dead and x :: u32
    using that by (intro check_get) (auto simp: nth_opt_def)
  have t: "check_code c (transition_code k t) (ts, False) = Some (I32 # ts, False)"
    if "ctx_locals c = [I32, I32]" for c k t ts
    using that by (cases t) (simp_all add: get Let_def ends_with_def push_def)
  have "check_code ?c (state_code s) ([], False) = Some ([], False)" for s
    by (simp add: state_code_def get check_code_append t Let_def)
       (simp add: check_plain_def ends_with_def push_def)
  then have "check_code ?c (concat (map state_code ss)) ([], False) = Some ([], False)" for ss
    by (induction ss) (simp_all add: check_code_append)
  then have "check_code ?c (states_code ss) ([], False) = Some ([I32], False)" for ss
    by (simp add: states_code_def check_code_append)
  then show ?thesis
    using encode_async_frameD [OF assms]
    by (simp add: validate_function_def step_type_def expand_locals_def ends_with_def)
qed

section \<open>Modules\<close>

lemma emitted_valid:
  assumes "emit_with_capabilities lib p frames caps options = Inr artifact" and "small_tables p frames"
    and "list_all all_reachable (program_functions p)" and "distinct (map step_export_name frames)"
  shows "validate_module (artifact_module artifact) \<longleftrightarrow> comparison_free p"
  using assms(1)
proof (rule emitE, goal_cases)
  case (1 entry indices sync steps code async_code x)
  let ?m = "artifact_module artifact" and ?fs = "program_functions p"
  let ?types = "map i64_type ?fs @ map (\<lambda>_. step_type) frames"
  have ft: "function_types ?m = map Some ?types"
    using emit_function_types [OF 1(5,8,11,12)] by simp
  have n: "length ?fs + length frames < 2 ^ 32" "length ?fs < 2 ^ 32" using assms(2) by (simp_all add: small_tables_def)
  note code = collectR_nth [OF 1(9)] and async = collectR_nth [OF 1(10)]
  have len: "length (module_code ?m) = length ?types" using code async 1(14) by simp
  have steps: "length steps = length frames" "map fst steps = map step_export_name frames"
    "\<forall>(name, k) \<in> set steps. unat k < length ?types"
    using async_exportsD [OF 1(7) n(1)] collectR_enumerate(1) [OF 1(7) [unfolded async_exports_def]]
    by (auto simp: in_set_conv_nth intro!: nth_equalityI) (metis add_strict_left_mono snd_conv)
  have exports: "list_all (\<lambda>(_, k). unat k < length ?types) (module_exports ?m)" "distinct (map fst (module_exports ?m))"
    using function_indices_bound [OF 1(4) n(2) 1(6)] steps assms(4)
    by (auto simp: 1(13) list_all_iff step_export_name_def)
  have callable: "callable indices (function_table p) ?types"
    unfolding callable_def
  proof (intro allI impI)
    fix d g
    assume "function_table p d = Some g"
    from function_indicesD [OF 1(4) this]
    obtain i where "i < length ?fs" "?fs ! i = g" "indices d = Some (of_nat i)" .
    then show "\<exists>x. indices d = Some x \<and> nth_opt ?types (unat x) = Some (i64_type g)"
      using n(2) by (simp add: nth_append unat_of_nat_u32)
  qed
  have sync: "validate_function ?types (i64_type (?fs ! i)) (code ! i) \<longleftrightarrow> \<not> function_compares (?fs ! i)"
    if "i < length ?fs" for i
  proof (rule emitted_function_valid [OF _ _ _ callable])
    have f: "?fs ! i \<in> set ?fs" using that by simp
    show "verify_function (?fs ! i) (function_table p) = []" by (rule verifyD(1) [OF 1(1) f])
    show "encode_function indices (?fs ! i) = Inr (code ! i)" using code that by simp
    show "all_reachable (?fs ! i)" "length (fn_locals (?fs ! i)) < 2 ^ 32 - 1"
      using assms(2,3) f by (simp_all add: list_all_iff small_tables_def)
  qed
  have "list_all2 (validate_function ?types) ?types (module_code ?m) \<longleftrightarrow>
      list_all2 (validate_function ?types) (map i64_type ?fs) code"
    using code async emitted_step_valid
    by (simp add: 1(14) list_all2_append) (auto simp: list_all2_conv_all_nth)
  also have "\<dots> \<longleftrightarrow> list_all2 (\<lambda>f F. \<not> function_compares f) ?fs code"
    using sync code by (auto simp: list_all2_conv_all_nth)
  also have "\<dots> \<longleftrightarrow> comparison_free p"
    using code by (auto simp: list_all2_conv_all_nth comparison_free_def function_compares_def compares_def
        list_all_length list_ex_length)
  finally show ?case
    using exports len by (simp add: validate_module_def ft list_all2_map1 comp_def list_all_iff del: map_append)
qed

section \<open>Examples\<close>

text \<open>Comparisons with large bounds are evaluated on integers.\<close>

lemma u32_of_length_code [code]:
  "u32_of_length msg n = (if int n < 4294967296 then Inr (of_nat n) else Inl (UnsupportedOperation msg))"
  by (simp add: u32_of_length_def)

lemma i64_of_index_code [code]:
  "i64_of_index n =
     (if int n < 9223372036854775808 then Inr (of_nat n) else Inl (UnsupportedOperation ''too many blocks''))"
  by (simp add: i64_of_index_def)

lemma async_i32_code [code]:
  "async_i32 state =
     (if uint state < 2147483648 then Inr state
      else Inl (UnsupportedOperation ''async state exceeds i32 ABI''))"
  by (simp add: async_i32_def nat_less_iff flip: nat_uint_eq)

lemma encode_switch_case_code [code]:
  "encode_switch_case f pc x = (\<lambda>(candidate, target).
     bindR (encode_operand f x) (\<lambda>a.
       if uint candidate < 18446744073709551616
       then Inr (a @ [I64Const (ucast candidate), I64Eq, IfI BlockEmpty] @ encode_continue pc target 2 @ [EndI])
       else Inl (UnsupportedOperation ''switch value exceeds the i64 ABI'')))"
  by (simp add: encode_switch_case_def nat_less_iff flip: nat_uint_eq)

definition double_id :: DefId where
  "double_id = \<lparr>module_id = 0, def_index = 1\<rparr>"

text \<open>\<open>x + x\<close>, and a loop that calls it three times.\<close>

definition doubling_program :: MirProgram where
  "doubling_program =
     \<lparr>program_functions =
        [\<lparr>fn_id = main_id, parameter_count = 0, return_type = TyU64, fn_locals = [TyU64, TyU64],
          fn_blocks =
            [\<lparr>statements = [Assign (PLocal 0) (Use (OpConstant (CU64 5))),
                           Assign (PLocal 1) (Use (OpConstant (CU64 3)))],
              terminator = Some (Goto 1)\<rparr>,
             \<lparr>statements = [], terminator = Some (SwitchInt (OpCopy 1) [(0, 3)] 2)\<rparr>,
             \<lparr>statements = [Assign (PLocal 1) (Binary Subtract (OpCopy 1) (OpConstant (CU64 1)))],
              terminator = Some (Call double_id [OpCopy 0] (PLocal 0) 1)\<rparr>,
             \<lparr>statements = [], terminator = Some Return\<rparr>]\<rparr>,
         \<lparr>fn_id = double_id, parameter_count = 1, return_type = TyU64, fn_locals = [TyU64, TyU64],
          fn_blocks =
            [\<lparr>statements = [Assign (PLocal 0) (Binary Add (OpCopy 1) (OpCopy 1))],
              terminator = Some Return\<rparr>]\<rparr>],
      program_entry = Some main_id\<rparr>"

definition await_frame :: AsyncStateMachine where
  "await_frame =
     \<lparr>machine_function = double_id, parent_scope_required = True, live_locals = [],
      states =
        [\<lparr>state_id = 0, transition = Start 1\<rparr>, \<lparr>state_id = 1, transition = Suspend 0 2 4\<rparr>,
         \<lparr>state_id = 2, transition = Resume 3 4\<rparr>, \<lparr>state_id = 3, transition = Complete\<rparr>,
         \<lparr>state_id = 4, transition = Cancel []\<rparr>]\<rparr>"

text \<open>The largest unsigned integer plus one.\<close>

definition overflow_program :: MirProgram where
  "overflow_program =
     single_program TyU64 [TyU64]
       [\<lparr>statements = [Assign (PLocal 0) (Binary Add (OpConstant (CU64 (- 1))) (OpConstant (CU64 1)))],
         terminator = Some Return\<rparr>]"

definition comparison_program :: MirProgram where
  "comparison_program =
     single_program TyBool [TyBool]
       [\<lparr>statements = [Assign (PLocal 0) (Binary Less (OpConstant (CU64 1)) (OpConstant (CU64 2)))],
         terminator = Some Return\<rparr>]"

definition example_lib :: codegen_lib where
  "example_lib = \<lparr>json_frames = \<lambda>_. [], json_capabilities = \<lambda>_. [], sha256_of_inputs = \<lambda>_ _ _. []\<rparr>"

definition example_emit :: "MirProgram \<Rightarrow> AsyncStateMachine list \<Rightarrow> CodegenError + WasmArtifact" where
  "example_emit p frames = emit_with_capabilities example_lib p frames default_manifest default_options"

lemma doubling_emitted: "\<exists>artifact. example_emit doubling_program [await_frame] = Inr artifact"
proof -
  have "Sum_Type.isl (example_emit doubling_program [await_frame]) = False" by code_simp
  then show ?thesis by (cases "example_emit doubling_program [await_frame]") auto
qed

lemma doubling_small: "small_tables doubling_program [await_frame]"
  by (simp add: small_tables_def doubling_program_def)

lemma doubling_executes:
  "execute 20 doubling_program main_id default_limits =
     Some (Inr \<lparr>result_value = RU64 40, result_stdout = [], result_drops = 0\<rparr>)"
  by code_simp

section \<open>The properties\<close>

text \<open>
  C8. An emitted module agrees with the reference interpreter: when emission succeeds on a program
  that assigns no comparison, and the interpreter runs its entry function to a result, the exported
  \<open>main\<close> returns the word that represents that result.
\<close>

theorem wasm_main_agrees:
  assumes "emit_with_capabilities lib p frames caps options = Inr artifact" and "small_tables p frames"
    and "comparison_free p" and "program_entry p = Some d" and "execute fuel p d limits = Some (Inr res)"
  shows "\<exists>w. returns (artifact_module artifact) ''main'' [] (W64 w) \<and> abi_value (result_value res) w"
  by (rule emitted_main [OF assms])

theorem wasm_main_agrees_witness:
  "\<exists>artifact. example_emit doubling_program [await_frame] = Inr artifact \<and>
     returns (artifact_module artifact) ''main'' [] (W64 40)"
proof -
  obtain artifact where a: "example_emit doubling_program [await_frame] = Inr artifact"
    using doubling_emitted by blast
  have "comparison_free doubling_program" by code_simp
  moreover have "program_entry doubling_program = Some main_id" by (simp add: doubling_program_def)
  ultimately show ?thesis
    using wasm_main_agrees [OF a [unfolded example_emit_def] doubling_small _ _ doubling_executes] a by simp
qed

text \<open>
  C23. The modules that are valid WebAssembly: emission from a verified program whose blocks are
  all reachable, whose tables fit the 32-bit indices and whose frames have pairwise different step
  export names gives a valid module exactly when no statement assigns a comparison.
\<close>

theorem wasm_module_valid:
  assumes "emit_with_capabilities lib p frames caps options = Inr artifact" and "small_tables p frames"
    and "list_all all_reachable (program_functions p)" and "distinct (map step_export_name frames)"
  shows "validate_module (artifact_module artifact) \<longleftrightarrow> comparison_free p"
  by (rule emitted_valid [OF assms])

theorem wasm_module_valid_witness:
  "(\<exists>artifact. example_emit doubling_program [await_frame] = Inr artifact \<and>
      validate_module (artifact_module artifact)) \<and>
   (\<exists>artifact. example_emit comparison_program [] = Inr artifact \<and>
      \<not> validate_module (artifact_module artifact))"
proof
  obtain artifact where a: "example_emit doubling_program [await_frame] = Inr artifact"
    using doubling_emitted by blast
  have "comparison_free doubling_program" "list_all all_reachable (program_functions doubling_program)"
    by code_simp+
  then show "\<exists>artifact. example_emit doubling_program [await_frame] = Inr artifact \<and>
      validate_module (artifact_module artifact)"
    using wasm_module_valid [OF a [unfolded example_emit_def] doubling_small] a by simp
next
  have "Sum_Type.isl (example_emit comparison_program []) = False" by code_simp
  then obtain artifact where a: "example_emit comparison_program [] = Inr artifact"
    by (cases "example_emit comparison_program []") auto
  have "comparison_free comparison_program = False" "list_all all_reachable (program_functions comparison_program)"
    by code_simp+
  moreover have "small_tables comparison_program []"
    by (simp add: small_tables_def comparison_program_def single_program_def)
  ultimately show "\<exists>artifact. example_emit comparison_program [] = Inr artifact \<and>
      \<not> validate_module (artifact_module artifact)"
    using wasm_module_valid [OF a [unfolded example_emit_def]] a by simp
qed

text \<open>
  C37. The exported step function of every async frame computes the frame's transition table:
  called with a state and a signal it returns the next state, and -1 outside the table.
\<close>

theorem wasm_step_agrees:
  assumes "emit_with_capabilities lib p frames caps options = Inr artifact" and "small_tables p frames"
    and "frame \<in> set frames"
  shows "returns (artifact_module artifact) (step_export_name frame) [W32 state, W32 signal]
    (W32 (machine_next frame state signal))"
  by (rule emitted_step [OF assms])

theorem wasm_step_agrees_witness:
  "\<exists>artifact. example_emit doubling_program [await_frame] = Inr artifact \<and>
     returns (artifact_module artifact) (step_export_name await_frame) [W32 1, W32 2] (W32 4)"
proof -
  obtain artifact where a: "example_emit doubling_program [await_frame] = Inr artifact"
    using doubling_emitted by blast
  have "machine_next await_frame 1 2 = 4" by code_simp
  then show ?thesis
    using wasm_step_agrees [OF a [unfolded example_emit_def] doubling_small, of await_frame 1 2] a by simp
qed

text \<open>
  The agreement is one-sided: generated arithmetic wraps where the interpreter traps, so a
  program that overflows traps in the interpreter and returns a value as a module.
\<close>

theorem wasm_overflow_wraps:
  "execute 20 overflow_program main_id default_limits = Some (Inl (Trap ''U64 addition overflow'')) \<and>
   (\<exists>artifact. example_emit overflow_program [] = Inr artifact \<and>
      returns (artifact_module artifact) ''main'' [] (W64 0))"
proof
  show "execute 20 overflow_program main_id default_limits = Some (Inl (Trap ''U64 addition overflow''))"
    by code_simp
  have "(case example_emit overflow_program [] of
      Inl e \<Rightarrow> False
    | Inr artifact \<Rightarrow>
        module_exports (artifact_module artifact) = [(''main'', 0)] \<and>
        (case module_funcs (artifact_module artifact) of
           None \<Rightarrow> False
         | Some funcs \<Rightarrow> invoke 20 funcs 0 [] = Some (Next [W64 0] [])))"
    by code_simp
  then show "\<exists>artifact. example_emit overflow_program [] = Inr artifact \<and>
      returns (artifact_module artifact) ''main'' [] (W64 0)"
    by (auto simp: returns_def split: sum.splits option.splits)
qed

end
