(* ===== verification/Syntax_Tree.thy ===== *)
theory Syntax_Tree
  imports Hir BTree
begin

text \<open>
  The syntax tree of \<open>crates/syllog-parser/src/ast.rs\<close> and the diagnostics of
  \<open>crates/syllog-parser/src/diagnostic.rs\<close>. A message is kept as the sequence of texts, numbers and
  types its format string renders.
\<close>

section \<open>Source ranges\<close>

definition span_key :: "'a Span_scheme \<Rightarrow> nat \<times> nat \<times> nat \<times> nat \<times> nat \<times> nat \<times> 'a" where
  "span_key a =
     (span_start a, span_end a, span_line a, span_column a, span_end_line a, span_end_column a, Span.more a)"

lemma span_key_inject: "span_key a = span_key b \<Longrightarrow> a = b"
  by (auto simp: span_key_def intro: Span.equality)

instantiation Span_ext :: (linorder) linorder
begin

definition less_eq_Span_ext :: "'a Span_scheme \<Rightarrow> 'a Span_scheme \<Rightarrow> bool" where
  "less_eq_Span_ext a b \<longleftrightarrow> span_key a \<le> span_key b"

definition less_Span_ext :: "'a Span_scheme \<Rightarrow> 'a Span_scheme \<Rightarrow> bool" where
  "less_Span_ext a b \<longleftrightarrow> span_key a < span_key b"

instance
proof
  fix a b c :: "'a Span_scheme"
  show "a < b \<longleftrightarrow> a \<le> b \<and> \<not> b \<le> a" unfolding less_eq_Span_ext_def less_Span_ext_def by (rule less_le_not_le)
  show "a \<le> a" unfolding less_eq_Span_ext_def by (rule order_refl)
  show "a \<le> b \<Longrightarrow> b \<le> c \<Longrightarrow> a \<le> c" unfolding less_eq_Span_ext_def by (rule order_trans)
  show "a \<le> b \<Longrightarrow> b \<le> a \<Longrightarrow> a = b" unfolding less_eq_Span_ext_def by (rule span_key_inject [OF order_antisym])
  show "a \<le> b \<or> b \<le> a" unfolding less_eq_Span_ext_def by (rule linear)
qed

end

section \<open>Types, expressions and statements\<close>

datatype TypeNode = TypeNode (type_kind: TypeKind) (type_span: Span)
and TypeKind =
    TkReference "string option" bool TypeNode
  | TkPath "string list" "TypeNode list"
  | TkArray TypeNode
  | TkTuple "TypeNode list"

datatype Pattern = Pattern (pattern_kind: PatternKind) (pattern_span: Span)
and PatternKind =
    PkWildcard
  | PkPath "string list"
  | PkConstructor "string list" "Pattern list"
  | PkLiteral Literal

datatype Expr = Expr (ekind: ExprKind) (espan: Span)
and ExprKind =
    EkBorrow bool Expr
  | EkAwait Expr
  | EkLiteral Literal
  | EkPath "string list"
  | EkArray "Expr list"
  | EkCall Expr "CallArgument list"
  | EkField Expr string
  | EkUnary UnaryOperator Expr
  | EkBinary BinaryOperator Expr Expr
  | EkMatch Expr "MatchArm list"
  | EkBlock Block
and CallArgument = CallArgument (argument_name: "string option") (argument_value: Expr) (argument_span: Span)
and MatchArm = MatchArm (arm_pattern: Pattern) (arm_guard: "Expr option") (arm_body: Expr) (arm_span: Span)
and Block = Block (statement_list: "StatementNode list") (braced_span: Span)
and StatementNode = StatementNode (statement_kind: StatementKind) (statement_span: Span)
and StatementKind =
    SkLet string "TypeNode option" Expr
  | SkReturn "Expr option"
  | SkExpression Expr

text \<open>The names a pattern binds.\<close>

fun pattern_names :: "Pattern \<Rightarrow> string list" where
  "pattern_names (Pattern (PkPath path) sp) = (if length path = 1 then path else [])"
| "pattern_names (Pattern (PkConstructor path pats) sp) = concat (map pattern_names pats)"
| "pattern_names p = []"

section \<open>Declarations\<close>

record Parameter =
  parameter_name :: string
  parameter_type :: TypeNode
  parameter_span :: Span

record StructField =
  field_public :: bool
  field_name :: string
  field_type :: TypeNode
  field_span :: Span

record StructNode =
  struct_public :: bool
  struct_name :: string
  struct_fields :: "StructField list"
  struct_span :: Span

record EnumVariant =
  ev_name :: string
  ev_fields :: "TypeNode list"
  ev_span :: Span

record EnumNode =
  enum_public :: bool
  enum_name :: string
  enum_variants :: "EnumVariant list"
  enum_span :: Span

record EffectNode =
  effect_name :: string
  effect_span :: Span

record AttributeNode =
  attribute_name :: string
  attribute_span :: Span

record FunctionNode =
  function_attributes :: "AttributeNode list"
  function_public :: bool
  function_async :: bool
  function_name :: string
  function_parameters :: "Parameter list"
  function_return :: "TypeNode option"
  function_effects :: "EffectNode list option"
  function_block :: Block
  function_span :: Span

record StateField =
  slot_name :: string
  slot_type :: TypeNode
  slot_initializer :: "Expr option"
  slot_span :: Span

record StateNode =
  state_public :: bool
  state_name :: string
  state_fields :: "StateField list"
  state_span :: Span

record Property =
  property_name :: string
  property_type :: "TypeNode option"
  property_value :: Expr
  property_span :: Span

record AgentNode =
  agent_public :: bool
  agent_name :: string
  agent_fields :: "Property list"
  agent_span :: Span

record PipelineNode =
  pnode_public :: bool
  pnode_name :: string
  pnode_parameters :: "Parameter list"
  pnode_return :: "TypeNode option"
  pnode_fields :: "Property list"
  pnode_span :: Span

record SafetyBoundNode =
  bound_public :: bool
  bound_name :: string
  bound_parameters :: "Parameter list"
  bound_fields :: "Property list"
  bound_span :: Span

datatype Item =
    ItStruct StructNode
  | ItEnum EnumNode
  | ItFunction FunctionNode
  | ItState StateNode
  | ItAgent AgentNode
  | ItPipeline PipelineNode
  | ItSafetyBound SafetyBoundNode

record ModuleNode =
  module_path :: "string list"
  module_span :: Span

record UseNode =
  use_path :: "string list"
  use_alias :: "string option"
  use_span :: Span

record Ast =
  ast_module :: "ModuleNode option"
  ast_imports :: "UseNode list"
  ast_items :: "Item list"
  ast_span :: Span

text \<open>\<open>PipelineNode::property\<close> takes the last property of that name.\<close>

definition last_property :: "Property list \<Rightarrow> string \<Rightarrow> Property option" where
  "last_property props name = List.find (\<lambda>field. property_name field = name) (rev props)"

definition literal_property :: "Property list \<Rightarrow> string \<Rightarrow> Literal option" where
  "literal_property props name =
     Option.bind (last_property props name) (\<lambda>field.
       case ekind (property_value field) of EkLiteral literal \<Rightarrow> Some literal | _ \<Rightarrow> None)"

fun item_name :: "Item \<Rightarrow> string" where
  "item_name (ItStruct node) = struct_name node"
| "item_name (ItEnum node) = enum_name node"
| "item_name (ItFunction node) = function_name node"
| "item_name (ItState node) = state_name node"
| "item_name (ItAgent node) = agent_name node"
| "item_name (ItPipeline node) = pnode_name node"
| "item_name (ItSafetyBound node) = bound_name node"

fun item_span :: "Item \<Rightarrow> Span" where
  "item_span (ItStruct node) = struct_span node"
| "item_span (ItEnum node) = enum_span node"
| "item_span (ItFunction node) = function_span node"
| "item_span (ItState node) = state_span node"
| "item_span (ItAgent node) = agent_span node"
| "item_span (ItPipeline node) = pnode_span node"
| "item_span (ItSafetyBound node) = bound_span node"

fun item_public :: "Item \<Rightarrow> bool" where
  "item_public (ItStruct node) = struct_public node"
| "item_public (ItEnum node) = enum_public node"
| "item_public (ItFunction node) = function_public node"
| "item_public (ItState node) = state_public node"
| "item_public (ItAgent node) = agent_public node"
| "item_public (ItPipeline node) = pnode_public node"
| "item_public (ItSafetyBound node) = bound_public node"

section \<open>Diagnostics\<close>

datatype Severity = SevError | SevWarning

datatype message_part = Txt string | Num nat | ShowType ResolvedType

type_synonym message = "message_part list"

record Diagnostic =
  diag_code :: string
  diag_severity :: Severity
  diag_message :: message
  diag_file :: string
  diag_span :: Span

definition error_diagnostic :: "string \<Rightarrow> message \<Rightarrow> string \<Rightarrow> Span \<Rightarrow> Diagnostic" where
  "error_diagnostic code message file sp =
     \<lparr>diag_code = code, diag_severity = SevError, diag_message = message, diag_file = file,
      diag_span = sp\<rparr>"

lemma error_diagnostic_error [simp]: "diag_severity (error_diagnostic code message file sp) = SevError"
  by (simp add: error_diagnostic_def)

text \<open>The passes collect diagnostics in a log of their state: they add errors to it, or keep it.\<close>

definition log_grows :: "('s \<Rightarrow> Diagnostic list) \<Rightarrow> 's \<Rightarrow> 's \<Rightarrow> bool" where
  "log_grows log a b \<longleftrightarrow> (\<exists>ds. log b = log a @ ds \<and> (\<forall>d \<in> set ds. diag_severity d = SevError))"

definition log_quiet :: "('s \<Rightarrow> Diagnostic list) \<Rightarrow> 's \<Rightarrow> 's \<Rightarrow> bool" where
  "log_quiet log a b \<longleftrightarrow> log b = log a"

lemma log_grows_refl: "log_grows log a a"
  by (simp add: log_grows_def)

lemma log_quiet_refl [simp]: "log_quiet log a a"
  by (simp add: log_quiet_def)

lemma log_grows_trans [trans]: "log_grows log a b \<Longrightarrow> log_grows log b c \<Longrightarrow> log_grows log a c"
  unfolding log_grows_def by (elim exE conjE) (auto intro!: exI [of _ "_ @ _"])

lemma log_quiet_grows: "log_quiet log a b \<Longrightarrow> log_grows log a b"
  by (simp add: log_quiet_def log_grows_def)

lemma log_grows_quiet_trans: "log_grows log a b \<Longrightarrow> log_quiet log b c \<Longrightarrow> log_grows log a c"
  by (auto simp: log_grows_def log_quiet_def)

lemma log_quiet_split:
  assumes "log_grows log a b" and "log_grows log b c" and "log_quiet log a c"
  shows "log_quiet log a b" and "log_quiet log b c"
proof -
  obtain ds es where "log b = log a @ ds" "log c = log b @ es"
    using assms(1,2) by (auto simp: log_grows_def)
  then show "log_quiet log a b" "log_quiet log b c" using assms(3) by (simp_all add: log_quiet_def)
qed

record CheckResult =
  check_ast :: "Ast option"
  check_diagnostics :: "Diagnostic list"

definition is_ok :: "CheckResult \<Rightarrow> bool" where
  "is_ok result = (\<not> list_ex (\<lambda>d. diag_severity d = SevError) (check_diagnostics result))"

text \<open>\<open>join\<close> on a slice of strings.\<close>

fun join :: "string \<Rightarrow> string list \<Rightarrow> string" where
  "join sep [] = []"
| "join sep [s] = s"
| "join sep (s # t # ss) = s @ sep @ join sep (t # ss)"

section \<open>Updates of ordered maps\<close>

definition btree_remove :: "'k::linorder \<Rightarrow> ('k, 'v) btree \<Rightarrow> ('k, 'v) btree" where
  "btree_remove k t = filter (\<lambda>(k', v). k' \<noteq> k) t"

lemma btree_remove_ok: "btree_ok t \<Longrightarrow> btree_ok (btree_remove k t)"
  unfolding btree_ok_def btree_remove_def
  by (induction t) auto

lemma btree_remove_lookup: "map_of (btree_remove k t) = (map_of t)(k := None)"
  by (induction t) (auto simp: btree_remove_def)

end
