(* ===== verification/Ownership.thy ===== *)
theory Ownership
  imports Syntax_Tree
begin

text \<open>
  The ownership pass \<open>crates/syllog-semantic/src/ownership.rs\<close>: affine moves, lexical borrows and
  regions of a function. The methods of \<open>FunctionChecker\<close> pass the variables and the diagnostics
  explicitly.
\<close>

section \<open>Data\<close>

datatype OwnershipState = Available | Moved | SharedBorrowed u32 | MutBorrowed

datatype Origin = FromParameter | FromLocal

record Variable =
  var_state :: OwnershipState
  var_copy :: bool
  var_origin :: Origin
  var_borrow :: "(string \<times> bool) option"

datatype UseMode = Consume | ReadOnly

type_synonym variables = "(string, Variable) btree"

record FunctionChecker =
  checker_variables :: variables
  checker_diagnostics :: "Diagnostic list"

record OwnershipAnalysis =
  ownership_diagnostics :: "Diagnostic list"

definition ownership_error :: "string \<Rightarrow> string \<Rightarrow> string \<Rightarrow> Span \<Rightarrow> FunctionChecker \<Rightarrow> FunctionChecker" where
  "ownership_error file code message sp st =
     st\<lparr>checker_diagnostics := checker_diagnostics st @ [error_diagnostic code [Txt message] file sp]\<rparr>"

definition variable :: "FunctionChecker \<Rightarrow> string \<Rightarrow> Variable option" where
  "variable st name = map_of (checker_variables st) name"

definition put_variable :: "string \<Rightarrow> Variable \<Rightarrow> FunctionChecker \<Rightarrow> FunctionChecker" where
  "put_variable name v st = st\<lparr>checker_variables := btree_insert name v (checker_variables st)\<rparr>"

text \<open>\<open>get_mut\<close> followed by an assignment; nothing happens without the variable.\<close>

definition update_variable :: "string \<Rightarrow> (Variable \<Rightarrow> Variable) \<Rightarrow> FunctionChecker \<Rightarrow> FunctionChecker" where
  "update_variable name g st =
     (case variable st name of None \<Rightarrow> st | Some v \<Rightarrow> put_variable name (g v) st)"

section \<open>Places, copies and uses\<close>

fun place_name :: "Expr \<Rightarrow> string option" where
  "place_name (Expr (EkPath path) sp) = (if length path = 1 then Some (hd path) else None)"
| "place_name (Expr (EkLiteral (LIdentifier name)) sp) = Some name"
| "place_name (Expr (EkField base name) sp) = place_name base"
| "place_name e = None"

fun borrow_target :: "Expr \<Rightarrow> (string \<times> bool) option" where
  "borrow_target (Expr (EkBorrow is_mut x) sp) = map_option (\<lambda>name. (name, is_mut)) (place_name x)"
| "borrow_target e = None"

definition is_ascii_digit :: "char \<Rightarrow> bool" where
  "is_ascii_digit c \<longleftrightarrow> CHR ''0'' \<le> c \<and> c \<le> CHR ''9''"

definition copy_name :: "string \<Rightarrow> bool" where
  "copy_name name \<longleftrightarrow>
     name \<in> {''Bool'', ''Char'', ''Duration'', ''Size'', ''Str''} \<or>
     (case name of
        [] \<Rightarrow> False
      | c # width \<Rightarrow> (c = CHR ''I'' \<or> c = CHR ''U'' \<or> c = CHR ''F'') \<and> list_all is_ascii_digit width)"

fun type_is_copy :: "TypeNode \<Rightarrow> bool" where
  "type_is_copy (TypeNode (TkReference lifetime is_mut inner) sp) = (\<not> is_mut)"
| "type_is_copy (TypeNode (TkTuple items) sp) = list_all type_is_copy items"
| "type_is_copy (TypeNode (TkPath segments arguments) sp) =
     (length segments = 1 \<and> arguments = [] \<and> copy_name (hd segments))"
| "type_is_copy (TypeNode (TkArray inner) sp) = False"

definition copy_variable :: "variables \<Rightarrow> string \<Rightarrow> bool" where
  "copy_variable vars name = (case map_of vars name of None \<Rightarrow> True | Some v \<Rightarrow> var_copy v)"

fun copies_expression :: "Expr \<Rightarrow> (string \<Rightarrow> bool) \<Rightarrow> bool" where
  "copies_expression (Expr (EkLiteral (LString s)) sp) copies = False"
| "copies_expression (Expr (EkArray items) sp) copies = False"
| "copies_expression (Expr (EkBorrow is_mut x) sp) copies = (\<not> is_mut)"
| "copies_expression (Expr (EkPath path) sp) copies = (if length path = 1 then copies (hd path) else True)"
| "copies_expression (Expr (EkLiteral (LIdentifier name)) sp) copies = copies name"
| "copies_expression e copies = True"

definition expression_is_copy :: "Expr \<Rightarrow> variables \<Rightarrow> bool" where
  "expression_is_copy e vars = copies_expression e (copy_variable vars)"

definition let_is_copy :: "TypeNode option \<Rightarrow> Expr \<Rightarrow> variables \<Rightarrow> bool" where
  "let_is_copy ty v vars = (case ty of None \<Rightarrow> expression_is_copy v vars | Some t \<Rightarrow> type_is_copy t)"

type_synonym last_uses = "(string, nat) btree"

definition note_place :: "Expr \<Rightarrow> nat \<Rightarrow> last_uses \<Rightarrow> last_uses" where
  "note_place e index uses =
     (case place_name e of None \<Rightarrow> uses | Some name \<Rightarrow> btree_insert name index uses)"

text \<open>The walk over an expression; the syntax comes first, so that the recursion is on it alone.\<close>

fun collect_uses :: "Expr \<Rightarrow> nat \<Rightarrow> last_uses \<Rightarrow> last_uses"
  and collect_uses_items :: "Expr list \<Rightarrow> nat \<Rightarrow> last_uses \<Rightarrow> last_uses"
  and collect_uses_arguments :: "CallArgument list \<Rightarrow> nat \<Rightarrow> last_uses \<Rightarrow> last_uses"
  and collect_uses_arms :: "MatchArm list \<Rightarrow> nat \<Rightarrow> last_uses \<Rightarrow> last_uses"
  and statements_last_uses :: "StatementNode list \<Rightarrow> nat \<Rightarrow> last_uses \<Rightarrow> last_uses" where
  "collect_uses (Expr (EkBorrow is_mut x) sp) = collect_uses x"
| "collect_uses (Expr (EkAwait x) sp) = collect_uses x"
| "collect_uses (Expr (EkUnary op x) sp) = collect_uses x"
| "collect_uses (Expr (EkField base name) sp) =
     (\<lambda>index uses. collect_uses base index (note_place (Expr (EkField base name) sp) index uses))"
| "collect_uses (Expr (EkArray items) sp) = collect_uses_items items"
| "collect_uses (Expr (EkCall callee arguments) sp) =
     (\<lambda>index uses. collect_uses_arguments arguments index (collect_uses callee index uses))"
| "collect_uses (Expr (EkBinary op left right) sp) =
     (\<lambda>index uses. collect_uses right index (collect_uses left index uses))"
| "collect_uses (Expr (EkMatch v arms) sp) =
     (\<lambda>index uses. collect_uses_arms arms index (collect_uses v index uses))"
| "collect_uses (Expr (EkBlock (Block stmts bsp)) sp) =
     (\<lambda>index uses. fold (\<lambda>name. btree_insert name index)
        (map fst (statements_last_uses stmts 0 [])) uses)"
| "collect_uses (Expr (EkLiteral l) sp) = note_place (Expr (EkLiteral l) sp)"
| "collect_uses (Expr (EkPath path) sp) = note_place (Expr (EkPath path) sp)"
| "collect_uses_items [] = (\<lambda>index uses. uses)"
| "collect_uses_items (x # xs) =
     (\<lambda>index uses. collect_uses_items xs index (collect_uses x index uses))"
| "collect_uses_arguments [] = (\<lambda>index uses. uses)"
| "collect_uses_arguments (CallArgument name x sp # xs) =
     (\<lambda>index uses. collect_uses_arguments xs index (collect_uses x index uses))"
| "collect_uses_arms [] = (\<lambda>index uses. uses)"
| "collect_uses_arms (MatchArm pat guard body sp # arms) =
     (\<lambda>index uses. collect_uses_arms arms index
        (collect_uses body index
           (case guard of None \<Rightarrow> uses | Some g \<Rightarrow> collect_uses g index uses)))"
| "statements_last_uses [] = (\<lambda>index uses. uses)"
| "statements_last_uses (StatementNode (SkLet name ty v) sp # ss) =
     (\<lambda>index uses. statements_last_uses ss (Suc index) (collect_uses v index uses))"
| "statements_last_uses (StatementNode (SkExpression v) sp # ss) =
     (\<lambda>index uses. statements_last_uses ss (Suc index) (collect_uses v index uses))"
| "statements_last_uses (StatementNode (SkReturn v) sp # ss) =
     (\<lambda>index uses. statements_last_uses ss (Suc index)
        (case v of None \<Rightarrow> uses | Some e \<Rightarrow> collect_uses e index uses))"

text \<open>Evaluation applies an equation only to all arguments.\<close>

lemmas collect_uses_eval [code] =
  collect_uses.simps [THEN fun_cong, THEN fun_cong]
  collect_uses_items.simps [THEN fun_cong, THEN fun_cong]
  collect_uses_arguments.simps [THEN fun_cong, THEN fun_cong]
  collect_uses_arms.simps [THEN fun_cong, THEN fun_cong]
  statements_last_uses.simps [THEN fun_cong, THEN fun_cong]

definition block_last_uses :: "Block \<Rightarrow> last_uses" where
  "block_last_uses block = statements_last_uses (statement_list block) 0 []"

section \<open>Uses and borrows of variables\<close>

definition use_variable ::
  "string \<Rightarrow> string \<Rightarrow> UseMode \<Rightarrow> Span \<Rightarrow> FunctionChecker \<Rightarrow> FunctionChecker" where
  "use_variable file name mode sp st =
     (case variable st name of
        None \<Rightarrow> st
      | Some v \<Rightarrow>
          if var_state v = Moved
          then ownership_error file ''SYL2602'' (''use of moved value '' @ [CHR 0x27] @ name @ [CHR 0x27]) sp st
          else if mode = Consume \<and> \<not> var_copy v
          then (if var_state v = Available
                then update_variable name (\<lambda>v. v\<lparr>var_state := Moved\<rparr>) st
                else ownership_error file ''SYL2605''
                       (''cannot move '' @ [CHR 0x27] @ name @ [CHR 0x27] @ '' while it is borrowed'') sp st)
          else st)"

definition set_state :: "string \<Rightarrow> OwnershipState \<Rightarrow> FunctionChecker \<Rightarrow> FunctionChecker" where
  "set_state name s = update_variable name (\<lambda>v. v\<lparr>var_state := s\<rparr>)"

definition borrow_place :: "string \<Rightarrow> Expr \<Rightarrow> bool \<Rightarrow> FunctionChecker \<Rightarrow> FunctionChecker" where
  "borrow_place file x is_mut st =
     (case place_name x of
        None \<Rightarrow> st
      | Some name \<Rightarrow>
          (case variable st name of
             None \<Rightarrow> st
           | Some v \<Rightarrow>
               (case (is_mut, var_state v) of
                  (_, Moved) \<Rightarrow>
                    ownership_error file ''SYL2602''
                      (''cannot borrow moved value '' @ [CHR 0x27] @ name @ [CHR 0x27]) (espan x) st
                | (True, Available) \<Rightarrow> set_state name MutBorrowed st
                | (False, Available) \<Rightarrow> set_state name (SharedBorrowed 1) st
                | (False, SharedBorrowed count) \<Rightarrow>
                    set_state name (SharedBorrowed (saturating_add count 1)) st
                | _ \<Rightarrow>
                    ownership_error file ''SYL2603''
                      (''borrow of '' @ [CHR 0x27] @ name @ [CHR 0x27] @
                       '' conflicts with an overlapping borrow'') (espan x) st)))"

definition released :: "bool \<Rightarrow> OwnershipState \<Rightarrow> OwnershipState" where
  "released is_mut s =
     (case (is_mut, s) of
        (True, MutBorrowed) \<Rightarrow> Available
      | (False, SharedBorrowed count) \<Rightarrow>
          if count = 1 then Available else SharedBorrowed (saturating_sub count 1)
      | _ \<Rightarrow> s)"

definition release_borrow :: "string \<Rightarrow> FunctionChecker \<Rightarrow> FunctionChecker" where
  "release_borrow binding st =
     (case Option.bind (variable st binding) var_borrow of
        None \<Rightarrow> st
      | Some (target, is_mut) \<Rightarrow>
          update_variable binding (\<lambda>v. v\<lparr>var_borrow := None\<rparr>)
            (update_variable target (\<lambda>v. v\<lparr>var_state := released is_mut (var_state v)\<rparr>) st))"

definition borrowed_targets :: "FunctionChecker \<Rightarrow> string list" where
  "borrowed_targets st =
     map fst (filter (\<lambda>(name, v). (case var_state v of SharedBorrowed _ \<Rightarrow> True | MutBorrowed \<Rightarrow> True | _ \<Rightarrow> False))
       (checker_variables st))"

definition escape_target :: "Expr \<Rightarrow> FunctionChecker \<Rightarrow> string option" where
  "escape_target e st =
     (case ekind e of
        EkBorrow is_mut x \<Rightarrow> place_name x
      | EkPath path \<Rightarrow>
          if length path = 1
          then Option.bind (variable st (hd path)) (\<lambda>v. map_option fst (var_borrow v))
          else None
      | _ \<Rightarrow> None)"

definition check_return_escape :: "string \<Rightarrow> Expr \<Rightarrow> FunctionChecker \<Rightarrow> FunctionChecker" where
  "check_return_escape file e st =
     (case escape_target e st of
        None \<Rightarrow> st
      | Some target \<Rightarrow>
          (case variable st target of
             None \<Rightarrow> st
           | Some v \<Rightarrow>
               if var_origin v = FromLocal
               then ownership_error file ''SYL2604''
                      (''reference to local '' @ [CHR 0x27] @ target @ [CHR 0x27] @ '' escapes its region'')
                      (espan e) st
               else st))"

text \<open>The borrows that end after the statement with the given index.\<close>

definition end_borrows :: "last_uses \<Rightarrow> nat \<Rightarrow> FunctionChecker \<Rightarrow> FunctionChecker" where
  "end_borrows uses index st =
     fold release_borrow
       (map fst (filter (\<lambda>(name, v). var_borrow v \<noteq> None \<and>
            (case map_of uses name of None \<Rightarrow> index | Some i \<Rightarrow> i) \<le> index) (checker_variables st)))
       st"

text \<open>Leaving a block: hidden variables come back.\<close>

type_synonym shadowed = "(string, Variable option) btree"

definition unshadow_entry :: "string \<times> Variable option \<Rightarrow> FunctionChecker \<Rightarrow> FunctionChecker" where
  "unshadow_entry = (\<lambda>(name, previous) st.
     let st1 = release_borrow name st in
     (case previous of
        Some v \<Rightarrow> put_variable name v st1
      | None \<Rightarrow> st1\<lparr>checker_variables := btree_remove name (checker_variables st1)\<rparr>))"

definition unshadow :: "shadowed \<Rightarrow> FunctionChecker \<Rightarrow> FunctionChecker" where
  "unshadow hidden st = fold unshadow_entry hidden st"

definition bind_local ::
  "string \<Rightarrow> bool \<Rightarrow> (string \<times> bool) option \<Rightarrow> FunctionChecker \<Rightarrow> FunctionChecker" where
  "bind_local name is_copy borrow st =
     put_variable name
       \<lparr>var_state = Available, var_copy = is_copy, var_origin = FromLocal, var_borrow = borrow\<rparr>
       (release_borrow name st)"

definition await_errors :: "string \<Rightarrow> Span \<Rightarrow> string list \<Rightarrow> string list \<Rightarrow> FunctionChecker \<Rightarrow> FunctionChecker" where
  "await_errors file sp before after st =
     fold (\<lambda>name. ownership_error file ''SYL2606''
         (''borrow of '' @ [CHR 0x27] @ name @ [CHR 0x27] @
          '' crosses an await suspension; move owned data into the task or end the borrow first'') sp)
       (sorted_list_of_set (set (before @ after))) st"

text \<open>The state of a variable after the arms of a match.\<close>

definition merged_state :: "OwnershipState list \<Rightarrow> OwnershipState" where
  "merged_state ss =
     (if Moved \<in> set ss then Moved
      else if MutBorrowed \<in> set ss then MutBorrowed
      else
        (let shared = fold max (map (\<lambda>s. case s of SharedBorrowed count \<Rightarrow> count | _ \<Rightarrow> 0) ss) 0
         in if shared = 0 then Available else SharedBorrowed shared))"

definition merge_branches :: "variables \<Rightarrow> variables list \<Rightarrow> variables" where
  "merge_branches before branches =
     map (\<lambda>(name, v). (name, v\<lparr>var_state :=
            merged_state (List.map_filter (\<lambda>branch. map_option var_state (map_of branch name)) branches)\<rparr>))
       before"

section \<open>Expressions and blocks\<close>

fun check_expr :: "Expr \<Rightarrow> string \<Rightarrow> UseMode \<Rightarrow> FunctionChecker \<Rightarrow> FunctionChecker"
  and check_items :: "Expr list \<Rightarrow> string \<Rightarrow> FunctionChecker \<Rightarrow> FunctionChecker"
  and check_arguments :: "CallArgument list \<Rightarrow> string \<Rightarrow> FunctionChecker \<Rightarrow> FunctionChecker"
  and check_arms ::
    "MatchArm list \<Rightarrow> string \<Rightarrow> variables \<Rightarrow> FunctionChecker \<Rightarrow> variables list \<times> FunctionChecker"
  and check_block_statements ::
    "StatementNode list \<Rightarrow> string \<Rightarrow> last_uses \<Rightarrow> nat \<Rightarrow> shadowed \<Rightarrow> FunctionChecker \<Rightarrow> FunctionChecker" where
  "check_expr (Expr (EkBorrow is_mut x) sp) = (\<lambda>file mode. borrow_place file x is_mut)"
| "check_expr (Expr (EkPath path) sp) =
     (\<lambda>file mode st. if length path = 1 then use_variable file (hd path) mode sp st else st)"
| "check_expr (Expr (EkLiteral literal) sp) =
     (\<lambda>file mode st. case literal of LIdentifier name \<Rightarrow> use_variable file name mode sp st | _ \<Rightarrow> st)"
| "check_expr (Expr (EkArray items) sp) = (\<lambda>file mode. check_items items file)"
| "check_expr (Expr (EkCall callee arguments) sp) =
     (\<lambda>file mode st. check_arguments arguments file (check_expr callee file ReadOnly st))"
| "check_expr (Expr (EkField base name) sp) = check_expr base"
| "check_expr (Expr (EkUnary op x) sp) = check_expr x"
| "check_expr (Expr (EkAwait x) sp) =
     (\<lambda>file mode st.
        let st1 = check_expr x file mode st
        in await_errors file sp (borrowed_targets st) (borrowed_targets st1) st1)"
| "check_expr (Expr (EkBinary op left right) sp) =
     (\<lambda>file mode st. check_expr right file ReadOnly (check_expr left file ReadOnly st))"
| "check_expr (Expr (EkMatch v arms) sp) =
     (\<lambda>file mode st.
        let st1 = check_expr v file Consume st;
            before = checker_variables st1;
            (branches, st2) = check_arms arms file before st1
        in st2\<lparr>checker_variables := merge_branches before branches\<rparr>)"
| "check_expr (Expr (EkBlock (Block stmts bsp)) sp) =
     (\<lambda>file mode. check_block_statements stmts file (block_last_uses (Block stmts bsp)) 0 [])"
| "check_items [] = (\<lambda>file st. st)"
| "check_items (x # xs) = (\<lambda>file st. check_items xs file (check_expr x file Consume st))"
| "check_arguments [] = (\<lambda>file st. st)"
| "check_arguments (CallArgument name x sp # xs) =
     (\<lambda>file st. check_arguments xs file (check_expr x file Consume st))"
| "check_arms [] = (\<lambda>file before st. ([], st))"
| "check_arms (MatchArm pat guard body sp # arms) =
     (\<lambda>file before st.
        let st1 = st\<lparr>checker_variables := before\<rparr>;
            st2 = (case guard of None \<Rightarrow> st1 | Some g \<Rightarrow> check_expr g file ReadOnly st1);
            st3 = check_expr body file Consume st2;
            (branches, st4) = check_arms arms file before st3
        in (checker_variables st3 # branches, st4))"
| "check_block_statements [] = (\<lambda>file uses index hidden. unshadow hidden)"
| "check_block_statements (StatementNode (SkLet name ty v) sp # ss) =
     (\<lambda>file uses index hidden st.
        let st1 = check_expr v file Consume st;
            is_copy = let_is_copy ty v (checker_variables st1);
            hidden' = (if map_of hidden name = None then btree_insert name (variable st1 name) hidden
                       else hidden);
            st2 = bind_local name is_copy (borrow_target v) st1
        in check_block_statements ss file uses (Suc index) hidden' (end_borrows uses index st2))"
| "check_block_statements (StatementNode (SkReturn v) sp # ss) =
     (\<lambda>file uses index hidden st.
        let st1 = (case v of
                     None \<Rightarrow> st
                   | Some e \<Rightarrow> check_expr e file Consume (check_return_escape file e st))
        in check_block_statements ss file uses (Suc index) hidden (end_borrows uses index st1))"
| "check_block_statements (StatementNode (SkExpression e) sp # ss) =
     (\<lambda>file uses index hidden st. check_block_statements ss file uses (Suc index) hidden
        (end_borrows uses index (check_expr e file Consume st)))"

lemmas check_eval [code] =
  check_expr.simps [THEN fun_cong, THEN fun_cong, THEN fun_cong]
  check_items.simps [THEN fun_cong, THEN fun_cong]
  check_arguments.simps [THEN fun_cong, THEN fun_cong]
  check_arms.simps [THEN fun_cong, THEN fun_cong, THEN fun_cong]
  check_block_statements.simps [THEN fun_cong, THEN fun_cong, THEN fun_cong, THEN fun_cong, THEN fun_cong]

definition check_ownership_block :: "string \<Rightarrow> Block \<Rightarrow> FunctionChecker \<Rightarrow> FunctionChecker" where
  "check_ownership_block file block st =
     check_block_statements (statement_list block) file (block_last_uses block) 0 [] st"

section \<open>Functions and files\<close>

fun reference_lifetime :: "TypeNode \<Rightarrow> string option option" where
  "reference_lifetime (TypeNode (TkReference lifetime is_mut inner) sp) = Some lifetime"
| "reference_lifetime ty = None"

definition check_signature_regions :: "string \<Rightarrow> FunctionNode \<Rightarrow> FunctionChecker \<Rightarrow> FunctionChecker" where
  "check_signature_regions file f st =
     (case function_return f of
        None \<Rightarrow> st
      | Some ty \<Rightarrow>
          (case reference_lifetime ty of
             None \<Rightarrow> st
           | Some result_region \<Rightarrow>
               (let sources = List.map_filter (\<lambda>p. reference_lifetime (parameter_type p)) (function_parameters f);
                    valid = (case result_region of
                               Some region \<Rightarrow> Some region \<in> set sources
                             | None \<Rightarrow> length sources = 1)
                in if valid then st
                   else ownership_error file ''SYL2604''
                          ''returned reference lifetime is not tied to exactly one input reference''
                          (type_span ty) st)))"

definition parameter_variables :: "FunctionNode \<Rightarrow> variables" where
  "parameter_variables f =
     fold (\<lambda>p. btree_insert (parameter_name p)
         \<lparr>var_state = Available, var_copy = type_is_copy (parameter_type p), var_origin = FromParameter,
          var_borrow = None\<rparr>) (function_parameters f) []"

definition check_ownership :: "string \<Rightarrow> FunctionNode \<Rightarrow> Diagnostic list" where
  "check_ownership file f =
     checker_diagnostics
       (check_ownership_block file (function_block f)
          (check_signature_regions file f
             \<lparr>checker_variables = parameter_variables f, checker_diagnostics = []\<rparr>))"

definition analyze_ownership :: "string \<Rightarrow> Ast \<Rightarrow> OwnershipAnalysis" where
  "analyze_ownership file ast =
     \<lparr>ownership_diagnostics =
        concat (map (\<lambda>item. case item of ItFunction f \<Rightarrow> check_ownership file f | _ \<Rightarrow> []) (ast_items ast))\<rparr>"

end
