(* ===== verification/Semantic.thy ===== *)
theory Semantic
  imports Ownership
begin

text \<open>
  The semantic analyzer \<open>crates/syllog-semantic/src/lib.rs\<close> with the symbol tables of
  \<open>crates/syllog-semantic/src/types.rs\<close>: name collection, type resolution and the bidirectional
  inference of expression types. The methods of \<open>Analyzer\<close> pass the analyzer explicitly. Its hash
  maps, which the code never iterates, are maps.
\<close>

section \<open>Symbols\<close>

datatype TypeSymbolKind = TsPrimitive | TsStruct | TsEnum | TsState | TsGeneric nat

record TypeSymbol =
  tsym_name :: string
  tsym_kind :: TypeSymbolKind
  tsym_span :: Span

datatype ValueSymbolKind = VsFunction | VsAgent | VsPipeline | VsSafetyBound

record ValueSymbol =
  vsym_name :: string
  vsym_kind :: ValueSymbolKind
  vsym_span :: Span

record SymbolTable =
  symbol_types :: "(string, TypeSymbol) btree"
  symbol_values :: "(string, ValueSymbol) btree"

definition contains_type :: "SymbolTable \<Rightarrow> string \<Rightarrow> bool" where
  "contains_type table name = (map_of (symbol_types table) name \<noteq> None)"

definition contains_value :: "SymbolTable \<Rightarrow> string \<Rightarrow> bool" where
  "contains_value table name = (map_of (symbol_values table) name \<noteq> None)"

record ExpressionType =
  typed_span :: Span
  typed_as :: ResolvedType

record Analysis =
  analysis_symbols :: SymbolTable
  analysis_diagnostics :: "Diagnostic list"
  analysis_types :: "ExpressionType list"

record StructDefinition =
  sd_fields :: "(string, ResolvedType) btree"

record EnumDefinition =
  ed_variants :: "(string \<times> ResolvedType list) list"

record FunctionSignature =
  sig_parameters :: "ResolvedType list"
  sig_result :: ResolvedType

record AgentContract =
  contract_input :: "ResolvedType option"
  contract_output :: "ResolvedType option"

record Analyzer =
  an_file :: string
  an_symbols :: SymbolTable
  an_diagnostics :: "Diagnostic list"
  an_types :: "(Span, ResolvedType) btree"
  an_structs :: "string \<rightharpoonup> StructDefinition"
  an_enums :: "string \<rightharpoonup> EnumDefinition"
  an_functions :: "string \<rightharpoonup> FunctionSignature"
  an_agents :: "string \<rightharpoonup> AgentContract"
  an_states :: "string \<rightharpoonup> ResolvedType list"
  an_async :: bool

definition push_error :: "string \<Rightarrow> message \<Rightarrow> Span \<Rightarrow> Analyzer \<Rightarrow> Analyzer" where
  "push_error code message sp a =
     a\<lparr>an_diagnostics := an_diagnostics a @ [error_diagnostic code message (an_file a) sp]\<rparr>"

definition in_quotes :: "string \<Rightarrow> string" where
  "in_quotes s = [CHR 0x27] @ s @ [CHR 0x27]"

section \<open>Types\<close>

definition bool_type :: ResolvedType where
  "bool_type = RtPrimitive PrimBool"

definition string_type :: ResolvedType where
  "string_type = RtPrimitive PrimString"

definition primitive_names :: "string list" where
  "primitive_names =
     [''Bool'', ''String'', ''Str'', ''Char'', ''Bytes'', ''I8'', ''I16'', ''I32'', ''I64'', ''I128'', ''Isize'',
      ''U8'', ''U16'', ''U32'', ''U64'', ''U128'', ''Usize'', ''F16'', ''F32'', ''F64'', ''Duration'', ''Size'',
      ''AgentRef'', ''Provider'', ''Text'', ''Unit'']"

definition primitive_type :: "string \<Rightarrow> PrimitiveType option" where
  "primitive_type name =
     (if name = ''Bool'' then Some PrimBool
      else if name = ''String'' then Some PrimString
      else if name = ''Str'' then Some PrimStr
      else if name = ''Char'' then Some PrimChar
      else if name = ''Bytes'' then Some PrimBytes
      else if name \<in> {''I8'', ''I16'', ''I32'', ''I64'', ''I128'', ''Isize''} then Some (PrimSigned name)
      else if name \<in> {''U8'', ''U16'', ''U32'', ''U64'', ''U128'', ''Usize''} then Some (PrimUnsigned name)
      else if name \<in> {''F16'', ''F32'', ''F64''} then Some (PrimFloat name)
      else if name = ''Duration'' then Some PrimDuration
      else if name = ''Size'' then Some PrimSize
      else if name = ''AgentRef'' then Some PrimAgentRef
      else if name = ''Provider'' then Some PrimProvider
      else if name = ''Text'' then Some PrimText
      else None)"

definition absorbs :: "ResolvedType \<Rightarrow> bool" where
  "absorbs t \<longleftrightarrow> t = RtError \<or> t = RtUnknown"

text \<open>The recursion is on the expected type; outside the listed pairs the types must be equal.\<close>

fun compatible :: "ResolvedType \<Rightarrow> ResolvedType \<Rightarrow> bool"
  and compatible_all :: "ResolvedType list \<Rightarrow> ResolvedType list \<Rightarrow> bool" where
  "compatible (RtPrimitive p) =
     (\<lambda>actual. absorbs actual \<or>
        (case actual of
           RtIntegerLiteral \<Rightarrow> (case p of PrimSigned _ \<Rightarrow> True | PrimUnsigned _ \<Rightarrow> True | _ \<Rightarrow> False)
         | RtFloatLiteral \<Rightarrow> (case p of PrimFloat _ \<Rightarrow> True | _ \<Rightarrow> False)
         | _ \<Rightarrow> RtPrimitive p = actual))"
| "compatible (RtArray left) =
     (\<lambda>actual. absorbs actual \<or> (case actual of RtArray right \<Rightarrow> compatible left right | _ \<Rightarrow> False))"
| "compatible (RtOption left) =
     (\<lambda>actual. absorbs actual \<or> (case actual of RtOption right \<Rightarrow> compatible left right | _ \<Rightarrow> False))"
| "compatible (RtReference region left_mut left) =
     (\<lambda>actual. absorbs actual \<or>
        (case actual of
           RtReference _ right_mut right \<Rightarrow> left_mut = right_mut \<and> compatible left right
         | _ \<Rightarrow> False))"
| "compatible (RtResult left_ok left_error) =
     (\<lambda>actual. absorbs actual \<or>
        (case actual of
           RtResult right_ok right_error \<Rightarrow> compatible left_ok right_ok \<and> compatible left_error right_error
         | _ \<Rightarrow> False))"
| "compatible (RtTuple left) =
     (\<lambda>actual. absorbs actual \<or>
        (case actual of
           RtTuple right \<Rightarrow> length left = length right \<and> compatible_all left right
         | _ \<Rightarrow> False))"
| "compatible expected = (\<lambda>actual. absorbs expected \<or> absorbs actual \<or> expected = actual)"
| "compatible_all [] = (\<lambda>right. True)"
| "compatible_all (t # left) =
     (\<lambda>right. case right of [] \<Rightarrow> True | u # right \<Rightarrow> compatible t u \<and> compatible_all left right)"

text \<open>Evaluation applies an equation only to all arguments.\<close>

lemmas compatible_eval [code] = compatible.simps [THEN fun_cong] compatible_all.simps [THEN fun_cong]

definition require_compatible ::
  "ResolvedType \<Rightarrow> ResolvedType \<Rightarrow> Span \<Rightarrow> string \<Rightarrow> Analyzer \<Rightarrow> Analyzer" where
  "require_compatible expected actual sp context a =
     (if compatible expected actual then a
      else push_error ''SYL2101''
        [Txt context, Txt '' type mismatch: expected '', ShowType expected, Txt '', found '', ShowType actual] sp a)"

definition type_arity_error :: "string \<Rightarrow> nat \<Rightarrow> nat \<Rightarrow> Span \<Rightarrow> Analyzer \<Rightarrow> Analyzer" where
  "type_arity_error name expected actual =
     push_error ''SYL2004''
       [Txt (''type '' @ in_quotes name @ '' expects ''), Num expected, Txt '' argument(s), found '', Num actual]"

definition unknown_type :: "string \<Rightarrow> Span \<Rightarrow> Analyzer \<Rightarrow> Analyzer" where
  "unknown_type name = push_error ''SYL2002'' [Txt (''unknown type '' @ in_quotes name)]"

definition named_type_of :: "string \<Rightarrow> TypeSymbolKind \<Rightarrow> ResolvedType" where
  "named_type_of name kind =
     (case kind of
        TsPrimitive \<Rightarrow> (case primitive_type name of None \<Rightarrow> RtError | Some p \<Rightarrow> RtPrimitive p)
      | TsStruct \<Rightarrow> RtStruct name
      | TsEnum \<Rightarrow> RtEnum name
      | TsState \<Rightarrow> RtState name
      | TsGeneric arity \<Rightarrow> RtError)"

text \<open>A path of one segment that is neither \<open>Option\<close> nor \<open>Result\<close>.\<close>

definition resolve_name :: "string \<Rightarrow> nat \<Rightarrow> Span \<Rightarrow> Analyzer \<Rightarrow> ResolvedType \<times> Analyzer" where
  "resolve_name name arguments sp a =
     (if name = ''Unit'' \<and> arguments = 0 then (RtUnit, a)
      else
        (case map_of (symbol_types (an_symbols a)) name of
           None \<Rightarrow> (RtError, unknown_type name sp a)
         | Some symbol \<Rightarrow>
             if arguments \<noteq> 0 then (RtError, type_arity_error name 0 arguments sp a)
             else (named_type_of name (tsym_kind symbol), a)))"

text \<open>The walks over the syntax recurse on it alone: their termination proofs need no context of the
  calls.\<close>

declare let_cong [fundef_cong del] prod.case_cong [fundef_cong del] split_cong [fundef_cong del]
  if_cong [fundef_cong del]

fun resolve_type :: "TypeNode \<Rightarrow> Analyzer \<Rightarrow> ResolvedType \<times> Analyzer"
  and resolve_types :: "TypeNode list \<Rightarrow> Analyzer \<Rightarrow> ResolvedType list \<times> Analyzer" where
  "resolve_type (TypeNode (TkReference lifetime is_mut inner) sp) =
     (\<lambda>a. let (t, a1) = resolve_type inner a in (RtReference lifetime is_mut t, a1))"
| "resolve_type (TypeNode (TkArray inner) sp) =
     (\<lambda>a. let (t, a1) = resolve_type inner a in (RtArray t, a1))"
| "resolve_type (TypeNode (TkTuple items) sp) =
     (\<lambda>a. if items = [] then (RtUnit, a)
          else let (ts, a1) = resolve_types items a in (RtTuple ts, a1))"
| "resolve_type (TypeNode (TkPath segments arguments) sp) =
     (\<lambda>a.
        if length segments \<noteq> 1 then (RtError, unknown_type (join ''::'' segments) sp a)
        else if hd segments = ''Option'' then
          (case arguments of
             [t] \<Rightarrow> let (item, a1) = resolve_type t a in (RtOption item, a1)
           | _ \<Rightarrow> (RtError, type_arity_error (hd segments) 1 (length arguments) sp a))
        else if hd segments = ''Result'' then
          (case arguments of
             [t, u] \<Rightarrow>
               let (ok, a1) = resolve_type t a; (err, a2) = resolve_type u a1 in (RtResult ok err, a2)
           | _ \<Rightarrow> (RtError, type_arity_error (hd segments) 2 (length arguments) sp a))
        else resolve_name (hd segments) (length arguments) sp a)"
| "resolve_types [] = (\<lambda>a. ([], a))"
| "resolve_types (t # ts) =
     (\<lambda>a. let (r, a1) = resolve_type t a; (rs, a2) = resolve_types ts a1 in (r # rs, a2))"

lemmas resolve_eval [code] = resolve_type.simps [THEN fun_cong] resolve_types.simps [THEN fun_cong]

definition resolve_optional :: "TypeNode option \<Rightarrow> Analyzer \<Rightarrow> ResolvedType option \<times> Analyzer" where
  "resolve_optional ty a =
     (case ty of
        None \<Rightarrow> (None, a)
      | Some t \<Rightarrow> let (r, a1) = resolve_type t a in (Some r, a1))"

text \<open>A missing return type is the unit type.\<close>

definition resolve_result :: "TypeNode option \<Rightarrow> Analyzer \<Rightarrow> ResolvedType \<times> Analyzer" where
  "resolve_result ty a =
     (let (r, a1) = resolve_optional ty a in (case r of None \<Rightarrow> RtUnit | Some t \<Rightarrow> t, a1))"

section \<open>Declarations\<close>

definition insert_type :: "string \<Rightarrow> TypeSymbolKind \<Rightarrow> Span \<Rightarrow> Analyzer \<Rightarrow> Analyzer" where
  "insert_type name kind sp a =
     (if contains_type (an_symbols a) name
      then push_error ''SYL2001'' [Txt (''duplicate type symbol '' @ in_quotes name)] sp a
      else a\<lparr>an_symbols := (an_symbols a)\<lparr>symbol_types :=
             btree_insert name \<lparr>tsym_name = name, tsym_kind = kind, tsym_span = sp\<rparr> (symbol_types (an_symbols a))\<rparr>\<rparr>)"

definition insert_value :: "string \<Rightarrow> ValueSymbolKind \<Rightarrow> Span \<Rightarrow> Analyzer \<Rightarrow> Analyzer" where
  "insert_value name kind sp a =
     (if contains_value (an_symbols a) name
      then push_error ''SYL2001'' [Txt (''duplicate value symbol '' @ in_quotes name)] sp a
      else a\<lparr>an_symbols := (an_symbols a)\<lparr>symbol_values :=
             btree_insert name \<lparr>vsym_name = name, vsym_kind = kind, vsym_span = sp\<rparr> (symbol_values (an_symbols a))\<rparr>\<rparr>)"

definition new_analyzer :: "string \<Rightarrow> Analyzer" where
  "new_analyzer file =
     \<lparr>an_file = file,
      an_symbols =
        \<lparr>symbol_types =
           fold (\<lambda>(name, kind). btree_insert name \<lparr>tsym_name = name, tsym_kind = kind, tsym_span = default_span\<rparr>)
             (map (\<lambda>name. (name, TsPrimitive)) primitive_names @ [(''Option'', TsGeneric 1), (''Result'', TsGeneric 2)]) [],
         symbol_values = []\<rparr>,
      an_diagnostics = [], an_types = [], an_structs = Map.empty, an_enums = Map.empty,
      an_functions = Map.empty, an_agents = Map.empty, an_states = Map.empty, an_async = False\<rparr>"

fun collect_item :: "Item \<Rightarrow> Analyzer \<Rightarrow> Analyzer" where
  "collect_item (ItStruct node) = insert_type (struct_name node) TsStruct (struct_span node)"
| "collect_item (ItEnum node) = insert_type (enum_name node) TsEnum (enum_span node)"
| "collect_item (ItState node) = insert_type (state_name node) TsState (state_span node)"
| "collect_item (ItFunction node) = insert_value (function_name node) VsFunction (function_span node)"
| "collect_item (ItAgent node) = insert_value (agent_name node) VsAgent (agent_span node)"
| "collect_item (ItPipeline node) = insert_value (pnode_name node) VsPipeline (pnode_span node)"
| "collect_item (ItSafetyBound node) = insert_value (bound_name node) VsSafetyBound (bound_span node)"

definition collect_declarations :: "Item list \<Rightarrow> Analyzer \<Rightarrow> Analyzer" where
  "collect_declarations items a = fold collect_item items a"

text \<open>\<open>property\<close> of this file takes the first field of that name.\<close>

definition property :: "Property list \<Rightarrow> string \<Rightarrow> Property option" where
  "property props name = List.find (\<lambda>field. property_name field = name) props"

definition property_identifier :: "Property \<Rightarrow> string option" where
  "property_identifier p =
     (case ekind (property_value p) of
        EkLiteral (LIdentifier name) \<Rightarrow> Some name
      | EkPath path \<Rightarrow> if path = [] then None else Some (last path)
      | _ \<Rightarrow> None)"

text \<open>The fields of a structure with their types, the variants of an enumeration, a signature and
  an agent's contract, each resolved in source order.\<close>

definition resolve_fields :: "StructField list \<Rightarrow> Analyzer \<Rightarrow> StructDefinition \<times> Analyzer" where
  "resolve_fields flds a =
     (let (ts, a1) = resolve_types (map field_type flds) a in
      (\<lparr>sd_fields = fold (\<lambda>(name, t). btree_insert name t) (zip (map field_name flds) ts) []\<rparr>, a1))"

fun resolve_variants :: "EnumVariant list \<Rightarrow> Analyzer \<Rightarrow> (string \<times> ResolvedType list) list \<times> Analyzer" where
  "resolve_variants [] a = ([], a)"
| "resolve_variants (v # vs) a =
     (let (ts, a1) = resolve_types (ev_fields v) a; (rs, a2) = resolve_variants vs a1 in
      ((ev_name v, ts) # rs, a2))"

definition resolve_signature ::
  "Parameter list \<Rightarrow> TypeNode option \<Rightarrow> Analyzer \<Rightarrow> FunctionSignature \<times> Analyzer" where
  "resolve_signature params ret a =
     (let (ts, a1) = resolve_types (map parameter_type params) a; (r, a2) = resolve_result ret a1 in
      (\<lparr>sig_parameters = ts, sig_result = r\<rparr>, a2))"

definition resolve_contract :: "Property list \<Rightarrow> Analyzer \<Rightarrow> AgentContract \<times> Analyzer" where
  "resolve_contract props a =
     (let (input, a1) = resolve_optional (Option.bind (property props ''input'') property_type) a;
          (output, a2) = resolve_optional (Option.bind (property props ''output'') property_type) a1
      in (\<lparr>contract_input = input, contract_output = output\<rparr>, a2))"

definition resolve_property_types :: "Property list \<Rightarrow> Analyzer \<Rightarrow> Analyzer" where
  "resolve_property_types props a = snd (resolve_types (List.map_filter property_type props) a)"

fun install_import :: "string \<Rightarrow> Item \<Rightarrow> Analyzer \<Rightarrow> Analyzer" where
  "install_import alias (ItStruct node) a =
     (let (d, a1) = resolve_fields (struct_fields node) (insert_type alias TsStruct (struct_span node) a)
      in a1\<lparr>an_structs := (an_structs a1)(alias \<mapsto> d)\<rparr>)"
| "install_import alias (ItEnum node) a =
     (let (vs, a1) = resolve_variants (enum_variants node) (insert_type alias TsEnum (enum_span node) a)
      in a1\<lparr>an_enums := (an_enums a1)(alias \<mapsto> \<lparr>ed_variants = vs\<rparr>)\<rparr>)"
| "install_import alias (ItFunction node) a =
     (let (s, a1) = resolve_signature (function_parameters node) (function_return node)
            (insert_value alias VsFunction (function_span node) a)
      in a1\<lparr>an_functions := (an_functions a1)(alias \<mapsto> s)\<rparr>)"
| "install_import alias (ItState node) a =
     (let (ts, a1) = resolve_types (map slot_type (state_fields node)) (insert_type alias TsState (state_span node) a)
      in a1\<lparr>an_states := (an_states a1)(alias \<mapsto> ts)\<rparr>)"
| "install_import alias (ItAgent node) a =
     (let (c, a1) = resolve_contract (agent_fields node) (insert_value alias VsAgent (agent_span node) a)
      in a1\<lparr>an_agents := (an_agents a1)(alias \<mapsto> c)\<rparr>)"
| "install_import alias (ItPipeline node) a =
     (let (s, a1) = resolve_signature (pnode_parameters node) (pnode_return node)
            (insert_value alias VsPipeline (pnode_span node) a)
      in a1\<lparr>an_functions := (an_functions a1)(alias \<mapsto> s)\<rparr>)"
| "install_import alias (ItSafetyBound node) a = insert_value alias VsSafetyBound (bound_span node) a"

definition type_kind_of :: "Analyzer \<Rightarrow> string \<Rightarrow> TypeSymbolKind option" where
  "type_kind_of a name = map_option tsym_kind (map_of (symbol_types (an_symbols a)) name)"

definition value_kind_of :: "Analyzer \<Rightarrow> string \<Rightarrow> ValueSymbolKind option" where
  "value_kind_of a name = map_option vsym_kind (map_of (symbol_values (an_symbols a)) name)"

definition resolve_struct :: "StructNode \<Rightarrow> Analyzer \<Rightarrow> Analyzer" where
  "resolve_struct node a =
     (if type_kind_of a (struct_name node) \<noteq> Some TsStruct then a
      else let (d, a1) = resolve_fields (struct_fields node) a
           in a1\<lparr>an_structs := (an_structs a1)(struct_name node \<mapsto> d)\<rparr>)"

definition resolve_enum :: "EnumNode \<Rightarrow> Analyzer \<Rightarrow> Analyzer" where
  "resolve_enum node a =
     (if type_kind_of a (enum_name node) \<noteq> Some TsEnum then a
      else let (vs, a1) = resolve_variants (enum_variants node) a
           in a1\<lparr>an_enums := (an_enums a1)(enum_name node \<mapsto> \<lparr>ed_variants = vs\<rparr>)\<rparr>)"

text \<open>\<open>entry(name).or_insert(value)\<close>\<close>

definition insert_new :: "string \<Rightarrow> 'v \<Rightarrow> (string \<rightharpoonup> 'v) \<Rightarrow> (string \<rightharpoonup> 'v)" where
  "insert_new name v m = (if m name = None then m(name \<mapsto> v) else m)"

definition resolve_state_signature :: "StateNode \<Rightarrow> Analyzer \<Rightarrow> Analyzer" where
  "resolve_state_signature node a =
     (let (ts, a1) = resolve_types (map slot_type (state_fields node)) a
      in a1\<lparr>an_states := insert_new (state_name node) ts (an_states a1)\<rparr>)"

definition resolve_function_signature :: "FunctionNode \<Rightarrow> Analyzer \<Rightarrow> Analyzer" where
  "resolve_function_signature node a =
     (if value_kind_of a (function_name node) \<noteq> Some VsFunction \<or> an_functions a (function_name node) \<noteq> None
      then a
      else let (s, a1) = resolve_signature (function_parameters node) (function_return node) a
           in a1\<lparr>an_functions := (an_functions a1)(function_name node \<mapsto> s)\<rparr>)"

definition resolve_agent_contract :: "AgentNode \<Rightarrow> Analyzer \<Rightarrow> Analyzer" where
  "resolve_agent_contract node a =
     (if an_agents a (agent_name node) \<noteq> None then a
      else
        (let (c, a1) = resolve_contract (agent_fields node) a;
             a2 = resolve_property_types
                    (filter (\<lambda>field. property_name field \<notin> {''input'', ''output''}) (agent_fields node)) a1
         in a2\<lparr>an_agents := (an_agents a2)(agent_name node \<mapsto> c)\<rparr>))"

definition resolve_pipeline_signature :: "PipelineNode \<Rightarrow> Analyzer \<Rightarrow> Analyzer" where
  "resolve_pipeline_signature node a =
     (let (s, a1) = resolve_signature (pnode_parameters node) (pnode_return node) a
      in resolve_property_types (pnode_fields node)
           (a1\<lparr>an_functions := insert_new (pnode_name node) s (an_functions a1)\<rparr>))"

fun resolve_item :: "Item \<Rightarrow> Analyzer \<Rightarrow> Analyzer" where
  "resolve_item (ItStruct node) = resolve_struct node"
| "resolve_item (ItEnum node) = resolve_enum node"
| "resolve_item (ItState node) = resolve_state_signature node"
| "resolve_item (ItFunction node) = resolve_function_signature node"
| "resolve_item (ItAgent node) = resolve_agent_contract node"
| "resolve_item (ItPipeline node) = resolve_pipeline_signature node"
| "resolve_item (ItSafetyBound node) =
     (\<lambda>a. resolve_property_types (bound_fields node)
            (snd (resolve_types (map parameter_type (bound_parameters node)) a)))"

definition resolve_declarations :: "Item list \<Rightarrow> Analyzer \<Rightarrow> Analyzer" where
  "resolve_declarations items a = fold resolve_item items a"

end
