(* ===== verification/Inference.thy ===== *)
theory Inference
  imports Semantic
begin

text \<open>
  The expression checks of \<open>crates/syllog-semantic/src/lib.rs\<close>: inference of expression types,
  patterns, exhaustiveness and the bodies of functions, states and pipelines. The scope is passed by
  value: only \<open>let\<close> statements and patterns bind names, each in a scope of its own block or arm.
\<close>

type_synonym scope = "string \<rightharpoonup> ResolvedType"

section \<open>Names and constructors\<close>

definition split_constructor_path :: "string list \<Rightarrow> (string \<times> string) option" where
  "split_constructor_path segments =
     (if length segments = 2 then Some (segments ! 0, segments ! 1) else None)"

definition unknown_variant :: "string \<Rightarrow> string \<Rightarrow> Span \<Rightarrow> Analyzer \<Rightarrow> Analyzer" where
  "unknown_variant type_name variant =
     push_error ''SYL2003'' [Txt (''type '' @ in_quotes type_name @ '' has no variant '' @ in_quotes variant)]"

definition find_variant :: "Analyzer \<Rightarrow> string \<Rightarrow> string \<Rightarrow> ResolvedType list option" where
  "find_variant a enum variant =
     Option.bind (an_enums a enum) (\<lambda>d. map_option snd (List.find (\<lambda>(name, ts). name = variant) (ed_variants d)))"

definition infer_literal ::
  "Literal \<Rightarrow> Span \<Rightarrow> scope \<Rightarrow> ResolvedType option \<Rightarrow> Analyzer \<Rightarrow> ResolvedType \<times> Analyzer" where
  "infer_literal literal sp scope expected a =
     (case literal of
        LString s \<Rightarrow> (string_type, a)
      | LBoolean b \<Rightarrow> (bool_type, a)
      | LInteger n \<Rightarrow> (RtIntegerLiteral, a)
      | LFloat x \<Rightarrow> (RtFloatLiteral, a)
      | LIdentifier name \<Rightarrow>
          if name = ''none'' then
            (case expected of
               Some (RtOption t) \<Rightarrow> (RtOption t, a)
             | Some RtError \<Rightarrow> (RtError, a)
             | _ \<Rightarrow> (RtError, push_error ''SYL2003'' [Txt (in_quotes ''none'' @ '' requires an Option context'')] sp a))
          else
            (case scope name of
               Some t \<Rightarrow> (t, a)
             | None \<Rightarrow>
                 (case an_functions a name of
                    Some s \<Rightarrow> (RtFunction (sig_parameters s) (sig_result s), a)
                  | None \<Rightarrow> (RtError, push_error ''SYL2003'' [Txt (''unknown value '' @ in_quotes name)] sp a))))"

definition infer_path :: "string list \<Rightarrow> Span \<Rightarrow> Analyzer \<Rightarrow> ResolvedType \<times> Analyzer" where
  "infer_path segments sp a =
     (case Option.bind (split_constructor_path segments)
             (\<lambda>(enum, variant). map_option (\<lambda>flds. (enum, variant, flds)) (find_variant a enum variant)) of
        Some (enum, variant, flds) \<Rightarrow>
          if flds = [] then (RtEnum enum, a)
          else (RtError, push_error ''SYL2101''
                  [Txt (''variant '' @ in_quotes (enum @ ''::'' @ variant) @ '' requires ''), Num (length flds), Txt '' value(s)''] sp a)
      | None \<Rightarrow> (RtError, push_error ''SYL2003'' [Txt (''unknown value path '' @ in_quotes (join ''::'' segments))] sp a))"

definition option_item :: "ResolvedType \<Rightarrow> ResolvedType option" where
  "option_item t = (case t of RtOption item \<Rightarrow> Some item | _ \<Rightarrow> None)"

definition result_items :: "ResolvedType \<Rightarrow> (ResolvedType \<times> ResolvedType) option" where
  "result_items t = (case t of RtResult ok err \<Rightarrow> Some (ok, err) | _ \<Rightarrow> None)"

text \<open>The payload and the type a constructor path stands for; \<open>first\<close> infers the first argument of
  the call without an expected type.\<close>

definition option_signature ::
  "string \<Rightarrow> (Analyzer \<Rightarrow> ResolvedType \<times> Analyzer) \<Rightarrow> Span \<Rightarrow> ResolvedType option \<Rightarrow> Analyzer \<Rightarrow>
     (ResolvedType list \<times> ResolvedType) option \<times> Analyzer" where
  "option_signature variant first sp expected a =
     (let (item, a1) = (case Option.bind expected option_item of Some item \<Rightarrow> (item, a) | None \<Rightarrow> first a) in
      if variant = ''some'' then (Some ([item], RtOption item), a1)
      else if variant = ''none'' then (Some ([], RtOption item), a1)
      else (None, unknown_variant ''Option'' variant sp a1))"

definition result_signature ::
  "string \<Rightarrow> (Analyzer \<Rightarrow> ResolvedType \<times> Analyzer) \<Rightarrow> Span \<Rightarrow> ResolvedType option \<Rightarrow> Analyzer \<Rightarrow>
     (ResolvedType list \<times> ResolvedType) option \<times> Analyzer" where
  "result_signature variant first sp expected a =
     (let (types, a1) =
        (case Option.bind expected result_items of
           Some (ok, err) \<Rightarrow> (Some (ok, err), a)
         | None \<Rightarrow>
             if variant = ''ok'' then (let (t, a1) = first a in (Some (t, RtUnknown), a1))
             else if variant = ''err'' then (let (t, a1) = first a in (Some (RtUnknown, t), a1))
             else (None, a))
      in
      (case types of
         None \<Rightarrow> (None, unknown_variant ''Result'' variant sp a1)
       | Some (ok, err) \<Rightarrow>
           if variant = ''ok'' then (Some ([ok], RtResult ok err), a1)
           else if variant = ''err'' then (Some ([err], RtResult ok err), a1)
           else (None, unknown_variant ''Result'' variant sp a1)))"

definition constructor_signature ::
  "string \<Rightarrow> string \<Rightarrow> (Analyzer \<Rightarrow> ResolvedType \<times> Analyzer) \<Rightarrow> Span \<Rightarrow> ResolvedType option \<Rightarrow> Analyzer \<Rightarrow>
     (ResolvedType list \<times> ResolvedType) option \<times> Analyzer" where
  "constructor_signature type_name variant first sp expected a =
     (if type_name = ''Option'' then option_signature variant first sp expected a
      else if type_name = ''Result'' then result_signature variant first sp expected a
      else if an_enums a type_name \<noteq> None then
        (case find_variant a type_name variant of
           None \<Rightarrow> (None, unknown_variant type_name variant sp a)
         | Some flds \<Rightarrow> (Some (flds, RtEnum type_name), a))
      else (None, push_error ''SYL2003'' [Txt (''unknown constructor '' @ in_quotes (type_name @ ''::'' @ variant))] sp a))"

text \<open>\<open>each\<close> checks the arguments of the call against the payload.\<close>

definition infer_constructor_call ::
  "string list \<Rightarrow> nat \<Rightarrow> (Analyzer \<Rightarrow> ResolvedType \<times> Analyzer) \<Rightarrow>
     (ResolvedType list \<Rightarrow> string \<Rightarrow> Analyzer \<Rightarrow> Analyzer) \<Rightarrow> Span \<Rightarrow> ResolvedType option \<Rightarrow> Analyzer \<Rightarrow>
     ResolvedType \<times> Analyzer" where
  "infer_constructor_call segments arguments first each sp expected a =
     (case split_constructor_path segments of
        None \<Rightarrow> (RtError, push_error ''SYL2003'' [Txt ''unknown constructor''] sp a)
      | Some (type_name, variant) \<Rightarrow>
          (let (signature, a1) = constructor_signature type_name variant first sp expected a in
           case signature of
             None \<Rightarrow> (RtError, a1)
           | Some (flds, result) \<Rightarrow>
               (let a2 = (if length flds \<noteq> arguments
                          then push_error ''SYL2101''
                            [Txt ''constructor expects '', Num (length flds), Txt '' value(s), found '', Num arguments] sp a1
                          else a1)
                in (result, each flds ''constructor argument'' a2))))"

section \<open>Patterns\<close>

definition literal_pattern_type :: "Literal \<Rightarrow> ResolvedType" where
  "literal_pattern_type literal =
     (case literal of
        LBoolean _ \<Rightarrow> bool_type
      | LString _ \<Rightarrow> string_type
      | LInteger _ \<Rightarrow> RtIntegerLiteral
      | LFloat _ \<Rightarrow> RtFloatLiteral
      | LIdentifier _ \<Rightarrow> RtUnknown)"

definition variant_payload :: "Analyzer \<Rightarrow> ResolvedType \<Rightarrow> string \<Rightarrow> string \<Rightarrow> ResolvedType list option" where
  "variant_payload a expected type_name variant =
     (case expected of
        RtEnum enum \<Rightarrow> if enum = type_name then find_variant a enum variant else None
      | RtOption inner \<Rightarrow>
          if type_name = ''Option''
          then (if variant = ''some'' then Some [inner] else if variant = ''none'' then Some [] else None)
          else None
      | RtResult ok err \<Rightarrow>
          if type_name = ''Result''
          then (if variant = ''ok'' then Some [ok] else if variant = ''err'' then Some [err] else None)
          else None
      | _ \<Rightarrow> None)"

text \<open>What \<open>check_variant_pattern\<close> does before it visits the fields: their types, or none when the
  fields are not visited.\<close>

definition variant_fields_types ::
  "string list \<Rightarrow> nat \<Rightarrow> ResolvedType \<Rightarrow> Span \<Rightarrow> Analyzer \<Rightarrow> ResolvedType list \<times> Analyzer" where
  "variant_fields_types path count expected sp a =
     (case split_constructor_path path of
        None \<Rightarrow> ([], push_error ''SYL2003'' [Txt ''malformed variant pattern''] sp a)
      | Some (type_name, variant) \<Rightarrow>
          if expected = RtError then ([], a)
          else
            (case variant_payload a expected type_name variant of
               None \<Rightarrow> ([], unknown_variant type_name variant sp a)
             | Some payload \<Rightarrow>
                 (payload,
                  if length payload \<noteq> count
                  then push_error ''SYL2101''
                    [Txt ''pattern expects '', Num (length payload), Txt '' field(s), found '', Num count] sp a
                  else a)))"

fun check_pattern :: "Pattern \<Rightarrow> ResolvedType \<Rightarrow> scope \<Rightarrow> Analyzer \<Rightarrow> scope \<times> Analyzer"
  and check_patterns :: "Pattern list \<Rightarrow> ResolvedType list \<Rightarrow> scope \<Rightarrow> Analyzer \<Rightarrow> scope \<times> Analyzer" where
  "check_pattern (Pattern PkWildcard sp) = (\<lambda>expected scope a. (scope, a))"
| "check_pattern (Pattern (PkLiteral literal) sp) =
     (\<lambda>expected scope a. (scope, require_compatible expected (literal_pattern_type literal) sp ''pattern'' a))"
| "check_pattern (Pattern (PkPath segments) sp) =
     (\<lambda>expected scope a.
        if length segments = 1 then (scope(hd segments \<mapsto> expected), a)
        else (scope, snd (variant_fields_types segments 0 expected sp a)))"
| "check_pattern (Pattern (PkConstructor path pats) sp) =
     (\<lambda>expected scope a.
        let (types, a1) = variant_fields_types path (length pats) expected sp a
        in check_patterns pats types scope a1)"
| "check_patterns [] = (\<lambda>types scope a. (scope, a))"
| "check_patterns (p # ps) =
     (\<lambda>types scope a.
        case types of
          [] \<Rightarrow> (scope, a)
        | t # ts \<Rightarrow> (let (scope1, a1) = check_pattern p t scope a in check_patterns ps ts scope1 a1))"

lemmas check_pattern_eval [code] =
  check_pattern.simps [THEN fun_cong, THEN fun_cong, THEN fun_cong]
  check_patterns.simps [THEN fun_cong, THEN fun_cong, THEN fun_cong]

definition catches_all :: "Pattern \<Rightarrow> bool" where
  "catches_all p = (case pattern_kind p of PkWildcard \<Rightarrow> True | PkPath path \<Rightarrow> length path = 1 | _ \<Rightarrow> False)"

definition required_variants :: "Analyzer \<Rightarrow> ResolvedType \<Rightarrow> string list option" where
  "required_variants a value_type =
     (case value_type of
        RtEnum name \<Rightarrow> Some (case an_enums a name of None \<Rightarrow> [] | Some d \<Rightarrow> map fst (ed_variants d))
      | RtOption _ \<Rightarrow> Some [''some'', ''none'']
      | RtResult _ _ \<Rightarrow> Some [''ok'', ''err'']
      | RtPrimitive PrimBool \<Rightarrow> Some [''true'', ''false'']
      | _ \<Rightarrow> None)"

definition covered_variant :: "Pattern \<Rightarrow> string option" where
  "covered_variant p =
     (case pattern_kind p of
        PkConstructor path _ \<Rightarrow> if path = [] then None else Some (last path)
      | PkPath path \<Rightarrow> if path = [] then None else Some (last path)
      | PkLiteral (LBoolean b) \<Rightarrow> Some (if b then ''true'' else ''false'')
      | _ \<Rightarrow> None)"

definition check_exhaustive :: "Span \<Rightarrow> ResolvedType \<Rightarrow> MatchArm list \<Rightarrow> Analyzer \<Rightarrow> Analyzer" where
  "check_exhaustive sp value_type arms a =
     (if list_ex (\<lambda>arm. arm_guard arm = None \<and> catches_all (arm_pattern arm)) arms then a
      else
        (case required_variants a value_type of
           None \<Rightarrow> a
         | Some needed \<Rightarrow>
             (let covered = List.map_filter (\<lambda>arm. covered_variant (arm_pattern arm))
                              (filter (\<lambda>arm. arm_guard arm = None) arms);
                  missing = filter (\<lambda>variant. variant \<notin> set covered) needed
              in if missing = [] then a
                 else push_error ''SYL2301'' [Txt (''non-exhaustive match; missing '' @ join '', '' missing)] sp a)))"

section \<open>Expressions\<close>

definition named_place :: "Expr \<Rightarrow> bool" where
  "named_place e =
     (case ekind e of
        EkPath _ \<Rightarrow> True
      | EkField _ _ \<Rightarrow> True
      | EkLiteral (LIdentifier _) \<Rightarrow> True
      | _ \<Rightarrow> False)"

definition record_type :: "Span \<Rightarrow> ResolvedType \<times> Analyzer \<Rightarrow> ResolvedType \<times> Analyzer" where
  "record_type sp = (\<lambda>(t, a). (t, a\<lparr>an_types := btree_insert sp t (an_types a)\<rparr>))"

definition infer_field :: "ResolvedType \<Rightarrow> string \<Rightarrow> Span \<Rightarrow> Analyzer \<Rightarrow> ResolvedType \<times> Analyzer" where
  "infer_field base_type name sp a =
     (case base_type of
        RtStruct struct \<Rightarrow>
          (case Option.bind (an_structs a struct) (\<lambda>d. map_of (sd_fields d) name) of
             Some t \<Rightarrow> (t, a)
           | None \<Rightarrow>
               (RtError, push_error ''SYL2003'' [Txt (''type '' @ in_quotes struct @ '' has no field '' @ in_quotes name)] sp a))
      | _ \<Rightarrow> (RtError, a))"

definition infer_unary :: "UnaryOperator \<Rightarrow> ResolvedType \<Rightarrow> Span \<Rightarrow> Analyzer \<Rightarrow> ResolvedType \<times> Analyzer" where
  "infer_unary op t sp a =
     (case op of
        UnNot \<Rightarrow> (bool_type, require_compatible bool_type t sp (in_quotes ''!'' @ '' operand'') a)
      | UnNegate \<Rightarrow> (t, a))"

definition infer_operator ::
  "BinaryOperator \<Rightarrow> ResolvedType \<Rightarrow> ResolvedType \<Rightarrow> Span \<Rightarrow> Span \<Rightarrow> Analyzer \<Rightarrow> ResolvedType \<times> Analyzer" where
  "infer_operator op left right left_span right_span a =
     (if op \<in> {BoEqual, BoNotEqual, BoLess, BoLessEqual, BoGreater, BoGreaterEqual}
      then (bool_type, require_compatible left right right_span ''comparison'' a)
      else if op \<in> {BoAnd, BoOr}
      then (bool_type, require_compatible bool_type right right_span ''Boolean operator''
                         (require_compatible bool_type left left_span ''Boolean operator'' a))
      else (left, require_compatible left right right_span ''binary operator'' a))"

text \<open>The type of an array or match so far: the first item or arm gives it when none is expected.\<close>

definition unify_type ::
  "ResolvedType \<Rightarrow> ResolvedType \<Rightarrow> Span \<Rightarrow> string \<Rightarrow> Analyzer \<Rightarrow> ResolvedType \<times> Analyzer" where
  "unify_type result actual sp context a =
     (if result = RtUnknown then (actual, a) else (result, require_compatible result actual sp context a))"

definition array_item :: "ResolvedType \<Rightarrow> ResolvedType option" where
  "array_item t = (case t of RtArray item \<Rightarrow> Some item | _ \<Rightarrow> None)"

definition function_type :: "ResolvedType \<Rightarrow> (ResolvedType list \<times> ResolvedType) option" where
  "function_type t = (case t of RtFunction params result \<Rightarrow> Some (params, result) | _ \<Rightarrow> None)"

definition callee_path :: "Expr \<Rightarrow> string list option" where
  "callee_path callee = (case ekind callee of EkPath segments \<Rightarrow> Some segments | _ \<Rightarrow> None)"

definition check_call_arity :: "nat \<Rightarrow> nat \<Rightarrow> Span \<Rightarrow> Analyzer \<Rightarrow> Analyzer" where
  "check_call_arity params arguments sp a =
     (if params \<noteq> arguments
      then push_error ''SYL2101''
        [Txt ''function expects '', Num params, Txt '' argument(s), found '', Num arguments] sp a
      else a)"

definition not_callable :: "ResolvedType \<Rightarrow> Span \<Rightarrow> Analyzer \<Rightarrow> Analyzer" where
  "not_callable t sp a =
     (if t = RtError then a else push_error ''SYL2101'' [Txt ''called expression is not a function''] sp a)"

definition check_await :: "Span \<Rightarrow> Analyzer \<Rightarrow> Analyzer" where
  "check_await sp a =
     (if an_async a then a
      else push_error ''SYL2501'' [Txt (in_quotes ''await'' @ '' is only valid inside an async function'')] sp a)"

definition check_place :: "Expr \<Rightarrow> Analyzer \<Rightarrow> Analyzer" where
  "check_place e a =
     (if named_place e then a else push_error ''SYL2601'' [Txt ''borrow operand must be a named place''] (espan e) a)"

fun infer_expr :: "Expr \<Rightarrow> scope \<Rightarrow> ResolvedType option \<Rightarrow> Analyzer \<Rightarrow> ResolvedType \<times> Analyzer"
  and infer_expr_kind :: "ExprKind \<Rightarrow> Span \<Rightarrow> scope \<Rightarrow> ResolvedType option \<Rightarrow> Analyzer \<Rightarrow> ResolvedType \<times> Analyzer"
  and infer_items :: "Expr list \<Rightarrow> scope \<Rightarrow> ResolvedType option \<Rightarrow> ResolvedType \<Rightarrow> Analyzer \<Rightarrow> ResolvedType \<times> Analyzer"
  and infer_first :: "CallArgument list \<Rightarrow> scope \<Rightarrow> Analyzer \<Rightarrow> ResolvedType \<times> Analyzer"
  and infer_each :: "CallArgument list \<Rightarrow> scope \<Rightarrow> ResolvedType list \<Rightarrow> string \<Rightarrow> Analyzer \<Rightarrow> Analyzer"
  and infer_untyped :: "CallArgument list \<Rightarrow> scope \<Rightarrow> Analyzer \<Rightarrow> Analyzer"
  and infer_arms :: "MatchArm list \<Rightarrow> ResolvedType \<Rightarrow> scope \<Rightarrow> ResolvedType option \<Rightarrow> ResolvedType \<Rightarrow> Analyzer \<Rightarrow> ResolvedType \<times> Analyzer"
  and infer_statements :: "StatementNode list \<Rightarrow> scope \<Rightarrow> ResolvedType \<Rightarrow> ResolvedType \<Rightarrow> Analyzer \<Rightarrow> ResolvedType \<times> Analyzer"
  and check_body :: "Block \<Rightarrow> scope \<Rightarrow> ResolvedType \<Rightarrow> Analyzer \<Rightarrow> ResolvedType \<times> Analyzer" where
  "infer_expr (Expr kind sp) =
     (\<lambda>scope expected a. record_type sp (infer_expr_kind kind sp scope expected a))"
| "infer_expr_kind (EkBorrow is_mut x) =
     (\<lambda>sp scope expected a.
        let (t, a1) = infer_expr x scope None (check_place x a) in (RtReference None is_mut t, a1))"
| "infer_expr_kind (EkAwait x) =
     (\<lambda>sp scope expected a. infer_expr x scope expected (check_await sp a))"
| "infer_expr_kind (EkLiteral literal) =
     (\<lambda>sp scope expected a. infer_literal literal sp scope expected a)"
| "infer_expr_kind (EkPath segments) = (\<lambda>sp scope expected a. infer_path segments sp a)"
| "infer_expr_kind (EkArray items) =
     (\<lambda>sp scope expected a.
        let expected_item = Option.bind expected array_item;
            (t, a1) = infer_items items scope expected_item
                        (case expected_item of None \<Rightarrow> RtUnknown | Some item \<Rightarrow> item) a
        in (RtArray t, a1))"
| "infer_expr_kind (EkCall callee arguments) =
     (\<lambda>sp scope expected a.
        case callee_path callee of
          Some segments \<Rightarrow>
            infer_constructor_call segments (length arguments) (infer_first arguments scope)
              (infer_each arguments scope) sp expected a
        | None \<Rightarrow>
            (let (callee_type, a1) = infer_expr callee scope None a in
             case function_type callee_type of
               Some (params, result) \<Rightarrow>
                 (result, infer_each arguments scope params ''call argument''
                            (check_call_arity (length params) (length arguments) sp a1))
             | None \<Rightarrow> (RtError, infer_untyped arguments scope (not_callable callee_type (espan callee) a1))))"
| "infer_expr_kind (EkField base name) =
     (\<lambda>sp scope expected a. let (t, a1) = infer_expr base scope None a in infer_field t name sp a1)"
| "infer_expr_kind (EkUnary op x) =
     (\<lambda>sp scope expected a. let (t, a1) = infer_expr x scope None a in infer_unary op t (espan x) a1)"
| "infer_expr_kind (EkBinary op left right) =
     (\<lambda>sp scope expected a.
        let (lt, a1) = infer_expr left scope None a;
            (rt, a2) = infer_expr right scope (Some lt) a1
        in infer_operator op lt rt (espan left) (espan right) a2)"
| "infer_expr_kind (EkMatch v arms) =
     (\<lambda>sp scope expected a.
        let (value_type, a1) = infer_expr v scope None a;
            (t, a2) = infer_arms arms value_type scope expected
                        (case expected of None \<Rightarrow> RtUnknown | Some t \<Rightarrow> t) a1
        in (t, check_exhaustive sp value_type arms a2))"
| "infer_expr_kind (EkBlock block) =
     (\<lambda>sp scope expected a. check_body block scope (case expected of None \<Rightarrow> RtUnknown | Some t \<Rightarrow> t) a)"
| "infer_items [] = (\<lambda>scope expected_item item_type a. (item_type, a))"
| "infer_items (x # xs) =
     (\<lambda>scope expected_item item_type a.
        let (actual, a1) = infer_expr x scope expected_item a;
            (t, a2) = unify_type item_type actual (espan x) ''array element'' a1
        in infer_items xs scope expected_item t a2)"
| "infer_first [] = (\<lambda>scope a. (RtUnknown, a))"
| "infer_first (CallArgument name x sp # xs) = (\<lambda>scope a. infer_expr x scope None a)"
| "infer_each [] = (\<lambda>scope types context a. a)"
| "infer_each (CallArgument name x sp # xs) =
     (\<lambda>scope types context a.
        case types of
          [] \<Rightarrow> a
        | t # ts \<Rightarrow>
            (let (actual, a1) = infer_expr x scope (Some t) a
             in infer_each xs scope ts context (require_compatible t actual sp context a1)))"
| "infer_untyped [] = (\<lambda>scope a. a)"
| "infer_untyped (CallArgument name x sp # xs) =
     (\<lambda>scope a. infer_untyped xs scope (snd (infer_expr x scope None a)))"
| "infer_arms [] = (\<lambda>value_type scope expected result a. (result, a))"
| "infer_arms (MatchArm pat guard body sp # arms) =
     (\<lambda>value_type scope expected result a.
        let (arm_scope, a1) = check_pattern pat value_type scope a;
            a2 = (case guard of
                    None \<Rightarrow> a1
                  | Some g \<Rightarrow>
                      (let (gt, a2) = infer_expr g arm_scope (Some bool_type) a1
                       in require_compatible bool_type gt (espan g) ''match guard'' a2));
            (arm_type, a3) = infer_expr body arm_scope expected a2;
            (t, a4) = unify_type result arm_type (espan body) ''match arm'' a3
        in infer_arms arms value_type scope expected t a4)"
| "infer_statements [] = (\<lambda>scope expected result a. (result, a))"
| "infer_statements (StatementNode (SkLet name ty v) sp # ss) =
     (\<lambda>scope expected result a.
        let (declared, a1) = resolve_optional ty a;
            (actual, a2) = infer_expr v scope declared a1
        in infer_statements ss (scope(name \<mapsto> case declared of None \<Rightarrow> actual | Some t \<Rightarrow> t)) expected result a2)"
| "infer_statements (StatementNode (SkReturn v) sp # ss) =
     (\<lambda>scope expected result a.
        let (actual, a1) = (case v of None \<Rightarrow> (RtUnit, a) | Some e \<Rightarrow> infer_expr e scope (Some expected) a)
        in infer_statements ss scope expected result (require_compatible expected actual sp ''return value'' a1))"
| "infer_statements (StatementNode (SkExpression e) sp # ss) =
     (\<lambda>scope expected result a.
        let (t, a1) = infer_expr e scope (if ss = [] then Some expected else None) a;
            a2 = (if ss = [] then require_compatible expected t (espan e) ''function result'' a1 else a1)
        in infer_statements ss scope expected t a2)"
| "check_body (Block stmts bsp) =
     (\<lambda>scope expected a.
        let (t, a1) = infer_statements stmts scope expected RtUnit a
        in (t, if stmts = [] then require_compatible expected RtUnit bsp ''function result'' a1 else a1))"

text \<open>Evaluation applies an equation only to all arguments.\<close>

lemmas infer_eval [code] =
  infer_expr.simps [THEN fun_cong, THEN fun_cong, THEN fun_cong]
  infer_expr_kind.simps [THEN fun_cong, THEN fun_cong, THEN fun_cong, THEN fun_cong]
  infer_items.simps [THEN fun_cong, THEN fun_cong, THEN fun_cong, THEN fun_cong]
  infer_first.simps [THEN fun_cong, THEN fun_cong]
  infer_each.simps [THEN fun_cong, THEN fun_cong, THEN fun_cong, THEN fun_cong]
  infer_untyped.simps [THEN fun_cong, THEN fun_cong]
  infer_arms.simps [THEN fun_cong, THEN fun_cong, THEN fun_cong, THEN fun_cong, THEN fun_cong]
  infer_statements.simps [THEN fun_cong, THEN fun_cong, THEN fun_cong, THEN fun_cong]
  check_body.simps [THEN fun_cong, THEN fun_cong, THEN fun_cong]

section \<open>Bodies\<close>

definition parameter_scope :: "Parameter list \<Rightarrow> ResolvedType list \<Rightarrow> scope" where
  "parameter_scope params types =
     fold (\<lambda>(p, t) scope. scope(parameter_name p \<mapsto> t)) (zip params types) Map.empty"

definition check_function :: "FunctionNode \<Rightarrow> Analyzer \<Rightarrow> Analyzer" where
  "check_function node a =
     (case an_functions a (function_name node) of
        None \<Rightarrow> a
      | Some s \<Rightarrow>
          (snd (check_body (function_block node) (parameter_scope (function_parameters node) (sig_parameters s))
             (sig_result s) (a\<lparr>an_async := function_async node\<rparr>)))\<lparr>an_async := an_async a\<rparr>)"

definition check_state_field :: "StateField \<times> ResolvedType \<Rightarrow> Analyzer \<Rightarrow> Analyzer" where
  "check_state_field = (\<lambda>(field, expected) a.
     (case slot_initializer field of
        None \<Rightarrow> a
      | Some e \<Rightarrow>
          (let (actual, a1) = infer_expr e Map.empty (Some expected) a
           in require_compatible expected actual (espan e) ''state initializer'' a1)))"

definition check_state :: "StateNode \<Rightarrow> Analyzer \<Rightarrow> Analyzer" where
  "check_state node a =
     fold check_state_field
       (zip (state_fields node) (case an_states a (state_name node) of None \<Rightarrow> [] | Some ts \<Rightarrow> ts)) a"

definition check_agent_input :: "string \<Rightarrow> AgentContract \<Rightarrow> FunctionSignature \<Rightarrow> PipelineNode \<Rightarrow> Analyzer \<Rightarrow> Analyzer" where
  "check_agent_input agent contract s node a =
     (case contract_input contract of
        None \<Rightarrow> a
      | Some agent_input \<Rightarrow>
          if sig_parameters s \<noteq> [] \<and> compatible agent_input (hd (sig_parameters s)) then a
          else push_error ''SYL2201''
            [Txt (''pipeline input is incompatible with agent '' @ in_quotes agent @ '': expected ''), ShowType agent_input,
             Txt '', found '', ShowType (case sig_parameters s of [] \<Rightarrow> RtUnit | t # _ \<Rightarrow> t)]
            (case pnode_parameters node of [] \<Rightarrow> pnode_span node | p # _ \<Rightarrow> parameter_span p) a)"

definition check_agent_output :: "string \<Rightarrow> AgentContract \<Rightarrow> FunctionSignature \<Rightarrow> PipelineNode \<Rightarrow> Analyzer \<Rightarrow> Analyzer" where
  "check_agent_output agent contract s node a =
     (case contract_output contract of
        None \<Rightarrow> a
      | Some agent_output \<Rightarrow>
          if compatible agent_output (sig_result s) then a
          else push_error ''SYL2201''
            [Txt (''pipeline output is incompatible with agent '' @ in_quotes agent @ '': expected ''), ShowType agent_output,
             Txt '', found '', ShowType (sig_result s)]
            (case pnode_return node of None \<Rightarrow> pnode_span node | Some ty \<Rightarrow> type_span ty) a)"

definition check_pipeline_result :: "FunctionSignature \<Rightarrow> PipelineNode \<Rightarrow> Analyzer \<Rightarrow> Analyzer" where
  "check_pipeline_result s node a =
     (case property (pnode_fields node) ''result'' of
        None \<Rightarrow> a
      | Some result \<Rightarrow>
          (let (resolved, a1) = resolve_optional (property_type result) a;
               declared = (case resolved of None \<Rightarrow> sig_result s | Some t \<Rightarrow> t);
               a2 = require_compatible (sig_result s) declared (property_span result) ''pipeline result annotation'' a1;
               (actual, a3) = infer_expr (property_value result)
                                (parameter_scope (pnode_parameters node) (sig_parameters s)) (Some declared) a2
           in require_compatible declared actual (espan (property_value result)) ''pipeline result'' a3))"

definition check_pipeline :: "PipelineNode \<Rightarrow> Analyzer \<Rightarrow> Analyzer" where
  "check_pipeline node a =
     (let s = (case an_functions a (pnode_name node) of
                 None \<Rightarrow> \<lparr>sig_parameters = [], sig_result = RtUnit\<rparr>
               | Some s \<Rightarrow> s);
          a1 = (case Option.bind (property (pnode_fields node) ''agent'') property_identifier of
                  None \<Rightarrow> a
                | Some agent \<Rightarrow>
                    (case an_agents a agent of
                       None \<Rightarrow> a
                     | Some contract \<Rightarrow>
                         check_agent_output agent contract s node (check_agent_input agent contract s node a)))
      in check_pipeline_result s node a1)"

fun check_item :: "Item \<Rightarrow> Analyzer \<Rightarrow> Analyzer" where
  "check_item (ItFunction node) = check_function node"
| "check_item (ItState node) = check_state node"
| "check_item (ItPipeline node) = check_pipeline node"
| "check_item _ = id"

definition check_bodies :: "Item list \<Rightarrow> Analyzer \<Rightarrow> Analyzer" where
  "check_bodies items a = fold check_item items a"

definition finish_analysis :: "string \<Rightarrow> Ast \<Rightarrow> Analyzer \<Rightarrow> Analysis" where
  "finish_analysis file ast a =
     \<lparr>analysis_symbols = an_symbols a,
      analysis_diagnostics = an_diagnostics a @ ownership_diagnostics (analyze_ownership file ast),
      analysis_types = map (\<lambda>(sp, t). \<lparr>typed_span = sp, typed_as = t\<rparr>) (an_types a)\<rparr>"

definition analyze :: "string \<Rightarrow> Ast \<Rightarrow> Analysis" where
  "analyze file ast =
     finish_analysis file ast
       (check_bodies (ast_items ast)
          (resolve_declarations (ast_items ast)
             (collect_declarations (ast_items ast) (new_analyzer file))))"

definition analyze_with_imports :: "string \<Rightarrow> Ast \<Rightarrow> (string \<times> Item) list \<Rightarrow> Analysis" where
  "analyze_with_imports file ast imports =
     finish_analysis file ast
       (check_bodies (ast_items ast)
          (resolve_declarations (ast_items ast)
             (fold (\<lambda>(alias, item). install_import alias item) imports
                (collect_declarations (ast_items ast) (new_analyzer file)))))"

text \<open>\<open>check_syl\<close> on what the parser returned for the file.\<close>

definition check_syl :: "string \<Rightarrow> CheckResult \<Rightarrow> CheckResult" where
  "check_syl file parsed =
     (case check_ast parsed of
        None \<Rightarrow> parsed
      | Some ast \<Rightarrow>
          parsed\<lparr>check_diagnostics := check_diagnostics parsed @ analysis_diagnostics (analyze file ast)\<rparr>)"

end
