(* ===== verification/Hir_Lower.thy ===== *)
theory Hir_Lower
  imports Inference
begin

text \<open>
  The lowering of a syntax tree to HIR, \<open>crates/syllog-compiler/src/lower.rs\<close>. The methods of
  \<open>Lowerer\<close> pass the lowerer explicitly; its maps and the scope, which the code only looks up and
  extends, are maps. An index operation on a missing key panics: the result is then \<open>None\<close>. The counter
  of definitions is a \<open>u32\<close>.
\<close>

section \<open>State\<close>

record Lowerer =
  lw_symbols :: SymbolTable
  lw_next :: u32
  lw_globals :: "string \<rightharpoonup> HirDefId"
  lw_members :: "string \<rightharpoonup> HirDefId"
  lw_types :: "Span \<rightharpoonup> ResolvedType"
  lw_diagnostics :: "Diagnostic list"
  lw_module :: u32

type_synonym hir_scope = "string \<rightharpoonup> HirDefId"

definition SOURCE_MODULE :: u32 where
  "SOURCE_MODULE = 0"

definition BUILTIN_MODULE :: u32 where
  "BUILTIN_MODULE = - 1"

definition hir_error :: "Span \<Rightarrow> string \<Rightarrow> Diagnostic" where
  "hir_error sp message = error_diagnostic ''SYL3001'' [Txt message] ''<hir>'' sp"

definition add_error :: "Span \<Rightarrow> string \<Rightarrow> Lowerer \<Rightarrow> Lowerer" where
  "add_error sp message l = l\<lparr>lw_diagnostics := lw_diagnostics l @ [hir_error sp message]\<rparr>"

definition expression_type_map :: "ExpressionType list \<Rightarrow> Span \<rightharpoonup> ResolvedType" where
  "expression_type_map types = fold (\<lambda>t m. m(typed_span t \<mapsto> typed_as t)) types Map.empty"

definition new_planned ::
  "Analysis \<Rightarrow> u32 \<Rightarrow> (string \<rightharpoonup> HirDefId) \<Rightarrow> (string \<rightharpoonup> HirDefId) \<Rightarrow> u32 \<Rightarrow> Lowerer" where
  "new_planned analysis m globals members next_definition =
     \<lparr>lw_symbols = analysis_symbols analysis, lw_next = next_definition, lw_globals = globals,
      lw_members = members, lw_types = expression_type_map (analysis_types analysis), lw_diagnostics = [],
      lw_module = m\<rparr>"

definition new_lowerer :: "Analysis \<Rightarrow> Lowerer" where
  "new_lowerer analysis = new_planned analysis SOURCE_MODULE Map.empty Map.empty 0"

definition allocate_id :: "Lowerer \<Rightarrow> HirDefId \<times> Lowerer" where
  "allocate_id l = (\<lparr>hir_module = lw_module l, hir_index = lw_next l\<rparr>, l\<lparr>lw_next := lw_next l + 1\<rparr>)"

section \<open>Indices\<close>

definition index_global :: "string \<Rightarrow> Lowerer \<Rightarrow> Lowerer" where
  "index_global name l =
     (if lw_globals l name \<noteq> None then l
      else let (d, l1) = allocate_id l in l1\<lparr>lw_globals := (lw_globals l1)(name \<mapsto> d)\<rparr>)"

definition index_globals :: "Item list \<Rightarrow> Lowerer \<Rightarrow> Lowerer" where
  "index_globals items l = fold (\<lambda>item. index_global (item_name item)) items l"

definition index_member :: "string \<Rightarrow> Lowerer \<Rightarrow> Lowerer" where
  "index_member key l =
     (if lw_members l key \<noteq> None then l
      else let (d, l1) = allocate_id l in l1\<lparr>lw_members := (lw_members l1)(key \<mapsto> d)\<rparr>)"

fun member_keys :: "Item \<Rightarrow> string list" where
  "member_keys (ItStruct node) = map (\<lambda>f. struct_name node @ ''.'' @ field_name f) (struct_fields node)"
| "member_keys (ItEnum node) = map (\<lambda>v. enum_name node @ ''::'' @ ev_name v) (enum_variants node)"
| "member_keys (ItState node) = map (\<lambda>f. state_name node @ ''.'' @ slot_name f) (state_fields node)"
| "member_keys _ = []"

definition index_members :: "Item list \<Rightarrow> Lowerer \<Rightarrow> Lowerer" where
  "index_members items l = fold index_member (concat (map member_keys items)) l"

definition builtin_definition :: "string \<Rightarrow> HirDefId option" where
  "builtin_definition name =
     (if name = ''Option::some'' then Some \<lparr>hir_module = BUILTIN_MODULE, hir_index = 0\<rparr>
      else if name = ''Option::none'' then Some \<lparr>hir_module = BUILTIN_MODULE, hir_index = 1\<rparr>
      else if name = ''Result::ok'' then Some \<lparr>hir_module = BUILTIN_MODULE, hir_index = 2\<rparr>
      else if name = ''Result::err'' then Some \<lparr>hir_module = BUILTIN_MODULE, hir_index = 3\<rparr>
      else None)"

definition resolve_value :: "string \<Rightarrow> hir_scope \<Rightarrow> Span \<Rightarrow> Lowerer \<Rightarrow> HirDefId option \<times> Lowerer" where
  "resolve_value name scope sp l =
     (case scope name of
        Some d \<Rightarrow> (Some d, l)
      | None \<Rightarrow>
          (case lw_globals l name of
             Some d \<Rightarrow> (Some d, l)
           | None \<Rightarrow> (None, add_error sp (''unresolved HIR value '' @ in_quotes name) l)))"

definition resolve_member :: "string \<Rightarrow> Span \<Rightarrow> Lowerer \<Rightarrow> HirDefId \<times> Lowerer" where
  "resolve_member name sp l =
     (case lw_members l name of
        Some d \<Rightarrow> (d, l)
      | None \<Rightarrow>
          (case builtin_definition name of
             Some d \<Rightarrow> (d, l)
           | None \<Rightarrow>
               (\<lparr>hir_module = BUILTIN_MODULE, hir_index = - 1\<rparr>,
                add_error sp (''unresolved HIR member '' @ in_quotes name) l)))"

section \<open>Types\<close>

definition primitive :: "string \<Rightarrow> ResolvedType" where
  "primitive name =
     (if name = ''Bool'' then RtPrimitive PrimBool
      else if name = ''String'' then RtPrimitive PrimString
      else if name = ''Str'' then RtPrimitive PrimStr
      else if name = ''Char'' then RtPrimitive PrimChar
      else if name = ''Bytes'' then RtPrimitive PrimBytes
      else if name = ''Duration'' then RtPrimitive PrimDuration
      else if name = ''Size'' then RtPrimitive PrimSize
      else if name = ''AgentRef'' then RtPrimitive PrimAgentRef
      else if name = ''Provider'' then RtPrimitive PrimProvider
      else if name = ''Text'' then RtPrimitive PrimText
      else
        (case name of
           [] \<Rightarrow> RtError
         | c # _ \<Rightarrow>
             if c = CHR ''I'' then RtPrimitive (PrimSigned name)
             else if c = CHR ''U'' then RtPrimitive (PrimUnsigned name)
             else if c = CHR ''F'' then RtPrimitive (PrimFloat name)
             else RtError))"

definition lower_symbol :: "SymbolTable \<Rightarrow> string \<Rightarrow> ResolvedType" where
  "lower_symbol symbols name =
     (case map_of (symbol_types symbols) name of
        None \<Rightarrow> RtError
      | Some symbol \<Rightarrow>
          (case tsym_kind symbol of
             TsPrimitive \<Rightarrow> primitive name
           | TsStruct \<Rightarrow> RtStruct name
           | TsEnum \<Rightarrow> RtEnum name
           | TsState \<Rightarrow> RtState name
           | TsGeneric arity \<Rightarrow> RtError))"

fun lower_type_hir :: "TypeNode \<Rightarrow> SymbolTable \<Rightarrow> ResolvedType"
  and lower_types_hir :: "TypeNode list \<Rightarrow> SymbolTable \<Rightarrow> ResolvedType list" where
  "lower_type_hir (TypeNode (TkReference lifetime is_mut inner) sp) =
     (\<lambda>symbols. RtReference lifetime is_mut (lower_type_hir inner symbols))"
| "lower_type_hir (TypeNode (TkArray inner) sp) = (\<lambda>symbols. RtArray (lower_type_hir inner symbols))"
| "lower_type_hir (TypeNode (TkTuple items) sp) =
     (\<lambda>symbols. if items = [] then RtUnit else RtTuple (lower_types_hir items symbols))"
| "lower_type_hir (TypeNode (TkPath segments arguments) sp) =
     (\<lambda>symbols.
        let ts = lower_types_hir arguments symbols in
        if length segments = 1 \<and> hd segments = ''Option'' \<and> length arguments = 1 then RtOption (ts ! 0)
        else if length segments = 1 \<and> hd segments = ''Result'' \<and> length arguments = 2 then RtResult (ts ! 0) (ts ! 1)
        else if length segments = 1 then lower_symbol symbols (hd segments)
        else RtError)"
| "lower_types_hir [] = (\<lambda>symbols. [])"
| "lower_types_hir (t # ts) = (\<lambda>symbols. lower_type_hir t symbols # lower_types_hir ts symbols)"

lemmas lower_type_eval [code] = lower_type_hir.simps [THEN fun_cong] lower_types_hir.simps [THEN fun_cong]

fun fallback_expression_type :: "Expr \<Rightarrow> hir_scope \<Rightarrow> ResolvedType" where
  "fallback_expression_type (Expr (EkBorrow is_mut x) sp) scope =
     RtReference None is_mut (fallback_expression_type x scope)"
| "fallback_expression_type (Expr (EkAwait x) sp) scope = fallback_expression_type x scope"
| "fallback_expression_type (Expr (EkLiteral (LIdentifier name)) sp) scope =
     (if scope name \<noteq> None then RtUnknown else RtError)"
| "fallback_expression_type (Expr (EkPath segments) sp) scope =
     (if length segments = 2 then RtEnum (hd segments) else RtError)"
| "fallback_expression_type e scope = RtError"

definition expression_type :: "Lowerer \<Rightarrow> Expr \<Rightarrow> hir_scope \<Rightarrow> ResolvedType" where
  "expression_type l e scope =
     (case lw_types l (espan e) of Some t \<Rightarrow> t | None \<Rightarrow> fallback_expression_type e scope)"

definition named_owner :: "ResolvedType \<Rightarrow> string option" where
  "named_owner t = (case t of RtStruct name \<Rightarrow> Some name | RtState name \<Rightarrow> Some name | _ \<Rightarrow> None)"

definition expression_name :: "Expr \<Rightarrow> string option" where
  "expression_name e =
     (case ekind e of
        EkLiteral (LIdentifier name) \<Rightarrow> Some name
      | EkPath path \<Rightarrow> if path = [] then None else Some (last path)
      | _ \<Rightarrow> None)"

section \<open>Patterns, expressions and blocks\<close>

fun lower_pattern :: "Pattern \<Rightarrow> hir_scope \<Rightarrow> Lowerer \<Rightarrow> HirPattern \<times> hir_scope \<times> Lowerer"
  and lower_patterns :: "Pattern list \<Rightarrow> hir_scope \<Rightarrow> Lowerer \<Rightarrow> HirPattern list \<times> hir_scope \<times> Lowerer" where
  "lower_pattern (Pattern PkWildcard sp) = (\<lambda>scope l. (PatWildcard, scope, l))"
| "lower_pattern (Pattern (PkLiteral literal) sp) = (\<lambda>scope l. (PatLiteral literal, scope, l))"
| "lower_pattern (Pattern (PkPath path) sp) =
     (\<lambda>scope l.
        if length path = 1
        then let (d, l1) = allocate_id l in (PatBinding d, scope(hd path \<mapsto> d), l1)
        else let (d, l1) = resolve_member (join ''::'' path) sp l in (PatVariant d [], scope, l1))"
| "lower_pattern (Pattern (PkConstructor path pats) sp) =
     (\<lambda>scope l.
        let (d, l1) = resolve_member (join ''::'' path) sp l;
            (ps, scope1, l2) = lower_patterns pats scope l1
        in (PatVariant d ps, scope1, l2))"
| "lower_patterns [] = (\<lambda>scope l. ([], scope, l))"
| "lower_patterns (p # ps) =
     (\<lambda>scope l.
        let (q, scope1, l1) = lower_pattern p scope l;
            (qs, scope2, l2) = lower_patterns ps scope1 l1
        in (q # qs, scope2, l2))"

definition lower_literal_hir :: "Literal \<Rightarrow> Span \<Rightarrow> hir_scope \<Rightarrow> Lowerer \<Rightarrow> HirExprKind \<times> Lowerer" where
  "lower_literal_hir literal sp scope l =
     (case literal of
        LIdentifier name \<Rightarrow>
          if name \<noteq> ''none''
          then (case resolve_value name scope sp l of
                  (None, l1) \<Rightarrow> (HLiteral (LIdentifier name), l1)
                | (Some d, l1) \<Rightarrow> (HReference d, l1))
          else (HLiteral literal, l)
      | _ \<Rightarrow> (HLiteral literal, l))"

fun lower_expression_hir :: "Expr \<Rightarrow> hir_scope \<Rightarrow> Lowerer \<Rightarrow> TypedExpr \<times> Lowerer"
  and lower_kind_hir :: "ExprKind \<Rightarrow> Span \<Rightarrow> hir_scope \<Rightarrow> Lowerer \<Rightarrow> HirExprKind \<times> Lowerer"
  and lower_items_hir :: "Expr list \<Rightarrow> hir_scope \<Rightarrow> Lowerer \<Rightarrow> TypedExpr list \<times> Lowerer"
  and lower_arguments_hir :: "CallArgument list \<Rightarrow> hir_scope \<Rightarrow> Lowerer \<Rightarrow> TypedExpr list \<times> Lowerer"
  and lower_arms_hir :: "MatchArm list \<Rightarrow> hir_scope \<Rightarrow> Lowerer \<Rightarrow> HirMatchArm list \<times> Lowerer"
  and lower_statements_hir :: "StatementNode list \<Rightarrow> hir_scope \<Rightarrow> Lowerer \<Rightarrow> HirStatement list \<times> Lowerer"
  and lower_block_hir :: "Block \<Rightarrow> hir_scope \<Rightarrow> Lowerer \<Rightarrow> HirBlock \<times> Lowerer" where
  "lower_expression_hir (Expr kind sp) =
     (\<lambda>scope l.
        let (k, l1) = lower_kind_hir kind sp scope l
        in (TypedExpr k (expression_type l (Expr kind sp) scope) sp, l1))"
| "lower_kind_hir (EkBorrow is_mut x) =
     (\<lambda>sp scope l. let (e, l1) = lower_expression_hir x scope l in (HBorrow is_mut e, l1))"
| "lower_kind_hir (EkAwait x) =
     (\<lambda>sp scope l. let (e, l1) = lower_expression_hir x scope l in (HAwait e, l1))"
| "lower_kind_hir (EkLiteral literal) = (\<lambda>sp scope l. lower_literal_hir literal sp scope l)"
| "lower_kind_hir (EkPath segments) =
     (\<lambda>sp scope l. let (d, l1) = resolve_member (join ''::'' segments) sp l in (HReference d, l1))"
| "lower_kind_hir (EkArray xs) =
     (\<lambda>sp scope l. let (es, l1) = lower_items_hir xs scope l in (HArray es, l1))"
| "lower_kind_hir (EkCall callee arguments) =
     (\<lambda>sp scope l.
        let (c, l1) = lower_expression_hir callee scope l;
            (es, l2) = lower_arguments_hir arguments scope l1
        in (HCall c es, l2))"
| "lower_kind_hir (EkField base name) =
     (\<lambda>sp scope l.
        let (b, l1) = lower_expression_hir base scope l;
            owner = (case named_owner (expr_ty b) of None \<Rightarrow> ''<error>'' | Some n \<Rightarrow> n);
            (field, l2) = resolve_member (owner @ ''.'' @ name) sp l1
        in (HField b field, l2))"
| "lower_kind_hir (EkUnary op x) =
     (\<lambda>sp scope l. let (e, l1) = lower_expression_hir x scope l in (HUnary op e, l1))"
| "lower_kind_hir (EkBinary op left right) =
     (\<lambda>sp scope l.
        let (e, l1) = lower_expression_hir left scope l;
            (f, l2) = lower_expression_hir right scope l1
        in (HBinary op e f, l2))"
| "lower_kind_hir (EkMatch v arms) =
     (\<lambda>sp scope l.
        let (e, l1) = lower_expression_hir v scope l;
            (as, l2) = lower_arms_hir arms scope l1
        in (HMatch e as, l2))"
| "lower_kind_hir (EkBlock block) =
     (\<lambda>sp scope l. let (b, l1) = lower_block_hir block scope l in (HBlock b, l1))"
| "lower_items_hir [] = (\<lambda>scope l. ([], l))"
| "lower_items_hir (x # xs) =
     (\<lambda>scope l.
        let (e, l1) = lower_expression_hir x scope l; (es, l2) = lower_items_hir xs scope l1 in (e # es, l2))"
| "lower_arguments_hir [] = (\<lambda>scope l. ([], l))"
| "lower_arguments_hir (CallArgument name x sp # xs) =
     (\<lambda>scope l.
        let (e, l1) = lower_expression_hir x scope l; (es, l2) = lower_arguments_hir xs scope l1 in (e # es, l2))"
| "lower_arms_hir [] = (\<lambda>scope l. ([], l))"
| "lower_arms_hir (MatchArm pat guard body sp # arms) =
     (\<lambda>scope l.
        let (p, arm_scope, l1) = lower_pattern pat scope l;
            (g, l2) = (case guard of
                         None \<Rightarrow> (None, l1)
                       | Some x \<Rightarrow> let (e, l2) = lower_expression_hir x arm_scope l1 in (Some e, l2));
            (b, l3) = lower_expression_hir body arm_scope l2;
            (as, l4) = lower_arms_hir arms scope l3
        in (HirMatchArm p g b sp # as, l4))"
| "lower_statements_hir [] = (\<lambda>scope l. ([], l))"
| "lower_statements_hir (StatementNode (SkLet name ty v) sp # ss) =
     (\<lambda>scope l.
        let (e, l1) = lower_expression_hir v scope l;
            t = (case ty of None \<Rightarrow> expr_ty e | Some t \<Rightarrow> lower_type_hir t (lw_symbols l1));
            (d, l2) = allocate_id l1;
            (hs, l3) = lower_statements_hir ss (scope(name \<mapsto> d)) l2
        in (HLet d name t e # hs, l3))"
| "lower_statements_hir (StatementNode (SkReturn v) sp # ss) =
     (\<lambda>scope l.
        let (r, l1) = (case v of
                         None \<Rightarrow> (None, l)
                       | Some x \<Rightarrow> let (e, l1) = lower_expression_hir x scope l in (Some e, l1));
            (hs, l2) = lower_statements_hir ss scope l1
        in (HReturn r # hs, l2))"
| "lower_statements_hir (StatementNode (SkExpression x) sp # ss) =
     (\<lambda>scope l.
        let (e, l1) = lower_expression_hir x scope l;
            (hs, l2) = lower_statements_hir ss scope l1
        in (HExpression e # hs, l2))"
| "lower_block_hir (Block stmts bsp) =
     (\<lambda>scope l. let (hs, l1) = lower_statements_hir stmts scope l in (HirBlock hs bsp, l1))"

lemmas lower_eval [code] =
  lower_pattern.simps [THEN fun_cong, THEN fun_cong]
  lower_patterns.simps [THEN fun_cong, THEN fun_cong]
  lower_expression_hir.simps [THEN fun_cong, THEN fun_cong]
  lower_kind_hir.simps [THEN fun_cong, THEN fun_cong, THEN fun_cong]
  lower_items_hir.simps [THEN fun_cong, THEN fun_cong]
  lower_arguments_hir.simps [THEN fun_cong, THEN fun_cong]
  lower_arms_hir.simps [THEN fun_cong, THEN fun_cong]
  lower_statements_hir.simps [THEN fun_cong, THEN fun_cong]
  lower_block_hir.simps [THEN fun_cong, THEN fun_cong]

section \<open>Definitions and modules\<close>

fun lower_parameters_hir :: "Parameter list \<Rightarrow> hir_scope \<Rightarrow> Lowerer \<Rightarrow> HirParameter list \<times> hir_scope \<times> Lowerer" where
  "lower_parameters_hir [] scope l = ([], scope, l)"
| "lower_parameters_hir (p # ps) scope l =
     (let (d, l1) = allocate_id l;
          (qs, scope1, l2) = lower_parameters_hir ps (scope(parameter_name p \<mapsto> d)) l1
      in (\<lparr>param_id = d, param_name = parameter_name p, param_ty = lower_type_hir (parameter_type p) (lw_symbols l1),
           param_span = parameter_span p\<rparr> # qs, scope1, l2))"

definition lower_effects :: "EffectNode list option \<Rightarrow> string list option" where
  "lower_effects effects = map_option (map effect_name) effects"

definition has_attribute :: "FunctionNode \<Rightarrow> string \<Rightarrow> bool" where
  "has_attribute f name = list_ex (\<lambda>attribute. attribute_name attribute = name) (function_attributes f)"

definition lower_result :: "TypeNode option \<Rightarrow> Lowerer \<Rightarrow> ResolvedType" where
  "lower_result ty l = (case ty of None \<Rightarrow> RtUnit | Some t \<Rightarrow> lower_type_hir t (lw_symbols l))"

definition lower_function_hir :: "FunctionNode \<Rightarrow> Lowerer \<Rightarrow> HirFunction \<times> Lowerer" where
  "lower_function_hir node l =
     (let (params, scope, l1) = lower_parameters_hir (function_parameters node) Map.empty l;
          (body, l2) = lower_block_hir (function_block node) scope l1
      in (\<lparr>is_test = has_attribute node ''test'', asynchronous = function_async node, is_public = function_public node,
           declared_effects = lower_effects (function_effects node), hir_parameters = params,
           hir_result = lower_result (function_return node) l1, hir_body = body\<rparr>, l2))"

definition lower_pipeline :: "PipelineNode \<Rightarrow> Lowerer \<Rightarrow> HirPipeline \<times> Lowerer" where
  "lower_pipeline node l =
     (let (params, scope, l1) = lower_parameters_hir (pnode_parameters node) Map.empty l;
          agent = Option.bind (Option.bind (last_property (pnode_fields node) ''agent'')
                    (\<lambda>p. expression_name (property_value p))) (lw_globals l1);
          (body, l2) = (case last_property (pnode_fields node) ''result'' of
                          None \<Rightarrow> (None, l1)
                        | Some p \<Rightarrow> let (e, l2) = lower_expression_hir (property_value p) scope l1 in (Some e, l2))
      in (\<lparr>pipeline_parameters = params, pipeline_result = lower_result (pnode_return node) l1,
           pipeline_agent = agent, pipeline_body = body\<rparr>, l2))"

text \<open>The members of a declaration with their identities; none when a key was not indexed.\<close>

definition member_ids :: "Item \<Rightarrow> Lowerer \<Rightarrow> HirDefId list option" where
  "member_ids item l = those (map (lw_members l) (member_keys item))"

fun lower_definition_kind :: "Item \<Rightarrow> HirDefId list \<Rightarrow> Lowerer \<Rightarrow> HirDefinitionKind \<times> Lowerer" where
  "lower_definition_kind (ItStruct node) ids l =
     (DStruct (map2 (\<lambda>d f. \<lparr>member_id = d, member_name = field_name f,
          member_ty = lower_type_hir (field_type f) (lw_symbols l), member_span = field_span f\<rparr>) ids (struct_fields node)), l)"
| "lower_definition_kind (ItEnum node) ids l =
     (DEnum (map2 (\<lambda>d v. \<lparr>variant_id = d, variant_name = ev_name v,
          variant_fields = lower_types_hir (ev_fields v) (lw_symbols l), variant_span = ev_span v\<rparr>) ids (enum_variants node)), l)"
| "lower_definition_kind (ItState node) ids l =
     (DState (map2 (\<lambda>d f. \<lparr>member_id = d, member_name = slot_name f,
          member_ty = lower_type_hir (slot_type f) (lw_symbols l), member_span = slot_span f\<rparr>) ids (state_fields node)), l)"
| "lower_definition_kind (ItFunction node) ids l = (let (f, l1) = lower_function_hir node l in (DFunction f, l1))"
| "lower_definition_kind (ItPipeline node) ids l = (let (p, l1) = lower_pipeline node l in (DPipeline p, l1))"
| "lower_definition_kind (ItAgent node) ids l = (DAgent, l)"
| "lower_definition_kind (ItSafetyBound node) ids l = (DSafetyBound, l)"

definition lower_definition :: "Item \<Rightarrow> Lowerer \<Rightarrow> (HirDefinition \<times> Lowerer) option" where
  "lower_definition item l =
     Option.bind (lw_globals l (item_name item)) (\<lambda>d.
     Option.bind (member_ids item l) (\<lambda>ids.
       let (kind, l1) = lower_definition_kind item ids l
       in Some (\<lparr>definition_id = d, definition_name = item_name item, definition_kind = kind,
                 definition_span = item_span item\<rparr>, l1)))"

fun lower_definitions :: "Item list \<Rightarrow> Lowerer \<Rightarrow> (HirDefinition list \<times> Lowerer) option" where
  "lower_definitions [] l = Some ([], l)"
| "lower_definitions (item # items) l =
     Option.bind (lower_definition item l) (\<lambda>(d, l1).
       map_option (\<lambda>(ds, l2). (d # ds, l2)) (lower_definitions items l1))"

definition lower_module :: "Item list \<Rightarrow> Lowerer \<Rightarrow> (Diagnostic list + HirModule \<times> HirDefId option \<times> u32) option" where
  "lower_module items l =
     Option.bind (lower_definitions items (index_members items (index_globals items l))) (\<lambda>(ds, l1).
       if lw_diagnostics l1 \<noteq> [] then Some (Inl (lw_diagnostics l1))
       else if list_ex (\<lambda>item. item_name item = ''main'') items
       then map_option (\<lambda>entry. Inr (\<lparr>hir_module_id = lw_module l1, hir_definitions = ds\<rparr>, Some entry, lw_next l1))
              (lw_globals l1 ''main'')
       else Some (Inr (\<lparr>hir_module_id = lw_module l1, hir_definitions = ds\<rparr>, None, lw_next l1)))"

definition lower_module_to_hir ::
  "Ast \<Rightarrow> Analysis \<Rightarrow> u32 \<Rightarrow> (string \<rightharpoonup> HirDefId) \<Rightarrow> (string \<rightharpoonup> HirDefId) \<Rightarrow> u32 \<Rightarrow>
     (Diagnostic list + HirModule \<times> HirDefId option \<times> u32) option" where
  "lower_module_to_hir ast analysis m globals members next_definition =
     lower_module (ast_items ast) (new_planned analysis m globals members next_definition)"

definition lower :: "Ast \<Rightarrow> Analysis \<Rightarrow> (Diagnostic list + HirProgram) option" where
  "lower ast analysis =
     map_option (map_sum id (\<lambda>(m, entry, n). \<lparr>schema_version = 1, hir_modules = [m], hir_entry = entry\<rparr>))
       (lower_module (ast_items ast) (new_lowerer analysis))"

definition lower_to_hir :: "Ast \<Rightarrow> SymbolTable \<Rightarrow> (Diagnostic list + HirProgram) option" where
  "lower_to_hir ast symbols =
     (let analysis = analyze ''<hir>'' ast in
      if analysis_diagnostics analysis \<noteq> [] then Some (Inl (analysis_diagnostics analysis))
      else if analysis_symbols analysis \<noteq> symbols
      then Some (Inl [hir_error (ast_span ast) ''symbol table does not belong to the supplied syntax tree''])
      else lower ast analysis)"

end
