(* ===== verification/Inference_Sound.thy ===== *)
theory Inference_Sound
  imports Inference
begin

text \<open>
  What an analysis without diagnostics establishes. The analyzer only adds diagnostics and expression
  types while it checks bodies; an accepted body refers to declared names only.
\<close>

section \<open>Checking bodies changes only the log and the recorded types\<close>

definition same_tables :: "Analyzer \<Rightarrow> Analyzer \<Rightarrow> bool" where
  "same_tables a b \<longleftrightarrow> an_file b = an_file a \<and> an_symbols b = an_symbols a \<and> an_structs b = an_structs a \<and>
     an_enums b = an_enums a \<and> an_functions b = an_functions a \<and> an_agents b = an_agents a \<and>
     an_states b = an_states a \<and> an_async b = an_async a"

definition steps :: "Analyzer \<Rightarrow> Analyzer \<Rightarrow> bool" where
  "steps a b \<longleftrightarrow> same_tables a b \<and> log_grows an_diagnostics a b"

named_theorems stepping \<open>operations that only add diagnostics and types\<close>

lemma steps_refl [stepping]: "steps a a"
  by (simp add: steps_def same_tables_def log_grows_refl)

lemma steps_trans: "steps a b \<Longrightarrow> steps b c \<Longrightarrow> steps a c"
  by (auto simp: steps_def same_tables_def log_grows_def)

lemma steps_error [stepping]: "steps a b \<Longrightarrow> steps a (push_error code message sp b)"
  by (auto simp: steps_def same_tables_def log_grows_def push_error_def)

lemma steps_types: "steps a b \<Longrightarrow> steps a (b\<lparr>an_types := ts\<rparr>)"
  by (auto simp: steps_def same_tables_def log_grows_def)

lemma steps_record [stepping]: "steps a (snd r) \<Longrightarrow> steps a (snd (record_type sp r))"
  by (simp add: record_type_def split_beta steps_types)

lemma steps_grows: "steps a b \<Longrightarrow> log_grows an_diagnostics a b"
  by (simp add: steps_def)

abbreviation an_quiet :: "Analyzer \<Rightarrow> Analyzer \<Rightarrow> bool" where
  "an_quiet \<equiv> log_quiet an_diagnostics"

lemma quiet_error [simp]: "steps a b \<Longrightarrow> \<not> an_quiet a (push_error code message sp b)"
  by (auto simp: steps_def log_grows_def log_quiet_def push_error_def)

lemma quiet_types [simp]: "an_quiet a (b\<lparr>an_types := ts\<rparr>) \<longleftrightarrow> an_quiet a b"
  by (simp add: log_quiet_def)

lemma quiet_record [simp]: "an_quiet a (snd (record_type sp r)) \<longleftrightarrow> an_quiet a (snd r)"
  by (simp add: record_type_def split_beta)

lemma fst_record [simp]: "fst (record_type sp r) = fst r"
  by (simp add: record_type_def split_beta)

lemma quiet_chain:
  assumes "steps a b" and "steps b c" and "an_quiet a c"
  shows "an_quiet a b" and "an_quiet b c"
  using log_quiet_split [OF steps_grows [OF assms(1)] steps_grows [OF assms(2)] assms(3)] by simp_all

lemma steps_require [stepping]: "steps a b \<Longrightarrow> steps a (require_compatible expected actual sp context b)"
  by (simp add: require_compatible_def stepping)

lemma steps_resolve_name [stepping]: "steps a b \<Longrightarrow> steps a (snd (resolve_name name n sp b))"
  by (auto simp: resolve_name_def unknown_type_def type_arity_error_def stepping split: option.split)

lemma steps_resolve [stepping]:
  "steps a b \<Longrightarrow> steps a (snd (resolve_type t b))" "steps a b \<Longrightarrow> steps a (snd (resolve_types ts b))"
proof (induction t and ts arbitrary: b and b rule: resolve_type_resolve_types.induct)
  case (4 segments arguments sp)
  show ?case
  proof (cases "hd segments = ''Option'' \<or> hd segments = ''Result''")
    case True
    then show ?thesis
      using 4 by (auto simp: split_beta unknown_type_def type_arity_error_def stepping split: list.split)
  qed (use 4(4) in \<open>auto simp: unknown_type_def stepping\<close>)
qed (auto simp: split_beta Let_def stepping)

lemma steps_optional [stepping]: "steps a b \<Longrightarrow> steps a (snd (resolve_optional ty b))"
  by (auto simp: resolve_optional_def split_beta stepping split: option.split)

lemma steps_result [stepping]: "steps a b \<Longrightarrow> steps a (snd (resolve_result ty b))"
  by (simp add: resolve_result_def split_beta stepping)

lemma steps_literal [stepping]: "steps a b \<Longrightarrow> steps a (snd (infer_literal l sp scope expected b))"
  by (auto simp: infer_literal_def stepping split: Literal.split option.split ResolvedType.split)

lemma steps_path [stepping]: "steps a b \<Longrightarrow> steps a (snd (infer_path segments sp b))"
  by (auto simp: infer_path_def stepping split: option.split)

lemma steps_field [stepping]: "steps a b \<Longrightarrow> steps a (snd (infer_field t name sp b))"
  by (auto simp: infer_field_def stepping split: ResolvedType.split option.split)

lemma steps_unary [stepping]: "steps a b \<Longrightarrow> steps a (snd (infer_unary op t sp b))"
  by (simp add: infer_unary_def stepping split: UnaryOperator.split)

lemma steps_operator [stepping]: "steps a b \<Longrightarrow> steps a (snd (infer_operator op l r sp sp' b))"
  by (simp add: infer_operator_def stepping)

lemma steps_unify [stepping]: "steps a b \<Longrightarrow> steps a (snd (unify_type t u sp context b))"
  by (simp add: unify_type_def stepping)

lemma steps_small [stepping]:
  "steps a b \<Longrightarrow> steps a (check_call_arity m n sp b)"
  "steps a b \<Longrightarrow> steps a (not_callable t sp b)"
  "steps a b \<Longrightarrow> steps a (check_await sp b)"
  "steps a b \<Longrightarrow> steps a (check_place e b)"
  "steps a b \<Longrightarrow> steps a (unknown_variant enum v sp b)"
  by (simp_all add: check_call_arity_def not_callable_def check_await_def check_place_def unknown_variant_def stepping)

lemma steps_exhaustive [stepping]: "steps a b \<Longrightarrow> steps a (check_exhaustive sp t arms b)"
  by (auto simp: check_exhaustive_def Let_def stepping split: option.split)

lemma steps_variant_fields [stepping]: "steps a b \<Longrightarrow> steps a (snd (variant_fields_types path n t sp b))"
  by (auto simp: variant_fields_types_def stepping split: option.split)

lemma steps_pattern [stepping]:
  "steps a b \<Longrightarrow> steps a (snd (check_pattern p t scope b))"
  "steps a b \<Longrightarrow> steps a (snd (check_patterns ps ts scope b))"
  by (induction p and ps arbitrary: b t scope and b ts scope rule: check_pattern_check_patterns.induct)
     (auto simp: split_beta Let_def stepping split: list.split)

lemma steps_option_signature [stepping]:
  assumes "\<And>b. steps a b \<Longrightarrow> steps a (snd (first b))" and "steps a b"
  shows "steps a (snd (option_signature v first sp expected b))"
  using assms
  by (cases "Option.bind expected option_item")
     (simp_all add: option_signature_def split_beta Let_def stepping)

lemma steps_result_signature [stepping]:
  assumes "\<And>b. steps a b \<Longrightarrow> steps a (snd (first b))" and "steps a b"
  shows "steps a (snd (result_signature v first sp expected b))"
  using assms
  by (cases "Option.bind expected result_items")
     (simp_all add: result_signature_def split_beta Let_def stepping)

lemma steps_constructor [stepping]:
  assumes "\<And>b. steps a b \<Longrightarrow> steps a (snd (first b))" and "steps a b"
  shows "steps a (snd (constructor_signature e v first sp expected b))"
  using assms by (simp add: constructor_signature_def stepping split: option.split)

lemma steps_constructor_call [stepping]:
  assumes "\<And>b. steps a b \<Longrightarrow> steps a (snd (first b))"
    and "\<And>ts context b. steps a b \<Longrightarrow> steps a (each ts context b)" and "steps a b"
  shows "steps a (snd (infer_constructor_call segments n first each sp expected b))"
  using assms
  by (auto simp: infer_constructor_call_def Let_def split_beta stepping split: option.split)

lemma infer_steps [stepping]:
  shows "\<And>scope expected b. steps a b \<Longrightarrow> steps a (snd (infer_expr e scope expected b))"
    and "\<And>sp scope expected b. steps a b \<Longrightarrow> steps a (snd (infer_expr_kind k sp scope expected b))"
    and "\<And>scope item t b. steps a b \<Longrightarrow> steps a (snd (infer_items xs scope item t b))"
    and "\<And>scope b. steps a b \<Longrightarrow> steps a (snd (infer_first fs scope b))"
    and "\<And>scope ts context b. steps a b \<Longrightarrow> steps a (infer_each es scope ts context b)"
    and "\<And>scope b. steps a b \<Longrightarrow> steps a (infer_untyped us scope b)"
    and "\<And>t scope expected result b. steps a b \<Longrightarrow> steps a (snd (infer_arms arms t scope expected result b))"
    and "\<And>scope expected result b. steps a b \<Longrightarrow> steps a (snd (infer_statements ss scope expected result b))"
    and "\<And>scope expected b. steps a b \<Longrightarrow> steps a (snd (check_body bl scope expected b))"
proof (induction e and k and xs and fs and es and us and arms and ss and bl
    rule: infer_expr_infer_expr_kind_infer_items_infer_first_infer_each_infer_untyped_infer_arms_infer_statements_check_body.induct)
qed (auto simp: split_beta Let_def stepping split: list.split option.split)

section \<open>Declared names\<close>

definition declares_function :: "Item list \<Rightarrow> string \<Rightarrow> bool" where
  "declares_function items name =
     list_ex (\<lambda>item. case item of
        ItFunction node \<Rightarrow> function_name node = name
      | ItPipeline node \<Rightarrow> pnode_name node = name
      | _ \<Rightarrow> False) items"

definition has_variant :: "Item list \<Rightarrow> string \<Rightarrow> string \<Rightarrow> nat \<Rightarrow> bool" where
  "has_variant items enum variant n =
     list_ex (\<lambda>item. case item of
        ItEnum node \<Rightarrow> enum_name node = enum \<and>
          list_ex (\<lambda>v. ev_name v = variant \<and> length (ev_fields v) = n) (enum_variants node)
      | _ \<Rightarrow> False) items"

definition has_constructor :: "Item list \<Rightarrow> string list \<Rightarrow> nat \<Rightarrow> bool" where
  "has_constructor items path n \<longleftrightarrow>
     length path = 2 \<and>
     (path \<in> {[''Option'', ''some''], [''Result'', ''ok''], [''Result'', ''err'']} \<and> n = 1 \<or>
      path = [''Option'', ''none''] \<and> n = 0 \<or>
      has_variant items (path ! 0) (path ! 1) n)"

fun named_pattern :: "Item list \<Rightarrow> Pattern \<Rightarrow> bool" where
  "named_pattern items (Pattern (PkPath path) sp) = (length path = 1 \<or> has_constructor items path 0)"
| "named_pattern items (Pattern (PkConstructor path pats) sp) =
     (has_constructor items path (length pats) \<and> list_all (named_pattern items) pats)"
| "named_pattern items (Pattern PkWildcard sp) = True"
| "named_pattern items (Pattern (PkLiteral l) sp) = True"

text \<open>Every name is bound: an identifier is a local of that point or a declared function, a path is a
  declared variant without payload, a constructor has its payload, and \<open>await\<close> stands in an
  asynchronous function.\<close>

fun named_expr :: "Expr \<Rightarrow> Item list \<Rightarrow> bool \<Rightarrow> string set \<Rightarrow> bool"
  and named_items :: "Expr list \<Rightarrow> Item list \<Rightarrow> bool \<Rightarrow> string set \<Rightarrow> bool"
  and named_arguments :: "CallArgument list \<Rightarrow> Item list \<Rightarrow> bool \<Rightarrow> string set \<Rightarrow> bool"
  and named_arms :: "MatchArm list \<Rightarrow> Item list \<Rightarrow> bool \<Rightarrow> string set \<Rightarrow> bool"
  and named_statements :: "StatementNode list \<Rightarrow> Item list \<Rightarrow> bool \<Rightarrow> string set \<Rightarrow> bool" where
  "named_expr (Expr (EkBorrow is_mut x) sp) = named_expr x"
| "named_expr (Expr (EkAwait x) sp) = (\<lambda>items asy locals. asy \<and> named_expr x items asy locals)"
| "named_expr (Expr (EkLiteral literal) sp) =
     (\<lambda>items asy locals. case literal of
        LIdentifier name \<Rightarrow> name = ''none'' \<or> name \<in> locals \<or> declares_function items name
      | _ \<Rightarrow> True)"
| "named_expr (Expr (EkPath path) sp) =
     (\<lambda>items asy locals. length path = 2 \<and> has_variant items (path ! 0) (path ! 1) 0)"
| "named_expr (Expr (EkArray xs) sp) = named_items xs"
| "named_expr (Expr (EkCall callee arguments) sp) =
     (\<lambda>items asy locals.
        (case callee_path callee of
           Some path \<Rightarrow> has_constructor items path (length arguments)
         | None \<Rightarrow> named_expr callee items asy locals) \<and>
        named_arguments arguments items asy locals)"
| "named_expr (Expr (EkField base name) sp) = named_expr base"
| "named_expr (Expr (EkUnary op x) sp) = named_expr x"
| "named_expr (Expr (EkBinary op left right) sp) =
     (\<lambda>items asy locals. named_expr left items asy locals \<and> named_expr right items asy locals)"
| "named_expr (Expr (EkMatch v arms) sp) =
     (\<lambda>items asy locals. named_expr v items asy locals \<and> named_arms arms items asy locals)"
| "named_expr (Expr (EkBlock (Block stmts bsp)) sp) = named_statements stmts"
| "named_items [] = (\<lambda>items asy locals. True)"
| "named_items (x # xs) =
     (\<lambda>items asy locals. named_expr x items asy locals \<and> named_items xs items asy locals)"
| "named_arguments [] = (\<lambda>items asy locals. True)"
| "named_arguments (CallArgument name x sp # xs) =
     (\<lambda>items asy locals. named_expr x items asy locals \<and> named_arguments xs items asy locals)"
| "named_arms [] = (\<lambda>items asy locals. True)"
| "named_arms (MatchArm pat guard body sp # arms) =
     (\<lambda>items asy locals.
        named_pattern items pat \<and>
        (case guard of None \<Rightarrow> True | Some g \<Rightarrow> named_expr g items asy (locals \<union> set (pattern_names pat))) \<and>
        named_expr body items asy (locals \<union> set (pattern_names pat)) \<and>
        named_arms arms items asy locals)"
| "named_statements [] = (\<lambda>items asy locals. True)"
| "named_statements (StatementNode (SkLet name ty v) sp # ss) =
     (\<lambda>items asy locals. named_expr v items asy locals \<and> named_statements ss items asy (insert name locals))"
| "named_statements (StatementNode (SkReturn v) sp # ss) =
     (\<lambda>items asy locals.
        (case v of None \<Rightarrow> True | Some e \<Rightarrow> named_expr e items asy locals) \<and> named_statements ss items asy locals)"
| "named_statements (StatementNode (SkExpression e) sp # ss) =
     (\<lambda>items asy locals. named_expr e items asy locals \<and> named_statements ss items asy locals)"

text \<open>Expressions without field accesses.\<close>

fun fieldless_expr :: "Expr \<Rightarrow> bool"
  and fieldless_argument :: "CallArgument \<Rightarrow> bool"
  and fieldless_arm :: "MatchArm \<Rightarrow> bool"
  and fieldless_statement :: "StatementNode \<Rightarrow> bool" where
  "fieldless_expr (Expr (EkBorrow is_mut x) sp) = fieldless_expr x"
| "fieldless_expr (Expr (EkAwait x) sp) = fieldless_expr x"
| "fieldless_expr (Expr (EkLiteral literal) sp) = True"
| "fieldless_expr (Expr (EkPath path) sp) = True"
| "fieldless_expr (Expr (EkArray xs) sp) = list_all fieldless_expr xs"
| "fieldless_expr (Expr (EkCall callee arguments) sp) =
     (fieldless_expr callee \<and> list_all fieldless_argument arguments)"
| "fieldless_expr (Expr (EkField base name) sp) = False"
| "fieldless_expr (Expr (EkUnary op x) sp) = fieldless_expr x"
| "fieldless_expr (Expr (EkBinary op left right) sp) = (fieldless_expr left \<and> fieldless_expr right)"
| "fieldless_expr (Expr (EkMatch v arms) sp) = (fieldless_expr v \<and> list_all fieldless_arm arms)"
| "fieldless_expr (Expr (EkBlock (Block stmts bsp)) sp) = list_all fieldless_statement stmts"
| "fieldless_argument (CallArgument name x sp) = fieldless_expr x"
| "fieldless_arm (MatchArm pat guard body sp) =
     ((case guard of None \<Rightarrow> True | Some g \<Rightarrow> fieldless_expr g) \<and> fieldless_expr body)"
| "fieldless_statement (StatementNode (SkLet name ty v) sp) = fieldless_expr v"
| "fieldless_statement (StatementNode (SkReturn v) sp) = (case v of None \<Rightarrow> True | Some e \<Rightarrow> fieldless_expr e)"
| "fieldless_statement (StatementNode (SkExpression e) sp) = fieldless_expr e"

section \<open>Error types\<close>

fun error_free :: "ResolvedType \<Rightarrow> bool" where
  "error_free RtError = False"
| "error_free (RtReference region is_mut t) = error_free t"
| "error_free (RtOption t) = error_free t"
| "error_free (RtResult t u) = (error_free t \<and> error_free u)"
| "error_free (RtArray t) = error_free t"
| "error_free (RtTuple ts) = list_all error_free ts"
| "error_free (RtFunction ts t) = (list_all error_free ts \<and> error_free t)"
| "error_free t = True"

definition scope_ok :: "scope \<Rightarrow> bool" where
  "scope_ok scope \<longleftrightarrow> (\<forall>x t. scope x = Some t \<longrightarrow> error_free t)"

definition expected_ok :: "ResolvedType option \<Rightarrow> bool" where
  "expected_ok expected = (case expected of None \<Rightarrow> True | Some t \<Rightarrow> error_free t)"

lemma expected_ok_simps [simp]: "expected_ok None" "expected_ok (Some t) = error_free t"
  by (simp_all add: expected_ok_def)

definition symbols_ok :: "Analyzer \<Rightarrow> bool" where
  "symbols_ok a \<longleftrightarrow> btree_ok (symbol_types (an_symbols a)) \<and> (\<forall>name symbol. map_of (symbol_types (an_symbols a)) name = Some symbol \<longrightarrow>
     (tsym_kind symbol = TsPrimitive \<longrightarrow> name \<in> set primitive_names) \<and>
     ((\<exists>n. tsym_kind symbol = TsGeneric n) \<longrightarrow> name \<in> {''Option'', ''Result''}))"

definition env_ok :: "Item list \<Rightarrow> Analyzer \<Rightarrow> bool" where
  "env_ok items a \<longleftrightarrow> symbols_ok a \<and>
     (\<forall>f s. an_functions a f = Some s \<longrightarrow>
        declares_function items f \<and> list_all error_free (sig_parameters s) \<and> error_free (sig_result s)) \<and>
     (\<forall>enum d v ts. an_enums a enum = Some d \<and> (v, ts) \<in> set (ed_variants d) \<longrightarrow>
        has_variant items enum v (length ts) \<and> list_all error_free ts)"

lemma symbols_ok_steps: "symbols_ok a \<Longrightarrow> steps a b \<Longrightarrow> symbols_ok b"
  by (simp add: symbols_ok_def steps_def same_tables_def)

lemma env_ok_steps: "env_ok items a \<Longrightarrow> steps a b \<Longrightarrow> env_ok items b"
  by (auto simp: env_ok_def symbols_ok_def steps_def same_tables_def)

lemma primitive_type_known:
  "name \<in> set primitive_names \<Longrightarrow> name \<noteq> ''Unit'' \<Longrightarrow> primitive_type name \<noteq> None"
  by (auto simp: primitive_names_def primitive_type_def)

lemma resolve_name_error_free:
  assumes "symbols_ok a" and "name \<notin> {''Option'', ''Result''}" and "an_quiet a (snd (resolve_name name n sp a))"
  shows "error_free (fst (resolve_name name n sp a))"
  using assms primitive_type_known [of name]
  by (auto simp: resolve_name_def unknown_type_def type_arity_error_def stepping named_type_of_def symbols_ok_def
      split: option.splits if_splits TypeSymbolKind.splits)

lemma resolve_error_free:
  shows "symbols_ok a \<Longrightarrow> an_quiet a (snd (resolve_type t a)) \<Longrightarrow> error_free (fst (resolve_type t a))"
    and "symbols_ok a \<Longrightarrow> an_quiet a (snd (resolve_types ts a)) \<Longrightarrow> list_all error_free (fst (resolve_types ts a))"
proof (induction t and ts arbitrary: a and a rule: resolve_type_resolve_types.induct)
  case (4 segments arguments sp)
  have one: "length segments = 1"
    using 4(5) by (rule contrapos_pp) (simp add: unknown_type_def stepping)
  consider "hd segments = ''Option''" | "hd segments = ''Result''" | "hd segments \<notin> {''Option'', ''Result''}" by blast
  then show ?case
  proof cases
    case 1
    obtain t where t: "arguments = [t]"
      using 4(5) one 1 by (auto simp: type_arity_error_def stepping split: list.splits)
    then show ?thesis using 4(1) [OF t refl, of a] 4(4,5) one 1 by (simp add: split_beta)
  next
    case 2
    obtain t u where t: "arguments = [t, u]"
      using 4(5) one 2 by (auto simp: type_arity_error_def stepping split: list.splits)
    let ?a1 = "snd (resolve_type t a)"
    have "an_quiet a (snd (resolve_type u ?a1))" using 4(5) one 2 t by (simp add: split_beta)
    note q = quiet_chain [OF steps_resolve(1) [OF steps_refl] steps_resolve(1) [OF steps_refl] this]
    have "error_free (fst (resolve_type t a))" using 4(2) [OF t refl refl 4(4) q(1)] .
    moreover have "error_free (fst (resolve_type u ?a1))"
      using 4(3) [OF t refl refl symbols_ok_steps [OF 4(4) steps_resolve(1) [OF steps_refl]] q(2)] .
    ultimately show ?thesis using one 2 t by (simp add: split_beta)
  next
    case 3
    then show ?thesis using resolve_name_error_free [OF 4(4) 3] 4(5) one by simp
  qed
next
  case (6 t ts)
  have "an_quiet a (snd (resolve_types ts (snd (resolve_type t a))))" using 6(4) by (simp add: split_beta)
  note q = quiet_chain [OF steps_resolve(1) [OF steps_refl] steps_resolve(2) [OF steps_refl] this]
  show ?case
    using 6(1) [OF 6(3) q(1)] 6(2) [OF symbols_ok_steps [OF 6(3) steps_resolve(1) [OF steps_refl]] q(2)]
    by (simp add: split_beta)
qed (auto simp: split_beta)

lemma optional_error_free:
  "symbols_ok a \<Longrightarrow> an_quiet a (snd (resolve_optional ty a)) \<Longrightarrow> expected_ok (fst (resolve_optional ty a))"
  by (auto simp: resolve_optional_def split_beta resolve_error_free split: option.splits)

lemma env_symbols: "env_ok items a \<Longrightarrow> symbols_ok a"
  by (simp add: env_ok_def)

section \<open>Names in patterns and constructors\<close>

lemma find_variant_ok:
  assumes "env_ok items a" and "find_variant a enum v = Some ts"
  shows "has_variant items enum v (length ts)" and "list_all error_free ts"
proof -
  obtain d where d: "an_enums a enum = Some d" "map_option snd (List.find (\<lambda>(name, ts). name = v) (ed_variants d)) = Some ts"
    using assms(2) by (auto simp: find_variant_def bind_eq_Some_conv)
  then have "(v, ts) \<in> set (ed_variants d)" by (auto simp: find_Some_iff in_set_conv_nth)
  then show "has_variant items enum v (length ts)" "list_all error_free ts"
    using assms(1) d(1) by (auto simp: env_ok_def)
qed

lemma split_path_Some: "split_constructor_path path = Some (e, v) \<longleftrightarrow> path = [e, v]"
  by (auto simp: split_constructor_path_def length_Suc_conv numeral_2_eq_2)

lemma has_variant_constructor: "has_variant items e v n \<Longrightarrow> has_constructor items [e, v] n"
  by (simp add: has_constructor_def)

lemma variant_payload_ok:
  assumes "env_ok items a" and "error_free t" and "variant_payload a t e v = Some ts"
  shows "has_constructor items [e, v] (length ts) \<and> list_all error_free ts"
  using assms find_variant_ok [OF assms(1)]
  by (auto simp: variant_payload_def has_constructor_def split: ResolvedType.splits if_splits)

lemma variant_fields_ok:
  assumes "env_ok items a" and "error_free t" and "an_quiet a (snd (variant_fields_types path n t sp a))"
  shows "has_constructor items path n \<and> length (fst (variant_fields_types path n t sp a)) = n \<and>
    list_all error_free (fst (variant_fields_types path n t sp a))"
proof -
  obtain e v where p: "split_constructor_path path = Some (e, v)"
    using assms(3) by (auto simp: variant_fields_types_def stepping split: option.splits)
  have t: "t \<noteq> RtError" using assms(2) by auto
  then obtain ts where "variant_payload a t e v = Some ts" "length ts = n"
    using assms(3) p by (auto simp: variant_fields_types_def unknown_variant_def stepping split: option.splits if_splits)
  then show ?thesis
    using variant_payload_ok [OF assms(1,2)] p t p [unfolded split_path_Some] by (auto simp: variant_fields_types_def)
qed

lemma pattern_ok:
  shows "env_ok items a \<Longrightarrow> error_free t \<Longrightarrow> scope_ok scope \<Longrightarrow> an_quiet a (snd (check_pattern p t scope a)) \<Longrightarrow>
      named_pattern items p \<and> dom (fst (check_pattern p t scope a)) = dom scope \<union> set (pattern_names p) \<and>
      scope_ok (fst (check_pattern p t scope a))"
    and "env_ok items a \<Longrightarrow> list_all error_free ts \<Longrightarrow> length ts = length ps \<Longrightarrow> scope_ok scope \<Longrightarrow>
      an_quiet a (snd (check_patterns ps ts scope a)) \<Longrightarrow>
      list_all (named_pattern items) ps \<and>
      dom (fst (check_patterns ps ts scope a)) = dom scope \<union> set (concat (map pattern_names ps)) \<and>
      scope_ok (fst (check_patterns ps ts scope a))"
proof (induction p and ps arbitrary: a t scope and a ts scope rule: check_pattern_check_patterns.induct)
  case (3 segments sp)
  show ?case
  proof (cases "length segments = 1")
    case True
    then obtain x where "segments = [x]" by (auto simp: length_Suc_conv)
    then show ?thesis using 3 by (auto simp: scope_ok_def)
  next
    case False
    then show ?thesis using 3 variant_fields_ok [OF 3(1,2), of segments 0 sp] by simp
  qed
next
  case (4 path pats sp)
  let ?r = "variant_fields_types path (length pats) t sp a"
  have "an_quiet a (snd (check_patterns pats (fst ?r) scope (snd ?r)))" using 4(5) by (simp add: split_beta)
  note q = quiet_chain [OF steps_variant_fields [OF steps_refl] steps_pattern(2) [OF steps_refl] this]
  note v = variant_fields_ok [OF 4(2,3) q(1)]
  have "list_all (named_pattern items) pats \<and>
      dom (fst (check_patterns pats (fst ?r) scope (snd ?r))) = dom scope \<union> set (concat (map pattern_names pats)) \<and>
      scope_ok (fst (check_patterns pats (fst ?r) scope (snd ?r)))"
    using v by (intro 4(1) [OF env_ok_steps [OF 4(2) steps_variant_fields [OF steps_refl]] _ _ 4(4) q(2)]) simp_all
  then show ?case using v by (simp add: split_beta)
next
  case (6 p ps)
  obtain u us where ts: "ts = u # us" using 6(5) by (cases ts) auto
  let ?r = "check_pattern p u scope a"
  have "an_quiet a (snd (check_patterns ps us (fst ?r) (snd ?r)))" using 6(7) ts by (simp add: split_beta)
  note q = quiet_chain [OF steps_pattern(1) [OF steps_refl] steps_pattern(2) [OF steps_refl] this]
  have p: "named_pattern items p \<and> dom (fst ?r) = dom scope \<union> set (pattern_names p) \<and> scope_ok (fst ?r)"
    using 6(4) ts by (intro 6(1) [OF refl 6(3) _ 6(6) q(1)]) simp
  have "list_all (named_pattern items) ps \<and>
      dom (fst (check_patterns ps us (fst ?r) (snd ?r))) = dom (fst ?r) \<union> set (concat (map pattern_names ps)) \<and>
      scope_ok (fst (check_patterns ps us (fst ?r) (snd ?r)))"
    using 6(4,5) ts p
    by (intro 6(2) [OF refl env_ok_steps [OF 6(3) steps_pattern(1) [OF steps_refl]] _ _ _ q(2)]) simp_all
  then show ?case using p ts by (auto simp: split_beta)
qed auto

lemma error_free_option: "error_free t \<Longrightarrow> option_item t = Some u \<Longrightarrow> error_free u"
  by (auto simp: option_item_def split: ResolvedType.splits)

lemma error_free_result: "error_free t \<Longrightarrow> result_items t = Some (u, v) \<Longrightarrow> error_free u \<and> error_free v"
  by (auto simp: result_items_def split: ResolvedType.splits)

lemma error_free_array: "error_free t \<Longrightarrow> array_item t = Some u \<Longrightarrow> error_free u"
  by (auto simp: array_item_def split: ResolvedType.splits)

lemma error_free_function: "error_free t \<Longrightarrow> function_type t = Some (ts, u) \<Longrightarrow> list_all error_free ts \<and> error_free u"
  by (auto simp: function_type_def split: ResolvedType.splits)

lemma expected_bind:
  assumes "expected_ok expected" and "\<And>t u. error_free t \<Longrightarrow> g t = Some u \<Longrightarrow> P u"
    and "Option.bind expected g = Some u"
  shows "P u"
  using assms by (cases expected) auto

lemma quiet_unknown_variant [simp]: "steps a b \<Longrightarrow> \<not> an_quiet a (unknown_variant e v sp b)"
  by (simp add: unknown_variant_def)

lemma result_signature_unknown:
  "v \<noteq> ''ok'' \<Longrightarrow> v \<noteq> ''err'' \<Longrightarrow> result_signature v first sp expected a = (None, unknown_variant ''Result'' v sp a)"
  by (cases "Option.bind expected result_items") (simp_all add: result_signature_def split_beta)

lemma result_signature_ok:
  "result_signature ''ok'' first sp expected a =
     (case Option.bind expected result_items of
        Some (ok, err) \<Rightarrow> (Some ([ok], RtResult ok err), a)
      | None \<Rightarrow> (Some ([fst (first a)], RtResult (fst (first a)) RtUnknown), snd (first a)))"
  by (cases "Option.bind expected result_items") (simp_all add: result_signature_def split_beta)

lemma result_signature_err:
  "result_signature ''err'' first sp expected a =
     (case Option.bind expected result_items of
        Some (ok, err) \<Rightarrow> (Some ([err], RtResult ok err), a)
      | None \<Rightarrow> (Some ([fst (first a)], RtResult RtUnknown (fst (first a))), snd (first a)))"
  by (cases "Option.bind expected result_items") (simp_all add: result_signature_def split_beta)

lemma constructor_signature_ok:
  assumes env: "env_ok items a" and ex: "expected_ok expected" and st: "steps a (snd (first a))"
    and fr: "an_quiet a (snd (first a)) \<Longrightarrow> error_free (fst (first a))"
    and q: "an_quiet a (snd (constructor_signature e v first sp expected a))"
  obtains flds result where "fst (constructor_signature e v first sp expected a) = Some (flds, result)"
    and "list_all error_free flds" and "error_free result" and "has_constructor items [e, v] (length flds)"
proof -
  consider "e = ''Option''" | "e = ''Result''" | "e \<notin> {''Option'', ''Result''}" by blast
  then have "\<exists>flds result. fst (constructor_signature e v first sp expected a) = Some (flds, result) \<and>
    list_all error_free flds \<and> error_free result \<and> has_constructor items [e, v] (length flds)"
  proof cases
    case 1
    then show ?thesis
      using q st fr expected_bind [OF ex error_free_option]
      by (cases "Option.bind expected option_item")
         (auto simp: constructor_signature_def option_signature_def split_beta Let_def has_constructor_def
            unknown_variant_def stepping split: if_splits)
  next
    case 2
    note r = q [unfolded constructor_signature_def 2]
    have v: "v = ''ok'' \<or> v = ''err''"
    proof (rule ccontr)
      assume "\<not> ?thesis"
      then show False using r by (simp add: result_signature_unknown steps_refl)
    qed
    have ef: "error_free u \<and> error_free w" if bound: "Option.bind expected result_items = Some (u, w)" for u w
    proof -
      obtain t where "expected = Some t" "result_items t = Some (u, w)" using bound by (cases expected) simp_all
      then show ?thesis using error_free_result [of t u w] ex by simp
    qed
    show ?thesis
      using v
    proof
      assume v: "v = ''ok''"
      show ?thesis
        using r [unfolded v] fr ef unfolding v 2 constructor_signature_def
        by (cases "Option.bind expected result_items") (auto simp: result_signature_ok has_constructor_def)
    next
      assume v: "v = ''err''"
      show ?thesis
        using r [unfolded v] fr ef unfolding v 2 constructor_signature_def
        by (cases "Option.bind expected result_items") (auto simp: result_signature_err has_constructor_def)
    qed
  next
    case 3
    then show ?thesis
      using q find_variant_ok [OF env, of e v] has_variant_constructor
      by (auto simp: constructor_signature_def unknown_variant_def stepping split: option.splits if_splits)
  qed
  then show thesis using that by blast
qed

section \<open>Accepted expressions\<close>

lemma literal_named:
  assumes "env_ok items a" and "scope_ok scope" and "expected_ok expected"
    and "an_quiet a (snd (infer_literal l sp scope expected a))"
  shows "named_expr (Expr (EkLiteral l) sp') items asy (dom scope) \<and> error_free (fst (infer_literal l sp scope expected a))"
proof (cases l)
  case (LIdentifier name)
  show ?thesis
  proof (cases "name = ''none''")
    case True
    then show ?thesis
      using assms(3,4) LIdentifier
      by (auto simp: infer_literal_def stepping split: option.splits ResolvedType.splits)
  next
    case False
    then show ?thesis
      using assms LIdentifier
      by (auto simp: infer_literal_def stepping env_ok_def scope_ok_def split: option.splits)
  qed
qed (simp_all add: infer_literal_def bool_type_def string_type_def)

lemma path_named:
  assumes "env_ok items a" and "an_quiet a (snd (infer_path path sp a))"
  shows "named_expr (Expr (EkPath path) sp') items asy locals \<and> error_free (fst (infer_path path sp a))"
proof -
  let ?found = "Option.bind (split_constructor_path path)
    (\<lambda>(enum, variant). map_option (\<lambda>flds. (enum, variant, flds)) (find_variant a enum variant))"
  obtain enum v where f: "?found = Some (enum, v, [])"
  proof (cases ?found)
    case None
    then show thesis using assms(2) by (simp add: infer_path_def stepping)
  next
    case (Some r)
    then show thesis using assms(2) that by (cases r) (auto simp: infer_path_def stepping split: if_splits)
  qed
  then have "split_constructor_path path = Some (enum, v)" "find_variant a enum v = Some []"
    by (auto simp: bind_eq_Some_conv)
  then show ?thesis using find_variant_ok [OF assms(1)] f by (fastforce simp: split_path_Some infer_path_def)
qed

lemma constructor_call_named:
  assumes env: "env_ok items a" and ex: "expected_ok expected"
    and fs: "\<And>b. steps a b \<Longrightarrow> steps a (snd (first b))" and es: "\<And>ts context b. steps b (each ts context b)"
    and fr: "an_quiet a (snd (first a)) \<Longrightarrow> error_free (fst (first a))"
    and en: "\<And>ts context b. env_ok items b \<Longrightarrow> steps a b \<Longrightarrow> list_all error_free ts \<Longrightarrow> length ts = n \<Longrightarrow>
      an_quiet b (each ts context b) \<Longrightarrow> P"
    and q: "an_quiet a (snd (infer_constructor_call path n first each sp expected a))"
  shows "has_constructor items path n \<and> error_free (fst (infer_constructor_call path n first each sp expected a)) \<and> P"
proof -
  obtain e v where p: "split_constructor_path path = Some (e, v)"
    using q by (auto simp: infer_constructor_call_def stepping split: option.splits)
  let ?c = "constructor_signature e v first sp expected a"
  have st: "steps a (snd ?c)" by (rule steps_constructor [OF fs steps_refl])
  have "steps (snd ?c) (snd (infer_constructor_call path n first each sp expected a))"
    using p steps_trans [OF steps_error [OF steps_refl] es] es
    by (auto simp: infer_constructor_call_def split_beta Let_def steps_refl split: option.split)
  note qc = quiet_chain [OF st this q]
  obtain flds result where c: "fst ?c = Some (flds, result)" "list_all error_free flds" "error_free result"
      "has_constructor items [e, v] (length flds)"
    using constructor_signature_ok [OF env ex fs [OF steps_refl] fr qc(1)] .
  have n: "length flds = n"
  proof (rule ccontr)
    assume "length flds \<noteq> n"
    then have "snd (infer_constructor_call path n first each sp expected a) = each flds ''constructor argument''
        (push_error ''SYL2101'' [Txt ''constructor expects '', Num (length flds), Txt '' value(s), found '', Num n] sp (snd ?c))"
      using p c(1) by (simp add: infer_constructor_call_def split_beta Let_def)
    with qc(2) show False using quiet_chain(1) [OF steps_error [OF steps_refl] es] quiet_error [OF steps_refl] by metis
  qed
  then have e: "infer_constructor_call path n first each sp expected a = (result, each flds ''constructor argument'' (snd ?c))"
    using p c(1) by (simp add: infer_constructor_call_def split_beta Let_def)
  have P using en [OF env_ok_steps [OF env st] st c(2) n] qc(2) e by simp
  then show ?thesis using e c p n by (simp add: split_path_Some)
qed

lemma unify_error_free: "error_free t \<Longrightarrow> error_free u \<Longrightarrow> error_free (fst (unify_type t u sp context a))"
  by (simp add: unify_type_def)

lemma operator_error_free: "error_free t \<Longrightarrow> error_free (fst (infer_operator op t u sp sp' a))"
  by (simp add: infer_operator_def bool_type_def)

lemma unary_error_free: "error_free t \<Longrightarrow> error_free (fst (infer_unary op t sp a))"
  by (simp add: infer_unary_def bool_type_def split: UnaryOperator.split)

lemma scope_ok_upd: "scope_ok scope \<Longrightarrow> error_free t \<Longrightarrow> scope_ok (scope(name \<mapsto> t))"
  by (simp add: scope_ok_def)

lemma await_quiet: "an_quiet a (check_await sp a) \<Longrightarrow> an_async a"
  by (auto simp: check_await_def stepping split: if_splits)

lemma not_callable_loud: "error_free t \<Longrightarrow> \<not> an_quiet a (not_callable t sp a)"
  by (auto simp: not_callable_def stepping)

lemma call_arity_quiet: "an_quiet a (check_call_arity m n sp a) \<Longrightarrow> m = n"
  by (auto simp: check_call_arity_def stepping split: if_splits)

lemma same_async: "steps a b \<Longrightarrow> an_async b = an_async a"
  by (simp add: steps_def same_tables_def)

lemma error_free_bool [simp]: "error_free bool_type"
  by (simp add: bool_type_def)

lemma infer_named:
  shows "\<And>scope expected a. fieldless_expr e \<Longrightarrow> env_ok items a \<Longrightarrow> scope_ok scope \<Longrightarrow> expected_ok expected \<Longrightarrow>
      an_quiet a (snd (infer_expr e scope expected a)) \<Longrightarrow>
      named_expr e items (an_async a) (dom scope) \<and> error_free (fst (infer_expr e scope expected a))"
    and "\<And>sp sp' scope expected a. fieldless_expr (Expr k sp') \<Longrightarrow> env_ok items a \<Longrightarrow> scope_ok scope \<Longrightarrow> expected_ok expected \<Longrightarrow>
      an_quiet a (snd (infer_expr_kind k sp scope expected a)) \<Longrightarrow>
      named_expr (Expr k sp') items (an_async a) (dom scope) \<and> error_free (fst (infer_expr_kind k sp scope expected a))"
    and "\<And>scope item t a. list_all fieldless_expr xs \<Longrightarrow> env_ok items a \<Longrightarrow> scope_ok scope \<Longrightarrow> expected_ok item \<Longrightarrow>
      error_free t \<Longrightarrow> an_quiet a (snd (infer_items xs scope item t a)) \<Longrightarrow>
      named_items xs items (an_async a) (dom scope) \<and> error_free (fst (infer_items xs scope item t a))"
    and "\<And>scope a. list_all fieldless_argument fs \<Longrightarrow> env_ok items a \<Longrightarrow> scope_ok scope \<Longrightarrow>
      an_quiet a (snd (infer_first fs scope a)) \<Longrightarrow> error_free (fst (infer_first fs scope a))"
    and "\<And>scope ts context a. list_all fieldless_argument es \<Longrightarrow> env_ok items a \<Longrightarrow> scope_ok scope \<Longrightarrow>
      list_all error_free ts \<Longrightarrow> length ts = length es \<Longrightarrow> an_quiet a (infer_each es scope ts context a) \<Longrightarrow>
      named_arguments es items (an_async a) (dom scope)"
    and "\<And>scope a. infer_untyped us scope a = infer_untyped us scope a"
    and "\<And>t scope expected result a. list_all fieldless_arm arms \<Longrightarrow> env_ok items a \<Longrightarrow> scope_ok scope \<Longrightarrow>
      expected_ok expected \<Longrightarrow> error_free t \<Longrightarrow> error_free result \<Longrightarrow> an_quiet a (snd (infer_arms arms t scope expected result a)) \<Longrightarrow>
      named_arms arms items (an_async a) (dom scope) \<and> error_free (fst (infer_arms arms t scope expected result a))"
    and "\<And>scope expected result a. list_all fieldless_statement ss \<Longrightarrow> env_ok items a \<Longrightarrow> scope_ok scope \<Longrightarrow>
      error_free expected \<Longrightarrow> error_free result \<Longrightarrow> an_quiet a (snd (infer_statements ss scope expected result a)) \<Longrightarrow>
      named_statements ss items (an_async a) (dom scope) \<and> error_free (fst (infer_statements ss scope expected result a))"
    and "\<And>scope expected a. list_all fieldless_statement (statement_list bl) \<Longrightarrow> env_ok items a \<Longrightarrow> scope_ok scope \<Longrightarrow>
      error_free expected \<Longrightarrow> an_quiet a (snd (check_body bl scope expected a)) \<Longrightarrow>
      named_statements (statement_list bl) items (an_async a) (dom scope) \<and> error_free (fst (check_body bl scope expected a))"
proof (induction e and k and xs and fs and es and us and arms and ss and bl
    rule: infer_expr_infer_expr_kind_infer_items_infer_first_infer_each_infer_untyped_infer_arms_infer_statements_check_body.induct)
  case (1 kind sp)
  then show ?case by simp
next
  case (2 is_mut x)
  let ?a1 = "check_place x a"
  have "an_quiet a (snd (infer_expr x scope None ?a1))" using 2(6) by (simp add: split_beta)
  note q = quiet_chain [OF steps_small(4) [OF steps_refl] infer_steps(1) [OF steps_refl] this]
  show ?case
    using 2(1) [of ?a1 scope None] 2(2-5) q env_ok_steps [OF 2(3) steps_small(4) [OF steps_refl]]
      same_async [OF steps_small(4) [OF steps_refl, of a x]]
    by (simp add: split_beta)
next
  case (3 x)
  let ?a1 = "check_await sp a"
  note q = quiet_chain [OF steps_small(3) [OF steps_refl] infer_steps(1) [OF steps_refl] 3(6) [unfolded infer_expr_kind.simps]]
  show ?case
    using 3(1) [of ?a1 scope expected] 3(2-5) q env_ok_steps [OF 3(3) steps_small(3) [OF steps_refl]]
      same_async [OF steps_small(3) [OF steps_refl, of a sp]] await_quiet [OF q(1)]
    by simp
next
  case (4 literal)
  then show ?case using literal_named [of items a scope expected literal sp sp' "an_async a"] by simp
next
  case (5 segments)
  then show ?case using path_named [of items a segments sp sp' "an_async a"] by simp
next
  case (6 xs)
  let ?i = "Option.bind expected array_item"
  have i: "expected_ok ?i" using 6(5) error_free_array by (cases expected) (auto simp: expected_ok_def split: option.split)
  then have "error_free (case ?i of None \<Rightarrow> RtUnknown | Some item \<Rightarrow> item)" by (cases ?i) simp_all
  from 6(1) [OF _ 6(3,4) i this] show ?case using 6(2,6) by (simp add: split_beta Let_def)
next
  case (7 callee arguments)
  show ?case
  proof (cases "callee_path callee")
    case None
    let ?r = "infer_expr callee scope None a"
    let ?t = "fst ?r" and ?a1 = "snd ?r"
    have f: "fieldless_expr callee" "list_all fieldless_argument arguments" using 7(6) by simp_all
    have s1: "steps a ?a1" by (simp add: stepping)
    have "steps ?a1 (snd (infer_expr_kind (EkCall callee arguments) sp scope expected a))"
      using None by (auto simp: split_beta stepping split: option.split)
    note q = quiet_chain [OF s1 this 7(10)]
    have c: "named_expr callee items (an_async a) (dom scope)" "error_free ?t"
      using 7(1) [OF None f(1) 7(7,8) _ q(1)] by simp_all
    show ?thesis
    proof (cases "function_type ?t")
      case n: None
      then have "an_quiet ?a1 (infer_untyped arguments scope (not_callable ?t (espan callee) ?a1))"
        using q(2) None by (simp add: split_beta)
      from quiet_chain(1) [OF steps_small(2) [OF steps_refl] infer_steps(6) [OF steps_refl] this]
      show ?thesis using not_callable_loud [OF c(2)] by blast
    next
      case (Some p)
      then obtain params result where p: "function_type ?t = Some (params, result)" by (cases p) auto
      let ?a2 = "check_call_arity (length params) (length arguments) sp ?a1"
      have e: "infer_expr_kind (EkCall callee arguments) sp scope expected a =
          (result, infer_each arguments scope params ''call argument'' ?a2)"
        using None p by (simp add: split_beta)
      have "an_quiet ?a1 (infer_each arguments scope params ''call argument'' ?a2)" using q(2) e by simp
      note r = quiet_chain [OF steps_small(1) [OF steps_refl] infer_steps(5) [OF steps_refl] this]
      have s2: "steps a ?a2" by (simp add: stepping)
      have "named_arguments arguments items (an_async ?a2) (dom scope)"
        using error_free_function [OF c(2) p] call_arity_quiet [OF r(1)]
        by (intro 7(3) [OF None p refl f(2) env_ok_steps [OF 7(7) s2] 7(8) _ _ r(2)]) simp_all
      then show ?thesis using c e None error_free_function [OF c(2) p] same_async [OF s2] by simp
    qed
  next
    case (Some path)
    have f: "list_all fieldless_argument arguments" using 7(6) by simp
    have e: "infer_expr_kind (EkCall callee arguments) sp scope expected a =
        infer_constructor_call path (length arguments) (infer_first arguments scope) (infer_each arguments scope) sp expected a"
      using Some by simp
    have "has_constructor items path (length arguments) \<and>
        error_free (fst (infer_expr_kind (EkCall callee arguments) sp scope expected a)) \<and>
        named_arguments arguments items (an_async a) (dom scope)"
      unfolding e
    proof (rule constructor_call_named [OF 7(7,9) infer_steps(4) infer_steps(5) [OF steps_refl]
          7(4) [OF Some f 7(7,8)] _ 7(10) [unfolded e]])
      fix ts ctx b
      assume b: "env_ok items b" "steps a b" "list_all error_free ts" "length ts = length arguments"
        "an_quiet b (infer_each arguments scope ts ctx b)"
      show "named_arguments arguments items (an_async a) (dom scope)"
        using 7(5) [OF Some f b(1) 7(8) b(3,4,5)] same_async [OF b(2)] by simp
    qed
    then show ?thesis using Some by simp
  qed
next
  case (8 base name)
  then show ?case by simp
next
  case (9 op x)
  let ?r = "infer_expr x scope None a"
  have "an_quiet a (snd (infer_unary op (fst ?r) (espan x) (snd ?r)))" using 9(6) by (simp add: split_beta)
  note q = quiet_chain [OF infer_steps(1) [OF steps_refl] steps_unary [OF steps_refl] this]
  show ?case using 9(1) [of a scope None] 9(2-5) q unary_error_free by (simp add: split_beta)
next
  case (10 op left right)
  let ?r = "infer_expr left scope None a"
  let ?s = "infer_expr right scope (Some (fst ?r)) (snd ?r)"
  have "an_quiet a (snd (infer_operator op (fst ?r) (fst ?s) (espan left) (espan right) (snd ?s)))"
    using 10(7) by (simp add: split_beta)
  note q1 = quiet_chain [OF infer_steps(1) [OF infer_steps(1) [OF steps_refl]] steps_operator [OF steps_refl] this]
  note q = quiet_chain [OF infer_steps(1) [OF steps_refl] infer_steps(1) [OF steps_refl] q1(1)]
  have l: "named_expr left items (an_async a) (dom scope) \<and> error_free (fst ?r)"
    using 10(1) [OF _ 10(4,5) _ q(1)] 10(3) by simp
  then have "named_expr right items (an_async (snd ?r)) (dom scope)"
    using 10(2) [OF _ env_ok_steps [OF 10(4) infer_steps(1) [OF steps_refl]] 10(5) _ q(2)] 10(3) by simp
  then show ?case
    using l same_async [OF infer_steps(1) [OF steps_refl, of a left scope None]] operator_error_free
    by (simp add: split_beta)
next
  case (11 v arms)
  let ?r = "infer_expr v scope None a"
  let ?t = "case expected of None \<Rightarrow> RtUnknown | Some t \<Rightarrow> t"
  let ?s = "infer_arms arms (fst ?r) scope expected ?t (snd ?r)"
  have "an_quiet a (check_exhaustive sp (fst ?r) arms (snd ?s))" using 11(7) by (simp add: split_beta Let_def)
  note q1 = quiet_chain [OF infer_steps(7) [OF infer_steps(1) [OF steps_refl]] steps_exhaustive [OF steps_refl] this]
  note q = quiet_chain [OF infer_steps(1) [OF steps_refl] infer_steps(7) [OF steps_refl] q1(1)]
  have l: "named_expr v items (an_async a) (dom scope) \<and> error_free (fst ?r)"
    using 11(1) [OF _ 11(4,5) _ q(1)] 11(3) by simp
  have "error_free ?t" using 11(6) by (cases expected) simp_all
  then have "named_arms arms items (an_async (snd ?r)) (dom scope) \<and> error_free (fst ?s)"
    using 11(2) [OF _ env_ok_steps [OF 11(4) infer_steps(1) [OF steps_refl]] 11(5,6) _ _ q(2)] 11(3) l by simp
  then show ?case
    using l same_async [OF infer_steps(1) [OF steps_refl, of a v scope None]] by (simp add: split_beta Let_def)
next
  case (12 block)
  have "error_free (case expected of None \<Rightarrow> RtUnknown | Some t \<Rightarrow> t)" using 12(5) by (cases expected) simp_all
  then show ?case using 12 by (cases block) simp
next
  case (14 x xs)
  let ?r = "infer_expr x scope item a"
  let ?u = "unify_type t (fst ?r) (espan x) ''array element'' (snd ?r)"
  have "an_quiet a (snd (infer_items xs scope item (fst ?u) (snd ?u)))" using 14(8) by (simp add: split_beta)
  note q1 = quiet_chain [OF steps_unify [OF infer_steps(1) [OF steps_refl]] infer_steps(3) [OF steps_refl] this]
  note q = quiet_chain [OF infer_steps(1) [OF steps_refl] steps_unify [OF steps_refl] q1(1)]
  have s: "steps a (snd ?u)" by (simp add: stepping)
  have l: "named_expr x items (an_async a) (dom scope) \<and> error_free (fst ?r)"
    using 14(1) [OF _ 14(4-6) q(1)] 14(3) by simp
  have "named_items xs items (an_async (snd ?u)) (dom scope) \<and> error_free (fst (infer_items xs scope item (fst ?u) (snd ?u)))"
    using 14(3) unify_error_free [OF 14(7)] l by (intro 14(2) [OF _ env_ok_steps [OF 14(4) s] 14(5,6) _ q1(2)]) simp_all
  then show ?case using l same_async [OF s] by (simp add: split_beta)
next
  case (16 name x sp xs)
  then show ?case by simp
next
  case (18 name x sp xs)
  obtain u us where ts: "ts = u # us" using 18(7) by (cases ts) simp_all
  let ?r = "infer_expr x scope (Some u) a"
  let ?b = "require_compatible u (fst ?r) sp context (snd ?r)"
  have "an_quiet a (infer_each xs scope us context ?b)" using 18(8) ts by (simp add: split_beta)
  note q1 = quiet_chain [OF steps_require [OF infer_steps(1) [OF steps_refl]] infer_steps(5) [OF steps_refl] this]
  note q = quiet_chain [OF infer_steps(1) [OF steps_refl] steps_require [OF steps_refl] q1(1)]
  have s: "steps a ?b" by (simp add: stepping)
  have "named_expr x items (an_async a) (dom scope)"
    using 18(1) [OF ts _ 18(4,5) _ q(1)] 18(3,6) ts by simp
  moreover have "named_arguments xs items (an_async ?b) (dom scope)"
    using 18(3,6,7) ts by (intro 18(2) [OF ts _ env_ok_steps [OF 18(4) s] 18(5) _ _ q1(2)]) simp_all
  ultimately show ?case using same_async [OF s] by simp
next
  case (22 pat guard body sp arms)
  let ?p = "check_pattern pat t scope a"
  let ?g = "\<lambda>g. infer_expr g (fst ?p) (Some bool_type) (snd ?p)"
  let ?a2 = "case guard of None \<Rightarrow> snd ?p
    | Some g \<Rightarrow> require_compatible bool_type (fst (?g g)) (espan g) ''match guard'' (snd (?g g))"
  let ?r = "infer_expr body (fst ?p) expected ?a2"
  let ?u = "unify_type result (fst ?r) (espan body) ''match arm'' (snd ?r)"
  let ?s = "infer_arms arms t scope expected (fst ?u) (snd ?u)"
  have e: "infer_arms (MatchArm pat guard body sp # arms) t scope expected result a = ?s"
    by (simp add: split_beta Let_def split: option.split)
  have s1: "steps a (snd ?p)" and s2: "steps (snd ?p) ?a2" and s3: "steps ?a2 (snd ?u)"
    by (auto simp: stepping split: option.split)
  have s13: "steps (snd ?p) (snd ?u)" and s: "steps a (snd ?u)" and s12: "steps a ?a2"
    using s1 s2 s3 steps_trans by blast+
  note q1 = quiet_chain [OF s infer_steps(7) [OF steps_refl] 22(10) [unfolded e]]
  note q2 = quiet_chain [OF s1 s13 q1(1)]
  note q3 = quiet_chain [OF s2 s3 q2(2)]
  note q4 = quiet_chain [OF infer_steps(1) [OF steps_refl] steps_unify [OF steps_refl] q3(2)]
  have p: "named_pattern items pat" "dom (fst ?p) = dom scope \<union> set (pattern_names pat)" "scope_ok (fst ?p)"
    using pattern_ok(1) [OF 22(5,8,6) q2(1)] by simp_all
  have g: "case guard of None \<Rightarrow> True | Some g \<Rightarrow> named_expr g items (an_async a) (dom scope \<union> set (pattern_names pat))"
  proof (cases guard)
    case (Some g)
    have "an_quiet (snd ?p) (snd (?g g))"
      using quiet_chain(1) [OF infer_steps(1) [OF steps_refl] steps_require [OF steps_refl]] q3(1) Some by simp
    from 22(1) [OF Some _ env_ok_steps [OF 22(5) s1] p(3) _ this] show ?thesis
      using 22(4) Some p(2) same_async [OF s1] by simp
  qed simp
  have b: "named_expr body items (an_async a) (dom scope \<union> set (pattern_names pat)) \<and> error_free (fst ?r)"
    using 22(2) [OF _ env_ok_steps [OF 22(5) s12] p(3) 22(7) q4(1)] 22(4) p(2) same_async [OF s12] by simp
  have "named_arms arms items (an_async (snd ?u)) (dom scope) \<and> error_free (fst ?s)"
    using 22(4) unify_error_free [OF 22(9)] b
    by (intro 22(3) [OF _ env_ok_steps [OF 22(5) s] 22(6-8) _ q1(2)]) simp_all
  then show ?case using p(1) g b same_async [OF s] e by simp
next
  case (24 name ty v sp ss)
  let ?d = "resolve_optional ty a"
  let ?r = "infer_expr v scope (fst ?d) (snd ?d)"
  let ?t = "case fst ?d of None \<Rightarrow> fst ?r | Some t \<Rightarrow> t"
  have s1: "steps a (snd ?d)" by (simp add: stepping)
  have s: "steps a (snd ?r)" by (simp add: stepping)
  have "an_quiet a (snd (infer_statements ss (scope(name \<mapsto> ?t)) expected result (snd ?r)))"
    using 24(8) by (simp add: split_beta Let_def)
  note q1 = quiet_chain [OF s infer_steps(8) [OF steps_refl] this]
  note q = quiet_chain [OF s1 infer_steps(1) [OF steps_refl] q1(1)]
  have d: "expected_ok (fst ?d)" by (rule optional_error_free [OF env_symbols [OF 24(4)] q(1)])
  have l: "named_expr v items (an_async a) (dom scope) \<and> error_free (fst ?r)"
    using 24(1) [OF _ env_ok_steps [OF 24(4) s1] 24(5) d q(2)] 24(3) same_async [OF s1] by simp
  have "error_free ?t" using d l by (cases "fst ?d") simp_all
  then have sc: "scope_ok (scope(name \<mapsto> ?t))" by (rule scope_ok_upd [OF 24(5)])
  have fs: "list_all fieldless_statement ss" using 24(3) by simp
  have dm: "dom (scope(name \<mapsto> ?t)) = insert name (dom scope)" by simp
  have "named_statements ss items (an_async a) (insert name (dom scope)) \<and>
      error_free (fst (infer_statements ss (scope(name \<mapsto> ?t)) expected result (snd ?r)))"
    using 24(2) [OF fs env_ok_steps [OF 24(4) s] sc 24(6,7) q1(2)] unfolding same_async [OF s] dm .
  then show ?case using l by (simp add: split_beta Let_def)
next
  case (25 v sp ss)
  let ?r = "case v of None \<Rightarrow> (RtUnit, a) | Some e \<Rightarrow> infer_expr e scope (Some expected) a"
  let ?b = "require_compatible expected (fst ?r) sp ''return value'' (snd ?r)"
  have s1: "steps a (snd ?r)" by (simp add: stepping split: option.split)
  have s: "steps a ?b" by (rule steps_require [OF s1])
  have "an_quiet a (snd (infer_statements ss scope expected result ?b))" using 25(8) by (simp add: split_beta)
  note q1 = quiet_chain [OF s infer_steps(8) [OF steps_refl] this]
  note q = quiet_chain [OF s1 steps_require [OF steps_refl] q1(1)]
  have "case v of None \<Rightarrow> True | Some e \<Rightarrow> named_expr e items (an_async a) (dom scope)"
  proof (cases v)
    case (Some e)
    then show ?thesis using 25(1) [OF Some _ 25(4,5), of "Some expected"] 25(3,6) q(1) by simp
  qed simp
  moreover from 25(2) [OF _ env_ok_steps [OF 25(4) s] 25(5-7) q1(2)]
  have "named_statements ss items (an_async a) (dom scope) \<and> error_free (fst (infer_statements ss scope expected result ?b))"
    using 25(3) same_async [OF s] by simp
  ultimately show ?case by (simp add: split_beta)
next
  case (26 e sp ss)
  let ?r = "infer_expr e scope (if ss = [] then Some expected else None) a"
  let ?b = "if ss = [] then require_compatible expected (fst ?r) (espan e) ''function result'' (snd ?r) else snd ?r"
  have s1: "steps a (snd ?r)" by (simp add: stepping)
  have s2: "steps (snd ?r) ?b" by (simp add: stepping)
  have s: "steps a ?b" by (rule steps_trans [OF s1 s2])
  have "an_quiet a (snd (infer_statements ss scope expected (fst ?r) ?b))" using 26(8) by (simp add: split_beta Let_def)
  note q1 = quiet_chain [OF s infer_steps(8) [OF steps_refl] this]
  note q = quiet_chain [OF s1 s2 q1(1)]
  have l: "named_expr e items (an_async a) (dom scope) \<and> error_free (fst ?r)"
    using 26(1) [OF _ 26(4,5) _ q(1)] 26(3,6) by simp
  from 26(2) [OF _ env_ok_steps [OF 26(4) s] 26(5,6) _ q1(2)] show ?case
    using 26(3) l same_async [OF s] by (simp add: split_beta Let_def)
next
  case (27 stmts bsp)
  let ?r = "infer_statements stmts scope expected RtUnit a"
  have "steps (snd ?r) (if stmts = [] then require_compatible expected RtUnit bsp ''function result'' (snd ?r) else snd ?r)"
    by (simp add: stepping)
  note q = quiet_chain [OF infer_steps(8) [OF steps_refl] this]
  show ?case using 27(1) [of a scope expected RtUnit] 27(2-6) q(1) by (simp add: split_beta)
qed simp_all

end
