(* ===== verification/Semantic_Sound.thy ===== *)
theory Semantic_Sound
  imports Inference_Sound
begin

text \<open>
  Analyses without diagnostics: the tables of the analyzer describe the declarations of the file, and
  every accepted body refers to declared names only.
\<close>

section \<open>Collecting declarations\<close>

abbreviation an_grows :: "Analyzer \<Rightarrow> Analyzer \<Rightarrow> bool" where
  "an_grows \<equiv> log_grows an_diagnostics"

lemma fold_symbols:
  assumes "btree_ok t"
  shows "btree_ok (fold (\<lambda>(n, k). btree_insert n (mk n k)) xs t)"
    and "map_of (fold (\<lambda>(n, k). btree_insert n (mk n k)) xs t) name = Some s \<Longrightarrow>
      (\<exists>k. (name, k) \<in> set xs \<and> s = mk name k) \<or> map_of t name = Some s"
proof -
  have "btree_ok (fold (\<lambda>(n, k). btree_insert n (mk n k)) xs t) \<and>
      (map_of (fold (\<lambda>(n, k). btree_insert n (mk n k)) xs t) name = Some s \<longrightarrow>
      (\<exists>k. (name, k) \<in> set xs \<and> s = mk name k) \<or> map_of t name = Some s)"
    using assms
  proof (induction xs arbitrary: t)
    case (Cons x xs)
    obtain n k where x: "x = (n, k)" by fastforce
    from Cons.IH [OF btree_insert_ok [OF Cons.prems, of n "mk n k"]] show ?case
      using x btree_insert_lookup [OF Cons.prems, of n "mk n k"] by (auto split: if_splits)
  qed simp
  then show "btree_ok (fold (\<lambda>(n, k). btree_insert n (mk n k)) xs t)"
    "map_of (fold (\<lambda>(n, k). btree_insert n (mk n k)) xs t) name = Some s \<Longrightarrow>
      (\<exists>k. (name, k) \<in> set xs \<and> s = mk name k) \<or> map_of t name = Some s" by simp_all
qed

lemma new_symbols_ok: "symbols_ok (new_analyzer file)"
proof -
  let ?xs = "map (\<lambda>name. (name, TsPrimitive)) primitive_names @ [(''Option'', TsGeneric 1), (''Result'', TsGeneric 2)]"
  let ?mk = "\<lambda>name kind. \<lparr>tsym_name = name, tsym_kind = kind, tsym_span = default_span\<rparr>"
  have t: "symbol_types (an_symbols (new_analyzer file)) = fold (\<lambda>(n, k). btree_insert n (?mk n k)) ?xs []"
    by (simp add: new_analyzer_def)
  show ?thesis
    unfolding symbols_ok_def t
    using fold_symbols(1) [OF bt.ok_Nil, of ?mk ?xs] fold_symbols(2) [OF bt.ok_Nil, of ?mk ?xs] by fastforce
qed

lemma insert_type_ok:
  assumes "symbols_ok a" and "kind \<in> {TsStruct, TsEnum, TsState}"
  shows "symbols_ok (insert_type name kind sp a)"
proof -
  have ok: "btree_ok (symbol_types (an_symbols a))" using assms(1) by (simp add: symbols_ok_def)
  show ?thesis
    using assms btree_insert_ok [OF ok] btree_insert_lookup [OF ok]
    by (auto simp: insert_type_def push_error_def symbols_ok_def)
qed

lemma insert_value_ok: "symbols_ok a \<Longrightarrow> symbols_ok (insert_value name kind sp a)"
  by (simp add: insert_value_def push_error_def symbols_ok_def)

lemma collect_item_ok: "symbols_ok a \<Longrightarrow> symbols_ok (collect_item item a)"
  by (cases item) (simp_all add: insert_type_ok insert_value_ok)

lemma collect_ok: "symbols_ok a \<Longrightarrow> symbols_ok (collect_declarations items a)"
  unfolding collect_declarations_def by (induction items arbitrary: a) (simp_all add: collect_item_ok)

lemma insert_frame:
  "an_functions (insert_type name kind sp a) = an_functions a" "an_enums (insert_type name kind sp a) = an_enums a"
  "an_functions (insert_value name k sp a) = an_functions a" "an_enums (insert_value name k sp a) = an_enums a"
  by (simp_all add: insert_type_def insert_value_def push_error_def)

lemma collect_frame:
  "an_functions (collect_declarations items a) = an_functions a" "an_enums (collect_declarations items a) = an_enums a"
proof -
  have "an_functions (collect_item item a) = an_functions a \<and> an_enums (collect_item item a) = an_enums a" for item a
    by (cases item) (simp_all add: insert_frame)
  then have "an_functions (fold collect_item items a) = an_functions a \<and> an_enums (fold collect_item items a) = an_enums a"
    by (induction items arbitrary: a) simp_all
  then show "an_functions (collect_declarations items a) = an_functions a"
    "an_enums (collect_declarations items a) = an_enums a" by (simp_all add: collect_declarations_def)
qed

lemma collect_item_grows: "an_grows a (collect_item item a)"
  by (cases item) (auto simp: insert_type_def insert_value_def push_error_def log_grows_def)

lemma fold_grows:
  assumes "\<And>x a. an_grows a (f x a)"
  shows "an_grows a (fold f xs a)"
proof (induction xs arbitrary: a)
  case (Cons x xs)
  show ?case using log_grows_trans [OF assms Cons.IH] by simp
qed (simp add: log_grows_refl)

lemma fold_quiet:
  assumes g: "\<And>x a. an_grows a (f x a)" and q: "an_quiet a (fold f xs a)" and i: "I a"
    and s: "\<And>x a. x \<in> set xs \<Longrightarrow> I a \<Longrightarrow> an_quiet a (f x a) \<Longrightarrow> I (f x a)"
  shows "I (fold f xs a)"
  using q i s
proof (induction xs arbitrary: a)
  case (Cons x xs)
  note c = log_quiet_split [OF g fold_grows [OF g] Cons.prems(1) [unfolded fold_simps]]
  show ?case using Cons.IH [OF c(2) Cons.prems(3) [OF _ Cons.prems(2) c(1)]] Cons.prems(3) by simp
qed simp

text \<open>Without a diagnostic every declared name has the kind of its declaration.\<close>

definition value_declared :: "Item \<Rightarrow> Analyzer \<Rightarrow> bool" where
  "value_declared item a = (case item of ItFunction node \<Rightarrow> value_kind_of a (function_name node) = Some VsFunction | _ \<Rightarrow> True)"

definition values_ok :: "Analyzer \<Rightarrow> bool" where
  "values_ok a \<longleftrightarrow> btree_ok (symbol_values (an_symbols a))"

lemma collect_keeps_values:
  assumes "values_ok a"
  shows "values_ok (collect_item item a)"
    and "value_kind_of a name = Some k \<Longrightarrow> value_kind_of (collect_item item a) name = Some k"
    and "an_quiet a (collect_item item a) \<Longrightarrow> value_declared item (collect_item item a)"
proof -
  note ok = assms [unfolded values_ok_def]
  note i = btree_insert_ok [OF ok] btree_insert_lookup [OF ok]
  have v: "values_ok (insert_value nm kd sp a) \<and>
      (value_kind_of a name = Some k \<longrightarrow> value_kind_of (insert_value nm kd sp a) name = Some k) \<and>
      (an_quiet a (insert_value nm kd sp a) \<longrightarrow> value_kind_of (insert_value nm kd sp a) nm = Some kd)" for nm kd sp name k
    using ok i by (auto simp: insert_value_def push_error_def values_ok_def value_kind_of_def contains_value_def log_quiet_def)
  have t: "symbol_values (an_symbols (insert_type nm kd sp a)) = symbol_values (an_symbols a)" for nm kd sp
    by (simp add: insert_type_def push_error_def)
  show "values_ok (collect_item item a)" using v ok t by (cases item) (simp_all add: values_ok_def)
  show "value_kind_of a name = Some k \<Longrightarrow> value_kind_of (collect_item item a) name = Some k"
    using v t by (cases item) (simp_all add: value_kind_of_def)
  show "an_quiet a (collect_item item a) \<Longrightarrow> value_declared item (collect_item item a)"
    using v by (cases item) (simp_all add: value_declared_def)
qed

lemma collect_declares:
  assumes "values_ok a" and "an_quiet a (collect_declarations items a)" and "item \<in> set items"
  shows "value_declared item (collect_declarations items a)"
  using assms unfolding collect_declarations_def
proof (induction items arbitrary: a)
  case (Cons x xs)
  note c = log_quiet_split [OF collect_item_grows fold_grows [OF collect_item_grows] Cons.prems(2) [unfolded fold_simps]]
  have keeps: "value_declared y (fold collect_item xs b)" if "value_declared y b" "values_ok b" for y b xs
    using that collect_keeps_values
    by (induction xs arbitrary: b) (auto simp: value_declared_def split: Item.splits)
  show ?case
  proof (cases "item = x")
    case True
    then show ?thesis
      using keeps [OF collect_keeps_values(3) [OF Cons.prems(1) c(1)] collect_keeps_values(1) [OF Cons.prems(1)]] by simp
  next
    case False
    then show ?thesis
      using Cons.IH [OF collect_keeps_values(1) [OF Cons.prems(1)] c(2)] Cons.prems(3) by simp
  qed
qed simp

section \<open>Resolving declarations\<close>

lemma variants_steps [stepping]: "steps a b \<Longrightarrow> steps a (snd (resolve_variants vs b))"
  by (induction vs arbitrary: b) (simp_all add: split_beta Let_def stepping)

lemma fields_steps [stepping]: "steps a b \<Longrightarrow> steps a (snd (resolve_fields flds b))"
  by (simp add: resolve_fields_def split_beta stepping)

lemma signature_steps [stepping]: "steps a b \<Longrightarrow> steps a (snd (resolve_signature params ret b))"
  by (simp add: resolve_signature_def split_beta Let_def stepping)

lemma contract_steps [stepping]: "steps a b \<Longrightarrow> steps a (snd (resolve_contract props b))"
  by (simp add: resolve_contract_def split_beta Let_def stepping)

lemma property_types_steps [stepping]: "steps a b \<Longrightarrow> steps a (resolve_property_types props b)"
  by (simp add: resolve_property_types_def stepping)

lemma result_error_free:
  "symbols_ok a \<Longrightarrow> an_quiet a (snd (resolve_result ty a)) \<Longrightarrow> error_free (fst (resolve_result ty a))"
  using optional_error_free [of a ty] by (auto simp: resolve_result_def split_beta split: option.split)

lemma signature_error_free:
  assumes "symbols_ok a" and "an_quiet a (snd (resolve_signature params ret a))"
  shows "list_all error_free (sig_parameters (fst (resolve_signature params ret a))) \<and>
    error_free (sig_result (fst (resolve_signature params ret a)))"
proof -
  let ?r = "resolve_types (map parameter_type params) a"
  have "an_quiet a (snd (resolve_result ret (snd ?r)))" using assms(2) by (simp add: resolve_signature_def split_beta Let_def)
  note q = quiet_chain [OF steps_resolve(2) [OF steps_refl] steps_result [OF steps_refl] this]
  show ?thesis
    using resolve_error_free(2) [OF assms(1) q(1)]
      result_error_free [OF symbols_ok_steps [OF assms(1) steps_resolve(2) [OF steps_refl]] q(2)]
    by (simp add: resolve_signature_def split_beta Let_def)
qed

lemma resolve_types_length: "length (fst (resolve_types ts a)) = length ts"
proof (induction ts arbitrary: a)
  case (Cons t ts)
  show ?case using Cons.IH [of "snd (resolve_type t a)"] by (simp add: split_beta Let_def)
qed simp

lemma variants_ok:
  assumes "symbols_ok a" and "an_quiet a (snd (resolve_variants vs a))" and "(v, ts) \<in> set (fst (resolve_variants vs a))"
  shows "list_all error_free ts \<and> (\<exists>x \<in> set vs. ev_name x = v \<and> length (ev_fields x) = length ts)"
  using assms
proof (induction vs arbitrary: a)
  case (Cons x vs)
  let ?r = "resolve_types (ev_fields x) a"
  have "an_quiet a (snd (resolve_variants vs (snd ?r)))" using Cons.prems(2) by (simp add: split_beta Let_def)
  note q = quiet_chain [OF steps_resolve(2) [OF steps_refl] variants_steps [OF steps_refl] this]
  have "(v, ts) = (ev_name x, fst ?r) \<or> (v, ts) \<in> set (fst (resolve_variants vs (snd ?r)))"
    using Cons.prems(3) by (auto simp: split_beta Let_def)
  then show ?case
  proof
    assume "(v, ts) = (ev_name x, fst ?r)"
    then show ?thesis using resolve_error_free(2) [OF Cons.prems(1) q(1)] by (simp add: resolve_types_length)
  next
    assume "(v, ts) \<in> set (fst (resolve_variants vs (snd ?r)))"
    then show ?thesis
      using Cons.IH [OF symbols_ok_steps [OF Cons.prems(1) steps_resolve(2) [OF steps_refl]] q(2)] by auto
  qed
qed simp

text \<open>Updates of the tables keep the log.\<close>

lemma table_updates [simp]:
  "an_quiet a (b\<lparr>an_structs := x1\<rparr>) = an_quiet a b" "an_quiet a (b\<lparr>an_enums := x2\<rparr>) = an_quiet a b"
  "an_quiet a (b\<lparr>an_functions := x3\<rparr>) = an_quiet a b" "an_quiet a (b\<lparr>an_agents := x4\<rparr>) = an_quiet a b"
  "an_quiet a (b\<lparr>an_states := x5\<rparr>) = an_quiet a b" "an_quiet a (b\<lparr>an_async := x6\<rparr>) = an_quiet a b"
  "an_quiet (a\<lparr>an_async := x6\<rparr>) b = an_quiet a b"
  "an_grows a (b\<lparr>an_structs := x1\<rparr>) = an_grows a b" "an_grows a (b\<lparr>an_enums := x2\<rparr>) = an_grows a b"
  "an_grows a (b\<lparr>an_functions := x3\<rparr>) = an_grows a b" "an_grows a (b\<lparr>an_agents := x4\<rparr>) = an_grows a b"
  "an_grows a (b\<lparr>an_states := x5\<rparr>) = an_grows a b" "an_grows a (b\<lparr>an_async := x6\<rparr>) = an_grows a b"
  "an_grows (a\<lparr>an_async := x6\<rparr>) b = an_grows a b" "an_grows (a\<lparr>an_functions := x3\<rparr>) b = an_grows a b"
  by (simp_all add: log_quiet_def log_grows_def)

lemma resolve_item_grows: "an_grows a (resolve_item item a)"
proof (cases item)
  case (ItPipeline node)
  let ?r = "resolve_signature (pnode_parameters node) (pnode_return node) a"
  let ?b = "(snd ?r)\<lparr>an_functions := insert_new (pnode_name node) (fst ?r) (an_functions (snd ?r))\<rparr>"
  have "an_grows a (snd ?r)" by (simp add: steps_grows stepping)
  also have "an_grows (snd ?r) (resolve_property_types (pnode_fields node) ?b)"
    using steps_grows [OF property_types_steps [OF steps_refl], of ?b "pnode_fields node"] by simp
  finally show ?thesis using ItPipeline by (simp add: resolve_pipeline_signature_def split_beta)
qed (auto simp: resolve_struct_def resolve_enum_def resolve_state_signature_def resolve_function_signature_def
      resolve_agent_contract_def split_beta Let_def steps_grows stepping)

lemma env_ok_function:
  assumes "env_ok items a" and "declares_function items f"
    and "list_all error_free (sig_parameters s) \<and> error_free (sig_result s)"
  shows "env_ok items (a\<lparr>an_functions := (an_functions a)(f \<mapsto> s)\<rparr>)"
  using assms by (auto simp: env_ok_def symbols_ok_def split: if_splits)

lemma env_ok_updates [simp]:
  "env_ok items (a\<lparr>an_structs := x1\<rparr>) = env_ok items a" "env_ok items (a\<lparr>an_agents := x2\<rparr>) = env_ok items a"
  "env_ok items (a\<lparr>an_states := x3\<rparr>) = env_ok items a" "env_ok items (a\<lparr>an_async := x4\<rparr>) = env_ok items a"
  by (simp_all add: env_ok_def symbols_ok_def)

lemma resolve_item_ok:
  assumes env: "env_ok items a" and item: "item \<in> set items" and q: "an_quiet a (resolve_item item a)"
  shows "env_ok items (resolve_item item a)"
proof (cases item)
  case (ItEnum node)
  let ?r = "resolve_variants (enum_variants node) a"
  show ?thesis
  proof (cases "type_kind_of a (enum_name node) = Some TsEnum")
    case True
    have s: "steps a (snd ?r)" by (simp add: stepping)
    have "an_quiet a (snd ?r)" using q ItEnum True by (simp add: resolve_enum_def split_beta)
    note v = variants_ok [OF env_symbols [OF env] this]
    have "has_variant items (enum_name node) v (length ts) \<and> list_all error_free ts" if "(v, ts) \<in> set (fst ?r)" for v ts
      using v [OF that] item ItEnum by (force simp: has_variant_def list_ex_iff)
    then show ?thesis
      using env_ok_steps [OF env s] ItEnum True
      by (auto simp: resolve_enum_def split_beta env_ok_def symbols_ok_def split: if_splits)
  qed (use env ItEnum in \<open>simp add: resolve_enum_def\<close>)
next
  case (ItFunction node)
  let ?r = "resolve_signature (function_parameters node) (function_return node) a"
  have d: "declares_function items (function_name node)"
    using item ItFunction by (force simp: declares_function_def list_ex_iff)
  show ?thesis
  proof (cases "value_kind_of a (function_name node) \<noteq> Some VsFunction \<or> an_functions a (function_name node) \<noteq> None")
    case False
    have s: "steps a (snd ?r)" by (simp add: stepping)
    have "an_quiet a (snd ?r)" using q ItFunction False by (simp add: resolve_function_signature_def split_beta)
    from env_ok_function [OF env_ok_steps [OF env s] d signature_error_free [OF env_symbols [OF env] this]]
    show ?thesis using ItFunction False by (simp add: resolve_function_signature_def split_beta)
  qed (use env ItFunction in \<open>simp add: resolve_function_signature_def\<close>)
next
  case (ItPipeline node)
  let ?r = "resolve_signature (pnode_parameters node) (pnode_return node) a"
  let ?b = "(snd ?r)\<lparr>an_functions := insert_new (pnode_name node) (fst ?r) (an_functions (snd ?r))\<rparr>"
  have d: "declares_function items (pnode_name node)"
    using item ItPipeline by (force simp: declares_function_def list_ex_iff)
  have s: "steps a (snd ?r)" by (simp add: stepping)
  have q': "an_quiet a (resolve_property_types (pnode_fields node) ?b)"
    using q ItPipeline by (simp add: resolve_pipeline_signature_def split_beta)
  have g: "an_grows a ?b" using steps_grows [OF s] by simp
  have "an_quiet a ?b"
    by (rule log_quiet_split(1) [OF g steps_grows [OF property_types_steps [OF steps_refl]] q'])
  then have "an_quiet a (snd ?r)" by simp
  note sig = signature_error_free [OF env_symbols [OF env] this]
  have "env_ok items ?b"
    using env_ok_function [OF env_ok_steps [OF env s] d sig] env_ok_steps [OF env s] by (simp add: insert_new_def)
  then show ?thesis
    using ItPipeline env_ok_steps [OF _ property_types_steps [OF steps_refl]]
    by (simp add: resolve_pipeline_signature_def split_beta)
next
  case (ItSafetyBound node)
  then show ?thesis using env_ok_steps [OF env] by (simp add: stepping)
qed (use env in \<open>auto simp: resolve_struct_def resolve_state_signature_def resolve_agent_contract_def split_beta Let_def
      intro: env_ok_steps simp: stepping\<close>)

lemma steps_functions: "steps a b \<Longrightarrow> an_functions b = an_functions a \<and> an_symbols b = an_symbols a"
  by (simp add: steps_def same_tables_def)

lemmas resolved_tables =
  steps_functions [OF signature_steps [OF steps_refl]] steps_functions [OF property_types_steps [OF steps_refl]]
  steps_functions [OF fields_steps [OF steps_refl]] steps_functions [OF variants_steps [OF steps_refl]]
  steps_functions [OF contract_steps [OF steps_refl]] steps_functions [OF steps_resolve(2) [OF steps_refl]]

text \<open>A declared function has a signature once it was resolved.\<close>

lemma resolve_item_functions:
  shows "an_functions a f \<noteq> None \<Longrightarrow> an_functions (resolve_item item a) f \<noteq> None"
    and "an_symbols (resolve_item item a) = an_symbols a"
    and "value_declared item a \<Longrightarrow> item = ItFunction node \<Longrightarrow> an_functions (resolve_item item a) (function_name node) \<noteq> None"
proof -
  show "an_functions a f \<noteq> None \<Longrightarrow> an_functions (resolve_item item a) f \<noteq> None"
    by (cases item) (auto simp: resolve_struct_def resolve_enum_def resolve_state_signature_def resolve_function_signature_def
      resolve_agent_contract_def resolve_pipeline_signature_def insert_new_def split_beta Let_def resolved_tables)
  show "an_symbols (resolve_item item a) = an_symbols a"
    by (cases item) (auto simp: resolve_struct_def resolve_enum_def resolve_state_signature_def resolve_function_signature_def
      resolve_agent_contract_def resolve_pipeline_signature_def split_beta Let_def resolved_tables)
  show "value_declared item a \<Longrightarrow> item = ItFunction node \<Longrightarrow> an_functions (resolve_item item a) (function_name node) \<noteq> None"
    by (auto simp: value_declared_def resolve_function_signature_def split_beta)
qed

lemma resolve_functions_present:
  assumes "\<And>item. item \<in> set items \<Longrightarrow> value_declared item a" and "ItFunction node \<in> set items"
  shows "an_functions (resolve_declarations items a) (function_name node) \<noteq> None"
  using assms unfolding resolve_declarations_def
proof (induction items arbitrary: a)
  case (Cons x xs)
  have keeps: "an_functions b f \<noteq> None \<Longrightarrow> an_functions (fold resolve_item ys b) f \<noteq> None" for f ys b
    by (induction ys arbitrary: b) (simp, metis fold_simps(2) resolve_item_functions(1))
  show ?case
  proof (cases "x = ItFunction node")
    case True
    then show ?thesis
      using keeps [OF resolve_item_functions(3) [OF Cons.prems(1) [of x] True]] by simp
  next
    case False
    have "value_declared item (resolve_item x a)" if "item \<in> set xs" for item
      using Cons.prems(1) [of item] that resolve_item_functions(2) [of x a]
      by (auto simp: value_declared_def value_kind_of_def split: Item.split)
    then show ?thesis using Cons.IH [of "resolve_item x a"] Cons.prems(2) False by simp
  qed
qed simp

section \<open>Bodies\<close>

lemma named_mono:
  shows "\<And>locals. named_expr e items asy locals \<Longrightarrow> locals \<subseteq> wider \<Longrightarrow> named_expr e items asy wider"
    and "\<And>locals. named_items xs items asy locals \<Longrightarrow> locals \<subseteq> wider \<Longrightarrow> named_items xs items asy wider"
    and "\<And>locals. named_arguments args items asy locals \<Longrightarrow> locals \<subseteq> wider \<Longrightarrow> named_arguments args items asy wider"
    and "\<And>locals. named_arms arms items asy locals \<Longrightarrow> locals \<subseteq> wider \<Longrightarrow> named_arms arms items asy wider"
    and "\<And>locals. named_statements ss items asy locals \<Longrightarrow> locals \<subseteq> wider \<Longrightarrow> named_statements ss items asy wider"
proof (induction e and xs and args and arms and ss arbitrary: wider and wider and wider and wider and wider
    rule: named_expr_named_items_named_arguments_named_arms_named_statements.induct)
  case (17 pat guard body sp arms)
  have u: "locals \<union> set (pattern_names pat) \<subseteq> wider \<union> set (pattern_names pat)" using 17(5) by blast
  have "case guard of None \<Rightarrow> True | Some g \<Rightarrow> named_expr g items asy (wider \<union> set (pattern_names pat))"
    using 17(1) [OF _ _ u] 17(4) by (auto split: option.splits)
  then show ?case using 17(2) [OF _ u] 17(3) [OF _ 17(5)] 17(4) by simp
next
  case (19 name ty v sp ss)
  have "insert name locals \<subseteq> insert name wider" using 19(4) by blast
  from 19(2) [OF _ this] show ?case using 19(1) [OF _ 19(4)] 19(3) by simp
qed (auto split: Literal.splits option.splits)

fun named_item :: "Item list \<Rightarrow> Item \<Rightarrow> bool" where
  "named_item items (ItFunction node) =
     named_statements (statement_list (function_block node)) items (function_async node)
       (set (map parameter_name (function_parameters node)))"
| "named_item items (ItPipeline node) =
     (case property (pnode_fields node) ''result'' of
        None \<Rightarrow> True
      | Some p \<Rightarrow> named_expr (property_value p) items False (set (map parameter_name (pnode_parameters node))))"
| "named_item items _ = True"

fun fieldless_item :: "Item \<Rightarrow> bool" where
  "fieldless_item (ItFunction node) = list_all fieldless_statement (statement_list (function_block node))"
| "fieldless_item (ItPipeline node) = list_all (\<lambda>p. fieldless_expr (property_value p)) (pnode_fields node)"
| "fieldless_item _ = True"

lemma parameter_scope_ok:
  "dom (parameter_scope params ts) \<subseteq> set (map parameter_name params)"
  "list_all error_free ts \<Longrightarrow> scope_ok (parameter_scope params ts)"
proof -
  have "dom (fold (\<lambda>(p, t) scope. scope(parameter_name p \<mapsto> t)) xs m) \<subseteq> dom m \<union> set (map (parameter_name \<circ> fst) xs) \<and>
      (scope_ok m \<longrightarrow> (\<forall>(p, t) \<in> set xs. error_free t) \<longrightarrow>
        scope_ok (fold (\<lambda>(p, t) scope. scope(parameter_name p \<mapsto> t)) xs m))" for m :: scope and xs :: "(Parameter \<times> ResolvedType) list"
  proof (induction xs arbitrary: m)
    case (Cons x xs)
    obtain p t where x: "x = (p, t)" by fastforce
    show ?case using Cons.IH [of "m(parameter_name p \<mapsto> t)"] scope_ok_upd [of m t "parameter_name p"] x
      by (auto simp del: fun_upd_apply)
  qed simp
  note f = this [of "zip params ts" Map.empty, folded parameter_scope_def]
  have "set (map (parameter_name \<circ> fst) (zip params ts)) \<subseteq> set (map parameter_name params)"
    by (auto dest: set_zip_leftD)
  from subset_trans [OF f [THEN conjunct1, unfolded dom_empty Un_empty_left] this]
  show "dom (parameter_scope params ts) \<subseteq> set (map parameter_name params)" .
  show "list_all error_free ts \<Longrightarrow> scope_ok (parameter_scope params ts)"
    using f by (auto simp: scope_ok_def list_all_iff dest: set_zip_rightD)
qed

lemma check_function_named:
  assumes env: "env_ok items a" and q: "an_quiet a (check_function node a)"
    and p: "an_functions a (function_name node) \<noteq> None" and f: "fieldless_item (ItFunction node)"
  shows "named_item items (ItFunction node)"
proof -
  obtain s where s: "an_functions a (function_name node) = Some s" using p by blast
  let ?scope = "parameter_scope (function_parameters node) (sig_parameters s)"
  let ?a = "a\<lparr>an_async := function_async node\<rparr>"
  have e: "list_all error_free (sig_parameters s)" "error_free (sig_result s)"
    using env s by (auto simp: env_ok_def)
  have "an_quiet ?a (snd (check_body (function_block node) ?scope (sig_result s) ?a))"
    using q s by (simp add: check_function_def)
  from infer_named(9) [OF _ _ parameter_scope_ok(2) [OF e(1)] e(2) this, of items]
  have "named_statements (statement_list (function_block node)) items (function_async node) (dom ?scope)"
    using f env by simp
  then show ?thesis using named_mono(5) [OF _ parameter_scope_ok(1)] by simp
qed

lemma agent_steps [stepping]:
  "steps a b \<Longrightarrow> steps a (check_agent_input agent c s node b)"
  "steps a b \<Longrightarrow> steps a (check_agent_output agent c s node b)"
  by (auto simp: check_agent_input_def check_agent_output_def stepping split: option.split)

lemma pipeline_result_steps [stepping]: "steps a b \<Longrightarrow> steps a (check_pipeline_result s node b)"
  by (auto simp: check_pipeline_result_def split_beta Let_def stepping split: option.split)

lemma check_pipeline_steps [stepping]: "steps a b \<Longrightarrow> steps a (check_pipeline node b)"
  by (auto simp: check_pipeline_def Let_def stepping split: option.split)

lemma check_state_steps [stepping]: "steps a b \<Longrightarrow> steps a (check_state node b)"
proof -
  have "steps a b \<Longrightarrow> steps a (fold check_state_field xs b)" for xs
    by (induction xs arbitrary: b) (auto simp: check_state_field_def split_beta stepping split: option.split)
  then show "steps a b \<Longrightarrow> steps a (check_state node b)" by (simp add: check_state_def)
qed

lemma pipeline_result_named:
  assumes env: "env_ok items a" and sig: "list_all error_free (sig_parameters s)" "error_free (sig_result s)"
    and q: "an_quiet a (check_pipeline_result s node a)" and f: "fieldless_item (ItPipeline node)" and asy: "\<not> an_async a"
  shows "named_item items (ItPipeline node)"
proof (cases "property (pnode_fields node) ''result''")
  case (Some p)
  let ?r = "resolve_optional (property_type p) a"
  let ?d = "case fst ?r of None \<Rightarrow> sig_result s | Some t \<Rightarrow> t"
  let ?a2 = "require_compatible (sig_result s) ?d (property_span p) ''pipeline result annotation'' (snd ?r)"
  let ?scope = "parameter_scope (pnode_parameters node) (sig_parameters s)"
  let ?i = "infer_expr (property_value p) ?scope (Some ?d) ?a2"
  have s2: "steps (snd ?r) ?a2" by (simp add: stepping)
  have s: "steps a ?a2" by (simp add: stepping)
  have "an_quiet a (require_compatible ?d (fst ?i) (espan (property_value p)) ''pipeline result'' (snd ?i))"
    using q Some by (simp add: check_pipeline_result_def split_beta Let_def)
  note q1 = quiet_chain(1) [OF infer_steps(1) [OF s] steps_require [OF steps_refl] this]
  note q2 = quiet_chain [OF s infer_steps(1) [OF steps_refl] q1]
  note q3 = quiet_chain(1) [OF steps_optional [OF steps_refl] s2 q2(1)]
  have "error_free ?d"
    using optional_error_free [OF env_symbols [OF env] q3] sig(2) by (cases "fst ?r") simp_all
  moreover have "fieldless_expr (property_value p)"
    using f Some by (auto simp: property_def list_all_iff find_Some_iff)
  ultimately have "named_expr (property_value p) items (an_async ?a2) (dom ?scope)"
    using infer_named(1) [OF _ env_ok_steps [OF env s] parameter_scope_ok(2) [OF sig(1)] _ q2(2)] by simp
  then show ?thesis
    using Some asy same_async [OF s] named_mono(1) [OF _ parameter_scope_ok(1)] by simp
qed simp

lemma check_pipeline_named:
  assumes env: "env_ok items a" and q: "an_quiet a (check_pipeline node a)" and f: "fieldless_item (ItPipeline node)"
    and asy: "\<not> an_async a"
  shows "named_item items (ItPipeline node)"
proof -
  let ?s = "case an_functions a (pnode_name node) of None \<Rightarrow> \<lparr>sig_parameters = [], sig_result = RtUnit\<rparr> | Some s \<Rightarrow> s"
  let ?a1 = "case Option.bind (property (pnode_fields node) ''agent'') property_identifier of
      None \<Rightarrow> a
    | Some agent \<Rightarrow> (case an_agents a agent of None \<Rightarrow> a
        | Some contract \<Rightarrow> check_agent_output agent contract ?s node (check_agent_input agent contract ?s node a))"
  have s: "steps a ?a1" by (auto simp: stepping split: option.split)
  have e: "list_all error_free (sig_parameters ?s)" "error_free (sig_result ?s)"
    using env by (auto simp: env_ok_def split: option.split)
  have "an_quiet a (check_pipeline_result ?s node ?a1)" using q by (simp add: check_pipeline_def Let_def)
  note q1 = quiet_chain [OF s pipeline_result_steps [OF steps_refl] this]
  show ?thesis
    using pipeline_result_named [OF env_ok_steps [OF env s] e q1(2) f] same_async [OF s] asy by simp
qed

section \<open>Accepted files\<close>

definition ready :: "Item list \<Rightarrow> Analyzer \<Rightarrow> bool" where
  "ready items a \<longleftrightarrow> env_ok items a \<and> \<not> an_async a \<and>
     (\<forall>node. ItFunction node \<in> set items \<longrightarrow> an_functions a (function_name node) \<noteq> None)"

lemma ready_steps: "ready items a \<Longrightarrow> steps a b \<Longrightarrow> ready items b"
  using env_ok_steps by (auto simp: ready_def steps_def same_tables_def)

lemma check_function_steps: "steps a (check_function node a)"
proof (cases "an_functions a (function_name node)")
  case (Some s)
  let ?a = "a\<lparr>an_async := function_async node\<rparr>"
  let ?b = "check_body (function_block node) (parameter_scope (function_parameters node) (sig_parameters s)) (sig_result s) ?a"
  have "steps ?a (snd ?b)" by (rule infer_steps(9) [OF steps_refl])
  then show ?thesis using Some by (simp add: check_function_def steps_def same_tables_def)
qed (simp add: check_function_def steps_refl)

lemma check_item_steps: "steps a (check_item item a)"
  by (cases item) (simp_all add: check_function_steps stepping)

lemma check_item_named:
  assumes "ready items a" and "item \<in> set items" and "an_quiet a (check_item item a)" and "fieldless_item item"
  shows "named_item items item"
  using assms check_function_named check_pipeline_named by (cases item) (auto simp: ready_def)

lemma check_bodies_named:
  assumes "ready items a" and "set todo \<subseteq> set items" and "an_quiet a (check_bodies todo a)"
    and "list_all fieldless_item todo"
  shows "list_all (named_item items) todo"
  using assms unfolding check_bodies_def
proof (induction todo arbitrary: a)
  case (Cons item todo)
  have g: "an_grows b (check_item x b)" for x b by (rule steps_grows [OF check_item_steps])
  note c = log_quiet_split [OF g fold_grows [OF g] Cons.prems(3) [unfolded fold_simps]]
  show ?case
    using check_item_named [OF Cons.prems(1) _ c(1)] Cons.IH [OF ready_steps [OF Cons.prems(1) check_item_steps] _ c(2)]
      Cons.prems(2,4) by simp
qed simp

lemma resolve_item_async: "an_async (resolve_item item a) = an_async a"
proof -
  have p: "an_async (resolve_property_types props b) = an_async b" for props b
    by (rule same_async [OF property_types_steps [OF steps_refl]])
  have t: "an_async (snd (resolve_types ts b)) = an_async b" for ts b
    by (rule same_async [OF steps_resolve(2) [OF steps_refl]])
  note s = same_async [OF signature_steps [OF steps_refl]] same_async [OF fields_steps [OF steps_refl]]
    same_async [OF variants_steps [OF steps_refl]] same_async [OF contract_steps [OF steps_refl]]
  show ?thesis
    by (cases item) (simp_all add: resolve_struct_def resolve_enum_def resolve_state_signature_def
      resolve_function_signature_def resolve_agent_contract_def resolve_pipeline_signature_def split_beta Let_def p t s)
qed

lemma analysis_phases:
  assumes "analysis_diagnostics (analyze file ast) = []"
  defines "items \<equiv> ast_items ast"
  defines "a1 \<equiv> collect_declarations items (new_analyzer file)"
  defines "a2 \<equiv> resolve_declarations items a1"
  shows "an_quiet (new_analyzer file) a1" and "an_quiet a1 a2" and "an_quiet a2 (check_bodies items a2)"
    and "ownership_diagnostics (analyze_ownership file ast) = []"
proof -
  have e: "an_diagnostics (check_bodies items a2) = []" "ownership_diagnostics (analyze_ownership file ast) = []"
    using assms(1) by (simp_all add: analyze_def finish_analysis_def items_def a1_def a2_def)
  have "an_quiet (new_analyzer file) (check_bodies items a2)" using e(1) by (simp add: log_quiet_def new_analyzer_def)
  moreover have g1: "an_grows (new_analyzer file) a1"
    unfolding a1_def collect_declarations_def by (rule fold_grows [OF collect_item_grows])
  moreover have g2: "an_grows a1 a2" unfolding a2_def resolve_declarations_def by (rule fold_grows [OF resolve_item_grows])
  moreover have g3: "an_grows a2 (check_bodies items a2)"
    unfolding check_bodies_def by (rule fold_grows [OF steps_grows [OF check_item_steps]])
  ultimately have q: "an_quiet (new_analyzer file) a2" "an_quiet a2 (check_bodies items a2)"
    using log_quiet_split [OF log_grows_trans [OF g1 g2] g3] by blast+
  then show "an_quiet (new_analyzer file) a1" "an_quiet a1 a2" "an_quiet a2 (check_bodies items a2)"
    using log_quiet_split [OF g1 g2 q(1)] by blast+
  show "ownership_diagnostics (analyze_ownership file ast) = []" by (rule e(2))
qed

lemma analysis_ready:
  assumes "analysis_diagnostics (analyze file ast) = []"
  shows "ready (ast_items ast) (resolve_declarations (ast_items ast) (collect_declarations (ast_items ast) (new_analyzer file)))"
proof -
  let ?items = "ast_items ast"
  let ?a1 = "collect_declarations ?items (new_analyzer file)"
  note q = analysis_phases [OF assms]
  have v: "values_ok (new_analyzer file)" by (simp add: values_ok_def new_analyzer_def bt.ok_Nil)
  have e: "env_ok ?items ?a1"
    using collect_ok [OF new_symbols_ok] by (simp add: env_ok_def collect_frame new_analyzer_def)
  have "an_async (fold collect_item xs b) = an_async b" for xs b
  proof (induction xs arbitrary: b)
    case (Cons x xs)
    have "an_async (collect_item x b) = an_async b"
      by (cases x) (simp_all add: insert_type_def insert_value_def push_error_def)
    then show ?case using Cons.IH by simp
  qed simp
  then have "\<not> an_async ?a1" by (simp add: collect_declarations_def new_analyzer_def)
  then have "env_ok ?items (resolve_declarations ?items ?a1) \<and> \<not> an_async (resolve_declarations ?items ?a1)"
    using q(2) e unfolding resolve_declarations_def
    by (intro fold_quiet [where I = "\<lambda>a. env_ok ?items a \<and> \<not> an_async a"])
       (simp_all add: resolve_item_grows resolve_item_ok resolve_item_async)
  then show ?thesis
    using resolve_functions_present [OF collect_declares [OF v q(1)]] by (simp add: ready_def)
qed

lemma analysis_named:
  assumes "analysis_diagnostics (analyze file ast) = []" and "list_all fieldless_item (ast_items ast)"
  shows "list_all (named_item (ast_items ast)) (ast_items ast)"
  using check_bodies_named [OF analysis_ready [OF assms(1)] order_refl analysis_phases(3) [OF assms(1)] assms(2)] .

end
