(* ===== verification/Hir_Lower_Sound.thy ===== *)
theory Hir_Lower_Sound
  imports Hir_Lower Semantic_Sound
begin

text \<open>
  What the lowering to HIR guarantees: it keeps its tables, it resolves every name of an accepted file,
  its types are the analyzer's, and its identities follow the names of the file.
\<close>

section \<open>Lowering changes only the counter and the log\<close>

definition lsteps :: "Lowerer \<Rightarrow> Lowerer \<Rightarrow> bool" where
  "lsteps l m \<longleftrightarrow> lw_symbols m = lw_symbols l \<and> lw_globals m = lw_globals l \<and> lw_members m = lw_members l \<and>
     lw_types m = lw_types l \<and> lw_module m = lw_module l \<and> log_grows lw_diagnostics l m"

named_theorems lowering \<open>operations that only move the counter and add diagnostics\<close>

lemma lsteps_refl [lowering]: "lsteps l l"
  by (simp add: lsteps_def log_grows_refl)

lemma lsteps_trans: "lsteps l m \<Longrightarrow> lsteps m n \<Longrightarrow> lsteps l n"
  by (auto simp: lsteps_def log_grows_def)

lemma lsteps_error [lowering]: "lsteps l m \<Longrightarrow> lsteps l (add_error sp message m)"
  by (auto simp: hir_error_def lsteps_def log_grows_def add_error_def)

lemma lsteps_allocate [lowering]: "lsteps l m \<Longrightarrow> lsteps l (snd (allocate_id m))"
  by (simp add: lsteps_def log_grows_def allocate_id_def)

lemma lsteps_value [lowering]: "lsteps l m \<Longrightarrow> lsteps l (snd (resolve_value name scope sp m))"
  by (simp add: resolve_value_def lowering split: option.split)

lemma lsteps_member [lowering]: "lsteps l m \<Longrightarrow> lsteps l (snd (resolve_member name sp m))"
  by (simp add: resolve_member_def lowering split: option.split)

lemma lsteps_literal [lowering]: "lsteps l m \<Longrightarrow> lsteps l (snd (lower_literal_hir literal sp scope m))"
  using lsteps_value [of l m]
  by (auto simp: lower_literal_hir_def split: Literal.split prod.split option.split dest: snd_eqD) (metis snd_conv)+

lemma lsteps_pattern [lowering]:
  "lsteps l m \<Longrightarrow> lsteps l (snd (snd (lower_pattern p scope m)))"
  "lsteps l m \<Longrightarrow> lsteps l (snd (snd (lower_patterns ps scope m)))"
  by (induction p and ps arbitrary: m scope and m scope rule: lower_pattern_lower_patterns.induct)
     (auto simp: split_beta Let_def lowering)

lemma lower_steps [lowering]:
  shows "\<And>scope m. lsteps l m \<Longrightarrow> lsteps l (snd (lower_expression_hir e scope m))"
    and "\<And>sp scope m. lsteps l m \<Longrightarrow> lsteps l (snd (lower_kind_hir k sp scope m))"
    and "\<And>scope m. lsteps l m \<Longrightarrow> lsteps l (snd (lower_items_hir xs scope m))"
    and "\<And>scope m. lsteps l m \<Longrightarrow> lsteps l (snd (lower_arguments_hir args scope m))"
    and "\<And>scope m. lsteps l m \<Longrightarrow> lsteps l (snd (lower_arms_hir arms scope m))"
    and "\<And>scope m. lsteps l m \<Longrightarrow> lsteps l (snd (lower_statements_hir ss scope m))"
    and "\<And>scope m. lsteps l m \<Longrightarrow> lsteps l (snd (lower_block_hir bl scope m))"
  by (induction e and k and xs and args and arms and ss and bl
      rule: lower_expression_hir_lower_kind_hir_lower_items_hir_lower_arguments_hir_lower_arms_hir_lower_statements_hir_lower_block_hir.induct)
     (auto simp: split_beta Let_def lowering split: option.split)

lemma parameters_steps [lowering]: "lsteps l m \<Longrightarrow> lsteps l (snd (snd (lower_parameters_hir ps scope m)))"
  by (induction ps arbitrary: m scope) (auto simp: split_beta Let_def lowering)

lemma function_steps [lowering]: "lsteps l m \<Longrightarrow> lsteps l (snd (lower_function_hir node m))"
  by (simp add: lower_function_hir_def split_beta Let_def lowering)

lemma pipeline_steps [lowering]: "lsteps l m \<Longrightarrow> lsteps l (snd (lower_pipeline node m))"
  by (simp add: lower_pipeline_def split_beta Let_def lowering split: option.split)

lemma kind_steps [lowering]: "lsteps l m \<Longrightarrow> lsteps l (snd (lower_definition_kind item ids m))"
  by (cases item) (simp_all add: split_beta lowering)

lemma definition_steps:
  "lower_definition item l = Some (d, m) \<Longrightarrow> lsteps l m \<and> lw_globals l (item_name item) = Some (definition_id d)"
  using kind_steps [OF lsteps_refl, of l item]
  by (auto simp: lower_definition_def bind_eq_Some_conv split_beta Let_def)

lemma definitions_steps:
  assumes "lower_definitions items l = Some (ds, m)"
  shows "lsteps l m \<and> map (\<lambda>item. lw_globals l (item_name item)) items = map (\<lambda>d. Some (definition_id d)) ds"
  using assms
proof (induction items arbitrary: l ds)
  case Nil
  then show ?case by (simp add: lsteps_refl)
next
  case (Cons item items)
  then obtain d l1 es where d: "lower_definition item l = Some (d, l1)" "lower_definitions items l1 = Some (es, m)" "ds = d # es"
    by (auto simp: bind_eq_Some_conv)
  then show ?case using definition_steps [OF d(1)] Cons.IH [OF d(2)] lsteps_trans [of l l1 m] by (auto simp: lsteps_def)
qed

section \<open>Types\<close>

text \<open>The type mentions the primitive name \<open>Unit\<close>.\<close>

fun mentions_unit :: "TypeNode \<Rightarrow> bool" where
  "mentions_unit (TypeNode (TkReference lifetime is_mut inner) sp) = mentions_unit inner"
| "mentions_unit (TypeNode (TkArray inner) sp) = mentions_unit inner"
| "mentions_unit (TypeNode (TkTuple items) sp) = list_ex mentions_unit items"
| "mentions_unit (TypeNode (TkPath segments arguments) sp) =
     (segments = [''Unit''] \<or> list_ex mentions_unit arguments)"

lemma primitive_agrees: "name \<in> set primitive_names \<Longrightarrow> name \<noteq> ''Unit'' \<Longrightarrow> Some (primitive name) = map_option RtPrimitive (primitive_type name)"
  by (auto simp: primitive_names_def primitive_type_def primitive_def)

lemma lower_symbol_agrees:
  assumes "symbols_ok a" and "name \<notin> {''Option'', ''Result''}" and "an_quiet a (snd (resolve_name name n sp a))"
  shows "n = 0" and "lower_symbol (an_symbols a) name = fst (resolve_name name n sp a) \<longleftrightarrow> name \<noteq> ''Unit''"
proof -
  show n: "n = 0"
  proof (rule ccontr)
    assume "n \<noteq> 0"
    then show False
      using assms(3) by (auto simp: resolve_name_def unknown_type_def type_arity_error_def stepping split: option.splits)
  qed
  have unit: "lower_symbol (an_symbols a) ''Unit'' \<noteq> RtUnit"
    by (auto simp: lower_symbol_def primitive_def split: option.splits TypeSymbolKind.splits)
  have "lower_symbol (an_symbols a) name = fst (resolve_name name 0 sp a)" if "name \<noteq> ''Unit''"
    using assms that n primitive_agrees [of name]
    by (cases "primitive_type name")
       (auto simp: resolve_name_def lower_symbol_def named_type_of_def symbols_ok_def unknown_type_def stepping
         split: option.splits TypeSymbolKind.splits)
  then show "lower_symbol (an_symbols a) name = fst (resolve_name name n sp a) \<longleftrightarrow> name \<noteq> ''Unit''"
    using unit n by (auto simp: resolve_name_def)
qed

lemma lower_type_agrees:
  shows "symbols_ok a \<Longrightarrow> an_quiet a (snd (resolve_type t a)) \<Longrightarrow>
      lower_type_hir t (an_symbols a) = fst (resolve_type t a) \<longleftrightarrow> \<not> mentions_unit t"
    and "symbols_ok a \<Longrightarrow> an_quiet a (snd (resolve_types ts a)) \<Longrightarrow>
      lower_types_hir ts (an_symbols a) = fst (resolve_types ts a) \<longleftrightarrow> \<not> list_ex mentions_unit ts"
proof (induction t and ts arbitrary: a and a rule: resolve_type_resolve_types.induct)
  case (4 segments arguments sp)
  have "length segments = 1"
    using 4(5) by (rule contrapos_pp) (simp add: unknown_type_def stepping)
  then obtain name where one: "segments = [name]" by (auto simp: length_Suc_conv)
  consider "name = ''Option''" | "name = ''Result''" | "name \<notin> {''Option'', ''Result''}" by blast
  then show ?case
  proof cases
    case 1
    obtain t where t: "arguments = [t]"
      using 4(5) one 1 by (auto simp: type_arity_error_def stepping split: list.splits)
    then show ?thesis using 4(1) [OF t refl, of a] 4(4,5) one 1 by (simp add: split_beta)
  next
    case 2
    obtain t u where t: "arguments = [t, u]"
      using 4(5) one 2 by (auto simp: type_arity_error_def stepping split: list.splits)
    let ?a1 = "snd (resolve_type t a)"
    have s: "steps a ?a1" by (simp add: stepping)
    have "an_quiet a (snd (resolve_type u ?a1))" using 4(5) one 2 t by (simp add: split_beta)
    note q = quiet_chain [OF s steps_resolve(1) [OF steps_refl] this]
    show ?thesis
      using 4(2) [OF t refl refl 4(4) q(1)] 4(3) [OF t refl refl symbols_ok_steps [OF 4(4) s] q(2)] one 2 t
        steps_functions [OF s] by (simp add: split_beta)
  next
    case 3
    then show ?thesis using lower_symbol_agrees [OF 4(4) 3, of "length arguments" sp] 4(5) one by simp
  qed
next
  case (6 t ts)
  have s: "steps a (snd (resolve_type t a))" by (simp add: stepping)
  have "an_quiet a (snd (resolve_types ts (snd (resolve_type t a))))" using 6(4) by (simp add: split_beta)
  note q = quiet_chain [OF s steps_resolve(2) [OF steps_refl] this]
  show ?case
    using 6(1) [OF 6(3) q(1)] 6(2) [OF symbols_ok_steps [OF 6(3) s] q(2)] steps_functions [OF s]
    by (simp add: split_beta)
qed (auto simp: split_beta)

section \<open>Indices\<close>

lemma index_global_simps [simp]:
  "lw_symbols (index_global name l) = lw_symbols l" "lw_members (index_global name l) = lw_members l"
  "lw_diagnostics (index_global name l) = lw_diagnostics l" "lw_module (index_global name l) = lw_module l"
  by (simp_all add: index_global_def allocate_id_def)

lemma index_member_simps [simp]:
  "lw_symbols (index_member key l) = lw_symbols l" "lw_globals (index_member key l) = lw_globals l"
  "lw_diagnostics (index_member key l) = lw_diagnostics l" "lw_module (index_member key l) = lw_module l"
  by (simp_all add: index_member_def allocate_id_def)

lemma fold_index_member:
  "lw_symbols (fold index_member keys l) = lw_symbols l \<and> lw_globals (fold index_member keys l) = lw_globals l \<and>
   lw_diagnostics (fold index_member keys l) = lw_diagnostics l \<and> lw_module (fold index_member keys l) = lw_module l \<and>
   dom (lw_members (fold index_member keys l)) = dom (lw_members l) \<union> set keys"
proof (induction keys arbitrary: l)
  case (Cons key keys)
  have "dom (lw_members (index_member key l)) = insert key (dom (lw_members l))"
    by (auto simp: index_member_def allocate_id_def)
  then show ?case using Cons.IH [of "index_member key l"] by auto
qed simp

lemma fold_index_global:
  "lw_diagnostics (fold (\<lambda>item. index_global (item_name item)) items l) = lw_diagnostics l \<and>
   lw_module (fold (\<lambda>item. index_global (item_name item)) items l) = lw_module l \<and>
   dom (lw_globals (fold (\<lambda>item. index_global (item_name item)) items l)) = dom (lw_globals l) \<union> set (map item_name items)"
proof (induction items arbitrary: l)
  case (Cons item items)
  have "dom (lw_globals (index_global (item_name item) l)) = insert (item_name item) (dom (lw_globals l))"
    by (auto simp: index_global_def allocate_id_def)
  then show ?case using Cons.IH [of "index_global (item_name item) l"] by auto
qed simp

text \<open>The identities of the indexed names: the module's own, below the counter, and different for
  different names.\<close>

definition ids_ok :: "Lowerer \<Rightarrow> bool" where
  "ids_ok l \<longleftrightarrow> inj_on (lw_globals l) (dom (lw_globals l)) \<and>
     (\<forall>x d. lw_globals l x = Some d \<longrightarrow> hir_module d = lw_module l \<and> hir_index d < lw_next l)"

lemma index_global_ids:
  assumes "ids_ok l" and "unat (lw_next l) + 1 < 2 ^ 32"
  shows "ids_ok (index_global name l)" and "unat (lw_next (index_global name l)) \<le> unat (lw_next l) + 1"
proof -
  have up: "lw_next l < lw_next l + 1" "unat (lw_next l + 1) = unat (lw_next l) + 1"
    using assms(2) by (simp_all add: word_less_nat_alt unat_word_ariths)
  have "lw_globals l x \<noteq> Some \<lparr>hir_module = lw_module l, hir_index = lw_next l\<rparr>" for x
    using assms(1) unfolding ids_ok_def by fastforce
  then show "ids_ok (index_global name l)"
    using assms(1) up(1) by (fastforce simp: ids_ok_def index_global_def allocate_id_def inj_on_def intro: less_trans)
  show "unat (lw_next (index_global name l)) \<le> unat (lw_next l) + 1"
    using up(2) by (simp add: index_global_def allocate_id_def)
qed

lemma index_globals_ids:
  assumes "ids_ok l" and "unat (lw_next l) + length items < 2 ^ 32"
  shows "ids_ok (index_globals items l)"
  using assms unfolding index_globals_def
proof (induction items arbitrary: l)
  case (Cons item items)
  have "unat (lw_next l) + 1 < 2 ^ 32" using Cons.prems(2) by simp
  note s = index_global_ids [OF Cons.prems(1) this, of "item_name item"]
  then show ?case using Cons.IH [OF s(1)] Cons.prems(2) by simp
qed simp

section \<open>Names resolve\<close>

abbreviation lquiet :: "Lowerer \<Rightarrow> Lowerer \<Rightarrow> bool" where
  "lquiet \<equiv> log_quiet lw_diagnostics"

definition indexed :: "Item list \<Rightarrow> Lowerer \<Rightarrow> bool" where
  "indexed items l \<longleftrightarrow> (\<forall>f. declares_function items f \<longrightarrow> lw_globals l f \<noteq> None) \<and>
     (\<forall>path n. has_constructor items path n \<longrightarrow>
        lw_members l (join ''::'' path) \<noteq> None \<or> builtin_definition (join ''::'' path) \<noteq> None)"

lemma indexed_steps: "indexed items l \<Longrightarrow> lsteps l m \<Longrightarrow> indexed items m"
  by (simp add: indexed_def lsteps_def)

lemma member_quiet: "indexed items l \<Longrightarrow> has_constructor items path n \<Longrightarrow> lquiet l (snd (resolve_member (join ''::'' path) sp l))"
  by (fastforce simp: indexed_def resolve_member_def split: option.split)

lemma lquiet_trans: "lquiet l m \<Longrightarrow> lquiet m n \<Longrightarrow> lquiet l n"
  by (simp add: log_quiet_def)

lemma pattern_lowers:
  shows "named_pattern items p \<Longrightarrow> indexed items l \<Longrightarrow>
      lquiet l (snd (snd (lower_pattern p scope l))) \<and>
      dom (fst (snd (lower_pattern p scope l))) = dom scope \<union> set (pattern_names p)"
    and "list_all (named_pattern items) ps \<Longrightarrow> indexed items l \<Longrightarrow>
      lquiet l (snd (snd (lower_patterns ps scope l))) \<and>
      dom (fst (snd (lower_patterns ps scope l))) = dom scope \<union> set (concat (map pattern_names ps))"
proof (induction p and ps arbitrary: l scope and l scope rule: lower_pattern_lower_patterns.induct)
  case (3 path sp)
  show ?case
  proof (cases "length path = 1")
    case True
    then obtain x where "path = [x]" by (auto simp: length_Suc_conv)
    then show ?thesis by (auto simp: allocate_id_def log_quiet_def)
  next
    case False
    then show ?thesis using 3 member_quiet [OF 3(2)] by (simp add: split_beta)
  qed
next
  case (4 path pats sp)
  let ?r = "resolve_member (join ''::'' path) sp l"
  have q: "lquiet l (snd ?r)" using 4(2) member_quiet [OF 4(3), of path "length pats"] by simp
  have "indexed items (snd ?r)" by (rule indexed_steps [OF 4(3) lsteps_member [OF lsteps_refl]])
  then show ?case using 4(1) [of "snd ?r" scope] 4(2) lquiet_trans [OF q] by (simp add: split_beta Let_def)
next
  case (6 p ps)
  let ?r = "lower_pattern p scope l"
  have p: "lquiet l (snd (snd ?r))" "dom (fst (snd ?r)) = dom scope \<union> set (pattern_names p)" using 6 by simp_all
  have "indexed items (snd (snd ?r))" by (rule indexed_steps [OF 6(4) lsteps_pattern(1) [OF lsteps_refl]])
  then show ?case
    using 6(2) [of "snd (snd ?r)" "fst (snd ?r)"] 6(3) lquiet_trans [OF p(1)] p(2) by (auto simp: split_beta Let_def)
qed simp_all

lemma literal_lowers:
  assumes "named_expr (Expr (EkLiteral literal) sp') items asy locals" and "locals \<subseteq> dom scope" and "indexed items l"
  shows "lquiet l (snd (lower_literal_hir literal sp scope l))"
proof (cases literal)
  case (LIdentifier name)
  then have "name = ''none'' \<or> scope name \<noteq> None \<or> lw_globals l name \<noteq> None"
    using assms by (auto simp: indexed_def)
  then show ?thesis using LIdentifier by (auto simp: lower_literal_hir_def resolve_value_def split: option.split)
qed (simp_all add: lower_literal_hir_def)

lemma lower_named:
  shows "\<And>scope l locals. named_expr e items asy locals \<Longrightarrow> fieldless_expr e \<Longrightarrow> locals \<subseteq> dom scope \<Longrightarrow> indexed items l \<Longrightarrow>
      lquiet l (snd (lower_expression_hir e scope l))"
    and "\<And>sp sp' scope l locals. named_expr (Expr k sp') items asy locals \<Longrightarrow> fieldless_expr (Expr k sp') \<Longrightarrow>
      locals \<subseteq> dom scope \<Longrightarrow> indexed items l \<Longrightarrow> lquiet l (snd (lower_kind_hir k sp scope l))"
    and "\<And>scope l locals. named_items xs items asy locals \<Longrightarrow> list_all fieldless_expr xs \<Longrightarrow> locals \<subseteq> dom scope \<Longrightarrow>
      indexed items l \<Longrightarrow> lquiet l (snd (lower_items_hir xs scope l))"
    and "\<And>scope l locals. named_arguments args items asy locals \<Longrightarrow> list_all fieldless_argument args \<Longrightarrow> locals \<subseteq> dom scope \<Longrightarrow>
      indexed items l \<Longrightarrow> lquiet l (snd (lower_arguments_hir args scope l))"
    and "\<And>scope l locals. named_arms arms items asy locals \<Longrightarrow> list_all fieldless_arm arms \<Longrightarrow> locals \<subseteq> dom scope \<Longrightarrow>
      indexed items l \<Longrightarrow> lquiet l (snd (lower_arms_hir arms scope l))"
    and "\<And>scope l locals. named_statements ss items asy locals \<Longrightarrow> list_all fieldless_statement ss \<Longrightarrow> locals \<subseteq> dom scope \<Longrightarrow>
      indexed items l \<Longrightarrow> lquiet l (snd (lower_statements_hir ss scope l))"
    and "\<And>scope l locals. named_statements (statement_list bl) items asy locals \<Longrightarrow>
      list_all fieldless_statement (statement_list bl) \<Longrightarrow> locals \<subseteq> dom scope \<Longrightarrow>
      indexed items l \<Longrightarrow> lquiet l (snd (lower_block_hir bl scope l))"
proof (induction e and k and xs and args and arms and ss and bl
    rule: lower_expression_hir_lower_kind_hir_lower_items_hir_lower_arguments_hir_lower_arms_hir_lower_statements_hir_lower_block_hir.induct)
  case (3 x)
  have "named_expr x items asy locals" "fieldless_expr x" using 3(2,3) by auto
  from 3(1) [OF this 3(4,5)] show ?case by (simp add: split_beta)
next
  case (4 literal)
  then show ?case using literal_lowers by simp
next
  case (5 segments)
  then have "has_constructor items segments 0" by (auto simp: has_constructor_def)
  then show ?case using member_quiet [OF 5(4)] by (simp add: split_beta)
next
  case (7 callee arguments)
  let ?r = "lower_expression_hir callee scope l"
  have "lquiet l (snd ?r)"
  proof (cases "callee_path callee")
    case None
    then show ?thesis using 7(1) [of locals scope l] 7(3-6) by simp
  next
    case (Some path)
    then obtain sp where c: "callee = Expr (EkPath path) sp"
      by (cases callee) (auto simp: callee_path_def split: ExprKind.splits)
    then show ?thesis using 7(3) Some member_quiet [OF 7(6), of path "length arguments"] by (simp add: split_beta)
  qed
  from lquiet_trans [OF this 7(2) [OF _ _ 7(5) indexed_steps [OF 7(6) lower_steps(1) [OF lsteps_refl]]]]
  show ?case using 7(3,4) by (simp add: split_beta)
next
  case (10 op left right)
  from lquiet_trans [OF 10(1) [OF _ _ 10(5,6)] 10(2) [OF _ _ 10(5) indexed_steps [OF 10(6) lower_steps(1) [OF lsteps_refl]]]]
  show ?case using 10(3,4) by (simp add: split_beta)
next
  case (11 v arms)
  from lquiet_trans [OF 11(1) [OF _ _ 11(5,6)] 11(2) [OF _ _ 11(5) indexed_steps [OF 11(6) lower_steps(1) [OF lsteps_refl]]]]
  show ?case using 11(3,4) by (simp add: split_beta)
next
  case (14 x xs)
  from lquiet_trans [OF 14(1) [OF _ _ 14(5,6)] 14(2) [OF _ _ 14(5) indexed_steps [OF 14(6) lower_steps(1) [OF lsteps_refl]]]]
  show ?case using 14(3,4) by (simp add: split_beta)
next
  case (16 name x sp xs)
  from lquiet_trans [OF 16(1) [OF _ _ 16(5,6)] 16(2) [OF _ _ 16(5) indexed_steps [OF 16(6) lower_steps(1) [OF lsteps_refl]]]]
  show ?case using 16(3,4) by (simp add: split_beta)
next
  case (18 pat guard body sp arms)
  let ?p = "lower_pattern pat scope l"
  let ?s = "fst (snd ?p)" and ?l1 = "snd (snd ?p)"
  let ?l2 = "case guard of None \<Rightarrow> ?l1 | Some x \<Rightarrow> snd (lower_expression_hir x ?s ?l1)"
  let ?l3 = "snd (lower_expression_hir body ?s ?l2)"
  have p: "lquiet l ?l1" "dom ?s = dom scope \<union> set (pattern_names pat)"
    using pattern_lowers(1) [of items pat l scope] 18(4,7) by simp_all
  have s1: "lsteps l ?l1" and s2: "lsteps l ?l2" and s3: "lsteps l ?l3" by (auto simp: lowering split: option.split)
  have u: "locals \<union> set (pattern_names pat) \<subseteq> dom ?s" using p(2) 18(6) by blast
  have "lquiet ?l1 ?l2"
  proof (cases guard)
    case (Some x)
    then show ?thesis using 18(1) [OF Some _ _ u indexed_steps [OF 18(7) s1]] 18(4,5) by simp
  qed simp
  moreover have "lquiet ?l2 ?l3" using 18(2) [OF _ _ u indexed_steps [OF 18(7) s2]] 18(4,5) by simp
  moreover have "lquiet ?l3 (snd (lower_arms_hir arms scope ?l3))"
    using 18(3) [OF _ _ 18(6) indexed_steps [OF 18(7) s3]] 18(4,5) by simp
  ultimately have "lquiet l (snd (lower_arms_hir arms scope ?l3))" using p(1) lquiet_trans by blast
  moreover have "snd (lower_arms_hir (MatchArm pat guard body sp # arms) scope l) = snd (lower_arms_hir arms scope ?l3)"
    by (simp add: split_beta Let_def split: option.split)
  ultimately show ?case by simp
next
  case (20 name ty v sp ss)
  let ?l1 = "snd (lower_expression_hir v scope l)"
  let ?l2 = "snd (allocate_id ?l1)"
  let ?scope = "scope(name \<mapsto> fst (allocate_id ?l1))"
  have s2: "lsteps l ?l2" by (simp add: lowering)
  have "lquiet l ?l2" using 20(1) [OF _ _ 20(5,6)] 20(3,4) by (simp add: allocate_id_def log_quiet_def)
  moreover have "insert name locals \<subseteq> dom ?scope" using 20(5) by auto
  from 20(2) [OF _ _ this indexed_steps [OF 20(6) s2]]
  have "lquiet ?l2 (snd (lower_statements_hir ss ?scope ?l2))" using 20(3,4) by (simp del: fun_upd_apply)
  ultimately have "lquiet l (snd (lower_statements_hir ss ?scope ?l2))" by (rule lquiet_trans)
  then show ?case by (simp add: split_beta Let_def)
next
  case (21 v sp ss)
  let ?l1 = "case v of None \<Rightarrow> l | Some x \<Rightarrow> snd (lower_expression_hir x scope l)"
  have s1: "lsteps l ?l1" by (simp add: lowering split: option.split)
  have "lquiet l ?l1"
  proof (cases v)
    case (Some x)
    then show ?thesis using 21(1) [OF Some _ _ 21(5,6)] 21(3,4) by simp
  qed simp
  moreover have "lquiet ?l1 (snd (lower_statements_hir ss scope ?l1))"
    using 21(2) [OF _ _ 21(5) indexed_steps [OF 21(6) s1]] 21(3,4) by simp
  ultimately have "lquiet l (snd (lower_statements_hir ss scope ?l1))" by (rule lquiet_trans)
  then show ?case by (simp add: split_beta Let_def split: option.splits)
next
  case (22 x sp ss)
  from lquiet_trans [OF 22(1) [OF _ _ 22(5,6)] 22(2) [OF _ _ 22(5) indexed_steps [OF 22(6) lower_steps(1) [OF lsteps_refl]]]]
  show ?case using 22(3,4) by (simp add: split_beta)
next
  case (12 block)
  then show ?case by (cases block) (simp add: split_beta)
qed (simp_all add: split_beta)

section \<open>Definitions\<close>

lemma parameters_lower:
  "lquiet l (snd (snd (lower_parameters_hir ps scope l))) \<and>
   dom (fst (snd (lower_parameters_hir ps scope l))) = dom scope \<union> set (map parameter_name ps)"
proof (induction ps arbitrary: scope l)
  case (Cons p ps)
  let ?l1 = "snd (allocate_id l)"
  let ?scope = "scope(parameter_name p \<mapsto> fst (allocate_id l))"
  have "lquiet l ?l1" by (simp add: allocate_id_def log_quiet_def)
  moreover have "dom ?scope = insert (parameter_name p) (dom scope)" by auto
  ultimately show ?case
    using Cons.IH [of ?l1 ?scope] lquiet_trans [of l ?l1] by (auto simp: split_beta Let_def simp del: fun_upd_apply)
qed simp

lemma function_lowers:
  assumes "named_item items (ItFunction node)" and "fieldless_item (ItFunction node)" and "indexed items l"
  shows "lquiet l (snd (lower_function_hir node l))"
proof -
  let ?p = "lower_parameters_hir (function_parameters node) Map.empty l"
  have "lquiet (snd (snd ?p)) (snd (lower_block_hir (function_block node) (fst (snd ?p)) (snd (snd ?p))))"
    using assms parameters_lower [of l "function_parameters node" Map.empty]
    by (intro lower_named(7) [OF _ _ _ indexed_steps [OF assms(3) parameters_steps [OF lsteps_refl]]]) auto
  then show ?thesis
    using parameters_lower [of l "function_parameters node" Map.empty] lquiet_trans
    by (auto simp: lower_function_hir_def split_beta Let_def)
qed

lemma pipeline_lowers:
  assumes "named_item items (ItPipeline node)" and "fieldless_item (ItPipeline node)" and "indexed items l"
    and "last_property (pnode_fields node) ''result'' = property (pnode_fields node) ''result''"
  shows "lquiet l (snd (lower_pipeline node l))"
proof -
  let ?p = "lower_parameters_hir (pnode_parameters node) Map.empty l"
  note ps = parameters_lower [of l "pnode_parameters node" Map.empty]
  have "lquiet l (snd (lower_expression_hir (property_value p) (fst (snd ?p)) (snd (snd ?p))))"
    if f: "property (pnode_fields node) ''result'' = Some p" for p
  proof -
    have "fieldless_expr (property_value p)" using assms(2) f by (auto simp: property_def list_all_iff find_Some_iff)
    then have "lquiet (snd (snd ?p)) (snd (lower_expression_hir (property_value p) (fst (snd ?p)) (snd (snd ?p))))"
      using assms(1) f ps
      by (intro lower_named(1) [OF _ _ _ indexed_steps [OF assms(3) parameters_steps [OF lsteps_refl]]]) auto
    with ps show ?thesis using lquiet_trans by blast
  qed
  then show ?thesis using ps by (auto simp: lower_pipeline_def split_beta Let_def assms(4) split: option.split)
qed

fun single_result :: "Item \<Rightarrow> bool" where
  "single_result (ItPipeline node) =
     (last_property (pnode_fields node) ''result'' = property (pnode_fields node) ''result'')"
| "single_result _ = True"

lemma kind_lowers:
  assumes "named_item items item" and "fieldless_item item" and "indexed items l" and "single_result item"
  shows "lquiet l (snd (lower_definition_kind item ids l))"
  using assms function_lowers [OF _ _ assms(3)] pipeline_lowers [OF _ _ assms(3)]
  by (cases item) (simp_all add: split_beta)

lemma those_some: "(\<And>x. x \<in> set xs \<Longrightarrow> g x \<noteq> None) \<Longrightarrow> \<exists>ys. those (map g xs) = Some ys"
proof (induction xs)
  case (Cons a xs)
  have "g a \<noteq> None" using Cons.prems by simp
  moreover have "\<exists>ys. those (map g xs) = Some ys" using Cons.prems by (intro Cons.IH) simp
  ultimately show ?case by auto
qed simp

lemma definitions_lower:
  assumes "indexed items l" and "\<And>item. item \<in> set todo \<Longrightarrow>
      named_item items item \<and> fieldless_item item \<and> single_result item \<and> lw_globals l (item_name item) \<noteq> None \<and>
      set (member_keys item) \<subseteq> dom (lw_members l)"
  shows "\<exists>ds m. lower_definitions todo l = Some (ds, m) \<and> lquiet l m"
  using assms
proof (induction todo arbitrary: l)
  case (Cons item todo)
  obtain d where d: "lw_globals l (item_name item) = Some d" using Cons.prems(2) [of item] by auto
  obtain ids where i: "member_ids item l = Some ids"
    using Cons.prems(2) [of item] those_some [of "member_keys item" "lw_members l"] by (auto simp: member_ids_def)
  let ?k = "lower_definition_kind item ids l"
  have q: "lquiet l (snd ?k)" using Cons.prems by (intro kind_lowers) simp_all
  have s: "lsteps l (snd ?k)" by (rule kind_steps [OF lsteps_refl])
  have "\<exists>ds m. lower_definitions todo (snd ?k) = Some (ds, m) \<and> lquiet (snd ?k) m"
    using s Cons.prems(2) by (intro Cons.IH indexed_steps [OF Cons.prems(1) s]) (auto simp: lsteps_def)
  then obtain ds m where "lower_definitions todo (snd ?k) = Some (ds, m)" "lquiet (snd ?k) m" by blast
  then show ?case using d i lquiet_trans [OF q] by (auto simp: lower_definition_def split_beta)
qed simp

lemma has_variant_enum:
  assumes "has_variant items e x n"
  shows "\<exists>node. ItEnum node \<in> set items \<and> enum_name node = e \<and> (\<exists>v \<in> set (enum_variants node). ev_name v = x)"
proof -
  obtain item where i: "item \<in> set items" "case item of
      ItEnum node \<Rightarrow> enum_name node = e \<and> list_ex (\<lambda>v. ev_name v = x \<and> length (ev_fields v) = n) (enum_variants node)
    | _ \<Rightarrow> False"
    using assms by (auto simp: has_variant_def list_ex_iff)
  from i(2) show ?thesis using i(1) by - (cases item, auto simp: list_ex_iff)
qed

lemma indices_complete:
  fixes l :: Lowerer and items :: "Item list"
  defines "m \<equiv> index_members items (index_globals items l)"
  shows "indexed items m" and "item \<in> set items \<Longrightarrow> lw_globals m (item_name item) \<noteq> None"
    and "item \<in> set items \<Longrightarrow> set (member_keys item) \<subseteq> dom (lw_members m)" and "lquiet l m"
    and "lw_module m = lw_module l" and "lw_globals m = lw_globals (index_globals items l)"
proof -
  note g = fold_index_global [of items l, folded index_globals_def]
  note k = fold_index_member [of "concat (map member_keys items)" "index_globals items l", folded index_members_def, folded m_def]
  show gm: "lw_globals m = lw_globals (index_globals items l)" "lw_module m = lw_module l" "lquiet l m"
    using g k by (simp_all add: log_quiet_def)
  show n: "item \<in> set items \<Longrightarrow> lw_globals m (item_name item) \<noteq> None" for item
    using g gm by (auto simp: domIff dest: equalityD2)
  show ms: "item \<in> set items \<Longrightarrow> set (member_keys item) \<subseteq> dom (lw_members m)" for item
    using k by auto
  show "indexed items m"
    unfolding indexed_def
  proof (intro conjI allI impI)
    fix f
    assume "declares_function items f"
    then obtain item where "item \<in> set items"
        "case item of ItFunction node \<Rightarrow> function_name node = f | ItPipeline node \<Rightarrow> pnode_name node = f | _ \<Rightarrow> False"
      by (auto simp: declares_function_def list_ex_iff)
    then show "lw_globals m f \<noteq> None" using n [of item] by - (cases item, auto)
  next
    fix path n
    assume h: "has_constructor items path n"
    show "lw_members m (join ''::'' path) \<noteq> None \<or> builtin_definition (join ''::'' path) \<noteq> None"
    proof (cases "has_variant items (path ! 0) (path ! 1) n")
      case True
      have p: "path = [path ! 0, path ! 1]" using h by (auto simp: has_constructor_def list_eq_iff_nth_eq less_Suc_eq numeral_2_eq_2)
      obtain node v where node: "ItEnum node \<in> set items" "enum_name node = path ! 0" "v \<in> set (enum_variants node)" "ev_name v = path ! 1"
        using has_variant_enum [OF True] by blast
      then have "path ! 0 @ ''::'' @ path ! 1 \<in> set (member_keys (ItEnum node))" by force
      then have "lw_members m (path ! 0 @ ''::'' @ path ! 1) \<noteq> None" using ms [OF node(1)] by blast
      moreover have "join ''::'' path = path ! 0 @ ''::'' @ path ! 1" by (subst p) simp
      ultimately show ?thesis by simp
    next
      case False
      then show ?thesis using h by (auto simp: has_constructor_def builtin_definition_def)
    qed
  qed
qed

section \<open>Accepted files lower\<close>

lemma lower_module_total:
  assumes "lower_definitions items (index_members items (index_globals items l)) = Some (ds, m)"
    and "lw_diagnostics m = []"
  shows "\<exists>entry. lower_module items l = Some (Inr (\<lparr>hir_module_id = lw_module m, hir_definitions = ds\<rparr>, entry, lw_next m))"
proof -
  have "lw_globals m ''main'' \<noteq> None" if "list_ex (\<lambda>item. item_name item = ''main'') items"
    using that indices_complete(2) [of _ items l] definitions_steps [OF assms(1)] by (force simp: list_ex_iff lsteps_def)
  then show ?thesis using assms by (auto simp: lower_module_def)
qed

lemma accepted_lowers:
  assumes "analysis_diagnostics (analyze ''<hir>'' ast) = []"
    and "list_all fieldless_item (ast_items ast)" and "list_all single_result (ast_items ast)"
  shows "\<exists>p. lower_to_hir ast (analysis_symbols (analyze ''<hir>'' ast)) = Some (Inr p)"
proof -
  let ?items = "ast_items ast"
  let ?l = "new_lowerer (analyze ''<hir>'' ast)"
  let ?m = "index_members ?items (index_globals ?items ?l)"
  note i = indices_complete(1,4) [where items = ?items and l = ?l] indices_complete(2,3) [where items = ?items and l = ?l]
  note n = analysis_named [OF assms(1,2)]
  have "\<exists>ds m. lower_definitions ?items ?m = Some (ds, m) \<and> lquiet ?m m"
    using n assms(2,3) i(3,4) by (intro definitions_lower [OF i(1)]) (simp add: list_all_iff)
  then obtain ds m where d: "lower_definitions ?items ?m = Some (ds, m)" "lquiet ?m m" by blast
  then have "lw_diagnostics m = []" using i(2) by (simp add: log_quiet_def new_lowerer_def new_planned_def)
  from lower_module_total [OF d(1) this] show ?thesis using assms(1) by (auto simp: lower_to_hir_def lower_def)
qed

lemma lowered_definitions:
  assumes "lower_to_hir ast symbols = Some (Inr p)"
  obtains ds where "all_definitions p = ds"
    and "map (\<lambda>d. Some (definition_id d)) ds =
      map (\<lambda>item. lw_globals (index_globals (ast_items ast) (new_lowerer (analyze ''<hir>'' ast))) (item_name item)) (ast_items ast)"
proof -
  let ?items = "ast_items ast"
  let ?l = "new_lowerer (analyze ''<hir>'' ast)"
  have "lower ast (analyze ''<hir>'' ast) = Some (Inr p)"
    using assms by (auto simp: lower_to_hir_def Let_def split: if_splits)
  then obtain r where r: "lower_module ?items ?l = Some r"
      "map_sum id (\<lambda>(m, entry, n). \<lparr>schema_version = 1, hir_modules = [m], hir_entry = entry\<rparr>) r = Inr p"
    by (auto simp: lower_def)
  then obtain m entry n where "lower_module ?items ?l = Some (Inr (m, entry, n))" "p = \<lparr>schema_version = 1, hir_modules = [m], hir_entry = entry\<rparr>"
    by (cases r) auto
  moreover then obtain ds l1 where "lower_definitions ?items (index_members ?items (index_globals ?items ?l)) = Some (ds, l1)"
      "hir_definitions m = ds"
    by (auto simp: lower_module_def bind_eq_Some_conv split: if_splits)
  ultimately show thesis
    using that [of ds] definitions_steps [of ?items "index_members ?items (index_globals ?items ?l)" ds l1] indices_complete(6) by simp
qed

lemma lowered_ids_distinct:
  assumes "lower_to_hir ast symbols = Some (Inr p)" and "length (ast_items ast) < 2 ^ 32"
  shows "distinct (map definition_id (all_definitions p)) \<longleftrightarrow> distinct (map item_name (ast_items ast))"
proof -
  let ?g = "lw_globals (index_globals (ast_items ast) (new_lowerer (analyze ''<hir>'' ast)))"
  obtain ds where ds: "all_definitions p = ds" "map (\<lambda>d. Some (definition_id d)) ds = map (\<lambda>item. ?g (item_name item)) (ast_items ast)"
    using lowered_definitions [OF assms(1)] .
  have "ids_ok (index_globals (ast_items ast) (new_lowerer (analyze ''<hir>'' ast)))"
    using assms(2) by (intro index_globals_ids) (simp_all add: new_lowerer_def new_planned_def ids_ok_def)
  then have inj: "inj_on ?g (dom ?g)" by (simp add: ids_ok_def)
  have "set (map item_name (ast_items ast)) \<subseteq> dom ?g"
    using fold_index_global [of "ast_items ast" "new_lowerer (analyze ''<hir>'' ast)"] by (auto simp: index_globals_def)
  then have i: "inj_on ?g (set (map item_name (ast_items ast)))" using inj inj_on_subset by blast
  have "distinct (map definition_id ds) \<longleftrightarrow> distinct (map (\<lambda>d. Some (definition_id d)) ds)"
    using distinct_map [of Some "map definition_id ds"] by (simp add: comp_def)
  also have "\<dots> \<longleftrightarrow> distinct (map ?g (map item_name (ast_items ast)))" by (simp add: ds(2) comp_def)
  also have "\<dots> \<longleftrightarrow> distinct (map item_name (ast_items ast))" using i by (subst distinct_map) blast
  finally show ?thesis using ds(1) by simp
qed

end
