(* ===== verification/Match_Sound.thy ===== *)
theory Match_Sound
  imports Semantic_Sound
begin

text \<open>
  Exhaustiveness of accepted matches. Values are seen as patterns see them: a variant with its payload,
  a Boolean, or something no pattern but a wildcard or a binding can take.
\<close>

section \<open>Matching\<close>

datatype pvalue = PvVariant string "pvalue list" | PvBool bool | PvOther

fun matches_pattern :: "Pattern \<Rightarrow> pvalue \<Rightarrow> bool"
  and matches_patterns :: "Pattern list \<Rightarrow> pvalue list \<Rightarrow> bool" where
  "matches_pattern (Pattern PkWildcard sp) = (\<lambda>v. True)"
| "matches_pattern (Pattern (PkPath path) sp) =
     (\<lambda>v. length path = 1 \<or>
        (case v of PvVariant x vs \<Rightarrow> path \<noteq> [] \<and> last path = x \<and> vs = [] | _ \<Rightarrow> False))"
| "matches_pattern (Pattern (PkConstructor path pats) sp) =
     (\<lambda>v. case v of
        PvVariant x vs \<Rightarrow> path \<noteq> [] \<and> last path = x \<and> length vs = length pats \<and> matches_patterns pats vs
      | _ \<Rightarrow> False)"
| "matches_pattern (Pattern (PkLiteral literal) sp) =
     (\<lambda>v. case literal of LBoolean b \<Rightarrow> v = PvBool b | _ \<Rightarrow> False)"
| "matches_patterns [] = (\<lambda>vs. True)"
| "matches_patterns (p # ps) =
     (\<lambda>vs. case vs of [] \<Rightarrow> True | v # vs \<Rightarrow> matches_pattern p v \<and> matches_patterns ps vs)"

text \<open>The values of a closed type: user enumerations, \<open>Option\<close>, \<open>Result\<close> and \<open>Bool\<close>.\<close>

definition value_of_type :: "Analyzer \<Rightarrow> ResolvedType \<Rightarrow> pvalue \<Rightarrow> bool" where
  "value_of_type a t w =
     (case t of
        RtEnum enum \<Rightarrow>
          (case w of
             PvVariant x vs \<Rightarrow> (case find_variant a enum x of None \<Rightarrow> False | Some ts \<Rightarrow> length vs = length ts)
           | _ \<Rightarrow> False)
      | RtOption _ \<Rightarrow>
          (case w of PvVariant x vs \<Rightarrow> x = ''some'' \<and> length vs = 1 \<or> x = ''none'' \<and> vs = [] | _ \<Rightarrow> False)
      | RtResult _ _ \<Rightarrow>
          (case w of PvVariant x vs \<Rightarrow> (x = ''ok'' \<or> x = ''err'') \<and> length vs = 1 | _ \<Rightarrow> False)
      | RtPrimitive PrimBool \<Rightarrow> (case w of PvBool b \<Rightarrow> True | _ \<Rightarrow> False)
      | _ \<Rightarrow> False)"

text \<open>Constructor patterns of unguarded arms take any payload.\<close>

definition shallow_arm :: "MatchArm \<Rightarrow> bool" where
  "shallow_arm arm \<longleftrightarrow> arm_guard arm = None \<longrightarrow>
     (case pattern_kind (arm_pattern arm) of PkConstructor path pats \<Rightarrow> list_all catches_all pats | _ \<Rightarrow> True)"

lemma catches_all_matches: "catches_all p \<Longrightarrow> matches_pattern p v"
  by (cases p rule: matches_pattern.cases) (auto simp: catches_all_def)

lemma catch_all_patterns: "list_all catches_all ps \<Longrightarrow> matches_patterns ps vs"
  by (induction ps arbitrary: vs) (auto simp: catches_all_matches split: list.split)

section \<open>Accepted patterns\<close>

lemma variant_payload_steps: "steps a b \<Longrightarrow> variant_payload b t e x = variant_payload a t e x"
  by (auto simp: variant_payload_def find_variant_def steps_def same_tables_def split: ResolvedType.split)

text \<open>A variant pattern that is accepted for a closed type names a variant of that type and has as
  many fields as it.\<close>

lemma accepted_variant:
  assumes "an_quiet b (snd (variant_fields_types path n t sp b))" and "t \<noteq> RtError"
  obtains e x ts where "path = [e, x]" and "variant_payload b t e x = Some ts" and "length ts = n"
  using assms
  by (auto simp: variant_fields_types_def stepping split_path_Some split: option.splits if_splits)

lemma payload_arity:
  assumes "variant_payload a t e x = Some ts" and "value_of_type a t (PvVariant x vs)"
  shows "length vs = length ts"
  using assms
  by (auto simp: variant_payload_def value_of_type_def split: ResolvedType.splits if_splits option.splits PrimitiveType.splits)

lemma closed_not_error: "value_of_type a t w \<Longrightarrow> t \<noteq> RtError"
  by (auto simp: value_of_type_def)

lemma find_variant_steps: "steps a b \<Longrightarrow> find_variant b = find_variant a"
  by (simp add: fun_eq_iff find_variant_def steps_def same_tables_def)

lemma value_of_type_steps: "steps a b \<Longrightarrow> value_of_type b t w = value_of_type a t w"
  unfolding value_of_type_def by (subst find_variant_steps) simp_all

lemma accepted_pattern_matches:
  assumes q: "an_quiet b (snd (check_pattern p t scope b))" and w: "value_of_type b t w"
    and s: "case pattern_kind p of PkConstructor path pats \<Rightarrow> list_all catches_all pats | _ \<Rightarrow> True"
    and c: "covered_variant p = Some (case w of PvVariant x vs \<Rightarrow> x | PvBool v \<Rightarrow> if v then ''true'' else ''false'' | PvOther \<Rightarrow> [])"
  shows "matches_pattern p w"
proof -
  obtain k sp where p: "p = Pattern k sp" by (cases p)
  note ne = closed_not_error [OF w]
  have bool: "\<nexists>v. w = PvBool v" if "variant_payload b t e x = Some ts" for e x ts
    using w that by (auto simp: value_of_type_def variant_payload_def split: ResolvedType.splits PrimitiveType.splits)
  show ?thesis
  proof (cases k)
    case (PkPath path)
    show ?thesis
    proof (cases "length path = 1")
      case False
      then have "an_quiet b (snd (variant_fields_types path 0 t sp b))" using q p PkPath by simp
      then obtain e x ts where v: "path = [e, x]" "variant_payload b t e x = Some ts" "length ts = 0"
        using accepted_variant [OF _ ne] by metis
      then obtain y vs where y: "w = PvVariant y vs" using bool w by (cases w) (auto simp: value_of_type_def split: ResolvedType.splits PrimitiveType.splits)
      then have "y = x" using c p PkPath v(1) by (simp add: covered_variant_def)
      then show ?thesis using payload_arity [OF v(2)] w y p PkPath v by simp
    qed (use p PkPath in simp)
  next
    case (PkConstructor path pats)
    let ?r = "variant_fields_types path (length pats) t sp b"
    have "an_quiet b (snd (check_patterns pats (fst ?r) scope (snd ?r)))" using q p PkConstructor by (simp add: split_beta)
    from quiet_chain(1) [OF steps_variant_fields [OF steps_refl] steps_pattern(2) [OF steps_refl] this]
    obtain e x ts where v: "path = [e, x]" "variant_payload b t e x = Some ts" "length ts = length pats"
      using accepted_variant [OF _ ne] by metis
    then obtain y vs where y: "w = PvVariant y vs" using bool w by (cases w) (auto simp: value_of_type_def split: ResolvedType.splits PrimitiveType.splits)
    then have "y = x" using c p PkConstructor v(1) by (simp add: covered_variant_def)
    then show ?thesis
      using payload_arity [OF v(2)] w y p PkConstructor v catch_all_patterns s by simp
  next
    case (PkLiteral literal)
    then obtain v where l: "literal = LBoolean v" using c p by (cases literal) (simp_all add: covered_variant_def)
    have "compatible t bool_type"
      using q p PkLiteral l by (auto simp: literal_pattern_type_def require_compatible_def stepping split: if_splits)
    then have "t = bool_type"
      using w by (cases t) (auto simp: value_of_type_def absorbs_def bool_type_def split: PrimitiveType.splits)
    then obtain u where "w = PvBool u" using w by (cases w) (auto simp: value_of_type_def bool_type_def)
    then show ?thesis using c p PkLiteral l by (simp add: covered_variant_def split: if_splits)
  qed (use p in simp)
qed

section \<open>Accepted matches\<close>

lemma arms_patterns:
  assumes "an_quiet a (snd (infer_arms arms t scope expected result a))" and "arm \<in> set arms"
  shows "\<exists>b. steps a b \<and> an_quiet b (snd (check_pattern (arm_pattern arm) t scope b))"
  using assms
proof (induction arms arbitrary: result a)
  case (Cons x arms)
  obtain pat guard body sp where x: "x = MatchArm pat guard body sp" by (cases x)
  let ?p = "check_pattern pat t scope a"
  let ?g = "\<lambda>g. infer_expr g (fst ?p) (Some bool_type) (snd ?p)"
  let ?a2 = "case guard of None \<Rightarrow> snd ?p
    | Some g \<Rightarrow> require_compatible bool_type (fst (?g g)) (espan g) ''match guard'' (snd (?g g))"
  let ?r = "infer_expr body (fst ?p) expected ?a2"
  let ?u = "unify_type result (fst ?r) (espan body) ''match arm'' (snd ?r)"
  have e: "infer_arms (x # arms) t scope expected result a = infer_arms arms t scope expected (fst ?u) (snd ?u)"
    unfolding x by (simp add: split_beta Let_def split: option.split)
  have s1: "steps (snd ?p) (snd ?u)" by (auto simp: stepping split: option.split)
  have s: "steps a (snd ?u)" by (rule steps_trans [OF steps_pattern(1) [OF steps_refl] s1])
  note q = quiet_chain [OF s infer_steps(7) [OF steps_refl] Cons.prems(1) [unfolded e]]
  show ?case
  proof (cases "arm = x")
    case True
    then show ?thesis
      using quiet_chain(1) [OF steps_pattern(1) [OF steps_refl] s1 q(1)] x steps_refl by auto
  next
    case False
    then show ?thesis using Cons.IH [OF q(2)] Cons.prems(2) steps_trans [OF s] by auto
  qed
qed simp

lemma exhaustive_covers:
  assumes "an_quiet a (check_exhaustive sp t arms a)" and "required_variants a t = Some needed" and "x \<in> set needed"
  shows "\<exists>arm \<in> set arms. arm_guard arm = None \<and> (catches_all (arm_pattern arm) \<or> covered_variant (arm_pattern arm) = Some x)"
proof (cases "list_ex (\<lambda>arm. arm_guard arm = None \<and> catches_all (arm_pattern arm)) arms")
  case False
  let ?covered = "List.map_filter (\<lambda>arm. covered_variant (arm_pattern arm)) (filter (\<lambda>arm. arm_guard arm = None) arms)"
  have "filter (\<lambda>variant. variant \<notin> set ?covered) needed = []"
    using assms(1,2) False by (auto simp: check_exhaustive_def Let_def stepping split: if_splits)
  then have "x \<in> set ?covered" using assms(3) by (auto simp: filter_empty_conv)
  then show ?thesis by (auto simp: List.map_filter_def)
qed (auto simp: list_ex_iff)

definition variant_tag :: "pvalue \<Rightarrow> string" where
  "variant_tag w = (case w of PvVariant x vs \<Rightarrow> x | PvBool v \<Rightarrow> if v then ''true'' else ''false'' | PvOther \<Rightarrow> [])"

lemma found_variant_name:
  assumes "find_variant a enum x = Some ts"
  obtains d where "an_enums a enum = Some d" and "x \<in> set (map fst (ed_variants d))"
proof -
  obtain d y us where d: "an_enums a enum = Some d" "List.find (\<lambda>(name, ts). name = x) (ed_variants d) = Some (y, us)"
    using assms by (auto simp: find_variant_def bind_eq_Some_conv)
  then obtain i where "i < length (ed_variants d)" "ed_variants d ! i = (x, us)"
    by (auto simp: find_Some_iff)
  then have "(x, us) \<in> set (ed_variants d)" by (auto simp: in_set_conv_nth)
  then show thesis using that [OF d(1)] by force
qed

lemma value_required:
  assumes "value_of_type a t w"
  obtains needed where "required_variants a t = Some needed" and "variant_tag w \<in> set needed"
proof (cases t)
  case (RtEnum enum)
  then obtain x vs ts where w: "w = PvVariant x vs" "find_variant a enum x = Some ts"
    using assms by (auto simp: value_of_type_def split: pvalue.splits option.splits)
  obtain d where "an_enums a enum = Some d" "x \<in> set (map fst (ed_variants d))" using found_variant_name [OF w(2)] .
  then show thesis using that RtEnum w(1) by (simp add: required_variants_def variant_tag_def)
next
  case (RtOption u)
  then show thesis
    using assms that by (auto simp: value_of_type_def required_variants_def variant_tag_def split: pvalue.splits)
next
  case (RtResult u v)
  then show thesis
    using assms that by (auto simp: value_of_type_def required_variants_def variant_tag_def split: pvalue.splits)
next
  case (RtPrimitive p)
  then show thesis
    using assms that by (cases p) (auto simp: value_of_type_def required_variants_def variant_tag_def split: pvalue.splits)
qed (use assms in \<open>simp_all add: value_of_type_def\<close>)

text \<open>C6. An accepted match takes every value of its closed type: when the analyzer reports nothing
  about a match whose value has a user enumeration, \<open>Option\<close>, \<open>Result\<close> or \<open>Bool\<close> type, and the
  constructor patterns of its unguarded arms have only wildcards and bindings for fields, then some
  unguarded arm matches, whatever the value.\<close>

theorem accepted_match_exhaustive:
  assumes "an_diagnostics (snd (infer_expr (Expr (EkMatch v arms) sp) scope expected a)) = an_diagnostics a"
    and "value_of_type a (fst (infer_expr v scope None a)) w" and "list_all shallow_arm arms"
  shows "\<exists>arm \<in> set arms. arm_guard arm = None \<and> matches_pattern (arm_pattern arm) w"
proof -
  let ?r = "infer_expr v scope None a"
  let ?s = "infer_arms arms (fst ?r) scope expected (case expected of None \<Rightarrow> RtUnknown | Some t \<Rightarrow> t) (snd ?r)"
  have s1: "steps a (snd ?r)" by (rule infer_steps(1) [OF steps_refl])
  have s2: "steps a (snd ?s)" by (rule infer_steps(7) [OF s1])
  have "an_quiet a (check_exhaustive sp (fst ?r) arms (snd ?s))"
    using assms(1) by (simp add: log_quiet_def record_type_def split_beta Let_def)
  note q = quiet_chain [OF s2 steps_exhaustive [OF steps_refl] this]
  note qa = quiet_chain(2) [OF s1 infer_steps(7) [OF steps_refl] q(1)]
  obtain needed where "required_variants (snd ?s) (fst ?r) = Some needed" "variant_tag w \<in> set needed"
    using value_required assms(2) value_of_type_steps [OF s2] by metis
  from exhaustive_covers [OF q(2) this]
  obtain arm where arm: "arm \<in> set arms" "arm_guard arm = None"
      "catches_all (arm_pattern arm) \<or> covered_variant (arm_pattern arm) = Some (variant_tag w)" by blast
  show ?thesis
  proof (cases "catches_all (arm_pattern arm)")
    case True
    then show ?thesis using arm catches_all_matches by blast
  next
    case False
    obtain b where b: "steps (snd ?r) b" "an_quiet b (snd (check_pattern (arm_pattern arm) (fst ?r) scope b))"
      using arms_patterns [OF qa arm(1)] by blast
    have "value_of_type b (fst ?r) w" using assms(2) value_of_type_steps [OF steps_trans [OF s1 b(1)]] by simp
    from accepted_pattern_matches [OF b(2) this] have "matches_pattern (arm_pattern arm) w"
      using arm False assms(3) by (auto simp: list_all_iff shallow_arm_def variant_tag_def)
    then show ?thesis using arm by blast
  qed
qed

end
