(* ===== verification/Ownership_Sound.thy ===== *)
theory Ownership_Sound
  imports Ownership
begin

text \<open>
  Soundness of the move check. The meaning of affine values is an abstract execution that follows
  one control path: it knows of every variable in scope whether it was moved and whether it is
  copied on use, and it goes wrong when a moved variable is used.
\<close>

section \<open>Executions\<close>

type_synonym env = "string \<rightharpoonup> bool \<times> bool"

datatype path_result = Falls env | Leaves | Misuses string

definition then_run :: "path_result list \<Rightarrow> (env \<Rightarrow> path_result list) \<Rightarrow> path_result list" where
  "then_run xs f = concat (map (\<lambda>x. case x of Falls \<sigma> \<Rightarrow> f \<sigma> | _ \<Rightarrow> [x]) xs)"

definition use_name :: "string \<Rightarrow> UseMode \<Rightarrow> env \<Rightarrow> path_result list" where
  "use_name name mode \<sigma> =
     (case \<sigma> name of
        None \<Rightarrow> [Falls \<sigma>]
      | Some (moved, copy) \<Rightarrow>
          if moved then [Misuses name]
          else if mode = Consume \<and> \<not> copy then [Falls (\<sigma>(name \<mapsto> (True, copy)))]
          else [Falls \<sigma>])"

text \<open>Which values are copied on use is specified apart from the pass: the scalars of section 5 of
  the language reference and shared references are, tuples of them too, and every other value moves.
  A value whose type its expression does not show (the result of a call, a field, a match, a block
  or an await, a constructor) counts as moving. Both operands of arithmetic have one type.\<close>

definition scalar_names :: "string list" where
  "scalar_names =
     [''Bool'', ''Char'', ''Duration'', ''Size'', ''Str'', ''I8'', ''I16'', ''I32'', ''I64'', ''I128'',
      ''U8'', ''U16'', ''U32'', ''U64'', ''U128'', ''F16'', ''F32'', ''F64'']"

fun scalar_type :: "TypeNode \<Rightarrow> bool" where
  "scalar_type (TypeNode (TkReference lifetime is_mut inner) sp) = (\<not> is_mut)"
| "scalar_type (TypeNode (TkTuple items) sp) = list_all scalar_type items"
| "scalar_type (TypeNode (TkPath segments arguments) sp) =
     (case segments of [name] \<Rightarrow> arguments = [] \<and> name \<in> set scalar_names | _ \<Rightarrow> False)"
| "scalar_type (TypeNode (TkArray inner) sp) = False"

definition is_arithmetic :: "BinaryOperator \<Rightarrow> bool" where
  "is_arithmetic op \<longleftrightarrow> op \<in> {BoAdd, BoSubtract, BoMultiply, BoDivide, BoRemainder}"

fun scalar_value :: "(string \<Rightarrow> bool) \<Rightarrow> Expr \<Rightarrow> bool" where
  "scalar_value scalars (Expr (EkLiteral literal) sp) =
     (case literal of LString s \<Rightarrow> False | LIdentifier name \<Rightarrow> scalars name | _ \<Rightarrow> True)"
| "scalar_value scalars (Expr (EkPath path) sp) = (case path of [name] \<Rightarrow> scalars name | _ \<Rightarrow> False)"
| "scalar_value scalars (Expr (EkBorrow is_mut x) sp) = (\<not> is_mut)"
| "scalar_value scalars (Expr (EkUnary op x) sp) = (op = UnNot \<or> scalar_value scalars x)"
| "scalar_value scalars (Expr (EkBinary op left right) sp) =
     (\<not> is_arithmetic op \<or> scalar_value scalars left \<or> scalar_value scalars right)"
| "scalar_value scalars e = False"

definition env_scalars :: "env \<Rightarrow> string \<Rightarrow> bool" where
  "env_scalars \<sigma> name = (case \<sigma> name of None \<Rightarrow> True | Some (moved, copy) \<Rightarrow> copy)"

definition let_copies :: "TypeNode option \<Rightarrow> Expr \<Rightarrow> env \<Rightarrow> bool" where
  "let_copies ty v \<sigma> =
     (case ty of None \<Rightarrow> scalar_value (env_scalars \<sigma>) v | Some t \<Rightarrow> scalar_type t)"

text \<open>A value bound by a pattern is affine; the names of an arm end with it.\<close>

definition bind_names :: "string list \<Rightarrow> env \<Rightarrow> env" where
  "bind_names names \<sigma> = (\<lambda>x. if x \<in> set names then Some (False, False) else \<sigma> x)"

definition leave_arm :: "string list \<Rightarrow> env \<Rightarrow> path_result \<Rightarrow> path_result" where
  "leave_arm names \<sigma> r =
     (case r of Falls \<sigma>' \<Rightarrow> Falls (\<lambda>x. if x \<in> set names then \<sigma> x else \<sigma>' x) | _ \<Rightarrow> r)"

text \<open>At the end of a block the variables its bindings hid come back.\<close>

type_synonym saved = "string \<rightharpoonup> (bool \<times> bool) option"

definition restore :: "saved \<Rightarrow> env \<Rightarrow> env" where
  "restore saved \<sigma> = (\<lambda>x. case saved x of None \<Rightarrow> \<sigma> x | Some old \<Rightarrow> old)"

definition save :: "string \<Rightarrow> env \<Rightarrow> saved \<Rightarrow> saved" where
  "save name \<sigma> saved = (if saved name = None then saved(name \<mapsto> \<sigma> name) else saved)"

fun run_expr :: "Expr \<Rightarrow> UseMode \<Rightarrow> env \<Rightarrow> path_result list"
  and run_items :: "Expr list \<Rightarrow> env \<Rightarrow> path_result list"
  and run_arguments :: "CallArgument list \<Rightarrow> env \<Rightarrow> path_result list"
  and run_arms :: "MatchArm list \<Rightarrow> env \<Rightarrow> path_result list"
  and run_statements :: "StatementNode list \<Rightarrow> saved \<Rightarrow> env \<Rightarrow> path_result list" where
  "run_expr (Expr (EkBorrow is_mut x) sp) =
     (\<lambda>mode \<sigma>. case place_name x of None \<Rightarrow> [Falls \<sigma>] | Some name \<Rightarrow> use_name name ReadOnly \<sigma>)"
| "run_expr (Expr (EkPath path) sp) =
     (\<lambda>mode \<sigma>. if length path = 1 then use_name (hd path) mode \<sigma> else [Falls \<sigma>])"
| "run_expr (Expr (EkLiteral literal) sp) =
     (\<lambda>mode \<sigma>. case literal of LIdentifier name \<Rightarrow> use_name name mode \<sigma> | _ \<Rightarrow> [Falls \<sigma>])"
| "run_expr (Expr (EkArray items) sp) = (\<lambda>mode. run_items items)"
| "run_expr (Expr (EkCall callee arguments) sp) =
     (\<lambda>mode \<sigma>. then_run (run_expr callee ReadOnly \<sigma>) (run_arguments arguments))"
| "run_expr (Expr (EkField base name) sp) = run_expr base"
| "run_expr (Expr (EkUnary op x) sp) = run_expr x"
| "run_expr (Expr (EkAwait x) sp) = run_expr x"
| "run_expr (Expr (EkBinary op left right) sp) =
     (\<lambda>mode \<sigma>. then_run (run_expr left ReadOnly \<sigma>) (run_expr right ReadOnly))"
| "run_expr (Expr (EkMatch v arms) sp) =
     (\<lambda>mode \<sigma>. then_run (run_expr v Consume \<sigma>) (run_arms arms))"
| "run_expr (Expr (EkBlock (Block stmts bsp)) sp) = (\<lambda>mode. run_statements stmts Map.empty)"
| "run_items [] = (\<lambda>\<sigma>. [Falls \<sigma>])"
| "run_items (x # xs) = (\<lambda>\<sigma>. then_run (run_expr x Consume \<sigma>) (run_items xs))"
| "run_arguments [] = (\<lambda>\<sigma>. [Falls \<sigma>])"
| "run_arguments (CallArgument name x sp # xs) =
     (\<lambda>\<sigma>. then_run (run_expr x Consume \<sigma>) (run_arguments xs))"
| "run_arms [] = (\<lambda>\<sigma>. [])"
| "run_arms (MatchArm pat guard body sp # arms) =
     (\<lambda>\<sigma>.
        (let names = pattern_names pat; inner = bind_names names \<sigma> in
         (case guard of
            None \<Rightarrow> map (leave_arm names \<sigma>) (run_expr body Consume inner)
          | Some g \<Rightarrow>
              then_run (run_expr g ReadOnly inner) (\<lambda>\<sigma>1.
                map (leave_arm names \<sigma>) (run_expr body Consume \<sigma>1) @
                then_run [leave_arm names \<sigma> (Falls \<sigma>1)] (run_arms arms)))) @
        run_arms arms \<sigma>)"
| "run_statements [] = (\<lambda>saved \<sigma>. [Falls (restore saved \<sigma>)])"
| "run_statements (StatementNode (SkLet name ty v) sp # ss) =
     (\<lambda>saved \<sigma>. then_run (run_expr v Consume \<sigma>) (\<lambda>\<sigma>1.
        run_statements ss (save name \<sigma>1 saved) (\<sigma>1(name \<mapsto> (False, let_copies ty v \<sigma>1)))))"
| "run_statements (StatementNode (SkReturn v) sp # ss) =
     (\<lambda>saved \<sigma>. case v of
        None \<Rightarrow> [Leaves]
      | Some e \<Rightarrow> then_run (run_expr e Consume \<sigma>) (\<lambda>\<sigma>1. [Leaves]))"
| "run_statements (StatementNode (SkExpression e) sp # ss) =
     (\<lambda>saved \<sigma>. then_run (run_expr e Consume \<sigma>) (run_statements ss saved))"

lemmas run_eval [code] =
  run_expr.simps [THEN fun_cong, THEN fun_cong]
  run_items.simps [THEN fun_cong]
  run_arguments.simps [THEN fun_cong]
  run_arms.simps [THEN fun_cong]
  run_statements.simps [THEN fun_cong, THEN fun_cong]

definition parameter_env :: "FunctionNode \<Rightarrow> env" where
  "parameter_env f =
     map_of (rev (map (\<lambda>p. (parameter_name p, (False, scalar_type (parameter_type p)))) (function_parameters f)))"

definition run_function :: "FunctionNode \<Rightarrow> path_result list" where
  "run_function f = run_statements (statement_list (function_block f)) Map.empty (parameter_env f)"

definition misused :: "path_result list \<Rightarrow> string list" where
  "misused rs = List.map_filter (\<lambda>r. case r of Misuses name \<Rightarrow> Some name | _ \<Rightarrow> None) rs"

text \<open>Functions the pass can follow: matches have no guards and their patterns bind no names, a
  binding without a declared type is initialised by a name, a literal, a borrow, an array or an
  operation that shows a scalar (\<open>x + 1\<close>, \<open>x < y\<close>, \<open>!x\<close>), and no type is named like a number type
  that does not exist (\<open>I\<close>, \<open>U7\<close>).\<close>

definition number_shaped :: "string \<Rightarrow> bool" where
  "number_shaped name =
     (case name of
        [] \<Rightarrow> False
      | c # width \<Rightarrow> c \<in> {CHR ''I'', CHR ''U'', CHR ''F''} \<and> list_all (\<lambda>d. d \<in> set ''0123456789'') width)"

fun ordinary_type :: "TypeNode \<Rightarrow> bool" where
  "ordinary_type (TypeNode (TkTuple items) sp) = list_all ordinary_type items"
| "ordinary_type (TypeNode (TkPath segments arguments) sp) =
     list_all (\<lambda>name. number_shaped name \<longrightarrow> name \<in> set scalar_names) segments"
| "ordinary_type t = True"

fun shows_scalar :: "Expr \<Rightarrow> bool" where
  "shows_scalar (Expr (EkLiteral literal) sp) =
     (case literal of LString s \<Rightarrow> False | LIdentifier name \<Rightarrow> False | _ \<Rightarrow> True)"
| "shows_scalar (Expr (EkUnary op x) sp) = (op = UnNot \<or> shows_scalar x)"
| "shows_scalar (Expr (EkBinary op left right) sp) =
     (\<not> is_arithmetic op \<or> shows_scalar left \<or> shows_scalar right)"
| "shows_scalar e = False"

fun evident_value :: "Expr \<Rightarrow> bool" where
  "evident_value (Expr (EkLiteral literal) sp) = True"
| "evident_value (Expr (EkPath path) sp) = (length path = 1)"
| "evident_value (Expr (EkBorrow is_mut x) sp) = True"
| "evident_value (Expr (EkArray items) sp) = True"
| "evident_value e = shows_scalar e"

definition evident_let :: "TypeNode option \<Rightarrow> Expr \<Rightarrow> bool" where
  "evident_let ty v = (case ty of None \<Rightarrow> evident_value v | Some t \<Rightarrow> ordinary_type t)"

fun plain_expr :: "Expr \<Rightarrow> bool"
  and plain_argument :: "CallArgument \<Rightarrow> bool"
  and plain_arm :: "MatchArm \<Rightarrow> bool"
  and plain_statement :: "StatementNode \<Rightarrow> bool" where
  "plain_expr (Expr (EkBorrow is_mut x) sp) = True"
| "plain_expr (Expr (EkPath path) sp) = True"
| "plain_expr (Expr (EkLiteral literal) sp) = True"
| "plain_expr (Expr (EkArray items) sp) = list_all plain_expr items"
| "plain_expr (Expr (EkCall callee arguments) sp) =
     (plain_expr callee \<and> list_all plain_argument arguments)"
| "plain_expr (Expr (EkField base name) sp) = plain_expr base"
| "plain_expr (Expr (EkUnary op x) sp) = plain_expr x"
| "plain_expr (Expr (EkAwait x) sp) = plain_expr x"
| "plain_expr (Expr (EkBinary op left right) sp) = (plain_expr left \<and> plain_expr right)"
| "plain_expr (Expr (EkMatch v arms) sp) = (plain_expr v \<and> list_all plain_arm arms)"
| "plain_expr (Expr (EkBlock (Block stmts bsp)) sp) = list_all plain_statement stmts"
| "plain_argument (CallArgument name x sp) = plain_expr x"
| "plain_arm (MatchArm pat guard body sp) = (guard = None \<and> pattern_names pat = [] \<and> plain_expr body)"
| "plain_statement (StatementNode (SkLet name ty v) sp) = (plain_expr v \<and> evident_let ty v)"
| "plain_statement (StatementNode (SkReturn v) sp) = (case v of None \<Rightarrow> True | Some e \<Rightarrow> plain_expr e)"
| "plain_statement (StatementNode (SkExpression e) sp) = plain_expr e"

definition tracked_function :: "FunctionNode \<Rightarrow> bool" where
  "tracked_function f \<longleftrightarrow> list_all (\<lambda>p. ordinary_type (parameter_type p)) (function_parameters f) \<and>
     list_all plain_statement (statement_list (function_block f))"

section \<open>Diagnostics only grow\<close>

abbreviation own_grows :: "FunctionChecker \<Rightarrow> FunctionChecker \<Rightarrow> bool" where
  "own_grows \<equiv> log_grows checker_diagnostics"

abbreviation own_quiet :: "FunctionChecker \<Rightarrow> FunctionChecker \<Rightarrow> bool" where
  "own_quiet \<equiv> log_quiet checker_diagnostics"

named_theorems growing \<open>operations that only add diagnostics\<close>

declare log_grows_refl [growing]

lemma grows_ownership_error [growing]: "own_grows st (ownership_error file code message sp st)"
  by (simp add: log_grows_def ownership_error_def)

lemma error_not_quiet [simp]: "\<not> own_quiet st (ownership_error file code message sp st)"
  by (simp add: log_quiet_def ownership_error_def)

lemma quiet_put [simp]: "own_quiet a (put_variable name v b) \<longleftrightarrow> own_quiet a b"
  by (simp add: log_quiet_def put_variable_def)

lemma quiet_update [simp]: "own_quiet a (update_variable name g b) \<longleftrightarrow> own_quiet a b"
  by (simp add: update_variable_def split: option.split)

lemma quiet_set_state [simp]: "own_quiet a (set_state name s b) \<longleftrightarrow> own_quiet a b"
  by (simp add: set_state_def)

lemma quiet_release [simp]: "own_quiet a (release_borrow name b) \<longleftrightarrow> own_quiet a b"
  by (simp add: release_borrow_def split: option.split)

lemma quiet_fold_release [simp]: "own_quiet a (fold release_borrow names b) \<longleftrightarrow> own_quiet a b"
  by (induction names arbitrary: b) simp_all

lemma quiet_end_borrows [simp]: "own_quiet a (end_borrows uses index b) \<longleftrightarrow> own_quiet a b"
  by (simp add: end_borrows_def)

lemma quiet_bind [simp]: "own_quiet a (bind_local name is_copy borrow b) \<longleftrightarrow> own_quiet a b"
  by (simp add: bind_local_def)

lemma quiet_variables [simp]: "own_quiet a (b\<lparr>checker_variables := vs\<rparr>) \<longleftrightarrow> own_quiet a b"
  by (simp add: log_quiet_def)

lemma quiet_unshadow_entry [simp]: "own_quiet a (unshadow_entry entry b) \<longleftrightarrow> own_quiet a b"
  by (simp add: unshadow_entry_def Let_def split: option.split prod.split)

lemma quiet_unshadow [simp]: "own_quiet a (unshadow hidden b) \<longleftrightarrow> own_quiet a b"
proof -
  have "own_quiet a (fold unshadow_entry hidden b) \<longleftrightarrow> own_quiet a b" for b
    by (induction hidden arbitrary: b) simp_all
  then show ?thesis by (simp add: unshadow_def)
qed

lemma grows_use [growing]: "own_grows st (use_variable file name mode sp st)"
  by (auto simp: use_variable_def growing log_quiet_grows split: option.split)

lemma grows_borrow [growing]: "own_grows st (borrow_place file x is_mut st)"
  by (auto simp: borrow_place_def growing log_quiet_grows split: option.split OwnershipState.split bool.split)

lemma grows_escape [growing]: "own_grows st (check_return_escape file e st)"
  by (auto simp: check_return_escape_def growing split: option.split)

lemma grows_await [growing]: "own_grows st (await_errors file sp before after st)"
proof -
  have *: "own_grows st (fold (\<lambda>name. ownership_error fl code (message name) sp) names st)" for fl code message names st
    by (induction names arbitrary: st) (auto intro: growing log_grows_trans)
  show ?thesis unfolding await_errors_def by (rule *)
qed

lemma check_grows:
  shows "\<And>fl mode st. own_grows st (check_expr e fl mode st)"
    and "\<And>fl st. own_grows st (check_items xs fl st)"
    and "\<And>fl st. own_grows st (check_arguments args fl st)"
    and "\<And>fl before st. own_grows st (snd (check_arms arms fl before st))"
    and "\<And>fl uses index hidden st. own_grows st (check_block_statements ss fl uses index hidden st)"
proof (induction e and xs and args and arms and ss rule: check_expr_check_items_check_arguments_check_arms_check_block_statements.induct)
  case (5 callee arguments sp)
  show ?case by (simp add: log_grows_trans [OF 5(2) 5(1)])
next
  case (9 op left right sp)
  show ?case by (simp add: log_grows_trans [OF 9(2) 9(1)])
next
  case (13 x xs)
  show ?case by (simp add: log_grows_trans [OF 13(2) 13(1)])
next
  case (15 name x sp xs)
  show ?case by (simp add: log_grows_trans [OF 15(2) 15(1)])
next
  case (8 x sp)
  show ?case unfolding check_expr.simps Let_def by (rule log_grows_trans [OF 8 grows_await])
next
  case (10 v arms sp)
  have "own_grows st (snd (check_arms arms fl before (check_expr v fl Consume st)))" for st fl before
    by (rule log_grows_trans [OF 10(1) 10(2) [OF refl refl]])
  then show ?case by (simp add: Let_def log_grows_def split_beta)
next
  case (17 pat guard body sp arms)
  have "own_grows (st\<lparr>checker_variables := before\<rparr>) (case guard of None \<Rightarrow> st\<lparr>checker_variables := before\<rparr>
      | Some g \<Rightarrow> check_expr g fl ReadOnly (st\<lparr>checker_variables := before\<rparr>))" for st before fl
    using 17(1) by (auto simp: growing split: option.split)
  then have "own_grows (st\<lparr>checker_variables := before\<rparr>) (snd (check_arms arms fl before (check_expr body fl Consume
      (case guard of None \<Rightarrow> st\<lparr>checker_variables := before\<rparr>
       | Some g \<Rightarrow> check_expr g fl ReadOnly (st\<lparr>checker_variables := before\<rparr>)))))" for st before fl
    by (rule log_grows_trans [OF _ log_grows_trans [OF 17(2) [OF refl refl] 17(3) [OF refl refl refl]]])
  then show ?case by (simp add: Let_def log_grows_def split_beta)
next
  case (19 name ty v sp ss)
  show ?case
    unfolding check_block_statements.simps Let_def
    by (rule log_grows_trans [OF log_grows_trans [OF 19(1) log_quiet_grows] 19(2) [OF refl refl refl refl]])
       (simp only: quiet_end_borrows quiet_bind, rule log_quiet_refl)
next
  case (20 v sp ss)
  have "own_grows st (case v of None \<Rightarrow> st | Some e \<Rightarrow> check_expr e fl Consume (check_return_escape fl e st))" for st fl
    by (cases v) (simp_all add: growing log_grows_trans [OF grows_escape 20(1)])
  then show ?case
    unfolding check_block_statements.simps Let_def
    by (rule log_grows_trans [OF log_grows_trans [OF _ log_quiet_grows] 20(2) [OF refl]])
       (simp only: quiet_end_borrows, rule log_quiet_refl)
next
  case (21 e sp ss)
  show ?case
    unfolding check_block_statements.simps
    by (rule log_grows_trans [OF log_grows_trans [OF 21(2) log_quiet_grows] 21(1)])
       (simp only: quiet_end_borrows, rule log_quiet_refl)
qed (auto simp: growing log_quiet_grows split: Literal.split)

section \<open>Variables are tracked\<close>

text \<open>A moved variable is marked, and whether it is copied on use is known.\<close>

definition tracks_variable :: "bool \<times> bool \<Rightarrow> Variable \<Rightarrow> bool" where
  "tracks_variable d v \<longleftrightarrow> var_copy v = snd d \<and> (fst d \<longrightarrow> var_state v = Moved)"

definition tracks :: "env \<Rightarrow> FunctionChecker \<Rightarrow> bool" where
  "tracks \<sigma> st \<longleftrightarrow> btree_ok (checker_variables st) \<and> (\<forall>x. rel_option tracks_variable (\<sigma> x) (variable st x))"

definition keeps_variable :: "Variable \<Rightarrow> Variable \<Rightarrow> bool" where
  "keeps_variable v v' \<longleftrightarrow> var_copy v' = var_copy v \<and> (var_state v = Moved \<longrightarrow> var_state v' = Moved)"

lemma keeps_tracks: "tracks_variable d v \<Longrightarrow> keeps_variable v v' \<Longrightarrow> tracks_variable d v'"
  by (simp add: tracks_variable_def keeps_variable_def)

lemma variable_put [simp]:
  "btree_ok (checker_variables st) \<Longrightarrow>
     variable (put_variable name v st) = (variable st)(name \<mapsto> v)"
  by (auto simp: variable_def put_variable_def btree_insert_lookup fun_eq_iff)

lemma ok_put_variable [simp]: "btree_ok (checker_variables st) \<Longrightarrow> btree_ok (checker_variables (put_variable name v st))"
  by (simp add: put_variable_def btree_insert_ok)

lemma ok_update [simp]: "btree_ok (checker_variables st) \<Longrightarrow> btree_ok (checker_variables (update_variable name g st))"
  by (simp add: update_variable_def split: option.split)

lemma tracks_put:
  assumes "tracks \<sigma> st" and "tracks_variable d v"
  shows "tracks (\<sigma>(name \<mapsto> d)) (put_variable name v st)"
  using assms by (auto simp: tracks_def)

lemma tracks_update:
  assumes "tracks \<sigma> st" and "\<And>v. variable st name = Some v \<Longrightarrow> keeps_variable v (g v)"
  shows "tracks \<sigma> (update_variable name g st)"
proof (cases "variable st name")
  case (Some v)
  then obtain d where "\<sigma> name = Some d" "tracks_variable d v"
    using assms(1) by (force simp: tracks_def elim: option.rel_cases)
  then have "tracks (\<sigma>(name \<mapsto> d)) (put_variable name (g v) st)" "\<sigma>(name \<mapsto> d) = \<sigma>"
    using tracks_put [OF assms(1) keeps_tracks] assms(2) Some by auto
  then show ?thesis by (simp add: update_variable_def Some)
qed (simp add: update_variable_def assms(1))

lemma tracks_release: "tracks \<sigma> st \<Longrightarrow> tracks \<sigma> (release_borrow name st)"
  unfolding release_borrow_def
  by (auto split: option.split intro!: tracks_update
      simp: keeps_variable_def released_def split: bool.split OwnershipState.split)

lemma tracks_fold_release: "tracks \<sigma> st \<Longrightarrow> tracks \<sigma> (fold release_borrow names st)"
  by (induction names arbitrary: st) (auto intro: tracks_release)

lemma tracks_end_borrows: "tracks \<sigma> st \<Longrightarrow> tracks \<sigma> (end_borrows uses index st)"
  by (simp add: end_borrows_def tracks_fold_release)

lemma tracks_error: "tracks \<sigma> st \<Longrightarrow> tracks \<sigma> (ownership_error file code message sp st)"
  by (simp add: tracks_def ownership_error_def variable_def)

lemma tracks_bind:
  "tracks \<sigma> st \<Longrightarrow> tracks (\<sigma>(name \<mapsto> (False, is_copy))) (bind_local name is_copy borrow st)"
  unfolding bind_local_def by (rule tracks_put [OF tracks_release]) (simp_all add: tracks_variable_def)

lemma tracks_unshadow_entry:
  assumes "tracks \<sigma> st" and "rel_option tracks_variable old previous"
  shows "tracks (\<sigma>(name := old)) (unshadow_entry (name, previous) st)"
proof (cases previous)
  case None
  then have "old = None" using assms(2) by simp
  then show ?thesis
    using tracks_release [OF assms(1), of name] None
    by (auto simp: unshadow_entry_def Let_def tracks_def variable_def btree_remove_ok btree_remove_lookup)
next
  case (Some v)
  then obtain d where "old = Some d" "tracks_variable d v" using assms(2) by (auto elim: option.rel_cases)
  then show ?thesis
    using tracks_put [OF tracks_release [OF assms(1)]] Some by (simp add: unshadow_entry_def Let_def)
qed

text \<open>The hidden variables of a block agree.\<close>

definition tracks_hidden :: "saved \<Rightarrow> shadowed \<Rightarrow> bool" where
  "tracks_hidden saved hidden \<longleftrightarrow> btree_ok hidden \<and>
     (\<forall>x. rel_option (rel_option tracks_variable) (saved x) (map_of hidden x))"

lemma tracks_hidden_save:
  assumes "tracks_hidden saved hidden" and "tracks \<sigma> st"
  shows "tracks_hidden (save name \<sigma> saved)
    (if map_of hidden name = None then btree_insert name (variable st name) hidden else hidden)"
proof -
  have "saved name = None \<longleftrightarrow> map_of hidden name = None"
    using assms(1) by (metis option.rel_distinct(1,2) option.rel_sel tracks_hidden_def)
  then show ?thesis
    using assms by (auto simp: tracks_hidden_def tracks_def save_def btree_insert_ok btree_insert_lookup)
qed

lemma tracks_unshadow:
  assumes "tracks_hidden saved hidden" and "tracks \<sigma> st"
  shows "tracks (restore saved \<sigma>) (unshadow hidden st)"
proof -
  have "distinct (map fst hidden)" using assms(1) bt.ok_distinct by (auto simp: tracks_hidden_def)
  moreover have "\<forall>x. rel_option (rel_option tracks_variable) (saved x) (map_of hidden x)"
    using assms(1) by (simp add: tracks_hidden_def)
  ultimately have "tracks (restore saved \<sigma>) (fold unshadow_entry hidden st)"
    using assms(2)
  proof (induction hidden arbitrary: saved \<sigma> st)
    case Nil
    then have "restore saved \<sigma> = \<sigma>" by (auto simp: restore_def fun_eq_iff)
    then show ?case using Nil(3) by (metis fold_simps(1))
  next
    case (Cons entry hidden)
    obtain name previous where e: "entry = (name, previous)" by fastforce
    obtain old where old: "saved name = Some old" "rel_option tracks_variable old previous"
      using Cons.prems(2) e by (metis map_of_Cons_code(2) option.rel_cases option.distinct(1) option.inject)
    have "map_of hidden name = None" using Cons.prems(1) e by (simp add: map_of_eq_None_iff)
    then have "\<forall>x. rel_option (rel_option tracks_variable) ((saved(name := None)) x) (map_of hidden x)"
      using Cons.prems(2) e by (auto split: if_splits)
    moreover have "distinct (map fst hidden)" using Cons.prems(1) by simp
    ultimately have "tracks (restore (saved(name := None)) (\<sigma>(name := old))) (fold unshadow_entry hidden (unshadow_entry entry st))"
      unfolding e by (intro Cons.IH tracks_unshadow_entry [OF Cons.prems(3) old(2)])
    moreover have "restore (saved(name := None)) (\<sigma>(name := old)) = restore saved \<sigma>"
      using old(1) by (auto simp: restore_def fun_eq_iff split: option.split)
    ultimately show ?case by simp
  qed
  then show ?thesis by (simp add: unshadow_def)
qed

section \<open>Scopes\<close>

text \<open>Checking keeps the variables in scope and whether they are copied: an environment in which
  nothing is moved stays tracked.\<close>

definition unmoved :: "env \<Rightarrow> bool" where
  "unmoved \<sigma> \<longleftrightarrow> (\<forall>x c. \<sigma> x \<noteq> Some (True, c))"

lemma tracks_use: "tracks \<sigma> st \<Longrightarrow> unmoved \<sigma> \<Longrightarrow> tracks \<sigma> (use_variable file name mode sp st)"
  by (auto simp: use_variable_def tracks_error keeps_variable_def split: option.split intro!: tracks_update)

lemma tracks_borrow: "tracks \<sigma> st \<Longrightarrow> tracks \<sigma> (borrow_place file x is_mut st)"
  by (auto simp: borrow_place_def set_state_def tracks_error keeps_variable_def intro!: tracks_update
      split: option.split OwnershipState.split bool.split)

lemma tracks_escape: "tracks \<sigma> st \<Longrightarrow> tracks \<sigma> (check_return_escape file e st)"
  by (auto simp: check_return_escape_def tracks_error split: option.split)

lemma tracks_await: "tracks \<sigma> st \<Longrightarrow> tracks \<sigma> (await_errors file sp before after st)"
proof -
  have *: "tracks \<sigma> st \<Longrightarrow> tracks \<sigma> (fold (\<lambda>name. ownership_error fl code (message name) sp) names st)"
    for fl code message names st
    by (induction names arbitrary: st) (auto intro: tracks_error)
  assume "tracks \<sigma> st"
  then show ?thesis unfolding await_errors_def by (rule *)
qed

lemma tracks_variables: "tracks \<sigma> st \<Longrightarrow> tracks \<sigma> (st'\<lparr>checker_variables := checker_variables st\<rparr>)"
  by (simp add: tracks_def variable_def)

lemma map_of_merge:
  "map_of (merge_branches before branches) x =
     map_option (\<lambda>v. v\<lparr>var_state := merged_state (List.map_filter (\<lambda>branch. map_option var_state (map_of branch x)) branches)\<rparr>)
       (map_of before x)"
  unfolding merge_branches_def by (induction before) auto

lemma merge_ok: "btree_ok before \<Longrightarrow> btree_ok (merge_branches before branches)"
  by (simp add: btree_ok_def merge_branches_def comp_def split_beta)

lemma tracks_merge_unmoved:
  assumes "tracks \<sigma> (st\<lparr>checker_variables := before\<rparr>)" and "unmoved \<sigma>"
  shows "tracks \<sigma> (st'\<lparr>checker_variables := merge_branches before branches\<rparr>)"
proof -
  have "rel_option tracks_variable (\<sigma> x) (map_of (merge_branches before branches) x)" for x
  proof -
    have r: "rel_option tracks_variable (\<sigma> x) (map_of before x)"
      using assms(1) by (simp add: tracks_def variable_def)
    show ?thesis
    proof (cases "\<sigma> x")
      case (Some d)
      then obtain v where "map_of before x = Some v" "tracks_variable d v" using r by (auto elim: option.rel_cases)
      moreover have "\<not> fst d" using assms(2) Some by (cases d) (auto simp: unmoved_def)
      ultimately show ?thesis using Some by (simp add: map_of_merge tracks_variable_def)
    qed (use r in \<open>simp add: map_of_merge\<close>)
  qed
  then show ?thesis using assms(1) by (simp add: tracks_def variable_def merge_ok)
qed

definition unmoved_saved :: "saved \<Rightarrow> bool" where
  "unmoved_saved saved \<longleftrightarrow> (\<forall>x c. saved x \<noteq> Some (Some (True, c)))"

lemma unmoved_save: "unmoved \<sigma> \<Longrightarrow> unmoved_saved saved \<Longrightarrow> unmoved_saved (save name \<sigma> saved)"
  by (auto simp: unmoved_def unmoved_saved_def save_def)

lemma unmoved_upd: "unmoved \<sigma> \<Longrightarrow> unmoved (\<sigma>(name \<mapsto> (False, c)))"
  by (auto simp: unmoved_def)

lemma restore_save:
  "restore (save name \<sigma> saved) (\<sigma>(name \<mapsto> d)) = restore saved \<sigma>"
  by (auto simp: restore_def save_def fun_eq_iff split: option.split)

lemma tracks_check:
  shows "\<And>file mode st \<sigma>. tracks \<sigma> st \<Longrightarrow> unmoved \<sigma> \<Longrightarrow> tracks \<sigma> (check_expr e file mode st)"
    and "\<And>file st \<sigma>. tracks \<sigma> st \<Longrightarrow> unmoved \<sigma> \<Longrightarrow> tracks \<sigma> (check_items xs file st)"
    and "\<And>file st \<sigma>. tracks \<sigma> st \<Longrightarrow> unmoved \<sigma> \<Longrightarrow> tracks \<sigma> (check_arguments args file st)"
    and "\<And>file before st \<sigma>. tracks \<sigma> (st\<lparr>checker_variables := before\<rparr>) \<Longrightarrow> unmoved \<sigma> \<Longrightarrow>
      \<forall>branch \<in> set (fst (check_arms arms file before st)). tracks \<sigma> (st\<lparr>checker_variables := branch\<rparr>)"
    and "\<And>file uses index hidden st \<sigma> saved. tracks \<sigma> st \<Longrightarrow> unmoved \<sigma> \<Longrightarrow> tracks_hidden saved hidden \<Longrightarrow>
      unmoved_saved saved \<Longrightarrow> tracks (restore saved \<sigma>) (check_block_statements ss file uses index hidden st)"
proof (induction e and xs and args and arms and ss rule: check_expr_check_items_check_arguments_check_arms_check_block_statements.induct)
  case (8 x sp)
  then show ?case by (simp add: Let_def tracks_await)
next
  case (10 v arms sp)
  have "tracks \<sigma> (check_expr v file Consume st)" by (rule 10(1) [OF 10(3,4)])
  then show ?case
    using 10(4) by (simp add: Let_def split_beta tracks_merge_unmoved [OF tracks_variables])
next
  case (11 stmts bsp sp)
  have "tracks_hidden Map.empty []" by (simp add: tracks_hidden_def bt.ok_Nil)
  from 11(1) [OF 11(2,3) this] show ?case by (simp add: unmoved_saved_def restore_def)
next
  case (17 pat guard body sp arms)
  let ?st1 = "st\<lparr>checker_variables := before\<rparr>"
  let ?st2 = "case guard of None \<Rightarrow> ?st1 | Some g \<Rightarrow> check_expr g file ReadOnly ?st1"
  have "tracks \<sigma> ?st2" using 17(1) [OF refl _ 17(4,5)] 17(4) by (simp split: option.split)
  from 17(2) [OF refl refl this 17(5), of "file"]
  have "tracks \<sigma> (st\<lparr>checker_variables := checker_variables (check_expr body file Consume ?st2)\<rparr>)"
    by (rule tracks_variables)
  moreover have "tracks \<sigma> ((check_expr body file Consume ?st2)\<lparr>checker_variables := before\<rparr>)"
    using 17(4) by (simp add: tracks_def variable_def)
  from 17(3) [OF refl refl refl this 17(5), of "file"]
  have "\<forall>branch \<in> set (fst (check_arms arms file before (check_expr body file Consume ?st2))).
      tracks \<sigma> (st\<lparr>checker_variables := branch\<rparr>)"
    by (simp add: tracks_def variable_def)
  ultimately show ?case by (simp add: Let_def split_beta)
next
  case (18)
  then show ?case by (simp add: tracks_unshadow)
next
  case (19 name ty v sp ss)
  let ?st1 = "check_expr v file Consume st"
  let ?c = "let_is_copy ty v (checker_variables ?st1)"
  have t: "tracks \<sigma> ?st1" by (rule 19(1) [OF 19(3,4)])
  have "tracks (restore (save name \<sigma> saved) (\<sigma>(name \<mapsto> (False, ?c))))
      (check_block_statements ss file uses (Suc index)
        (if map_of hidden name = None then btree_insert name (variable ?st1 name) hidden else hidden)
        (end_borrows uses index (bind_local name ?c (borrow_target v) ?st1)))"
    by (rule 19(2) [OF refl refl refl refl tracks_end_borrows [OF tracks_bind [OF t]] unmoved_upd [OF 19(4)]
          tracks_hidden_save [OF 19(5) t] unmoved_save [OF 19(4,6)]])
  then show ?case unfolding check_block_statements.simps Let_def restore_save .
next
  case (20 v sp ss)
  have "tracks \<sigma> (case v of None \<Rightarrow> st | Some e \<Rightarrow> check_expr e file Consume (check_return_escape file e st))"
    using 20(1) [OF _ tracks_escape [OF 20(3)] 20(4)] 20(3) by (simp split: option.split)
  from 20(2) [OF refl tracks_end_borrows [OF this] 20(4-6)] show ?case by (simp add: Let_def)
next
  case (21 e sp ss)
  from 21(1) [OF tracks_end_borrows [OF 21(2) [OF 21(3,4)]] 21(4-6)] show ?case by simp
qed (auto simp: tracks_use tracks_borrow split: Literal.split)

section \<open>Simulation\<close>

definition agrees_path :: "FunctionChecker \<Rightarrow> path_result \<Rightarrow> bool" where
  "agrees_path st r = (case r of Falls \<sigma> \<Rightarrow> tracks \<sigma> st | Leaves \<Rightarrow> True | Misuses name \<Rightarrow> False)"

lemma agrees_simps [simp]:
  "agrees_path st (Falls \<sigma>) = tracks \<sigma> st" "agrees_path st Leaves" "\<not> agrees_path st (Misuses name)"
  by (simp_all add: agrees_path_def)

lemma list_all_then_run:
  assumes "list_all (agrees_path st1) xs" and "\<And>\<sigma>. tracks \<sigma> st1 \<Longrightarrow> list_all P (f \<sigma>)" and "P Leaves"
  shows "list_all P (then_run xs f)"
  using assms(1)
proof (induction xs)
  case (Cons x xs)
  then show ?case using assms(2,3) by (cases x) (auto simp: then_run_def)
qed (simp add: then_run_def)

lemma tracks_rel: "tracks \<sigma> st \<Longrightarrow> rel_option tracks_variable (\<sigma> x) (variable st x)"
  by (simp add: tracks_def)

lemma tracked_none: "tracks \<sigma> st \<Longrightarrow> \<sigma> name = None \<longleftrightarrow> variable st name = None"
  using tracks_rel [of \<sigma> st name] by (cases "\<sigma> name"; cases "variable st name") auto

lemma tracked_variable:
  assumes "tracks \<sigma> st" and "variable st name = Some v"
  obtains moved where "\<sigma> name = Some (moved, var_copy v)" and "moved \<longrightarrow> var_state v = Moved"
proof (cases "\<sigma> name")
  case (Some d)
  then show thesis
    using that [of "fst d"] tracks_rel [OF assms(1), of name] assms(2) by (cases d) (simp add: tracks_variable_def)
qed (use tracked_none [OF assms(1)] assms(2) in simp)

lemma agrees_use:
  assumes "tracks \<sigma> st" and "own_quiet st (use_variable file name mode sp st)"
  shows "list_all (agrees_path (use_variable file name mode sp st)) (use_name name mode \<sigma>)"
proof (cases "variable st name")
  case None
  then have "\<sigma> name = None" using tracked_none [OF assms(1)] by blast
  then show ?thesis using assms(1) None by (simp add: use_variable_def use_name_def)
next
  case (Some v)
  obtain moved where m: "\<sigma> name = Some (moved, var_copy v)" "moved \<longrightarrow> var_state v = Moved"
    using tracked_variable [OF assms(1) Some] .
  have u: "var_state v \<noteq> Moved" using assms(2) Some by (auto simp: use_variable_def)
  then have "\<not> moved" using m(2) by blast
  moreover have "tracks (\<sigma>(name \<mapsto> (True, var_copy v))) (update_variable name (\<lambda>v. v\<lparr>var_state := Moved\<rparr>) st)"
    using tracks_put [OF assms(1), of "(True, var_copy v)" "v\<lparr>var_state := Moved\<rparr>" name] Some
    by (simp add: update_variable_def tracks_variable_def)
  ultimately show ?thesis
    using assms Some m(1) u by (auto simp: use_variable_def use_name_def split: if_splits)
qed

lemma agrees_borrow:
  assumes "tracks \<sigma> st" and "own_quiet st (borrow_place file x is_mut st)"
  shows "list_all (agrees_path (borrow_place file x is_mut st))
    (case place_name x of None \<Rightarrow> [Falls \<sigma>] | Some name \<Rightarrow> use_name name ReadOnly \<sigma>)"
proof (cases "place_name x")
  case (Some name)
  show ?thesis
  proof (cases "variable st name")
    case None
    then have "\<sigma> name = None" using tracked_none [OF assms(1)] by blast
    then show ?thesis using Some tracks_borrow [OF assms(1)] by (simp add: use_name_def)
  next
    case v: (Some v)
    obtain moved where "\<sigma> name = Some (moved, var_copy v)" "moved \<longrightarrow> var_state v = Moved"
      using tracked_variable [OF assms(1) v] .
    moreover have "var_state v \<noteq> Moved"
      using assms(2) Some v by (auto simp: borrow_place_def split: bool.splits)
    ultimately show ?thesis using Some tracks_borrow [OF assms(1)] by (auto simp: use_name_def)
  qed
qed (use tracks_borrow [OF assms(1)] in simp)

lemma number_shaped_Cons:
  "number_shaped (c # width) \<longleftrightarrow>
     (c = CHR ''I'' \<or> c = CHR ''U'' \<or> c = CHR ''F'') \<and> list_all is_ascii_digit width"
proof -
  have "is_ascii_digit c \<longleftrightarrow> c \<in> set ''0123456789''" for c
  proof -
    have "is_ascii_digit c \<longleftrightarrow> (of_char c :: nat) \<in> {48..<58}"
      by (auto simp: is_ascii_digit_def less_eq_char_def)
    also have "{48..<58} = (of_char :: char \<Rightarrow> nat) ` set ''0123456789''"
      by (auto simp: atLeastLessThan_nat_numeral)
    also have "(of_char c :: nat) \<in> of_char ` set ''0123456789'' \<longleftrightarrow> c \<in> set ''0123456789''"
      by (rule inj_image_mem_iff [OF inj_of_char])
    finally show ?thesis .
  qed
  then have "is_ascii_digit = (\<lambda>d. d \<in> set ''0123456789'')" by blast
  then show ?thesis by (simp only: number_shaped_def list.case insert_iff empty_iff) simp
qed

lemma ordinary_name:
  assumes "number_shaped name \<longrightarrow> name \<in> set scalar_names"
  shows "copy_name name \<longleftrightarrow> name \<in> set scalar_names"
proof
  assume "copy_name name"
  then have "number_shaped name \<or> name \<in> {''Bool'', ''Char'', ''Duration'', ''Size'', ''Str''}"
    by (cases name) (auto simp: copy_name_def number_shaped_Cons)
  then show "name \<in> set scalar_names" using assms by (auto simp: scalar_names_def)
next
  have "list_all copy_name scalar_names" by code_simp
  then show "name \<in> set scalar_names \<Longrightarrow> copy_name name" by (simp add: list_all_iff)
qed

lemma ordinary_copies: "ordinary_type t \<Longrightarrow> type_is_copy t = scalar_type t"
proof (induction t rule: ordinary_type.induct)
  case (1 items sp)
  then show ?case by (auto simp: list_all_iff)
next
  case (2 segments arguments sp)
  then show ?case by (cases segments rule: remdups_adj.cases) (auto simp: ordinary_name)
qed simp_all

lemma shows_scalar_value: "shows_scalar e \<Longrightarrow> scalar_value scalars e"
  by (induction e rule: shows_scalar.induct) (auto split: Literal.splits)

lemma evident_copies: "evident_value v \<Longrightarrow> copies_expression v scalars = scalar_value scalars v"
proof (induction v rule: evident_value.induct)
  case (1 literal sp)
  then show ?case by (cases literal) simp_all
next
  case (2 path sp)
  then show ?case by (cases path rule: remdups_adj.cases) auto
qed (use shows_scalar_value in fastforce)+

lemma agrees_let_copies:
  assumes t: "tracks \<sigma> st" and e: "evident_let ty v"
  shows "let_copies ty v \<sigma> = let_is_copy ty v (checker_variables st)"
proof -
  have "env_scalars \<sigma> x = copy_variable (checker_variables st) x" for x
  proof (cases "variable st x")
    case None
    then have "\<sigma> x = None" using tracked_none [OF t] by blast
    then show ?thesis using None by (simp add: copy_variable_def variable_def env_scalars_def)
  next
    case (Some v)
    obtain moved where "\<sigma> x = Some (moved, var_copy v)" using tracked_variable [OF t Some] .
    then show ?thesis using Some by (simp add: copy_variable_def variable_def env_scalars_def)
  qed
  then have "env_scalars \<sigma> = copy_variable (checker_variables st)" by blast
  then show ?thesis
    using e by (auto simp: let_copies_def let_is_copy_def expression_is_copy_def evident_let_def
      evident_copies ordinary_copies split: option.split)
qed

definition fresh_env :: "FunctionChecker \<Rightarrow> env" where
  "fresh_env st = (\<lambda>x. map_option (\<lambda>v. (False, var_copy v)) (variable st x))"

lemma tracks_fresh: "btree_ok (checker_variables st) \<Longrightarrow> tracks (fresh_env st) st"
  by (auto simp: tracks_def fresh_env_def option.rel_map tracks_variable_def intro: option.rel_refl)

lemma unmoved_fresh: "unmoved (fresh_env st)"
  by (auto simp: unmoved_def fresh_env_def)

lemma tracks_merge:
  assumes "tracks \<sigma> (st\<lparr>checker_variables := branch\<rparr>)" and "branch \<in> set branches"
    and "tracks \<phi> (st\<lparr>checker_variables := before\<rparr>)" and "tracks \<phi> (st\<lparr>checker_variables := branch\<rparr>)"
  shows "tracks \<sigma> (st'\<lparr>checker_variables := merge_branches before branches\<rparr>)"
proof -
  have "rel_option tracks_variable (\<sigma> x) (map_of (merge_branches before branches) x)" for x
  proof (cases "map_of branch x")
    case None
    then have "\<sigma> x = None" "\<phi> x = None"
      using tracked_none [OF assms(1), of x] tracked_none [OF assms(4), of x] by (simp_all add: variable_def)
    then show ?thesis using tracked_none [OF assms(3), of x] by (simp add: variable_def map_of_merge)
  next
    case (Some v)
    obtain moved where s: "\<sigma> x = Some (moved, var_copy v)" "moved \<longrightarrow> var_state v = Moved"
      using tracked_variable [OF assms(1), of x v] Some by (auto simp: variable_def)
    obtain m where "\<phi> x = Some (m, var_copy v)"
      using tracked_variable [OF assms(4), of x v] Some by (auto simp: variable_def)
    then obtain u where u: "map_of before x = Some u" "var_copy u = var_copy v"
      using tracks_rel [OF assms(3), of x] by (cases "map_of before x") (auto simp: variable_def tracks_variable_def)
    have "merged_state (List.map_filter (\<lambda>branch. map_option var_state (map_of branch x)) branches) = Moved"
      if "var_state v = Moved"
      using assms(2) Some that by (force simp: merged_state_def List.map_filter_def)
    then show ?thesis using s u by (simp add: map_of_merge tracks_variable_def)
  qed
  then show ?thesis using assms(3) by (simp add: tracks_def variable_def merge_ok)
qed

text \<open>A run through one arm agrees_path with the variables some arm leaves.\<close>

definition agrees_branch :: "FunctionChecker \<Rightarrow> variables list \<Rightarrow> path_result \<Rightarrow> bool" where
  "agrees_branch st branches r =
     (case r of
        Falls \<sigma> \<Rightarrow> list_ex (\<lambda>branch. tracks \<sigma> (st\<lparr>checker_variables := branch\<rparr>)) branches
      | Leaves \<Rightarrow> True
      | Misuses name \<Rightarrow> False)"

lemma agrees_arm: "agrees_path st r \<Longrightarrow> agrees_branch st' (checker_variables st # branches) r"
  by (auto simp: agrees_path_def agrees_branch_def tracks_variables split: path_result.splits)

lemma agrees_branch_later: "agrees_branch st branches r \<Longrightarrow> agrees_branch st (branch # branches) r"
  by (auto simp: agrees_branch_def split: path_result.splits)

lemma leave_arm_Nil: "leave_arm [] \<sigma> r = r"
  by (simp add: leave_arm_def split: path_result.split)

lemma run_check:
  shows "\<And>fl mode st \<sigma>. plain_expr e \<Longrightarrow> tracks \<sigma> st \<Longrightarrow> own_quiet st (check_expr e fl mode st) \<Longrightarrow>
      list_all (agrees_path (check_expr e fl mode st)) (run_expr e mode \<sigma>)"
    and "\<And>fl st \<sigma>. list_all plain_expr xs \<Longrightarrow> tracks \<sigma> st \<Longrightarrow> own_quiet st (check_items xs fl st) \<Longrightarrow>
      list_all (agrees_path (check_items xs fl st)) (run_items xs \<sigma>)"
    and "\<And>fl st \<sigma>. list_all plain_argument args \<Longrightarrow> tracks \<sigma> st \<Longrightarrow> own_quiet st (check_arguments args fl st) \<Longrightarrow>
      list_all (agrees_path (check_arguments args fl st)) (run_arguments args \<sigma>)"
    and "\<And>fl before st \<sigma> st'. list_all plain_arm arms \<Longrightarrow> tracks \<sigma> (st\<lparr>checker_variables := before\<rparr>) \<Longrightarrow>
      own_quiet st (snd (check_arms arms fl before st)) \<Longrightarrow>
      list_all (agrees_branch st' (fst (check_arms arms fl before st))) (run_arms arms \<sigma>)"
    and "\<And>fl uses index hidden st \<sigma> saved. list_all plain_statement ss \<Longrightarrow> tracks \<sigma> st \<Longrightarrow>
      tracks_hidden saved hidden \<Longrightarrow> own_quiet st (check_block_statements ss fl uses index hidden st) \<Longrightarrow>
      list_all (agrees_path (check_block_statements ss fl uses index hidden st)) (run_statements ss saved \<sigma>)"
proof (induction e and xs and args and arms and ss rule: check_expr_check_items_check_arguments_check_arms_check_block_statements.induct)
  case (1 is_mut x sp)
  then show ?case by (simp add: agrees_borrow)
next
  case (2 path sp)
  then show ?case by (auto simp: agrees_use)
next
  case (3 literal sp)
  then show ?case by (cases literal) (simp_all add: agrees_use)
next
  case (5 callee arguments sp)
  note q = log_quiet_split [OF check_grows(1) check_grows(3) 5(5) [unfolded check_expr.simps]]
  show ?case
    unfolding run_expr.simps check_expr.simps
    by (rule list_all_then_run [OF 5(2)]) (use 5(1,3,4) q in simp_all)
next
  case (8 x sp)
  note q = log_quiet_split [OF check_grows(1) grows_await 8(4) [unfolded check_expr.simps Let_def]]
  have "list_all (agrees_path (check_expr x fl mode st)) (run_expr x mode \<sigma>)" using 8(1-3) q(1) by simp
  then show ?case
    by (auto simp: Let_def list_all_iff agrees_path_def tracks_await split: path_result.splits)
next
  case (9 op left right sp)
  note q = log_quiet_split [OF check_grows(1) check_grows(1) 9(5) [unfolded check_expr.simps]]
  show ?case
    unfolding run_expr.simps check_expr.simps
    by (rule list_all_then_run [OF 9(2)]) (use 9(1,3,4) q in simp_all)
next
  case (10 v arms sp)
  let ?st1 = "check_expr v fl Consume st"
  let ?before = "checker_variables ?st1"
  let ?arms = "check_arms arms fl ?before ?st1"
  have "own_quiet st (snd ?arms)" using 10(5) by (simp add: Let_def split_beta)
  note q = log_quiet_split [OF check_grows(1) check_grows(4) this]
  show ?case
    unfolding run_expr.simps
  proof (rule list_all_then_run [OF 10(1)])
    fix \<sigma>1
    assume t: "tracks \<sigma>1 ?st1"
    have "list_all (agrees_branch ?st1 (fst ?arms)) (run_arms arms \<sigma>1)"
      using 10(2) [OF refl refl _ _ q(2), of \<sigma>1 ?st1] 10(3) t by simp
    moreover have "agrees_path (check_expr (Expr (EkMatch v arms) sp) fl mode st) r" if "agrees_branch ?st1 (fst ?arms) r" for r
    proof -
      have f: "tracks (fresh_env ?st1) (?st1\<lparr>checker_variables := ?before\<rparr>)"
        using t tracks_fresh by (simp add: tracks_def)
      show ?thesis
        using that tracks_merge [OF _ _ f] tracks_check(4) [OF f unmoved_fresh]
        by (auto simp: agrees_branch_def agrees_path_def Let_def split_beta list_ex_iff split: path_result.splits)
    qed
    ultimately show "list_all (agrees_path (check_expr (Expr (EkMatch v arms) sp) fl mode st)) (run_arms arms \<sigma>1)"
      by (auto simp: list_all_iff)
  qed (use 10(3,4) q in simp_all)
next
  case (11 stmts bsp sp)
  have "tracks_hidden Map.empty []" by (simp add: tracks_hidden_def bt.ok_Nil)
  then show ?case using 11 by simp
next
  case (13 x xs)
  note q = log_quiet_split [OF check_grows(1) check_grows(2) 13(5) [unfolded check_items.simps]]
  show ?case
    unfolding run_items.simps check_items.simps
    by (rule list_all_then_run [OF 13(2)]) (use 13(1,3,4) q in simp_all)
next
  case (15 name x sp xs)
  note q = log_quiet_split [OF check_grows(1) check_grows(3) 15(5) [unfolded check_arguments.simps]]
  show ?case
    unfolding run_arguments.simps check_arguments.simps
    by (rule list_all_then_run [OF 15(2)]) (use 15(1,3,4) q in simp_all)
next
  case (17 pat guard body sp arms)
  have g: "guard = None" "pattern_names pat = []" "plain_expr body" "list_all plain_arm arms" using 17(4) by simp_all
  let ?st1 = "st\<lparr>checker_variables := before\<rparr>"
  let ?st3 = "check_expr body fl Consume ?st1"
  have "own_quiet ?st1 (snd (check_arms arms fl before ?st3))"
    using 17(6) g by (simp add: Let_def split_beta log_quiet_def)
  note q = log_quiet_split [OF check_grows(1) check_grows(4) this]
  have "list_all (agrees_path ?st3) (run_expr body Consume \<sigma>)"
    using 17(2) [OF refl _ g(3) 17(5) q(1)] g(1) by simp
  moreover have "tracks \<sigma> (?st3\<lparr>checker_variables := before\<rparr>)" using 17(5) by (simp add: tracks_def variable_def)
  then have "list_all (agrees_branch st' (fst (check_arms arms fl before ?st3))) (run_arms arms \<sigma>)"
    using 17(3) [OF refl _ _ g(4) _ q(2)] g(1) by simp
  moreover have "leave_arm [] \<sigma> = id" "bind_names [] \<sigma> = \<sigma>"
    by (simp_all add: leave_arm_Nil bind_names_def fun_eq_iff)
  ultimately show ?case
    using g by (auto simp: Let_def split_beta list_all_iff agrees_arm agrees_branch_later)
next
  case 18
  then show ?case by (simp add: tracks_unshadow)
next
  case (19 name ty v sp ss)
  let ?st1 = "check_expr v fl Consume st"
  let ?c = "let_is_copy ty v (checker_variables ?st1)"
  let ?st2 = "end_borrows uses index (bind_local name ?c (borrow_target v) ?st1)"
  let ?hidden = "if map_of hidden name = None then btree_insert name (variable ?st1 name) hidden else hidden"
  have e: "check_block_statements (StatementNode (SkLet name ty v) sp # ss) fl uses index hidden st =
      check_block_statements ss fl uses (Suc index) ?hidden ?st2" by (simp add: Let_def)
  have g: "own_grows st ?st2"
    by (rule log_grows_quiet_trans [OF check_grows(1)]) (simp only: quiet_end_borrows quiet_bind, rule log_quiet_refl)
  note q = log_quiet_split [OF g check_grows(5) 19(6) [unfolded e]]
  have q1: "own_quiet st ?st1" using q(1) by simp
  show ?case
    unfolding run_statements.simps e
  proof (rule list_all_then_run [OF 19(1) [OF _ 19(4) q1]])
    fix \<sigma>1
    assume t: "tracks \<sigma>1 ?st1"
    have "evident_let ty v" using 19(3) by simp
    with t have c: "let_copies ty v \<sigma>1 = ?c" by (rule agrees_let_copies)
    have p: "list_all plain_statement ss" using 19(3) by simp
    show "list_all (agrees_path (check_block_statements ss fl uses (Suc index) ?hidden ?st2))
        (run_statements ss (save name \<sigma>1 saved) (\<sigma>1(name \<mapsto> (False, let_copies ty v \<sigma>1))))"
      unfolding c
      by (rule 19(2) [OF refl refl refl refl p tracks_end_borrows [OF tracks_bind [OF t]] tracks_hidden_save [OF 19(5) t] q(2)])
  qed (use 19(3) in simp_all)
next
  case (20 v sp ss)
  let ?st1 = "case v of None \<Rightarrow> st | Some e \<Rightarrow> check_expr e fl Consume (check_return_escape fl e st)"
  show ?case
  proof (cases v)
    case (Some e)
    have e: "check_block_statements (StatementNode (SkReturn v) sp # ss) fl uses index hidden st =
      check_block_statements ss fl uses (Suc index) hidden (end_borrows uses index ?st1)" by simp
    have g: "own_grows (check_return_escape fl e st) (end_borrows uses index ?st1)"
      unfolding Some option.case
      by (rule log_grows_quiet_trans [OF check_grows(1)]) (simp only: quiet_end_borrows, rule log_quiet_refl)
    have q: "own_quiet st (end_borrows uses index ?st1)"
      by (rule log_quiet_split(1) [OF log_grows_trans [OF grows_escape g] check_grows(5) 20(6) [unfolded e]])
    have "own_quiet (check_return_escape fl e st) (check_expr e fl Consume (check_return_escape fl e st))"
      using log_quiet_split(2) [OF grows_escape g q] Some by simp
    from 20(1) [OF Some _ tracks_escape [OF 20(4)] this] 20(3) Some
    have "list_all (agrees_path (check_expr e fl Consume (check_return_escape fl e st))) (run_expr e Consume \<sigma>)" by simp
    then have "list_all (agrees_path st') (then_run (run_expr e Consume \<sigma>) (\<lambda>\<sigma>1. [Leaves]))" for st'
      by (rule list_all_then_run) simp_all
    then show ?thesis using Some by simp
  qed simp
next
  case (21 e sp ss)
  let ?st2 = "end_borrows uses index (check_expr e fl Consume st)"
  have g: "own_grows st ?st2"
    by (rule log_grows_quiet_trans [OF check_grows(1)]) (simp only: quiet_end_borrows, rule log_quiet_refl)
  note q = log_quiet_split [OF g check_grows(5) 21(6) [unfolded check_block_statements.simps]]
  show ?case
    unfolding run_statements.simps check_block_statements.simps
    by (rule list_all_then_run [OF 21(2) 21(1) [OF _ tracks_end_borrows 21(5) q(2)]]) (use 21(3,4) q(1) in simp_all)
qed simp_all

end
