(* ===== verification/Ownership_Props.thy ===== *)
theory Ownership_Props
  imports Ownership_Sound
begin

text \<open>
  What the ownership pass guarantees of a function, and programs on its limits: the claims rest on
  the simulation of \<open>Ownership_Sound\<close>.
\<close>

section \<open>Functions\<close>

lemma parameter_tracked:
  assumes "list_all (\<lambda>p. ordinary_type (parameter_type p)) (function_parameters f)"
  shows "tracks (parameter_env f) \<lparr>checker_variables = parameter_variables f, checker_diagnostics = ds\<rparr>"
proof -
  have "list_all (\<lambda>p. ordinary_type (parameter_type p)) ps \<Longrightarrow> tracks \<sigma> \<lparr>checker_variables = t, checker_diagnostics = ds\<rparr> \<Longrightarrow>
      tracks (\<sigma> ++ map_of (rev (map (\<lambda>p. (parameter_name p, (False, scalar_type (parameter_type p)))) ps)))
        \<lparr>checker_variables = fold (\<lambda>p. btree_insert (parameter_name p)
         \<lparr>var_state = Available, var_copy = type_is_copy (parameter_type p), var_origin = FromParameter,
          var_borrow = None\<rparr>) ps t, checker_diagnostics = ds\<rparr>" for \<sigma> t and ps :: "Parameter list"
  proof (induction ps arbitrary: \<sigma> t)
    case (Cons p ps)
    have "ordinary_type (parameter_type p)" using Cons.prems(1) by simp
    then have "tracks (\<sigma>(parameter_name p \<mapsto> (False, scalar_type (parameter_type p))))
        \<lparr>checker_variables = btree_insert (parameter_name p)
         \<lparr>var_state = Available, var_copy = type_is_copy (parameter_type p), var_origin = FromParameter,
          var_borrow = None\<rparr> t, checker_diagnostics = ds\<rparr>"
      using tracks_put [OF Cons.prems(2)] by (simp add: put_variable_def tracks_variable_def ordinary_copies)
    moreover have "\<sigma> ++ ([x \<mapsto> d] ++ m) = \<sigma>(x \<mapsto> d) ++ m" for m x d
      by (auto simp: map_add_def fun_eq_iff split: option.split)
    ultimately show ?case using Cons.IH Cons.prems(1) by simp
  qed simp
  from this [OF assms, of Map.empty "[]"] show ?thesis
    by (simp add: parameter_env_def parameter_variables_def tracks_def variable_def bt.ok_Nil)
qed

lemma grows_signature: "own_grows st (check_signature_regions file f st)"
  by (auto simp: check_signature_regions_def Let_def growing split: option.split)

lemma tracks_signature: "tracks \<sigma> st \<Longrightarrow> tracks \<sigma> (check_signature_regions file f st)"
  by (auto simp: check_signature_regions_def Let_def tracks_error split: option.split)


section \<open>Concrete functions\<close>

definition nowhere :: Span where
  "nowhere = \<lparr>span_start = 0, span_end = 0, span_line = 1, span_column = 1, span_end_line = 1, span_end_column = 1\<rparr>"

definition var_expr :: "string \<Rightarrow> Expr" where
  "var_expr x = Expr (EkLiteral (LIdentifier x)) nowhere"

definition call_expr :: "string \<Rightarrow> Expr list \<Rightarrow> Expr" where
  "call_expr g args = Expr (EkCall (var_expr g) (map (\<lambda>e. CallArgument None e nowhere) args)) nowhere"

definition named_type :: "string \<Rightarrow> TypeNode" where
  "named_type n = TypeNode (TkPath [n] []) nowhere"

definition example_function :: "(string \<times> string) list \<Rightarrow> StatementNode list \<Rightarrow> FunctionNode" where
  "example_function params stmts =
     \<lparr>function_attributes = [], function_public = True, function_async = False, function_name = ''f'',
      function_parameters =
        map (\<lambda>(x, t). \<lparr>parameter_name = x, parameter_type = named_type t, parameter_span = nowhere\<rparr>) params,
      function_return = None, function_effects = None, function_block = Block stmts nowhere,
      function_span = nowhere\<rparr>"

definition do_expr :: "Expr \<Rightarrow> StatementNode" where
  "do_expr e = StatementNode (SkExpression e) nowhere"

definition let_expr :: "string \<Rightarrow> Expr \<Rightarrow> StatementNode" where
  "let_expr x e = StatementNode (SkLet x None e) nowhere"

text \<open>\<open>let a = d; match n { 0 => consume(a), _ => consume(a) }; { let d = n; consume(d) }\<close>\<close>

definition moving_function :: FunctionNode where
  "moving_function = example_function [(''d'', ''Document''), (''n'', ''U64'')]
     [let_expr ''a'' (var_expr ''d''),
      do_expr (Expr (EkMatch (var_expr ''n'')
        [MatchArm (Pattern (PkLiteral (LInteger 0)) nowhere) None (call_expr ''consume'' [var_expr ''a'']) nowhere,
         MatchArm (Pattern PkWildcard nowhere) None (call_expr ''consume'' [var_expr ''a'']) nowhere]) nowhere),
      do_expr (Expr (EkBlock (Block [let_expr ''d'' (var_expr ''n''), do_expr (call_expr ''consume'' [var_expr ''d''])] nowhere)) nowhere)]"


section \<open>Limits of the pass\<close>

definition match_expr :: "Expr \<Rightarrow> (Pattern \<times> Expr option \<times> Expr) list \<Rightarrow> Expr" where
  "match_expr v arms =
     Expr (EkMatch v (map (\<lambda>(p, g, e). MatchArm p g e nowhere) arms)) nowhere"

definition name_pattern :: "string \<Rightarrow> Pattern" where
  "name_pattern x = Pattern (PkPath [x]) nowhere"

definition borrow_expr :: "string \<Rightarrow> Expr" where
  "borrow_expr x = Expr (EkBorrow False (var_expr x)) nowhere"

text \<open>\<open>let d = load(); consume(d); consume(d)\<close> and \<open>let d = s + s; consume(d); consume(d)\<close>: a
  binding without a declared type counts as copied unless its initializer is a string, an array, a
  mutable borrow or an affine name.\<close>

definition twice_function :: "Expr \<Rightarrow> FunctionNode" where
  "twice_function v = example_function [(''s'', ''String'')]
     [let_expr ''d'' v, do_expr (call_expr ''consume'' [var_expr ''d'']), do_expr (call_expr ''consume'' [var_expr ''d''])]"

lemma inferred_call_copied:
  "check_ownership ''m.syl'' (twice_function (call_expr ''load'' [])) = []"
  "misused (run_function (twice_function (call_expr ''load'' []))) = [''d'']"
  by code_simp+

lemma inferred_operation_copied:
  "check_ownership ''m.syl'' (twice_function (Expr (EkBinary BoAdd (var_expr ''s'') (var_expr ''s'')) nowhere)) = []"
  "misused (run_function (twice_function (Expr (EkBinary BoAdd (var_expr ''s'') (var_expr ''s'')) nowhere))) = [''d'']"
  by code_simp+

text \<open>\<open>match d { v => { consume(v); consume(v) } }\<close>: the names of a pattern are not tracked.\<close>

definition pattern_function :: FunctionNode where
  "pattern_function = example_function [(''d'', ''Document'')]
     [do_expr (match_expr (var_expr ''d'')
        [(name_pattern ''v'', None, Expr (EkBlock (Block
            [do_expr (call_expr ''consume'' [var_expr ''v'']),
             do_expr (call_expr ''consume'' [var_expr ''v''])] nowhere)) nowhere)])]"

lemma pattern_names_untracked:
  "check_ownership ''m.syl'' pattern_function = []" "misused (run_function pattern_function) = [''v'']"
  by code_simp+

text \<open>\<open>match n { _ if consume(d) => n, _ => consume(d) }\<close>: what a guard consumed before it failed is
  forgotten in the next arm.\<close>

definition guard_function :: FunctionNode where
  "guard_function = example_function [(''d'', ''Document''), (''n'', ''U64'')]
     [do_expr (match_expr (var_expr ''n'')
        [(Pattern PkWildcard nowhere, Some (call_expr ''consume'' [var_expr ''d'']), var_expr ''n''),
         (Pattern PkWildcard nowhere, None, call_expr ''consume'' [var_expr ''d''])])]"

lemma guard_moves_forgotten:
  "check_ownership ''m.syl'' guard_function = []" "misused (run_function guard_function) = [''d'']"
  by code_simp+

text \<open>\<open>let r = &d; { n }; consume(d); observe(r)\<close>: a nested block ends the borrows of the enclosing
  one that it does not mention.\<close>

definition borrowing_function :: "StatementNode list \<Rightarrow> FunctionNode" where
  "borrowing_function between = example_function [(''d'', ''Document''), (''n'', ''U64'')]
     (let_expr ''r'' (borrow_expr ''d'') # between @
      [do_expr (call_expr ''consume'' [var_expr ''d'']), do_expr (call_expr ''observe'' [var_expr ''r''])])"

lemma nested_block_ends_borrow:
  "check_ownership ''m.syl'' (borrowing_function [do_expr (Expr (EkBlock (Block [do_expr (var_expr ''n'')] nowhere)) nowhere)]) = []"
  "map diag_code (check_ownership ''m.syl'' (borrowing_function [do_expr (var_expr ''n'')])) = [''SYL2605'']"
  by code_simp+

text \<open>\<open>observe(&d); consume(d)\<close>: a borrow that no binding holds is never released.\<close>

lemma temporary_borrow_never_ends:
  "map diag_code (check_ownership ''m.syl'' (example_function [(''d'', ''Document'')]
     [do_expr (call_expr ''observe'' [borrow_expr ''d'']), do_expr (call_expr ''consume'' [var_expr ''d''])])) = [''SYL2605'']"
  by code_simp

text \<open>A structure named \<open>I\<close>, \<open>U\<close> or \<open>F\<close> counts as copied on use.\<close>

definition letter_function :: FunctionNode where
  "letter_function = example_function [(''d'', ''F'')]
     [do_expr (call_expr ''consume'' [var_expr ''d'']), do_expr (call_expr ''consume'' [var_expr ''d''])]"

lemma one_letter_types_are_copied:
  "check_ownership ''m.syl'' letter_function = []" "misused (run_function letter_function) = [''d'']"
  by code_simp+

end
