(* ===== verification/Semantic_Props.thy ===== *)
theory Semantic_Props
  imports Match_Sound Ownership_Props
begin

text \<open>
  What an accepted file guarantees, with concrete files on the limits of the analyzer.
\<close>

section \<open>Names\<close>

text \<open>C7. In a file the analyzer accepts, every name of a function body or pipeline result refers to
  something: an identifier is a parameter, \<open>let\<close> or pattern variable in scope there or a function or
  pipeline of the file, a path is a variant without payload, a constructor or variant pattern has exactly
  the payload of a declared variant, and \<open>await\<close> occurs in asynchronous functions only (for bodies
  without field accesses).\<close>

theorem accepted_names_resolve:
  assumes "analysis_diagnostics (analyze file ast) = []" and "list_all fieldless_item (ast_items ast)"
  shows "list_all (named_item (ast_items ast)) (ast_items ast)"
  using assms by (rule analysis_named)

section \<open>Concrete files\<close>

definition typed_function :: "string \<Rightarrow> (string \<times> string) list \<Rightarrow> string \<Rightarrow> StatementNode list \<Rightarrow> FunctionNode" where
  "typed_function name params result stmts =
     (example_function params stmts)\<lparr>function_name := name, function_return := Some (named_type result)\<rparr>"

definition example_file :: "Item list \<Rightarrow> Ast" where
  "example_file items = \<lparr>ast_module = None, ast_imports = [], ast_items = items, ast_span = nowhere\<rparr>"

definition signal_enum :: EnumNode where
  "signal_enum = \<lparr>enum_public = True, enum_name = ''Signal'',
     enum_variants = [\<lparr>ev_name = ''Go'', ev_fields = [], ev_span = nowhere\<rparr>,
                      \<lparr>ev_name = ''Stop'', ev_fields = [named_type ''U64''], ev_span = nowhere\<rparr>],
     enum_span = nowhere\<rparr>"

text \<open>\<open>match s { Signal::Go => n, Signal::Stop(k) => k }\<close>\<close>

definition signal_arms :: "MatchArm list" where
  "signal_arms =
     [MatchArm (Pattern (PkPath [''Signal'', ''Go'']) nowhere) None (var_expr ''n'') nowhere,
      MatchArm (Pattern (PkConstructor [''Signal'', ''Stop''] [name_pattern ''k'']) nowhere) None (var_expr ''k'') nowhere]"

definition signal_file :: Ast where
  "signal_file = example_file
     [ItEnum signal_enum,
      ItFunction (typed_function ''main'' [(''s'', ''Signal''), (''n'', ''U64'')] ''U64''
        [do_expr (Expr (EkMatch (var_expr ''s'') signal_arms) nowhere)])]"

theorem accepted_names_resolve_witness:
  "analysis_diagnostics (analyze ''m.syl'' signal_file) = [] \<and> list_all fieldless_item (ast_items signal_file) \<and>
   list_all (named_item (ast_items signal_file)) (ast_items signal_file)"
proof -
  have a: "analysis_diagnostics (analyze ''m.syl'' signal_file) = []" by code_simp
  have f: "list_all fieldless_item (ast_items signal_file)" by code_simp
  show ?thesis using a f accepted_names_resolve [OF a f] by blast
qed

definition signal_analyzer :: Analyzer where
  "signal_analyzer =
     resolve_declarations (ast_items signal_file) (collect_declarations (ast_items signal_file) (new_analyzer ''m.syl''))"

definition signal_scope :: scope where
  "signal_scope = [''s'' \<mapsto> RtEnum ''Signal'', ''n'' \<mapsto> RtPrimitive (PrimUnsigned ''U64'')]"

theorem accepted_match_exhaustive_witness:
  "value_of_type signal_analyzer (RtEnum ''Signal'') (PvVariant ''Stop'' [PvOther]) \<and>
   (\<exists>arm \<in> set signal_arms. arm_guard arm = None \<and> matches_pattern (arm_pattern arm) (PvVariant ''Stop'' [PvOther]))"
proof -
  have a: "an_diagnostics (snd (infer_expr (Expr (EkMatch (var_expr ''s'') signal_arms) nowhere) signal_scope None signal_analyzer)) =
      an_diagnostics signal_analyzer" by code_simp
  have t: "fst (infer_expr (var_expr ''s'') signal_scope None signal_analyzer) = RtEnum ''Signal''" by code_simp
  have v: "value_of_type signal_analyzer (RtEnum ''Signal'') (PvVariant ''Stop'' [PvOther])" by code_simp
  have s: "list_all shallow_arm signal_arms" by code_simp
  from accepted_match_exhaustive [OF a v [folded t] s] v show ?thesis by blast
qed

section \<open>Limits of the analyzer\<close>

text \<open>\<open>let x: U64 = true; n\<close>: the initializer of a typed \<open>let\<close> is not compared with its type.\<close>

definition let_file :: Ast where
  "let_file = example_file
     [ItFunction (typed_function ''main'' [(''n'', ''U64'')] ''U64''
        [StatementNode (SkLet ''x'' (Some (named_type ''U64'')) (Expr (EkLiteral (LBoolean True)) nowhere)) nowhere,
         do_expr (var_expr ''n'')])]"

lemma let_type_unchecked: "analysis_diagnostics (analyze ''m.syl'' let_file) = []"
  by code_simp

text \<open>\<open>n.size\<close> on an integer has the error type and no diagnostic.\<close>

definition field_file :: Ast where
  "field_file = example_file
     [ItFunction (typed_function ''main'' [(''n'', ''U64'')] ''U64'' [do_expr (Expr (EkField (var_expr ''n'') ''size'') nowhere)])]"

lemma field_of_number_accepted: "analysis_diagnostics (analyze ''m.syl'' field_file) = []"
  by code_simp

text \<open>\<open>match b { Option::some(true) => n, Option::none => n }\<close> is accepted and has no arm for \<open>some(false)\<close>.\<close>

definition nested_arms :: "MatchArm list" where
  "nested_arms =
     [MatchArm (Pattern (PkConstructor [''Option'', ''some''] [Pattern (PkLiteral (LBoolean True)) nowhere]) nowhere) None (var_expr ''n'') nowhere,
      MatchArm (Pattern (PkPath [''Option'', ''none'']) nowhere) None (var_expr ''n'') nowhere]"

lemma nested_pattern_gap:
  "an_diagnostics (snd (infer_expr (Expr (EkMatch (var_expr ''b'') nested_arms) nowhere)
     (signal_scope(''b'' \<mapsto> RtOption bool_type)) None signal_analyzer)) = []"
  "\<not> (\<exists>arm \<in> set nested_arms. matches_pattern (arm_pattern arm) (PvVariant ''some'' [PvBool False]))"
  by code_simp+

end
