(* ===== verification/Hir_Lower_Props.thy ===== *)
theory Hir_Lower_Props
  imports Hir_Lower_Sound Semantic_Props
begin

text \<open>
  What the lowering of an accepted file to HIR promises, with files on its limits.
\<close>

section \<open>Accepted files lower\<close>

text \<open>C20. Lowering never fails on an accepted file: when the analyzer reports nothing, bodies have no
  field accesses and no pipeline gives its result twice, \<open>lower_to_hir\<close> with the analyzer's own symbol
  table returns a program. No name is left unresolved and no index operation panics.\<close>

theorem accepted_file_lowers:
  assumes "analysis_diagnostics (analyze ''<hir>'' ast) = []"
    and "list_all fieldless_item (ast_items ast)" and "list_all single_result (ast_items ast)"
  shows "\<exists>p. lower_to_hir ast (analysis_symbols (analyze ''<hir>'' ast)) = Some (Inr p)"
  using assms by (rule accepted_lowers)

theorem accepted_file_lowers_witness:
  "\<exists>p. lower_to_hir signal_file (analysis_symbols (analyze ''<hir>'' signal_file)) = Some (Inr p)"
proof -
  have a: "analysis_diagnostics (analyze ''<hir>'' signal_file) = []" by code_simp
  have f: "list_all fieldless_item (ast_items signal_file)" by code_simp
  have s: "list_all single_result (ast_items signal_file)" by code_simp
  show ?thesis by (rule accepted_file_lowers [OF a f s])
qed

text \<open>C38. The lowering gives a written type the meaning the analyzer gave it exactly when the type does
  not name \<open>Unit\<close>: for every type that resolves without a diagnostic against the declarations of a file,
  both translations agree if and only if no path of it is \<open>Unit\<close>.\<close>

theorem lowered_type_exact:
  assumes "an_diagnostics (snd (resolve_type t (collect_declarations items (new_analyzer file)))) =
      an_diagnostics (collect_declarations items (new_analyzer file))"
  shows "lower_type_hir t (an_symbols (collect_declarations items (new_analyzer file))) =
      fst (resolve_type t (collect_declarations items (new_analyzer file))) \<longleftrightarrow> \<not> mentions_unit t"
  using lower_type_agrees(1) [OF collect_ok [OF new_symbols_ok]] assms by (simp add: log_quiet_def)

definition option_signal :: TypeNode where
  "option_signal = TypeNode (TkPath [''Option''] [named_type ''Signal'']) nowhere"

theorem lowered_type_exact_witness:
  "lower_type_hir option_signal (an_symbols (collect_declarations (ast_items signal_file) (new_analyzer ''m.syl''))) = RtOption (RtEnum ''Signal'') \<and>
   lower_type_hir (named_type ''Unit'') (an_symbols (collect_declarations (ast_items signal_file) (new_analyzer ''m.syl''))) \<noteq> RtUnit"
proof -
  let ?a = "collect_declarations (ast_items signal_file) (new_analyzer ''m.syl'')"
  have o: "an_diagnostics (snd (resolve_type option_signal ?a)) = an_diagnostics ?a" by code_simp
  have u: "an_diagnostics (snd (resolve_type (named_type ''Unit'') ?a)) = an_diagnostics ?a" by code_simp
  have "fst (resolve_type option_signal ?a) = RtOption (RtEnum ''Signal'')" "\<not> mentions_unit option_signal"
    "fst (resolve_type (named_type ''Unit'') ?a) = RtUnit" "mentions_unit (named_type ''Unit'')" by code_simp+
  then show ?thesis using lowered_type_exact [OF o] lowered_type_exact [OF u] by simp
qed

text \<open>C39. The definitions of a lowered program have different identities exactly when the items of the
  file have different names (fewer than \<open>2^32\<close> items): identities are given to names, so a type and a
  function of the same name, which the analyzer accepts, become the same definition.\<close>

theorem lowered_identities_exact:
  assumes "lower_to_hir ast symbols = Some (Inr p)" and "length (ast_items ast) < 2 ^ 32"
  shows "distinct (map definition_id (all_definitions p)) \<longleftrightarrow> distinct (map item_name (ast_items ast))"
  using assms by (rule lowered_ids_distinct)

section \<open>Concrete files\<close>

definition twin_file :: Ast where
  "twin_file = example_file
     [ItEnum signal_enum, ItFunction (typed_function ''Signal'' [(''n'', ''U64'')] ''U64'' [do_expr (var_expr ''n'')])]"

theorem lowered_identities_exact_witness:
  "(\<exists>p. lower_to_hir twin_file (analysis_symbols (analyze ''<hir>'' twin_file)) = Some (Inr p) \<and>
      \<not> distinct (map definition_id (all_definitions p))) \<and>
   (\<exists>p. lower_to_hir signal_file (analysis_symbols (analyze ''<hir>'' signal_file)) = Some (Inr p) \<and>
      distinct (map definition_id (all_definitions p)))"
proof
  have "\<exists>p. lower_to_hir twin_file (analysis_symbols (analyze ''<hir>'' twin_file)) = Some (Inr p)"
  proof (rule accepted_lowers)
    show "analysis_diagnostics (analyze ''<hir>'' twin_file) = []" by code_simp
  qed (code_simp)+
  then obtain p where p: "lower_to_hir twin_file (analysis_symbols (analyze ''<hir>'' twin_file)) = Some (Inr p)" by blast
  moreover have "\<not> distinct (map item_name (ast_items twin_file))" "length (ast_items twin_file) < 2 ^ 32"
    by (code_simp, simp add: twin_file_def example_file_def)
  ultimately show "\<exists>p. lower_to_hir twin_file (analysis_symbols (analyze ''<hir>'' twin_file)) = Some (Inr p) \<and>
      \<not> distinct (map definition_id (all_definitions p))"
    using lowered_identities_exact [OF p] by blast
next
  have "\<exists>p. lower_to_hir signal_file (analysis_symbols (analyze ''<hir>'' signal_file)) = Some (Inr p)"
  proof (rule accepted_lowers)
    show "analysis_diagnostics (analyze ''<hir>'' signal_file) = []" by code_simp
  qed (code_simp)+
  then obtain p where p: "lower_to_hir signal_file (analysis_symbols (analyze ''<hir>'' signal_file)) = Some (Inr p)" by blast
  moreover have "distinct (map item_name (ast_items signal_file))" "length (ast_items signal_file) < 2 ^ 32"
    by (code_simp, simp add: signal_file_def example_file_def)
  ultimately show "\<exists>p. lower_to_hir signal_file (analysis_symbols (analyze ''<hir>'' signal_file)) = Some (Inr p) \<and>
      distinct (map definition_id (all_definitions p))"
    using lowered_identities_exact [OF p] by blast
qed

text \<open>A field of a number passes the analysis and is rejected by the lowering.\<close>

lemma field_of_number_rejected_late:
  "map_option (map_sum (map diag_code) (\<lambda>p. ())) (lower_to_hir field_file (analysis_symbols (analyze ''<hir>'' field_file))) =
     Some (Inl [''SYL3001''])"
  by code_simp

end
