(* ===== verification/Compile.thy ===== *)
theory Compile
  imports Hir_Lower_Props Effects
begin

text \<open>
  The single-file driver of \<open>crates/syllog-compiler/src/lib.rs\<close>: parsing, semantic analysis,
  lowering to HIR and effect checking, with diagnostics attributed to phases, and the report for
  editors. The parser is a parameter. \<open>None\<close> is a panic of the lowering.
\<close>

section \<open>Phases and diagnostics\<close>

datatype CompilationPhase = PhParse | PhValidate | PhResolve | PhTypeCheck | PhOwnership | PhEffectCheck

record CompilerDiagnostic =
  cd_phase :: CompilationPhase
  cd_diagnostic :: Diagnostic

definition is_error :: "CompilerDiagnostic \<Rightarrow> bool" where
  "is_error d \<longleftrightarrow> diag_severity (cd_diagnostic d) = SevError"

definition starts_with :: "string \<Rightarrow> string \<Rightarrow> bool" where
  "starts_with prefix s \<longleftrightarrow> take (length prefix) s = prefix"

definition parser_phase :: "string \<Rightarrow> CompilationPhase" where
  "parser_phase code = (if starts_with ''SYL0'' code then PhParse else PhValidate)"

definition resolve_codes :: "string list" where
  "resolve_codes = [''SYL2001'', ''SYL2002'', ''SYL2003'', ''SYL2004'']"

definition semantic_phase :: "string \<Rightarrow> CompilationPhase" where
  "semantic_phase code =
     (if code \<in> set resolve_codes then PhResolve
      else if starts_with ''SYL26'' code then PhOwnership
      else PhTypeCheck)"

definition phased :: "(string \<Rightarrow> CompilationPhase) \<Rightarrow> Diagnostic list \<Rightarrow> CompilerDiagnostic list" where
  "phased phase ds = map (\<lambda>d. \<lparr>cd_phase = phase (diag_code d), cd_diagnostic = d\<rparr>) ds"

definition effect_diagnostics :: "string \<Rightarrow> EffectError list \<Rightarrow> CompilerDiagnostic list" where
  "effect_diagnostics file errs =
     map (\<lambda>e. \<lparr>cd_phase = PhEffectCheck,
                cd_diagnostic = error_diagnostic (effect_code e) [Txt (effect_message e)] file (EffectError.effect_span e)\<rparr>) errs"

section \<open>Compilation\<close>

record Compilation =
  comp_file :: string
  comp_ast :: "Ast option"
  comp_symbols :: "SymbolTable option"
  comp_phases :: "CompilationPhase list"
  comp_diagnostics :: "CompilerDiagnostic list"

definition success :: "Compilation \<Rightarrow> bool" where
  "success c \<longleftrightarrow> \<not> list_ex is_error (comp_diagnostics c)"

text \<open>The part of \<open>compile\<close> after an analysis without errors: lowering and effects. The flag tells
  that the effects were checked.\<close>

definition check_effects :: "string \<Rightarrow> Ast \<Rightarrow> SymbolTable \<Rightarrow> (bool \<times> CompilerDiagnostic list) option" where
  "check_effects file ast symbols =
     map_option (\<lambda>lowered. case lowered of
         Inr hir \<Rightarrow> (True, case analyze_effects hir of Inl errs \<Rightarrow> effect_diagnostics file errs | Inr _ \<Rightarrow> [])
       | Inl errs \<Rightarrow> (False, map (\<lambda>d. \<lparr>cd_phase = PhTypeCheck, cd_diagnostic = d\<lparr>diag_file := file\<rparr>\<rparr>) errs))
       (lower_to_hir ast symbols)"

definition compile :: "(string \<Rightarrow> string \<Rightarrow> CheckResult) \<Rightarrow> string \<Rightarrow> string \<Rightarrow> Compilation option" where
  "compile parser file source =
     (let parsed = parser file source;
          diagnostics = phased parser_phase (check_diagnostics parsed)
      in case check_ast parsed of
           None \<Rightarrow> Some \<lparr>comp_file = file, comp_ast = None, comp_symbols = None, comp_phases = [PhParse],
                         comp_diagnostics = diagnostics\<rparr>
         | Some ast \<Rightarrow>
             (let analysis = analyze file ast;
                  diagnostics = diagnostics @ phased semantic_phase (analysis_diagnostics analysis);
                  effects = (if list_ex is_error diagnostics then Some (False, [])
                             else check_effects file ast (analysis_symbols analysis))
              in map_option (\<lambda>(ran_effects, more).
                   \<lparr>comp_file = file, comp_ast = Some ast, comp_symbols = Some (analysis_symbols analysis),
                    comp_phases = [PhParse, PhValidate, PhResolve, PhTypeCheck, PhOwnership] @
                      (if ran_effects then [PhEffectCheck] else []),
                    comp_diagnostics = diagnostics @ more\<rparr>) effects))"

section \<open>Reports for editors\<close>

record EditorPosition =
  pos_line :: nat
  pos_column :: nat
  pos_byte :: nat

record EditorRange =
  range_start :: EditorPosition
  range_end :: EditorPosition

record EditorDiagnostic =
  edit_code :: string
  edit_severity :: string
  edit_message :: message
  edit_file :: string
  edit_phase :: CompilationPhase
  edit_range :: EditorRange

record EditorReport =
  report_schema :: u32
  report_success :: bool
  report_phases :: "CompilationPhase list"
  report_diagnostics :: "EditorDiagnostic list"

definition editor_range :: "Span \<Rightarrow> EditorRange" where
  "editor_range sp =
     \<lparr>range_start = \<lparr>pos_line = span_line sp - 1, pos_column = span_column sp - 1, pos_byte = span_start sp\<rparr>,
      range_end = \<lparr>pos_line = span_end_line sp - 1, pos_column = span_end_column sp - 1, pos_byte = span_end sp\<rparr>\<rparr>"

definition editor_diagnostic :: "CompilerDiagnostic \<Rightarrow> EditorDiagnostic" where
  "editor_diagnostic d =
     \<lparr>edit_code = diag_code (cd_diagnostic d),
      edit_severity = (case diag_severity (cd_diagnostic d) of SevError \<Rightarrow> ''error'' | SevWarning \<Rightarrow> ''warning''),
      edit_message = diag_message (cd_diagnostic d), edit_file = diag_file (cd_diagnostic d),
      edit_phase = cd_phase d, edit_range = editor_range (diag_span (cd_diagnostic d))\<rparr>"

definition editor_report :: "Compilation \<Rightarrow> EditorReport" where
  "editor_report c =
     \<lparr>report_schema = 1, report_success = success c, report_phases = comp_phases c,
      report_diagnostics = map editor_diagnostic (comp_diagnostics c)\<rparr>"

end
