(* ===== verification/Database.thy ===== *)
theory Database
  imports Compile
begin

text \<open>
  The revisioned query database \<open>crates/syllog-compiler/src/database.rs\<close>. Queries pass the database
  explicitly, since they fill its caches; the caches, which the code only looks up, fills and
  clears, are maps. The parser is a parameter. \<open>None\<close> is a panic. Nothing else runs during a
  query: the database is not shared between threads.
\<close>

section \<open>Data\<close>

type_synonym SourceFileId = u32

type_synonym PackageId = u32

record ParseResult =
  pr_ast :: "Ast option"
  pr_diagnostics :: "CompilerDiagnostic list"
  pr_cancelled :: bool

record HirResult =
  hr_program :: "HirProgram option"
  hr_diagnostics :: "CompilerDiagnostic list"
  hr_cancelled :: bool

record SourceInput =
  input_text :: string
  input_revision :: u64

record ParseCache =
  pc_revision :: u64
  pc_result :: ParseResult

record HirCache =
  hc_fingerprint :: "(SourceFileId \<times> u64) list"
  hc_result :: HirResult

record IncrementalCompilerDatabase =
  db_sources :: "(SourceFileId, SourceInput) btree"
  db_packages :: "(PackageId, SourceFileId list) btree"
  db_parse_cache :: "SourceFileId \<rightharpoonup> ParseCache"
  db_hir_cache :: "PackageId \<rightharpoonup> HirCache"
  db_cancelled :: bool

type_synonym database = IncrementalCompilerDatabase

definition new_database :: database where
  "new_database =
     \<lparr>db_sources = [], db_packages = [], db_parse_cache = Map.empty, db_hir_cache = Map.empty, db_cancelled = False\<rparr>"

definition source_name :: "SourceFileId \<Rightarrow> string" where
  "source_name f = ''<source-'' @ decimal (unat f) @ ''>.syl''"

definition cancelled_hir :: HirResult where
  "cancelled_hir = \<lparr>hr_program = None, hr_diagnostics = [], hr_cancelled = True\<rparr>"

definition database_diagnostic :: "string \<Rightarrow> string \<Rightarrow> string \<Rightarrow> CompilerDiagnostic" where
  "database_diagnostic f code text =
     \<lparr>cd_phase = PhParse, cd_diagnostic = error_diagnostic code [Txt text] f default_span\<rparr>"

definition database_phase :: "string \<Rightarrow> CompilationPhase" where
  "database_phase code = (if code \<in> set resolve_codes then PhResolve else PhTypeCheck)"

section \<open>Moving a module to its index\<close>

definition remap_id :: "HirDefId \<Rightarrow> u32 \<Rightarrow> HirDefId" where
  "remap_id d target = (if hir_module d = 0 then \<lparr>hir_module = target, hir_index = hir_index d\<rparr> else d)"

fun remap_pattern :: "u32 \<Rightarrow> HirPattern \<Rightarrow> HirPattern" where
  "remap_pattern target (PatBinding d) = PatBinding (remap_id d target)"
| "remap_pattern target (PatVariant d flds) = PatVariant (remap_id d target) (map (remap_pattern target) flds)"
| "remap_pattern target PatWildcard = PatWildcard"
| "remap_pattern target (PatLiteral l) = PatLiteral l"

fun remap_expression :: "u32 \<Rightarrow> TypedExpr \<Rightarrow> TypedExpr"
  and remap_kind :: "u32 \<Rightarrow> HirExprKind \<Rightarrow> HirExprKind"
  and remap_arm :: "u32 \<Rightarrow> HirMatchArm \<Rightarrow> HirMatchArm"
  and remap_statement :: "u32 \<Rightarrow> HirStatement \<Rightarrow> HirStatement"
  and remap_block :: "u32 \<Rightarrow> HirBlock \<Rightarrow> HirBlock" where
  "remap_expression target (TypedExpr kind ty sp) = TypedExpr (remap_kind target kind) ty sp"
| "remap_kind target (HReference d) = HReference (remap_id d target)"
| "remap_kind target (HArray items) = HArray (map (remap_expression target) items)"
| "remap_kind target (HCall callee arguments) =
     HCall (remap_expression target callee) (map (remap_expression target) arguments)"
| "remap_kind target (HField base fld) = HField (remap_expression target base) (remap_id fld target)"
| "remap_kind target (HAwait x) = HAwait (remap_expression target x)"
| "remap_kind target (HBorrow is_mut x) = HBorrow is_mut (remap_expression target x)"
| "remap_kind target (HUnary op x) = HUnary op (remap_expression target x)"
| "remap_kind target (HBinary op left right) =
     HBinary op (remap_expression target left) (remap_expression target right)"
| "remap_kind target (HMatch v arms) = HMatch (remap_expression target v) (map (remap_arm target) arms)"
| "remap_kind target (HBlock block) = HBlock (remap_block target block)"
| "remap_kind target (HLiteral l) = HLiteral l"
| "remap_arm target (HirMatchArm pat guard body sp) =
     HirMatchArm (remap_pattern target pat) (map_option (remap_expression target) guard)
       (remap_expression target body) sp"
| "remap_statement target (HLet d name ty v) = HLet (remap_id d target) name ty (remap_expression target v)"
| "remap_statement target (HReturn v) = HReturn (map_option (remap_expression target) v)"
| "remap_statement target (HExpression v) = HExpression (remap_expression target v)"
| "remap_block target (HirBlock stmts sp) = HirBlock (map (remap_statement target) stmts) sp"

definition remap_member :: "u32 \<Rightarrow> HirMember \<Rightarrow> HirMember" where
  "remap_member target m = m\<lparr>member_id := remap_id (member_id m) target\<rparr>"

definition remap_parameter :: "u32 \<Rightarrow> HirParameter \<Rightarrow> HirParameter" where
  "remap_parameter target p = p\<lparr>param_id := remap_id (param_id p) target\<rparr>"

fun remap_definition_kind :: "u32 \<Rightarrow> HirDefinitionKind \<Rightarrow> HirDefinitionKind" where
  "remap_definition_kind target (DStruct flds) = DStruct (map (remap_member target) flds)"
| "remap_definition_kind target (DState flds) = DState (map (remap_member target) flds)"
| "remap_definition_kind target (DEnum variants) =
     DEnum (map (\<lambda>v. v\<lparr>variant_id := remap_id (variant_id v) target\<rparr>) variants)"
| "remap_definition_kind target (DFunction f) =
     DFunction (f\<lparr>hir_parameters := map (remap_parameter target) (hir_parameters f),
                  hir_body := remap_block target (hir_body f)\<rparr>)"
| "remap_definition_kind target (DPipeline p) =
     DPipeline (p\<lparr>pipeline_parameters := map (remap_parameter target) (pipeline_parameters p),
                  pipeline_agent := map_option (\<lambda>d. remap_id d target) (pipeline_agent p),
                  pipeline_body := map_option (remap_expression target) (pipeline_body p)\<rparr>)"
| "remap_definition_kind target DAgent = DAgent"
| "remap_definition_kind target DSafetyBound = DSafetyBound"

definition remap_module :: "u32 \<Rightarrow> HirModule \<Rightarrow> HirModule" where
  "remap_module target m =
     \<lparr>hir_module_id = target,
      hir_definitions = map (\<lambda>d. d\<lparr>definition_id := remap_id (definition_id d) target,
                                   definition_kind := remap_definition_kind target (definition_kind d)\<rparr>)
        (hir_definitions m)\<rparr>"

section \<open>Inputs\<close>

definition set_package_files :: "PackageId \<Rightarrow> SourceFileId list \<Rightarrow> database \<Rightarrow> database" where
  "set_package_files package fs db =
     (let fs = remdups_adj (sort fs) in
      if map_of (db_packages db) package \<noteq> Some fs
      then db\<lparr>db_packages := btree_insert package fs (db_packages db),
              db_hir_cache := (db_hir_cache db)(package := None)\<rparr>
      else db)"

definition cancel :: "database \<Rightarrow> database" where
  "cancel db = db\<lparr>db_cancelled := True\<rparr>"

definition reset_cancellation :: "database \<Rightarrow> database" where
  "reset_cancellation db = db\<lparr>db_cancelled := False\<rparr>"

definition set_source :: "SourceFileId \<Rightarrow> string \<Rightarrow> database \<Rightarrow> database" where
  "set_source f text db =
     (let old = map_of (db_sources db) f in
      if map_option input_text old = Some text then db
      else
        (let revision = (case old of None \<Rightarrow> 1 | Some s \<Rightarrow> saturating_add (input_revision s) 1);
             affected = map fst (filter (\<lambda>(p, fs). f \<in> set fs) (db_packages db))
         in db\<lparr>db_sources := btree_insert f \<lparr>input_text = text, input_revision = revision\<rparr> (db_sources db),
               db_parse_cache := (db_parse_cache db)(f := None),
               db_hir_cache := fold (\<lambda>p cache. cache(p := None)) affected (db_hir_cache db)\<rparr>))"

section \<open>Queries\<close>

definition fingerprint :: "database \<Rightarrow> PackageId \<Rightarrow> (SourceFileId \<times> u64) list option" where
  "fingerprint db package =
     map_option (map (\<lambda>f. (f, case map_of (db_sources db) f of None \<Rightarrow> 0 | Some s \<Rightarrow> input_revision s)))
       (map_of (db_packages db) package)"

definition parse_result :: "(string \<Rightarrow> string \<Rightarrow> CheckResult) \<Rightarrow> SourceFileId \<Rightarrow> string \<Rightarrow> ParseResult" where
  "parse_result parser f text =
     (let checked = parser (source_name f) text
      in \<lparr>pr_ast = check_ast checked, pr_diagnostics = phased parser_phase (check_diagnostics checked),
          pr_cancelled = False\<rparr>)"

definition unset_source :: "SourceFileId \<Rightarrow> ParseResult" where
  "unset_source f =
     \<lparr>pr_ast = None, pr_diagnostics = [database_diagnostic (source_name f) ''SYL9001'' ''source input is not set''],
      pr_cancelled = False\<rparr>"

definition parse ::
  "(string \<Rightarrow> string \<Rightarrow> CheckResult) \<Rightarrow> SourceFileId \<Rightarrow> database \<Rightarrow> ParseResult \<times> database" where
  "parse parser f db =
     (if db_cancelled db then (\<lparr>pr_ast = None, pr_diagnostics = [], pr_cancelled = True\<rparr>, db)
      else case map_of (db_sources db) f of
        None \<Rightarrow> (unset_source f, db)
      | Some source \<Rightarrow>
          (case Option.bind (db_parse_cache db f)
                  (\<lambda>cached. if pc_revision cached = input_revision source then Some (pc_result cached) else None) of
             Some result \<Rightarrow> (result, db)
           | None \<Rightarrow>
               (let result = parse_result parser f (input_text source)
                in (result, db\<lparr>db_parse_cache := (db_parse_cache db)
                              (f \<mapsto> \<lparr>pc_revision = input_revision source, pc_result = result\<rparr>)\<rparr>))))"

text \<open>What \<open>build_hir\<close> accumulates over the files of a package.\<close>

record building =
  b_diagnostics :: "CompilerDiagnostic list"
  b_modules :: "HirModule list"
  b_entry :: "HirDefId option"

definition add_module :: "string \<Rightarrow> u32 \<Rightarrow> HirProgram \<Rightarrow> building \<Rightarrow> building option" where
  "add_module filename target program b =
     (case hir_modules program of
        [] \<Rightarrow> None
      | m # _ \<Rightarrow>
          (let b1 = (case hir_entry program of
                       None \<Rightarrow> b
                     | Some d \<Rightarrow>
                         b\<lparr>b_entry := Some (remap_id d target),
                           b_diagnostics := b_diagnostics b @
                             (if b_entry b \<noteq> None
                              then [database_diagnostic filename ''SYL3002'' ''package declares more than one main function'']
                              else [])\<rparr>)
           in Some (b1\<lparr>b_modules := b_modules b1 @ [remap_module target m]\<rparr>)))"

text \<open>One file: its diagnostics, and its module when it has none.\<close>

definition build_file :: "SourceFileId \<Rightarrow> u32 \<Rightarrow> ParseResult \<Rightarrow> building \<Rightarrow> building option" where
  "build_file f target parsed b =
     (let b1 = b\<lparr>b_diagnostics := b_diagnostics b @ pr_diagnostics parsed\<rparr> in
      case pr_ast parsed of
        None \<Rightarrow> Some b1
      | Some ast \<Rightarrow>
          (let analysis = analyze (source_name f) ast;
               b2 = b1\<lparr>b_diagnostics := b_diagnostics b1 @ phased database_phase (analysis_diagnostics analysis)\<rparr>
           in if analysis_diagnostics analysis \<noteq> [] \<or> pr_diagnostics parsed \<noteq> [] then Some b2
              else Option.bind (lower_to_hir ast (analysis_symbols analysis)) (\<lambda>lowered.
                case lowered of
                  Inr program \<Rightarrow> add_module (source_name f) target program b2
                | Inl errs \<Rightarrow>
                    Some (b2\<lparr>b_diagnostics := b_diagnostics b2 @
                      map (\<lambda>d. \<lparr>cd_phase = PhTypeCheck, cd_diagnostic = d\<rparr>) errs\<rparr>))))"

text \<open>The loop over the files; the result is \<open>None\<close> inside when the query was cancelled.\<close>

fun build_files ::
  "(string \<Rightarrow> string \<Rightarrow> CheckResult) \<Rightarrow> SourceFileId list \<Rightarrow> nat \<Rightarrow> building \<Rightarrow> database \<Rightarrow>
     (building option \<times> database) option" where
  "build_files parser [] index b db = Some (Some b, db)"
| "build_files parser (f # fs) index b db =
     (if db_cancelled db then Some (None, db)
      else
        (let (parsed, db1) = parse parser f db in
         if pr_cancelled parsed then Some (None, db1)
         else Option.bind
                (build_file f (if int index < 2 ^ 32 then of_nat index else - 2) parsed b)
                (\<lambda>b1. build_files parser fs (Suc index) b1 db1)))"

definition unknown_package :: "PackageId \<Rightarrow> HirResult" where
  "unknown_package package =
     \<lparr>hr_program = None,
      hr_diagnostics = [database_diagnostic (''<package-'' @ decimal (unat package) @ ''>'') ''SYL9002'' ''unknown package''],
      hr_cancelled = False\<rparr>"

definition finish_hir :: "building \<Rightarrow> HirResult" where
  "finish_hir b =
     \<lparr>hr_program = (if list_ex is_error (b_diagnostics b) then None
                    else Some \<lparr>schema_version = 1, hir_modules = b_modules b, hir_entry = b_entry b\<rparr>),
      hr_diagnostics = b_diagnostics b, hr_cancelled = False\<rparr>"

definition build_hir ::
  "(string \<Rightarrow> string \<Rightarrow> CheckResult) \<Rightarrow> PackageId \<Rightarrow> database \<Rightarrow> (HirResult \<times> database) option" where
  "build_hir parser package db =
     (case map_of (db_packages db) package of
        None \<Rightarrow> Some (unknown_package package, db)
      | Some fs \<Rightarrow>
          map_option (\<lambda>(r, db1). (case r of None \<Rightarrow> cancelled_hir | Some b \<Rightarrow> finish_hir b, db1))
            (build_files parser fs 0 \<lparr>b_diagnostics = [], b_modules = [], b_entry = None\<rparr> db))"

definition hir ::
  "(string \<Rightarrow> string \<Rightarrow> CheckResult) \<Rightarrow> PackageId \<Rightarrow> database \<Rightarrow> (HirResult \<times> database) option" where
  "hir parser package db =
     (if db_cancelled db then Some (cancelled_hir, db)
      else case fingerprint db package of
        None \<Rightarrow> build_hir parser package db
      | Some print \<Rightarrow>
          (case Option.bind (db_hir_cache db package)
                  (\<lambda>cached. if hc_fingerprint cached = print then Some (hc_result cached) else None) of
             Some result \<Rightarrow> Some (result, db)
           | None \<Rightarrow>
               map_option (\<lambda>(result, db1).
                   (result, if hr_cancelled result then db1
                            else db1\<lparr>db_hir_cache := (db_hir_cache db1)
                                   (package \<mapsto> \<lparr>hc_fingerprint = print, hc_result = result\<rparr>)\<rparr>))
                 (build_hir parser package db)))"

definition diagnostics ::
  "(string \<Rightarrow> string \<Rightarrow> CheckResult) \<Rightarrow> PackageId \<Rightarrow> database \<Rightarrow> (CompilerDiagnostic list \<times> database) option" where
  "diagnostics parser package db = map_option (\<lambda>(result, db1). (hr_diagnostics result, db1)) (hir parser package db)"

end
