(* ===== verification/Compile_Sound.thy ===== *)
theory Compile_Sound
  imports Compile
begin

text \<open>
  The driver as a whole: it never panics, and what it accepts was lowered to HIR and passed the
  effect check.
\<close>

section \<open>Diagnostics of the passes are errors\<close>

lemma log_grows_errors:
  "log_grows log a b \<Longrightarrow> log a = [] \<Longrightarrow> d \<in> set (log b) \<Longrightarrow> diag_severity d = SevError"
  by (auto simp: log_grows_def)

lemma ownership_errors: "d \<in> set (check_ownership file f) \<Longrightarrow> diag_severity d = SevError"
proof -
  let ?st = "\<lparr>checker_variables = parameter_variables f, checker_diagnostics = []\<rparr>"
  have "own_grows ?st (check_ownership_block file (function_block f) (check_signature_regions file f ?st))"
    unfolding check_ownership_block_def by (rule log_grows_trans [OF grows_signature check_grows(5)])
  then show "d \<in> set (check_ownership file f) \<Longrightarrow> diag_severity d = SevError"
    unfolding check_ownership_def by (rule log_grows_errors) simp
qed

lemma finish_errors:
  assumes "an_grows (new_analyzer file) a" and "d \<in> set (analysis_diagnostics (finish_analysis file ast a))"
  shows "diag_severity d = SevError"
proof -
  have "d \<in> set (an_diagnostics a) \<Longrightarrow> diag_severity d = SevError"
    using log_grows_errors [OF assms(1)] by (simp add: new_analyzer_def)
  moreover have "d \<in> set (ownership_diagnostics (analyze_ownership file ast)) \<Longrightarrow> diag_severity d = SevError"
    using ownership_errors by (auto simp: analyze_ownership_def split: Item.splits)
  ultimately show ?thesis using assms(2) by (auto simp: finish_analysis_def)
qed

lemma analyzed_grows:
  "an_grows a (check_bodies items (resolve_declarations items a))"
  unfolding check_bodies_def resolve_declarations_def
  by (rule log_grows_trans [OF fold_grows [OF resolve_item_grows] fold_grows [OF steps_grows [OF check_item_steps]]])

lemma analysis_errors: "d \<in> set (analysis_diagnostics (analyze file ast)) \<Longrightarrow> diag_severity d = SevError"
  unfolding analyze_def
  by (rule finish_errors [OF log_grows_trans [OF _ analyzed_grows]])
    (simp_all add: collect_declarations_def fold_grows collect_item_grows)

section \<open>The lowering never panics\<close>

lemma definitions_total:
  assumes "\<And>item. item \<in> set todo \<Longrightarrow> lw_globals l (item_name item) \<noteq> None \<and> set (member_keys item) \<subseteq> dom (lw_members l)"
  shows "\<exists>ds m. lower_definitions todo l = Some (ds, m)"
  using assms
proof (induction todo arbitrary: l)
  case (Cons item todo)
  obtain d where d: "lw_globals l (item_name item) = Some d" using Cons.prems [of item] by auto
  obtain ids where i: "member_ids item l = Some ids"
    using Cons.prems [of item] those_some [of "member_keys item" "lw_members l"] by (auto simp: member_ids_def)
  let ?k = "lower_definition_kind item ids l"
  have "lsteps l (snd ?k)" by (rule kind_steps [OF lsteps_refl])
  then have "\<exists>ds m. lower_definitions todo (snd ?k) = Some (ds, m)"
    using Cons.prems by (intro Cons.IH) (auto simp: lsteps_def)
  then show ?case using d i by (auto simp: lower_definition_def split_beta)
qed simp

text \<open>For any plan of identities: a module, or a non-empty list of errors.\<close>

lemma lower_module_cases:
  assumes "lw_diagnostics l = []"
  shows "\<exists>r. lower_module items l = Some r \<and> (\<forall>ds. r = Inl ds \<longrightarrow> ds \<noteq> [] \<and> (\<forall>d \<in> set ds. diag_severity d = SevError))"
proof -
  let ?m = "index_members items (index_globals items l)"
  note i = indices_complete(2-4) [where items = items and l = l]
  have "lw_globals ?m (item_name item) \<noteq> None \<and> set (member_keys item) \<subseteq> dom (lw_members ?m)"
    if "item \<in> set items" for item using i(1,2) [OF that] by (rule conjI)
  then have "\<exists>ds m. lower_definitions items ?m = Some (ds, m)" by (rule definitions_total)
  then obtain ds m where d: "lower_definitions items ?m = Some (ds, m)" by blast
  have "log_grows lw_diagnostics ?m m" using definitions_steps [OF d] by (simp add: lsteps_def)
  moreover have "lw_diagnostics ?m = []" using i(3) assms by (simp add: log_quiet_def)
  ultimately have e: "\<forall>d \<in> set (lw_diagnostics m). diag_severity d = SevError"
    using log_grows_errors [where log = lw_diagnostics] by blast
  show ?thesis
  proof (cases "lw_diagnostics m = []")
    case True
    then show ?thesis using lower_module_total [OF d] by auto
  qed (use d e in \<open>auto simp: lower_module_def\<close>)
qed

lemma lower_to_hir_cases:
  "\<exists>r. lower_to_hir ast symbols = Some r \<and> (\<forall>ds. r = Inl ds \<longrightarrow> ds \<noteq> [] \<and> (\<forall>d \<in> set ds. diag_severity d = SevError))"
proof -
  let ?a = "analyze ''<hir>'' ast"
  obtain r where r: "lower_module (ast_items ast) (new_lowerer ?a) = Some r"
    "\<forall>ds. r = Inl ds \<longrightarrow> ds \<noteq> [] \<and> (\<forall>d \<in> set ds. diag_severity d = SevError)"
    using lower_module_cases [of "new_lowerer ?a" "ast_items ast"] by (auto simp: new_lowerer_def new_planned_def)
  then show ?thesis
    using analysis_errors [of _ "''<hir>''" ast]
    by (cases r) (auto simp: lower_to_hir_def lower_def Let_def hir_error_def)
qed

section \<open>Compilation\<close>

lemma phased_errors:
  "list_ex is_error (phased phase ds) \<longleftrightarrow> (\<exists>d \<in> set ds. diag_severity d = SevError)"
  by (auto simp: phased_def is_error_def list_ex_iff)

lemma check_effects_total: "check_effects file ast symbols \<noteq> None"
  using lower_to_hir_cases [of ast symbols] by (auto simp: check_effects_def)

lemma check_effects_quiet:
  assumes "check_effects file ast symbols = Some (checked, ds)" and "\<not> list_ex is_error ds"
  shows "checked \<and> (\<exists>hir a. lower_to_hir ast symbols = Some (Inr hir) \<and> analyze_effects hir = Inr a)"
proof -
  obtain r where r: "lower_to_hir ast symbols = Some r"
    "\<forall>ds. r = Inl ds \<longrightarrow> ds \<noteq> [] \<and> (\<forall>d \<in> set ds. diag_severity d = SevError)"
    using lower_to_hir_cases by blast
  show ?thesis
  proof (cases r)
    case (Inl errs)
    then have "ds = map (\<lambda>d. \<lparr>cd_phase = PhTypeCheck, cd_diagnostic = d\<lparr>diag_file := file\<rparr>\<rparr>) errs"
      using assms(1) r(1) by (simp add: check_effects_def)
    moreover have "errs \<noteq> []" "\<forall>d \<in> set errs. diag_severity d = SevError" using r(2) Inl by auto
    ultimately show ?thesis using assms(2) by (cases errs) (auto simp: is_error_def)
  next
    case (Inr hir)
    then have "checked" "ds = (case analyze_effects hir of Inl errs \<Rightarrow> effect_diagnostics file errs | Inr _ \<Rightarrow> [])"
      using assms(1) r(1) by (auto simp: check_effects_def)
    moreover have "errs \<noteq> []" if "analyze_effects hir = Inl errs" for errs
      using that length_sort [where xs = "effect_errors hir"] unfolding analyze_effects_def Let_def
      by (cases "effect_errors hir = []") (simp_all, metis length_0_conv length_sort)
    ultimately show ?thesis using assms(2) r(1) Inr
      by (cases "analyze_effects hir")
        (fastforce simp: effect_diagnostics_def is_error_def list_ex_iff neq_Nil_conv)+
  qed
qed

lemma compile_success:
  assumes "compile parser file source = Some c" and "success c" and "comp_ast c = Some ast"
  shows "check_ast (parser file source) = Some ast" and "analysis_diagnostics (analyze file ast) = []"
    and "PhEffectCheck \<in> set (comp_phases c)"
    and "\<exists>hir a. lower_to_hir ast (analysis_symbols (analyze file ast)) = Some (Inr hir) \<and> analyze_effects hir = Inr a"
proof -
  let ?ds = "phased parser_phase (check_diagnostics (parser file source)) @
    phased semantic_phase (analysis_diagnostics (analyze file ast))"
  show ast: "check_ast (parser file source) = Some ast"
    using assms(1,3) by (auto simp: compile_def Let_def split: option.splits if_splits)
  obtain checked extra where m: "(if list_ex is_error ?ds then Some (False, [])
      else check_effects file ast (analysis_symbols (analyze file ast))) = Some (checked, extra)"
    and c: "comp_diagnostics c = ?ds @ extra"
      "comp_phases c = [PhParse, PhValidate, PhResolve, PhTypeCheck, PhOwnership] @ (if checked then [PhEffectCheck] else [])"
    using assms(1) ast by (auto simp: compile_def Let_def)
  have quiet: "\<not> list_ex is_error ?ds" "\<not> list_ex is_error extra"
    using assms(2) c(1) by (auto simp: success_def)
  then show "analysis_diagnostics (analyze file ast) = []"
    using analysis_errors [of _ "file" ast] by (auto simp: phased_errors)
  have "check_effects file ast (analysis_symbols (analyze file ast)) = Some (checked, extra)" using m quiet(1) by simp
  note e = check_effects_quiet [OF this quiet(2)]
  then show "PhEffectCheck \<in> set (comp_phases c)" using c(2) by simp
  show "\<exists>hir a. lower_to_hir ast (analysis_symbols (analyze file ast)) = Some (Inr hir) \<and> analyze_effects hir = Inr a"
    using e by blast
qed

lemma compile_total: "compile parser file source \<noteq> None"
  using check_effects_total by (auto simp: compile_def Let_def split: option.split)

text \<open>
  C10. The driver for one file, whatever the parser returns: it never panics, and when it reports
  success on a file that was parsed, the analysis found nothing, the file was lowered to HIR and the
  effect check passed: in a file with pairwise different item names and fewer than \<open>2^32\<close> items,
  every effect a function with a declared
  bound can have is spelled in that bound.
\<close>

theorem compile_sound:
  "\<exists>c. compile parser file source = Some c \<and>
     (\<forall>ast. success c \<and> comp_ast c = Some ast \<longrightarrow>
        analysis_diagnostics (analyze file ast) = [] \<and> PhEffectCheck \<in> set (comp_phases c) \<and>
        (\<exists>hir a. lower_to_hir ast (analysis_symbols (analyze file ast)) = Some (Inr hir) \<and>
           analyze_effects hir = Inr a \<and>
           (distinct (map item_name (ast_items ast)) \<and> length (ast_items ast) < 2 ^ 32 \<longrightarrow>
              (\<forall>d \<in> set (all_definitions hir). \<forall>f names effs.
                 definition_kind d = DFunction f \<and> declared_effects f = Some names \<and>
                 (definition_id d, effs) \<in> set (inferred_effects a) \<longrightarrow> as_str ` effs \<subseteq> set names))))"
proof -
  obtain c where c: "compile parser file source = Some c" using compile_total by blast
  show ?thesis
  proof (intro exI [of _ c] conjI c allI impI)
    fix ast
    assume s: "success c \<and> comp_ast c = Some ast"
    note k = compile_success [OF c conjunct1 [OF s] conjunct2 [OF s]]
    show "analysis_diagnostics (analyze file ast) = []" "PhEffectCheck \<in> set (comp_phases c)" by (fact k)+
    obtain hir a where h: "lower_to_hir ast (analysis_symbols (analyze file ast)) = Some (Inr hir)"
      "analyze_effects hir = Inr a" using k(4) by blast
    have "as_str ` effs \<subseteq> set names" if "distinct (map item_name (ast_items ast))" "length (ast_items ast) < 2 ^ 32"
        "d \<in> set (all_definitions hir)" "definition_kind d = DFunction f" "declared_effects f = Some names"
        "(definition_id d, effs) \<in> set (inferred_effects a)" for d f names effs
      using effect_bounds [OF h(2) _ that(3-6)] lowered_ids_distinct [OF h(1) that(2)] that(1) by blast
    then show "\<exists>hir a. lower_to_hir ast (analysis_symbols (analyze file ast)) = Some (Inr hir) \<and>
           analyze_effects hir = Inr a \<and>
           (distinct (map item_name (ast_items ast)) \<and> length (ast_items ast) < 2 ^ 32 \<longrightarrow>
              (\<forall>d \<in> set (all_definitions hir). \<forall>f names effs.
                 definition_kind d = DFunction f \<and> declared_effects f = Some names \<and>
                 (definition_id d, effs) \<in> set (inferred_effects a) \<longrightarrow> as_str ` effs \<subseteq> set names))"
      using h by blast
  qed
qed


definition fixed_parser :: "Ast \<Rightarrow> string \<Rightarrow> string \<Rightarrow> CheckResult" where
  "fixed_parser ast file source = \<lparr>check_ast = Some ast, check_diagnostics = []\<rparr>"

theorem compile_sound_witness:
  "\<exists>hir a. lower_to_hir signal_file (analysis_symbols (analyze ''m.syl'' signal_file)) = Some (Inr hir) \<and>
     analyze_effects hir = Inr a"
proof -
  have "map_option success (compile (fixed_parser signal_file) ''m.syl'' []) = Some True"
    "map_option comp_ast (compile (fixed_parser signal_file) ''m.syl'' []) = Some (Some signal_file)"
    by code_simp+
  then show ?thesis using compile_sound [of "fixed_parser signal_file" "''m.syl''" "[]"] by auto
qed

end
