(* ===== verification/Database_Sound.thy ===== *)
theory Database_Sound
  imports Database Compile_Sound
begin

text \<open>
  The caches of the database are invisible: any sequence of requests is answered as a database
  without caches answers it, which parses and builds everything anew from its current inputs, and no
  request panics.
\<close>

section \<open>Requests\<close>

datatype request =
    SetSource SourceFileId string
  | SetPackageFiles PackageId "SourceFileId list"
  | CancelQueries
  | ResetCancellation
  | QueryParse SourceFileId
  | QueryHir PackageId
  | QueryDiagnostics PackageId

datatype answer = NoAnswer | ParseAnswer ParseResult | HirAnswer HirResult | DiagnosticsAnswer "CompilerDiagnostic list"

fun serve :: "(string \<Rightarrow> string \<Rightarrow> CheckResult) \<Rightarrow> request \<Rightarrow> database \<Rightarrow> (answer \<times> database) option" where
  "serve parser (SetSource f text) db = Some (NoAnswer, set_source f text db)"
| "serve parser (SetPackageFiles p fs) db = Some (NoAnswer, set_package_files p fs db)"
| "serve parser CancelQueries db = Some (NoAnswer, cancel db)"
| "serve parser ResetCancellation db = Some (NoAnswer, reset_cancellation db)"
| "serve parser (QueryParse f) db = Some (map_prod ParseAnswer id (parse parser f db))"
| "serve parser (QueryHir p) db = map_option (map_prod HirAnswer id) (hir parser p db)"
| "serve parser (QueryDiagnostics p) db = map_option (map_prod DiagnosticsAnswer id) (diagnostics parser p db)"

section \<open>The database without caches\<close>

record inputs =
  in_text :: "SourceFileId \<rightharpoonup> string"
  in_files :: "PackageId \<rightharpoonup> SourceFileId list"
  in_cancelled :: bool

definition fresh_parse :: "(string \<Rightarrow> string \<Rightarrow> CheckResult) \<Rightarrow> (SourceFileId \<rightharpoonup> string) \<Rightarrow> SourceFileId \<Rightarrow> ParseResult" where
  "fresh_parse parser text f = (case text f of None \<Rightarrow> unset_source f | Some t \<Rightarrow> parse_result parser f t)"

definition module_number :: "nat \<Rightarrow> u32" where
  "module_number index = (if int index < 2 ^ 32 then of_nat index else - 2)"

fun fresh_files ::
  "(string \<Rightarrow> string \<Rightarrow> CheckResult) \<Rightarrow> (SourceFileId \<rightharpoonup> string) \<Rightarrow> SourceFileId list \<Rightarrow> nat \<Rightarrow> building \<Rightarrow> building option" where
  "fresh_files parser text [] index b = Some b"
| "fresh_files parser text (f # fs) index b =
     Option.bind (build_file f (module_number index) (fresh_parse parser text f) b)
       (fresh_files parser text fs (Suc index))"

definition fresh_hir ::
  "(string \<Rightarrow> string \<Rightarrow> CheckResult) \<Rightarrow> (SourceFileId \<rightharpoonup> string) \<Rightarrow> (PackageId \<rightharpoonup> SourceFileId list) \<Rightarrow> PackageId \<Rightarrow> HirResult" where
  "fresh_hir parser text members p =
     (case members p of
        None \<Rightarrow> unknown_package p
      | Some fs \<Rightarrow>
          finish_hir (the (fresh_files parser text fs 0 \<lparr>b_diagnostics = [], b_modules = [], b_entry = None\<rparr>)))"

fun answer_fresh :: "(string \<Rightarrow> string \<Rightarrow> CheckResult) \<Rightarrow> request \<Rightarrow> inputs \<Rightarrow> answer \<times> inputs" where
  "answer_fresh parser (SetSource f text) i = (NoAnswer, i\<lparr>in_text := (in_text i)(f \<mapsto> text)\<rparr>)"
| "answer_fresh parser (SetPackageFiles p fs) i =
     (NoAnswer, i\<lparr>in_files := (in_files i)(p \<mapsto> sorted_list_of_set (set fs))\<rparr>)"
| "answer_fresh parser CancelQueries i = (NoAnswer, i\<lparr>in_cancelled := True\<rparr>)"
| "answer_fresh parser ResetCancellation i = (NoAnswer, i\<lparr>in_cancelled := False\<rparr>)"
| "answer_fresh parser (QueryParse f) i =
     (ParseAnswer (if in_cancelled i then \<lparr>pr_ast = None, pr_diagnostics = [], pr_cancelled = True\<rparr>
                   else fresh_parse parser (in_text i) f), i)"
| "answer_fresh parser (QueryHir p) i = (HirAnswer (if in_cancelled i then cancelled_hir else fresh_hir parser (in_text i) (in_files i) p), i)"
| "answer_fresh parser (QueryDiagnostics p) i =
     (DiagnosticsAnswer (hr_diagnostics (if in_cancelled i then cancelled_hir else fresh_hir parser (in_text i) (in_files i) p)), i)"

section \<open>Simulation of request sequences\<close>

fun serve_all :: "('r \<Rightarrow> 'c \<Rightarrow> ('x \<times> 'c) option) \<Rightarrow> 'r list \<Rightarrow> 'c \<Rightarrow> ('x list \<times> 'c) option" where
  "serve_all f [] c = Some ([], c)"
| "serve_all f (r # rs) c =
     Option.bind (f r c) (\<lambda>(x, c1). map_option (\<lambda>(xs, c2). (x # xs, c2)) (serve_all f rs c1))"

locale simulation =
  fixes ok :: "'c \<Rightarrow> bool" and view :: "'c \<Rightarrow> 'a"
    and concrete :: "'r \<Rightarrow> 'c \<Rightarrow> ('x \<times> 'c) option" and abstract :: "'r \<Rightarrow> 'a \<Rightarrow> 'x \<times> 'a"
  assumes simulates: "ok c \<Longrightarrow> \<exists>x c'. concrete r c = Some (x, c') \<and> ok c' \<and> abstract r (view c) = (x, view c')"
begin

lemma simulates_all:
  "ok c \<Longrightarrow> \<exists>xs c'. serve_all concrete rs c = Some (xs, c') \<and> ok c' \<and>
     serve_all (\<lambda>r a. Some (abstract r a)) rs (view c) = Some (xs, view c')"
proof (induction rs arbitrary: c)
  case (Cons r rs)
  obtain x c1 where c1: "concrete r c = Some (x, c1)" "ok c1" "abstract r (view c) = (x, view c1)"
    using simulates [OF Cons.prems] by blast
  then show ?case using Cons.IH [OF c1(2)] by auto
qed auto

end

section \<open>The invariant of the caches\<close>

definition source_text :: "database \<Rightarrow> SourceFileId \<rightharpoonup> string" where
  "source_text db f = map_option input_text (map_of (db_sources db) f)"

definition view_inputs :: "database \<Rightarrow> inputs" where
  "view_inputs db = \<lparr>in_text = source_text db, in_files = map_of (db_packages db), in_cancelled = db_cancelled db\<rparr>"

lemma source_text_updates [simp]:
  "source_text (db\<lparr>db_parse_cache := x1\<rparr>) = source_text db" "source_text (db\<lparr>db_hir_cache := x2\<rparr>) = source_text db"
  "source_text (db\<lparr>db_packages := x3\<rparr>) = source_text db" "source_text (db\<lparr>db_cancelled := x4\<rparr>) = source_text db"
  by (simp_all add: source_text_def fun_eq_iff)

definition parse_cache_ok :: "(string \<Rightarrow> string \<Rightarrow> CheckResult) \<Rightarrow> database \<Rightarrow> bool" where
  "parse_cache_ok parser db \<longleftrightarrow> (\<forall>f cached. db_parse_cache db f = Some cached \<longrightarrow>
     pc_result cached = fresh_parse parser (source_text db) f \<and> source_text db f \<noteq> None)"

definition hir_cache_ok :: "(string \<Rightarrow> string \<Rightarrow> CheckResult) \<Rightarrow> database \<Rightarrow> bool" where
  "hir_cache_ok parser db \<longleftrightarrow> (\<forall>p cached. db_hir_cache db p = Some cached \<longrightarrow>
     hc_result cached = fresh_hir parser (source_text db) (map_of (db_packages db)) p \<and> map_of (db_packages db) p \<noteq> None)"

definition database_ok :: "(string \<Rightarrow> string \<Rightarrow> CheckResult) \<Rightarrow> database \<Rightarrow> bool" where
  "database_ok parser db \<longleftrightarrow> btree_ok (db_sources db) \<and> btree_ok (db_packages db) \<and>
     parse_cache_ok parser db \<and> hir_cache_ok parser db"

section \<open>Nothing panics\<close>

lemma lowered_modules: "lower_to_hir ast symbols = Some (Inr p) \<Longrightarrow> hir_modules p \<noteq> []"
proof -
  have "map_sum id (\<lambda>(m, entry, n). \<lparr>schema_version = 1, hir_modules = [m], hir_entry = entry\<rparr>) r = Inr p \<Longrightarrow>
      hir_modules p \<noteq> []" for r :: "Diagnostic list + HirModule \<times> HirDefId option \<times> u32"
    by (cases r) auto
  then show "lower_to_hir ast symbols = Some (Inr p) \<Longrightarrow> hir_modules p \<noteq> []"
    by (auto simp: lower_to_hir_def lower_def Let_def split: if_splits)
qed

lemma build_file_total: "\<exists>b'. build_file f target parsed b = Some b'"
proof (cases "pr_ast parsed")
  case (Some ast)
  obtain r where r: "lower_to_hir ast (analysis_symbols (analyze (source_name f) ast)) = Some r"
    using lower_to_hir_cases by blast
  show ?thesis
  proof (cases r)
    case (Inr p)
    then have "hir_modules p \<noteq> []" using r lowered_modules by blast
    then show ?thesis using Some r Inr by (auto simp: build_file_def add_module_def Let_def neq_Nil_conv)
  qed (use Some r in \<open>simp add: build_file_def Let_def\<close>)
qed (simp add: build_file_def)

lemma fresh_files_total: "\<exists>b'. fresh_files parser text fs index b = Some b'"
proof (induction fs arbitrary: index b)
  case (Cons f fs)
  then show ?case using build_file_total [of f "module_number index" "fresh_parse parser text f" b] by auto
qed simp

section \<open>Queries\<close>

text \<open>A query keeps the inputs and the invariant.\<close>

definition same_inputs :: "database \<Rightarrow> database \<Rightarrow> bool" where
  "same_inputs db db' \<longleftrightarrow> db_sources db' = db_sources db \<and> db_packages db' = db_packages db \<and>
     db_cancelled db' = db_cancelled db"

lemma same_inputs_text: "same_inputs db db' \<Longrightarrow> source_text db' = source_text db"
  by (simp add: same_inputs_def source_text_def fun_eq_iff)

lemma parse_sound:
  assumes "database_ok parser db" and "\<not> db_cancelled db"
  shows "\<exists>db'. parse parser f db = (fresh_parse parser (source_text db) f, db') \<and> database_ok parser db' \<and> same_inputs db db'"
proof (cases "map_of (db_sources db) f")
  case None
  then show ?thesis using assms by (simp add: parse_def fresh_parse_def source_text_def same_inputs_def)
next
  case (Some source)
  have fresh: "fresh_parse parser (source_text db) f = parse_result parser f (input_text source)"
    and set_text: "source_text db f = Some (input_text source)"
    using Some by (simp_all add: fresh_parse_def source_text_def)
  let ?cached = "Option.bind (db_parse_cache db f)
    (\<lambda>cached. if pc_revision cached = input_revision source then Some (pc_result cached) else None)"
  show ?thesis
  proof (cases ?cached)
    case None
    let ?db = "db\<lparr>db_parse_cache := (db_parse_cache db)
      (f \<mapsto> \<lparr>pc_revision = input_revision source, pc_result = parse_result parser f (input_text source)\<rparr>)\<rparr>"
    have "parse parser f db = (parse_result parser f (input_text source), ?db)"
      unfolding parse_def Some option.case None Let_def using assms(2) by simp
    moreover have "database_ok parser ?db"
      using assms(1) fresh set_text by (auto simp: database_ok_def parse_cache_ok_def hir_cache_ok_def)
    ultimately show ?thesis using fresh by (auto simp: same_inputs_def)
  next
    case (Some r)
    then have "r = fresh_parse parser (source_text db) f"
      using assms(1) by (auto simp: database_ok_def parse_cache_ok_def bind_eq_Some_conv split: if_splits)
    moreover have "parse parser f db = (r, db)"
      unfolding parse_def \<open>map_of (db_sources db) f = Some source\<close> option.case Some using assms(2) by simp
    ultimately show ?thesis using assms(1) by (auto simp: same_inputs_def)
  qed
qed

lemma fresh_parse_completes: "\<not> pr_cancelled (fresh_parse parser text f)"
  by (simp add: fresh_parse_def unset_source_def parse_result_def Let_def split: option.split)

lemma build_files_sound:
  assumes "database_ok parser db" and "\<not> db_cancelled db"
  shows "\<exists>db'. build_files parser fs index b db = Some (fresh_files parser (source_text db) fs index b, db') \<and>
    database_ok parser db' \<and> same_inputs db db'"
  using assms
proof (induction fs arbitrary: index b db)
  case Nil
  then show ?case by (auto simp: same_inputs_def)
next
  case (Cons f fs)
  obtain db1 where p: "parse parser f db = (fresh_parse parser (source_text db) f, db1)" and
    ok: "database_ok parser db1" "same_inputs db db1" using parse_sound [OF Cons.prems] by blast
  obtain b1 where b1: "build_file f (module_number index) (fresh_parse parser (source_text db) f) b = Some b1"
    using build_file_total by blast
  have nc: "\<not> db_cancelled db1" using ok(2) Cons.prems(2) by (simp add: same_inputs_def)
  obtain db2 where "build_files parser fs (Suc index) b1 db1 = Some (fresh_files parser (source_text db1) fs (Suc index) b1, db2)"
    "database_ok parser db2" "same_inputs db1 db2"
    using Cons.IH [OF ok(1) nc] by blast
  then show ?case
    using p b1 Cons.prems(2) same_inputs_text [OF ok(2)] ok(2) fresh_parse_completes
    by (simp add: module_number_def same_inputs_def)
qed

lemma hir_sound:
  assumes ok: "database_ok parser db" and nc: "\<not> db_cancelled db"
  shows "\<exists>db'. hir parser p db = Some (fresh_hir parser (source_text db) (map_of (db_packages db)) p, db') \<and>
    database_ok parser db' \<and> same_inputs db db'"
proof (cases "map_of (db_packages db) p")
  case None
  then show ?thesis
    using ok nc by (simp add: hir_def fingerprint_def build_hir_def fresh_hir_def same_inputs_def)
next
  case (Some fs)
  let ?fresh = "fresh_hir parser (source_text db) (map_of (db_packages db)) p"
  obtain key where key: "fingerprint db p = Some key" using Some by (simp add: fingerprint_def)
  obtain b where b: "fresh_files parser (source_text db) fs 0 \<lparr>b_diagnostics = [], b_modules = [], b_entry = None\<rparr> = Some b"
    using fresh_files_total by blast
  have fresh: "?fresh = finish_hir b" using Some b by (simp add: fresh_hir_def)
  obtain db1 where "build_files parser fs 0 \<lparr>b_diagnostics = [], b_modules = [], b_entry = None\<rparr> db = Some (Some b, db1)"
    and ok1: "database_ok parser db1" and same: "same_inputs db db1"
    using build_files_sound [OF ok nc] b by metis
  then have build: "build_hir parser p db = Some (?fresh, db1)" using Some fresh by (simp add: build_hir_def)
  let ?cached = "Option.bind (db_hir_cache db p) (\<lambda>cached. if hc_fingerprint cached = key then Some (hc_result cached) else None)"
  show ?thesis
  proof (cases ?cached)
    case None
    let ?db = "db1\<lparr>db_hir_cache := (db_hir_cache db1)(p \<mapsto> \<lparr>hc_fingerprint = key, hc_result = ?fresh\<rparr>)\<rparr>"
    have "hir parser p db = Some (?fresh, ?db)"
      unfolding hir_def key option.case None build using nc fresh by (simp add: finish_hir_def)
    moreover have "database_ok parser ?db"
      using ok1 same same_inputs_text [OF same] Some
      by (auto simp: database_ok_def parse_cache_ok_def hir_cache_ok_def same_inputs_def)
    ultimately show ?thesis using same by (auto simp: same_inputs_def)
  next
    case (Some r)
    then have "r = ?fresh" using ok by (auto simp: database_ok_def hir_cache_ok_def bind_eq_Some_conv split: if_splits)
    moreover have "hir parser p db = Some (r, db)" unfolding hir_def key option.case Some using nc by simp
    ultimately show ?thesis using ok by (auto simp: same_inputs_def)
  qed
qed

section \<open>Inputs\<close>

lemma fresh_files_frame:
  "(\<And>f. f \<in> set fs \<Longrightarrow> text f = text' f) \<Longrightarrow> fresh_files parser text fs index b = fresh_files parser text' fs index b"
proof (induction fs arbitrary: index b)
  case (Cons f fs)
  have "fresh_parse parser text f = fresh_parse parser text' f" using Cons.prems by (simp add: fresh_parse_def)
  moreover have "fresh_files parser text fs (Suc index) = fresh_files parser text' fs (Suc index)"
    using Cons by (intro ext) simp
  ultimately show ?case by simp
qed simp


lemma sorted_distinct_remdups_adj: "sorted xs \<Longrightarrow> distinct (remdups_adj xs)"
  by (induction xs rule: remdups_adj.induct) auto

lemma normalized_files: "remdups_adj (sort fs) = sorted_list_of_set (set fs)"
  by (rule sorted_distinct_set_unique) (simp_all add: sorted_remdups_adj sorted_distinct_remdups_adj)

lemma set_package_files_sound:
  assumes "database_ok parser db"
  shows "database_ok parser (set_package_files p fs db) \<and>
    view_inputs (set_package_files p fs db) =
      (view_inputs db)\<lparr>in_files := (in_files (view_inputs db))(p \<mapsto> sorted_list_of_set (set fs))\<rparr>"
proof (cases "map_of (db_packages db) p = Some (sorted_list_of_set (set fs))")
  case True
  then show ?thesis using assms by (auto simp: set_package_files_def normalized_files view_inputs_def Let_def fun_upd_idem_iff)
next
  case False
  have "fresh_hir parser text ((map_of (db_packages db))(p \<mapsto> ns)) q = fresh_hir parser text (map_of (db_packages db)) q"
    if "q \<noteq> p" for "text" ns q using that by (simp add: fresh_hir_def)
  then show ?thesis
    using False assms
    by (auto simp: set_package_files_def normalized_files view_inputs_def Let_def database_ok_def parse_cache_ok_def
        hir_cache_ok_def bt.ok_put bt.lookup_put)
qed

lemma clear_packages: "fold (\<lambda>p cache. cache(p := None)) ps cache q = (if q \<in> set ps then None else cache q)"
  by (induction ps arbitrary: cache) auto

lemma set_source_sound:
  assumes ok: "database_ok parser db"
  shows "database_ok parser (set_source f content db) \<and>
    view_inputs (set_source f content db) = (view_inputs db)\<lparr>in_text := (in_text (view_inputs db))(f \<mapsto> content)\<rparr>"
proof (cases "source_text db f = Some content")
  case True
  then have "set_source f content db = db" by (simp add: set_source_def source_text_def)
  then show ?thesis using ok fun_upd_idem [of "source_text db" f, OF True] by (simp add: view_inputs_def)
next
  case False
  let ?db = "set_source f content db"
  let ?affected = "map fst (filter (\<lambda>(p, fs). f \<in> set fs) (db_packages db))"
  define revision where "revision = (case map_of (db_sources db) f of None \<Rightarrow> 1 | Some s \<Rightarrow> saturating_add (input_revision s) 1)"
  have db: "?db = db\<lparr>db_sources := btree_insert f \<lparr>input_text = content, input_revision = revision\<rparr> (db_sources db),
      db_parse_cache := (db_parse_cache db)(f := None),
      db_hir_cache := fold (\<lambda>p cache. cache(p := None)) ?affected (db_hir_cache db)\<rparr>"
    using False by (auto simp: set_source_def source_text_def Let_def revision_def)
  have st: "source_text ?db = (source_text db)(f \<mapsto> content)"
    using ok by (auto simp: db source_text_def database_ok_def bt.lookup_put)
  have "fresh_hir parser (source_text ?db) (map_of (db_packages db)) p = fresh_hir parser (source_text db) (map_of (db_packages db)) p"
    if "p \<notin> set ?affected" for p
  proof (cases "map_of (db_packages db) p")
    case (Some fs)
    then have "(p, fs) \<in> set (db_packages db)" by (rule map_of_SomeD)
    then have "f \<notin> set fs" using that by force
    then have "fresh_files parser (source_text ?db) fs 0 b = fresh_files parser (source_text db) fs 0 b" for b
      using st by (intro fresh_files_frame) auto
    then show ?thesis using Some by (simp add: fresh_hir_def)
  qed (simp add: fresh_hir_def)
  then have "hir_cache_ok parser ?db"
    using ok by (auto simp: database_ok_def hir_cache_ok_def db clear_packages split: if_splits)
  moreover have "parse_cache_ok parser ?db"
    using ok unfolding parse_cache_ok_def st by (auto simp: db database_ok_def parse_cache_ok_def fresh_parse_def)
  moreover have "btree_ok (db_sources ?db)" "btree_ok (db_packages ?db)"
    using ok by (simp_all add: db database_ok_def bt.ok_put)
  moreover have "view_inputs ?db = (view_inputs db)\<lparr>in_text := (source_text db)(f \<mapsto> content)\<rparr>"
    using st by (simp add: view_inputs_def db)
  ultimately show ?thesis by (simp add: database_ok_def view_inputs_def)
qed

section \<open>The refinement\<close>

lemma same_view: "same_inputs db db' \<Longrightarrow> view_inputs db' = view_inputs db"
  using same_inputs_text [of db db'] by (simp add: view_inputs_def same_inputs_def)

lemma serve_sound:
  assumes ok: "database_ok parser db"
  shows "\<exists>x db'. serve parser r db = Some (x, db') \<and> database_ok parser db' \<and>
    answer_fresh parser r (view_inputs db) = (x, view_inputs db')"
proof (cases r)
  case (SetSource f content)
  then show ?thesis using set_source_sound [OF ok, of f content] by simp
next
  case (SetPackageFiles p fs)
  then show ?thesis using set_package_files_sound [OF ok, of p fs] by simp
next
  case (QueryParse f)
  then show ?thesis
    using ok parse_sound [OF ok, of f] same_view
    by (cases "db_cancelled db") (auto simp: parse_def view_inputs_def)
next
  case (QueryHir p)
  then show ?thesis
    using ok hir_sound [OF ok, of p] same_view
    by (cases "db_cancelled db") (auto simp: hir_def view_inputs_def)
next
  case (QueryDiagnostics p)
  then show ?thesis
    using ok hir_sound [OF ok, of p] same_view
    by (cases "db_cancelled db") (auto simp: hir_def diagnostics_def view_inputs_def)
qed (use ok in \<open>auto simp: cancel_def reset_cancellation_def view_inputs_def database_ok_def parse_cache_ok_def hir_cache_ok_def\<close>)

interpretation db: simulation "database_ok parser" view_inputs "serve parser" "answer_fresh parser" for parser
  by unfold_locales (rule serve_sound)

definition no_inputs :: inputs where
  "no_inputs = \<lparr>in_text = Map.empty, in_files = Map.empty, in_cancelled = False\<rparr>"

lemma new_database_ok: "database_ok parser new_database" "view_inputs new_database = no_inputs"
  by (simp_all add: database_ok_def new_database_def parse_cache_ok_def hir_cache_ok_def btree_ok_def
      view_inputs_def no_inputs_def source_text_def fun_eq_iff)

text \<open>
  C9. Incremental compilation is from-scratch compilation: a database that starts empty answers
  every sequence of requests (new source texts, new package members, cancellation, queries in any
  order and number) without panicking, and its answers are those of a database without caches, which
  parses and builds each queried package anew from the current inputs.
\<close>

theorem database_refines_fresh:
  "\<exists>answers db. serve_all (serve parser) requests new_database = Some (answers, db) \<and>
     serve_all (\<lambda>r i. Some (answer_fresh parser r i)) requests no_inputs = Some (answers, view_inputs db)"
  using db.simulates_all [OF new_database_ok(1) [of parser], of requests] new_database_ok(2) by metis

end
