(* ===== verification/Modules.thy ===== *)
theory Modules
  imports Semantic_Sound
begin

text \<open>
  The cross-file module graph \<open>crates/syllog-semantic/src/modules.rs\<close>: modules assembled from
  sources, imports with visibility, dependency cycles, interface hashes and the analysis of bodies
  with imported symbols. A \<open>BTreeSet\<close> is its sorted list. SHA-256 is a parameter. Names are
  identifiers, so their debug form only adds quotes.
\<close>

section \<open>Data\<close>

type_synonym ModuleId = u32

record ModuleSource =
  source_file :: string
  source_ast :: Ast

record QualifiedDefId =
  q_module :: ModuleId
  q_index :: u32

datatype ModuleDefinitionKind =
  KindStruct | KindEnum | KindFunction | KindState | KindAgent | KindPipeline | KindSafetyBound

record ModuleDefinition =
  md_id :: QualifiedDefId
  md_name :: string
  md_kind :: ModuleDefinitionKind
  md_public :: bool
  md_file :: string
  md_span :: Span

record ResolvedImport =
  ri_local_name :: string
  ri_definition :: QualifiedDefId
  ri_span :: Span

record ResolvedModule =
  rm_id :: ModuleId
  rm_name :: string
  rm_files :: "string list"
  rm_definitions :: "(string, ModuleDefinition) btree"
  rm_imports :: "(string, ResolvedImport) btree"
  rm_dependencies :: "ModuleId list"
  rm_interface_hash :: string

record ModuleAnalysis =
  ma_modules :: "ResolvedModule list"
  ma_source_analyses :: "(string, Analysis) btree"
  ma_diagnostics :: "Diagnostic list"

record PendingImport =
  pi_owner :: ModuleId
  pi_file :: string
  pi_node :: UseNode

type_synonym modules = "(ModuleId, ResolvedModule) btree"

text \<open>\<open>ModuleAnalysis::module\<close>.\<close>

definition find_module :: "ModuleAnalysis \<Rightarrow> string \<Rightarrow> ResolvedModule option" where
  "find_module analysis name = List.find (\<lambda>m. rm_name m = name) (ma_modules analysis)"

text \<open>\<open>collect\<close> into a \<open>BTreeMap\<close>, and \<open>get_mut\<close> followed by an update.\<close>

definition btree_collect :: "('k::linorder \<times> 'v) list \<Rightarrow> ('k, 'v) btree" where
  "btree_collect xs = fold (\<lambda>(k, v). btree_insert k v) xs []"

definition btree_adjust :: "'k::linorder \<Rightarrow> ('v \<Rightarrow> 'v) \<Rightarrow> ('k, 'v) btree \<Rightarrow> ('k, 'v) btree" where
  "btree_adjust k f t = (case map_of t k of None \<Rightarrow> t | Some v \<Rightarrow> btree_insert k (f v) t)"

section \<open>Declarations\<close>

fun item_kind :: "Item \<Rightarrow> ModuleDefinitionKind" where
  "item_kind (ItStruct node) = KindStruct"
| "item_kind (ItEnum node) = KindEnum"
| "item_kind (ItFunction node) = KindFunction"
| "item_kind (ItState node) = KindState"
| "item_kind (ItAgent node) = KindAgent"
| "item_kind (ItPipeline node) = KindPipeline"
| "item_kind (ItSafetyBound node) = KindSafetyBound"

definition module_definition :: "ModuleId \<Rightarrow> u32 \<Rightarrow> string \<Rightarrow> Item \<Rightarrow> ModuleDefinition" where
  "module_definition m index file item =
     \<lparr>md_id = \<lparr>q_module = m, q_index = index\<rparr>, md_name = item_name item, md_kind = item_kind item,
      md_public = item_public item, md_file = file, md_span = item_span item\<rparr>"

definition item_identity :: "Item \<Rightarrow> string \<times> Span" where
  "item_identity item = (item_name item, item_span item)"

definition declared_module :: "ModuleSource \<Rightarrow> string option" where
  "declared_module source = map_option (\<lambda>d. join ''::'' (module_path d)) (ast_module (source_ast source))"

section \<open>Signatures and interface hashes\<close>

fun type_signature :: "TypeNode \<Rightarrow> string" where
  "type_signature (TypeNode (TkReference lifetime is_mut inner) sp) =
     ''&'' @ (case lifetime of None \<Rightarrow> [] | Some name \<Rightarrow> [CHR 0x27] @ name @ '' '') @
     (if is_mut then ''mut '' else []) @ type_signature inner"
| "type_signature (TypeNode (TkPath segments arguments) sp) =
     join ''::'' segments @
     (if arguments = [] then [] else ''<'' @ join '','' (map type_signature arguments) @ ''>'')"
| "type_signature (TypeNode (TkArray inner) sp) = ''['' @ type_signature inner @ '']''"
| "type_signature (TypeNode (TkTuple items) sp) = ''('' @ join '','' (map type_signature items) @ '')''"

definition show_bool :: "bool \<Rightarrow> string" where
  "show_bool b = (if b then ''true'' else ''false'')"

definition show_debug :: "string \<Rightarrow> string" where
  "show_debug s = [CHR 0x22] @ s @ [CHR 0x22]"

fun item_signature :: "Item \<Rightarrow> string" where
  "item_signature (ItFunction node) =
     ''fn '' @ function_name node @ ''('' @
     join '','' (map (\<lambda>p. type_signature (parameter_type p)) (function_parameters node)) @ '')->'' @
     (case function_return node of None \<Rightarrow> ''()'' | Some t \<Rightarrow> type_signature t) @
     '';async='' @ show_bool (function_async node)"
| "item_signature (ItStruct node) =
     ''struct '' @ struct_name node @ ''{'' @
     join '','' (map (\<lambda>f. show_bool (field_public f) @ '':'' @ field_name f @ '':'' @ type_signature (field_type f))
       (struct_fields node)) @ ''}''"
| "item_signature (ItEnum node) =
     ''enum '' @ enum_name node @ ''{'' @
     join '','' (map (\<lambda>v. ev_name v @ ''('' @ join '','' (map type_signature (ev_fields v)) @ '')'')
       (enum_variants node)) @ ''}''"
| "item_signature (ItState node) =
     ''state '' @ state_name node @ '':['' @
     join '', '' (map (\<lambda>f. ''('' @ show_debug (slot_name f) @ '', '' @ show_debug (type_signature (slot_type f)) @ '')'')
       (state_fields node)) @ '']''"
| "item_signature (ItAgent node) = ''agent '' @ agent_name node"
| "item_signature (ItPipeline node) = ''pipeline '' @ pnode_name node"
| "item_signature (ItSafetyBound node) = ''safety_bound '' @ bound_name node"

definition interface_hash :: "(string \<Rightarrow> string) \<Rightarrow> ResolvedModule \<Rightarrow> ModuleSource list \<Rightarrow> string" where
  "interface_hash digest m sources =
     (let exported = concat (map (\<lambda>source. filter item_public (ast_items (source_ast source)))
            (filter (\<lambda>source. declared_module source = Some (rm_name m)) sources))
      in digest (join [CHR 0x0A] (sort (map item_signature exported))))"

section \<open>Collecting sources\<close>

record collection =
  co_next :: "ModuleId \<rightharpoonup> u32"
  co_modules :: modules
  co_pending :: "PendingImport list"
  co_diagnostics :: "Diagnostic list"

definition collect_definition :: "ModuleId \<Rightarrow> string \<Rightarrow> string \<Rightarrow> Item \<Rightarrow> collection \<Rightarrow> collection" where
  "collect_definition mid name file item c =
     (let index = (case co_next c mid of None \<Rightarrow> 0 | Some i \<Rightarrow> i);
          d = module_definition mid index file item;
          c1 = c\<lparr>co_next := (co_next c)(mid \<mapsto> saturating_add index 1)\<rparr>
      in case map_of (co_modules c) mid of
           None \<Rightarrow> c1
         | Some m \<Rightarrow>
             if map_of (rm_definitions m) (md_name d) \<noteq> None
             then c1\<lparr>co_diagnostics := co_diagnostics c1 @
                    [error_diagnostic ''SYL2403''
                       [Txt (''duplicate definition '' @ in_quotes (md_name d) @ '' exported by module '' @ in_quotes name)]
                       file (md_span d)]\<rparr>
             else c1\<lparr>co_modules := btree_insert mid
                    (m\<lparr>rm_definitions := btree_insert (md_name d) d (rm_definitions m)\<rparr>) (co_modules c1)\<rparr>)"

definition collect_source :: "(string, ModuleId) btree \<Rightarrow> ModuleSource \<Rightarrow> collection \<Rightarrow> collection" where
  "collect_source ids source c =
     (case declared_module source of
        None \<Rightarrow>
          c\<lparr>co_diagnostics := co_diagnostics c @
             [error_diagnostic ''SYL2400'' [Txt ''project source must declare a module'']
                (source_file source) (ast_span (source_ast source))]\<rparr>
      | Some name \<Rightarrow>
          (case map_of ids name of
             None \<Rightarrow> c
           | Some mid \<Rightarrow>
               (case map_of (co_modules c) mid of
                  None \<Rightarrow> c
                | Some m \<Rightarrow>
                    (let c1 = c\<lparr>co_modules := btree_insert mid
                                (m\<lparr>rm_files := rm_files m @ [source_file source]\<rparr>) (co_modules c)\<rparr>;
                         c2 = fold (collect_definition mid name (source_file source)) (ast_items (source_ast source)) c1
                     in c2\<lparr>co_pending := co_pending c2 @
                          map (\<lambda>node. \<lparr>pi_owner = mid, pi_file = source_file source, pi_node = node\<rparr>)
                            (ast_imports (source_ast source))\<rparr>))))"

definition collect_sources ::
  "ModuleSource list \<Rightarrow> (string, ModuleId) btree \<Rightarrow> modules \<Rightarrow> collection" where
  "collect_sources sources ids ms =
     fold (collect_source ids) sources
       \<lparr>co_next = Map.empty, co_modules = ms, co_pending = [], co_diagnostics = []\<rparr>"

section \<open>Resolving imports\<close>

record resolution =
  rs_modules :: modules
  rs_sites :: "ModuleId \<times> ModuleId \<rightharpoonup> string \<times> Span"
  rs_diagnostics :: "Diagnostic list"

definition import_error :: "string \<Rightarrow> string \<Rightarrow> PendingImport \<Rightarrow> resolution \<Rightarrow> resolution" where
  "import_error code text pending r =
     r\<lparr>rs_diagnostics := rs_diagnostics r @
         [error_diagnostic code [Txt text] (pi_file pending) (use_span (pi_node pending))]\<rparr>"

definition imported_name :: "UseNode \<Rightarrow> string" where
  "imported_name node = (case use_alias node of Some alias \<Rightarrow> alias | None \<Rightarrow> last (use_path node))"

text \<open>The import of a public definition: the owner depends on the target, the first import of a
  target is the site of the dependency, and a taken local name is an error.\<close>

definition bind_import ::
  "PendingImport \<Rightarrow> ModuleId \<Rightarrow> ModuleDefinition \<Rightarrow> resolution \<Rightarrow> resolution" where
  "bind_import pending target d r =
     (case map_of (rs_modules r) (pi_owner pending) of
        None \<Rightarrow> r
      | Some owner \<Rightarrow>
          (let local = imported_name (pi_node pending);
               edge = (pi_owner pending, target);
               owner1 = owner\<lparr>rm_dependencies := insort_insert target (rm_dependencies owner)\<rparr>;
               r1 = r\<lparr>rs_modules := btree_insert (pi_owner pending) owner1 (rs_modules r),
                      rs_sites := (if rs_sites r edge = None
                                   then (rs_sites r)(edge \<mapsto> (pi_file pending, use_span (pi_node pending)))
                                   else rs_sites r)\<rparr>
           in if map_of (rm_definitions owner) local \<noteq> None \<or> map_of (rm_imports owner) local \<noteq> None
              then import_error ''SYL2403'' (''duplicate local name '' @ in_quotes local) pending r1
              else r1\<lparr>rs_modules := btree_insert (pi_owner pending)
                     (owner1\<lparr>rm_imports := btree_insert local
                        \<lparr>ri_local_name = local, ri_definition = md_id d, ri_span = use_span (pi_node pending)\<rparr>
                        (rm_imports owner)\<rparr>) (rs_modules r1)\<rparr>))"

definition resolve_import :: "(string, ModuleId) btree \<Rightarrow> PendingImport \<Rightarrow> resolution \<Rightarrow> resolution" where
  "resolve_import ids pending r =
     (let path = use_path (pi_node pending) in
      if path = [] then r
      else
        (let symbol = last path; module_name = join ''::'' (butlast path) in
         case map_of ids module_name of
           None \<Rightarrow> import_error ''SYL2401'' (''unknown imported module '' @ in_quotes module_name) pending r
         | Some target \<Rightarrow>
             (case Option.bind (map_of (rs_modules r) target) (\<lambda>m. map_of (rm_definitions m) symbol) of
                None \<Rightarrow>
                  import_error ''SYL2401''
                    (''module '' @ in_quotes module_name @ '' has no definition '' @ in_quotes symbol) pending r
              | Some d \<Rightarrow>
                  if \<not> md_public d
                  then import_error ''SYL2402''
                         (''definition '' @ in_quotes (module_name @ ''::'' @ symbol) @ '' is private'') pending r
                  else bind_import pending target d r)))"

definition resolve_imports ::
  "(string, ModuleId) btree \<Rightarrow> modules \<Rightarrow> PendingImport list \<Rightarrow> resolution" where
  "resolve_imports ids ms pending =
     fold (resolve_import ids) pending \<lparr>rs_modules = ms, rs_sites = Map.empty, rs_diagnostics = []\<rparr>"

section \<open>Dependency cycles\<close>

text \<open>
  Depth-first search. \<open>visit_neighbors\<close> is the loop of \<open>visit\<close>: \<open>Some r\<close> when \<open>visit\<close> returns
  \<open>r\<close> from inside the loop, \<open>None\<close> when the loop is done.
\<close>

type_synonym visit_states = "ModuleId \<rightharpoonup> nat"

definition position :: "ModuleId \<Rightarrow> ModuleId list \<Rightarrow> nat option" where
  "position x xs = (let n = length (takeWhile (\<lambda>y. y \<noteq> x) xs) in if n < length xs then Some n else None)"

function visit ::
    "modules \<Rightarrow> ModuleId \<Rightarrow> visit_states \<Rightarrow> ModuleId list \<Rightarrow> ModuleId list option \<times> visit_states \<times> ModuleId list"
  and visit_neighbors ::
    "modules \<Rightarrow> ModuleId list \<Rightarrow> visit_states \<Rightarrow> ModuleId list \<Rightarrow>
       ModuleId list option option \<times> visit_states \<times> ModuleId list" where
  "visit ms node states stack =
     (case map_of ms node of
        None \<Rightarrow> (None, states(node \<mapsto> 1), stack @ [node])
      | Some m \<Rightarrow>
          (case visit_neighbors ms (rm_dependencies m) (states(node \<mapsto> 1)) (stack @ [node]) of
             (Some r, states', stack') \<Rightarrow> (r, states', stack')
           | (None, states', stack') \<Rightarrow> (None, states'(node \<mapsto> 2), butlast stack')))"
| "visit_neighbors ms [] states stack = (None, states, stack)"
| "visit_neighbors ms (n # ns) states stack =
     (case states n of
        None \<Rightarrow>
          (case visit ms n states stack of
             (Some cycle, states', stack') \<Rightarrow> (Some (Some cycle), states', stack')
           | (None, states', stack') \<Rightarrow> visit_neighbors ms ns states' stack')
      | Some c \<Rightarrow>
          if c = 1
          then (case position n stack of
                  None \<Rightarrow> (Some None, states, stack)
                | Some start \<Rightarrow> (Some (Some (drop start stack @ [n])), states, stack))
          else visit_neighbors ms ns states stack)"
  by pat_completeness auto


text \<open>A search only adds states, so every call inside it has fewer modules left.\<close>

lemma visit_states:
  "visit_visit_neighbors_dom (Inl (ms, node, states, stack)) \<Longrightarrow>
     dom states \<subseteq> dom (fst (snd (visit ms node states stack)))"
  "visit_visit_neighbors_dom (Inr (ms, ns, states, stack)) \<Longrightarrow>
     dom states \<subseteq> dom (fst (snd (visit_neighbors ms ns states stack)))"
proof (induction ms node states stack and ms ns states stack rule: visit_visit_neighbors.pinduct)
  case (1 ms node states stack)
  show ?case
  proof (cases "map_of ms node")
    case (Some m)
    have "dom (states(node \<mapsto> 1)) \<subseteq> dom (fst (snd (visit_neighbors ms (rm_dependencies m) (states(node \<mapsto> 1)) (stack @ [node]))))"
      by (rule 1(2) [OF Some])
    then show ?thesis using Some by (auto simp: visit.psimps [OF 1(1)] subset_iff split: option.splits prod.splits)
  qed (auto simp: visit.psimps [OF 1(1)])
next
  case (3 ms n ns states stack)
  show ?case
  proof (cases "states n")
    case None
    obtain r s k where v: "visit ms n states stack = (r, s, k)" by (cases "visit ms n states stack")
    have "dom states \<subseteq> dom s" using 3(2) [OF None] v by simp
    then show ?thesis
      using 3(3) [OF None v] None v
      by (cases r) (simp_all add: visit_neighbors.psimps(2) [OF 3(1)])
  next
    case (Some c)
    then show ?thesis using 3(4) [OF Some] by (auto simp: visit_neighbors.psimps(2) [OF 3(1)] split: option.splits)
  qed
qed (simp add: visit_neighbors.psimps)

definition unvisited :: "modules \<Rightarrow> visit_states \<Rightarrow> nat" where
  "unvisited ms states = card (fst ` set ms - dom states)"

lemma unvisited_mono: "dom states \<subseteq> dom states' \<Longrightarrow> unvisited ms states' \<le> unvisited ms states"
  by (auto simp: unvisited_def intro!: card_mono)

lemma unvisited_visit:
  assumes "map_of ms n = Some m" and "states n = None"
  shows "unvisited ms (states(n \<mapsto> c)) < unvisited ms states"
proof -
  have "n \<in> fst ` set ms - dom states" using assms by (force dest: map_of_SomeD)
  then show ?thesis unfolding unvisited_def by (intro psubset_card_mono) auto
qed

lemma visit_unvisited:
  assumes "visit_visit_neighbors_dom (Inl (ms, n, states, stack))" and "visit ms n states stack = (r, s, k)"
  shows "unvisited ms s = unvisited ms states \<or> unvisited ms s < unvisited ms states"
  using unvisited_mono [of states s ms] visit_states(1) [OF assms(1)] assms(2) by auto

termination visit
proof (relation "measures
    [case_sum (\<lambda>(ms, node, states, stack). if map_of ms node = None then 0 else unvisited ms (states(node \<mapsto> 1)))
       (\<lambda>(ms, ns, states, stack). unvisited ms states),
     case_sum (\<lambda>(ms, node, states, stack). if map_of ms node = None then 0 else 2) (\<lambda>_. 1),
     case_sum (\<lambda>_. 0) (\<lambda>(ms, ns, states, stack). length ns)]")
qed (auto simp: unvisited_visit dest: visit_unvisited)


text \<open>The loop over the modules of \<open>find_cycle\<close>.\<close>

fun find_cycle_from :: "modules \<Rightarrow> ModuleId list \<Rightarrow> visit_states \<Rightarrow> ModuleId list \<Rightarrow> ModuleId list option" where
  "find_cycle_from ms [] states stack = None"
| "find_cycle_from ms (n # ns) states stack =
     (if states n = None
      then (case visit ms n states stack of
              (Some cycle, states', stack') \<Rightarrow> Some cycle
            | (None, states', stack') \<Rightarrow> find_cycle_from ms ns states' stack')
      else find_cycle_from ms ns states stack)"

definition find_cycle :: "modules \<Rightarrow> ModuleId list option" where
  "find_cycle ms = find_cycle_from ms (map fst ms) Map.empty []"

section \<open>Bodies\<close>

text \<open>The declarations behind the definitions, by identity.\<close>

definition definition_item :: "ModuleSource list \<Rightarrow> ModuleDefinition \<Rightarrow> (QualifiedDefId \<times> Item) option" where
  "definition_item sources d =
     Option.bind (List.find (\<lambda>source. source_file source = md_file d) sources) (\<lambda>source.
       map_option (\<lambda>item. (md_id d, item))
         (List.find (\<lambda>item. item_identity item = (md_name d, md_span d)) (ast_items (source_ast source))))"

definition definition_items :: "ModuleSource list \<Rightarrow> modules \<Rightarrow> (QualifiedDefId \<rightharpoonup> Item)" where
  "definition_items sources ms =
     collect_map (List.map_filter (definition_item sources)
       (concat (map (\<lambda>(k, m). map snd (rm_definitions m)) ms)))"

text \<open>What a source sees of other files: the imports of its module, then the definitions of the
  module that stand in other files and that the source does not declare itself.\<close>

definition visible_items ::
  "(QualifiedDefId \<rightharpoonup> Item) \<Rightarrow> ModuleSource \<Rightarrow> ResolvedModule \<Rightarrow> (string \<times> Item) list" where
  "visible_items items source m =
     List.map_filter (\<lambda>(k, import). map_option (Pair (ri_local_name import)) (items (ri_definition import)))
       (rm_imports m) @
     List.map_filter (\<lambda>(k, d).
       if md_file d = source_file source \<or>
          list_ex (\<lambda>item. item_name item = md_name d) (ast_items (source_ast source))
       then None
       else map_option (Pair (md_name d)) (items (md_id d))) (rm_definitions m)"

definition analyze_source_body ::
  "modules \<Rightarrow> (QualifiedDefId \<rightharpoonup> Item) \<Rightarrow> ModuleSource \<Rightarrow> (string, Analysis) btree \<Rightarrow> (string, Analysis) btree" where
  "analyze_source_body ms items source analyses =
     (case Option.bind (declared_module source) (\<lambda>name. List.find (\<lambda>m. rm_name m = name) (map snd ms)) of
        None \<Rightarrow> analyses
      | Some m \<Rightarrow>
          btree_insert (source_file source)
            (analyze_with_imports (source_file source) (source_ast source) (visible_items items source m)) analyses)"

definition analyze_source_bodies :: "ModuleSource list \<Rightarrow> modules \<Rightarrow> (string, Analysis) btree" where
  "analyze_source_bodies sources ms =
     fold (analyze_source_body ms (definition_items sources ms)) sources []"

section \<open>The whole analysis\<close>

definition module_ids :: "ModuleSource list \<Rightarrow> (string, ModuleId) btree" where
  "module_ids sources =
     btree_collect (map (\<lambda>(index, name). (name, try_from_or_max index))
       (enumerate 0 (sort (remdups (List.map_filter declared_module sources)))))"

definition empty_module :: "ModuleId \<Rightarrow> string \<Rightarrow> ResolvedModule" where
  "empty_module mid name =
     \<lparr>rm_id = mid, rm_name = name, rm_files = [], rm_definitions = [], rm_imports = [], rm_dependencies = [],
      rm_interface_hash = replicate 32 (CHR 0x00)\<rparr>"

definition empty_modules :: "(string, ModuleId) btree \<Rightarrow> modules" where
  "empty_modules ids = btree_collect (map (\<lambda>(name, mid). (mid, empty_module mid name)) ids)"

text \<open>The source range a cycle is reported at: the first import of its first edge.\<close>

definition cycle_site :: "resolution \<Rightarrow> ModuleId list \<Rightarrow> ResolvedModule \<Rightarrow> string \<times> Span" where
  "cycle_site r cycle first =
     (let fallback = (case rm_files first of [] \<Rightarrow> [] | f # _ \<Rightarrow> f, default_span) in
      case cycle of
        a # b # _ \<Rightarrow> (case rs_sites r (a, b) of Some site \<Rightarrow> site | None \<Rightarrow> fallback)
      | _ \<Rightarrow> fallback)"

definition cycle_diagnostics :: "resolution \<Rightarrow> Diagnostic list" where
  "cycle_diagnostics r =
     (case find_cycle (rs_modules r) of
        None \<Rightarrow> []
      | Some cycle \<Rightarrow>
          (case Option.bind (nth_opt cycle 0) (map_of (rs_modules r)) of
             None \<Rightarrow> []
           | Some first \<Rightarrow>
               (let site = cycle_site r cycle first in
                [error_diagnostic ''SYL2404''
                   [Txt (''module dependency cycle: '' @
                      join '' -> '' (List.map_filter (\<lambda>n. map_option rm_name (map_of (rs_modules r) n)) cycle))]
                   (fst site) (snd site)])))"

definition diagnostic_key :: "Diagnostic \<Rightarrow> string \<times> nat \<times> string" where
  "diagnostic_key d = (diag_file d, span_start (diag_span d), diag_code d)"

text \<open>The module graph of sources in file order, before bodies are analyzed.\<close>

definition module_graph :: "ModuleSource list \<Rightarrow> collection \<times> resolution" where
  "module_graph sources =
     (let ids = module_ids sources;
          c = collect_sources sources ids (empty_modules ids)
      in (c, resolve_imports ids (co_modules c) (co_pending c)))"

definition analyze_modules :: "(string \<Rightarrow> string) \<Rightarrow> ModuleSource list \<Rightarrow> ModuleAnalysis" where
  "analyze_modules digest sources =
     (let sources = sort_key source_file sources;
          (c, r) = module_graph sources;
          ms = map (\<lambda>(mid, m). (mid, m\<lparr>rm_interface_hash := interface_hash digest m sources\<rparr>)) (rs_modules r);
          analyses = analyze_source_bodies sources ms;
          diagnostics = co_diagnostics c @ rs_diagnostics r @ cycle_diagnostics r @
            concat (map (\<lambda>(f, analysis). analysis_diagnostics analysis) analyses)
      in \<lparr>ma_modules = map snd ms, ma_source_analyses = analyses,
          ma_diagnostics = sort_key diagnostic_key diagnostics\<rparr>)"

end
