(* ===== verification/Module_Graph.thy ===== *)
theory Module_Graph
  imports Modules
begin

text \<open>
  The search for dependency cycles is exact: it reports a cycle of the dependency relation without
  repeated modules, and it reports none only when the relation is acyclic.
\<close>

section \<open>The dependency relation\<close>

definition dependency :: "modules \<Rightarrow> (ModuleId \<times> ModuleId) set" where
  "dependency ms = {(a, b). \<exists>m. map_of ms a = Some m \<and> b \<in> set (rm_dependencies m)}"

definition closed_graph :: "modules \<Rightarrow> bool" where
  "closed_graph ms \<longleftrightarrow> (\<forall>(a, b) \<in> dependency ms. map_of ms b \<noteq> None)"

definition dependency_path :: "modules \<Rightarrow> ModuleId list \<Rightarrow> bool" where
  "dependency_path ms = successively (\<lambda>a b. (a, b) \<in> dependency ms)"

definition simple_cycle :: "modules \<Rightarrow> ModuleId list \<Rightarrow> bool" where
  "simple_cycle ms c \<longleftrightarrow> 2 \<le> length c \<and> hd c = last c \<and> distinct (tl c) \<and> dependency_path ms c"

lemma dependency_path_trancl:
  "dependency_path ms (a # xs) \<Longrightarrow> xs \<noteq> [] \<Longrightarrow> (a, last xs) \<in> (dependency ms)\<^sup>+"
proof (induction xs arbitrary: a)
  case (Cons b xs)
  then have ab: "(a, b) \<in> dependency ms" and p: "dependency_path ms (b # xs)"
    by (auto simp: dependency_path_def)
  show ?case
  proof (cases "xs = []")
    case False
    then show ?thesis using Cons.IH [OF p] ab by (auto intro: trancl_into_trancl2)
  qed (use ab in auto)
qed simp

lemma simple_cycle_cyclic: "simple_cycle ms c \<Longrightarrow> \<not> acyclic (dependency ms)"
proof -
  assume c: "simple_cycle ms c"
  then obtain a xs where "c = a # xs" "xs \<noteq> []"
    unfolding simple_cycle_def by (cases c; cases "tl c") auto
  then have "(a, a) \<in> (dependency ms)\<^sup>+"
    using c dependency_path_trancl [of ms a xs] by (auto simp: simple_cycle_def)
  then show ?thesis by (auto simp: acyclic_def)
qed

section \<open>The invariant of the search\<close>

text \<open>Modules on the stack form a path and have state 1. Finished modules have state 2: all they
  depend on is finished, and no cycle leads through them.\<close>

definition finished :: "visit_states \<Rightarrow> ModuleId set" where
  "finished states = {n. states n = Some 2}"

definition search_ok :: "modules \<Rightarrow> visit_states \<Rightarrow> ModuleId list \<Rightarrow> bool" where
  "search_ok ms states stack \<longleftrightarrow>
     distinct stack \<and> set stack = {n. states n = Some 1} \<and> dependency_path ms stack \<and>
     ran states \<subseteq> {1, 2} \<and> dependency ms `` finished states \<subseteq> finished states \<and>
     acyclic (dependency ms \<inter> finished states \<times> UNIV)"

lemma acyclic_finish:
  assumes B: "r `` B \<subseteq> B" "acyclic (r \<inter> B \<times> UNIV)" and n: "n \<notin> B" "r `` {n} \<subseteq> B"
  shows "acyclic (r \<inter> insert n B \<times> UNIV)"
proof -
  let ?s = "r \<inter> insert n B \<times> UNIV"
  have range: "Range ?s \<subseteq> B" using B(1) n(2) by blast
  have stay: "(x, y) \<in> (r \<inter> B \<times> UNIV)\<^sup>+ \<and> y \<in> B" if "(x, y) \<in> ?s\<^sup>+" "x \<in> B" for x y
    using that
  proof (induction rule: trancl_induct)
    case (base y)
    then show ?case using B(1) by blast
  next
    case (step y z)
    then have "(y, z) \<in> r \<inter> B \<times> UNIV" "z \<in> B" using range by auto
    then show ?case using step by (meson trancl_into_trancl)
  qed
  have "(x, x) \<notin> ?s\<^sup>+" for x
  proof
    assume x: "(x, x) \<in> ?s\<^sup>+"
    then have "x \<in> B" using range trancl_range [of ?s] by blast
    then show False using stay [OF x] B(2) by (auto simp: acyclic_def)
  qed
  then show ?thesis by (auto simp: acyclic_def)
qed

lemma position_drop:
  "position x xs = Some i \<Longrightarrow> \<exists>ys. drop i xs = x # ys"
proof -
  assume "position x xs = Some i"
  then have i: "i = length (takeWhile (\<lambda>y. y \<noteq> x) xs)" "i < length xs"
    by (auto simp: position_def Let_def split: if_splits)
  then have "xs ! i = x" using nth_length_takeWhile [of "\<lambda>y. y \<noteq> x" xs] by simp
  then show ?thesis using i(2) Cons_nth_drop_Suc by metis
qed

lemma position_present: "x \<in> set xs \<Longrightarrow> position x xs \<noteq> None"
  by (induction xs) (auto simp: position_def Let_def split: if_splits)

lemma stack_cycle:
  assumes "search_ok ms states stack" and "stack \<noteq> []" and "(last stack, n) \<in> dependency ms"
    and "position n stack = Some i"
  shows "simple_cycle ms (drop i stack @ [n])"
proof -
  obtain ys where ys: "drop i stack = n # ys" using position_drop assms(4) by blast
  have split: "stack = take i stack @ n # ys" using ys append_take_drop_id by metis
  have path: "dependency_path ms (n # ys)" "distinct (n # ys)"
    using assms(1) split unfolding search_ok_def dependency_path_def
    by (metis successively_append_iff, metis distinct_append)
  have "last (n # ys) = last stack" by (subst split) simp
  then have "dependency_path ms (n # ys @ [n])"
    using path(1) assms(3) by (auto simp: dependency_path_def successively_append_iff simp flip: append_Cons)
  then show ?thesis using ys path(2) by (auto simp: simple_cycle_def)
qed

section \<open>The search\<close>

definition extends :: "visit_states \<Rightarrow> visit_states \<Rightarrow> bool" where
  "extends states states' \<longleftrightarrow> (\<forall>n. states n \<noteq> None \<longrightarrow> states' n = states n)"

lemma search_push:
  assumes "search_ok ms states stack" and "states n = None" and "stack = [] \<or> (last stack, n) \<in> dependency ms"
  shows "search_ok ms (states(n \<mapsto> 1)) (stack @ [n])"
proof -
  have "finished (states(n \<mapsto> 1)) = finished states" using assms(2) by (auto simp: finished_def)
  then show ?thesis
    using assms unfolding search_ok_def dependency_path_def
    by (auto simp: successively_append_iff ran_def)
qed

lemma search_pop:
  assumes ok: "search_ok ms states (stack @ [n])" and m: "map_of ms n = Some m"
    and ns: "set (rm_dependencies m) \<subseteq> finished states"
  shows "search_ok ms (states(n \<mapsto> 2)) stack"
proof -
  have n: "states n = Some 1" "n \<notin> set stack" using ok by (auto simp: search_ok_def)
  have f: "finished (states(n \<mapsto> 2)) = insert n (finished states)" by (auto simp: finished_def)
  have "dependency ms `` {n} \<subseteq> finished states" using m ns by (auto simp: dependency_def)
  moreover have "n \<notin> finished states" using n by (simp add: finished_def)
  ultimately have "acyclic (dependency ms \<inter> finished (states(n \<mapsto> 2)) \<times> UNIV)"
    "dependency ms `` finished (states(n \<mapsto> 2)) \<subseteq> finished (states(n \<mapsto> 2))"
    using ok acyclic_finish [of "dependency ms" "finished states" n] unfolding f search_ok_def by blast+
  moreover have "set stack = {k. (states(n \<mapsto> 2)) k = Some 1}"
    using ok n by (auto simp: search_ok_def)
  moreover have "dependency_path ms stack"
    using ok by (auto simp: search_ok_def dependency_path_def successively_append_iff)
  moreover have "ran (states(n \<mapsto> 2)) \<subseteq> {1, 2}"
    using ok by (auto simp: search_ok_def ran_def)
  ultimately show ?thesis using ok by (simp add: search_ok_def)
qed

lemma visit_sound:
  "closed_graph ms \<Longrightarrow> search_ok ms states stack \<Longrightarrow> states node = None \<Longrightarrow> map_of ms node \<noteq> None \<Longrightarrow>
     stack = [] \<or> (last stack, node) \<in> dependency ms \<Longrightarrow> visit ms node states stack = (r, states', stack') \<Longrightarrow>
     (case r of Some c \<Rightarrow> simple_cycle ms c
      | None \<Rightarrow> stack' = stack \<and> search_ok ms states' stack \<and> states' node = Some 2 \<and> extends states states')"
  "closed_graph ms \<Longrightarrow> search_ok ms states stack \<Longrightarrow> stack \<noteq> [] \<Longrightarrow>
     set ns \<subseteq> dependency ms `` {last stack} \<Longrightarrow> visit_neighbors ms ns states stack = (q, states', stack') \<Longrightarrow>
     (case q of Some r \<Rightarrow> (\<exists>c. r = Some c \<and> simple_cycle ms c)
      | None \<Rightarrow> stack' = stack \<and> search_ok ms states' stack \<and> set ns \<subseteq> finished states' \<and> extends states states')"
proof (induction ms node states stack and ms ns states stack arbitrary: r states' stack' and q states' stack'
    rule: visit_visit_neighbors.induct)
  case (1 ms node states stack)
  obtain m where m: "map_of ms node = Some m" using 1(5) by auto
  obtain q s k where v: "visit_neighbors ms (rm_dependencies m) (states(node \<mapsto> 1)) (stack @ [node]) = (q, s, k)"
    by (metis prod_cases3)
  have "set (rm_dependencies m) \<subseteq> dependency ms `` {last (stack @ [node])}" using m by (auto simp: dependency_def)
  note IH = 1(1) [OF m 1(2) search_push [OF 1(3,4,6)] _ this v]
  show ?case
  proof (cases q)
    case None
    then have k: "k = stack @ [node]" "search_ok ms s (stack @ [node])" "set (rm_dependencies m) \<subseteq> finished s"
      and e: "extends (states(node \<mapsto> 1)) s" using IH by auto
    have "r = None" "states' = s(node \<mapsto> 2)" "stack' = stack" using 1(7) m v None k by auto
    moreover have "extends states (s(node \<mapsto> 2))"
      using e 1(4) by (auto simp: extends_def split: if_splits)
    ultimately show ?thesis using search_pop [OF k(2) m k(3)] by simp
  next
    case (Some r')
    then show ?thesis using IH 1(7) m v by auto
  qed
next
  case (2 ms states stack)
  then show ?case by (auto simp: extends_def)
next
  case (3 ms n ns states stack)
  have n: "(last stack, n) \<in> dependency ms" using 3(7) by auto
  show ?case
  proof (cases "states n")
    case None
    have key: "map_of ms n \<noteq> None" using 3(4) n by (auto simp: closed_graph_def)
    obtain r s k where v: "visit ms n states stack = (r, s, k)" by (metis prod_cases3)
    note IH = 3(1) [OF None 3(4,5) None key _ v]
    show ?thesis
    proof (cases r)
      case None': None
      have k: "k = stack" "search_ok ms s stack" "s n = Some 2" "extends states s" using IH n None' by auto
      have w: "visit_neighbors ms ns s stack = (q, states', stack')"
        using 3(8) None v None' k(1) by simp
      have "case q of Some r \<Rightarrow> \<exists>c. r = Some c \<and> simple_cycle ms c
        | None \<Rightarrow> stack' = stack \<and> search_ok ms states' stack \<and> set ns \<subseteq> finished states' \<and> extends s states'"
        using 3(2) [OF None v [unfolded None' k(1)] refl refl 3(4) k(2) 3(6) _ w] 3(7) by auto
      then show ?thesis using k(3,4) by (auto simp: extends_def finished_def split: option.splits)
    next
      case (Some c)
      then show ?thesis using IH n 3(8) None v by auto
    qed
  next
    case (Some c)
    show ?thesis
    proof (cases "c = 1")
      case True
      then have "n \<in> set stack" using Some 3(5) by (auto simp: search_ok_def)
      then obtain i where i: "position n stack = Some i" using position_present by blast
      then show ?thesis using stack_cycle [OF 3(5,6) n i] 3(8) Some True by auto
    next
      case False
      then have w: "visit_neighbors ms ns states stack = (q, states', stack')" using 3(8) Some by simp
      have c: "c = 2" using Some False 3(5) by (auto simp: search_ok_def ran_def)
      show ?thesis
        using 3(3) [OF Some 3(4-6) _ w] 3(7) Some c
        by (auto simp: extends_def finished_def split: option.splits)
    qed
  qed
qed

lemma find_cycle_from_sound:
  "closed_graph ms \<Longrightarrow> search_ok ms states [] \<Longrightarrow> set ns \<subseteq> dom (map_of ms) \<Longrightarrow>
     case find_cycle_from ms ns states [] of Some c \<Rightarrow> simple_cycle ms c
     | None \<Rightarrow> \<exists>states'. search_ok ms states' [] \<and> extends states states' \<and> set ns \<subseteq> finished states'"
proof (induction ns arbitrary: states)
  case (Cons n ns)
  show ?case
  proof (cases "states n")
    case None
    obtain r s k where v: "visit ms n states [] = (r, s, k)" by (metis prod_cases3)
    have "map_of ms n \<noteq> None" using Cons.prems(3) by auto
    note vs = visit_sound(1) [OF Cons.prems(1,2) None this _ v]
    show ?thesis
    proof (cases r)
      case None': None
      have k: "k = []" "search_ok ms s []" "s n = Some 2" "extends states s" using vs None' by auto
      show ?thesis
        using Cons.IH [OF Cons.prems(1) k(2)] Cons.prems(3) None v None' k
        by (auto simp: extends_def finished_def split: option.splits)
    qed (use vs None v in auto)
  next
    case (Some c)
    have "c = 2" using Some Cons.prems(2) by (auto simp: search_ok_def ran_def)
    then show ?thesis
      using Cons.IH [OF Cons.prems(1,2)] Cons.prems(3) Some
      by (auto simp: extends_def finished_def split: option.splits)
  qed
qed (auto simp: extends_def)

lemma find_cycle_sound:
  assumes "closed_graph ms"
  shows "case find_cycle ms of Some c \<Rightarrow> simple_cycle ms c | None \<Rightarrow> acyclic (dependency ms)"
proof -
  have "search_ok ms Map.empty []" by (auto simp: search_ok_def dependency_path_def finished_def acyclic_def)
  then have "case find_cycle ms of Some c \<Rightarrow> simple_cycle ms c
     | None \<Rightarrow> \<exists>states'. search_ok ms states' [] \<and> extends Map.empty states' \<and> set (map fst ms) \<subseteq> finished states'"
    unfolding find_cycle_def by (rule find_cycle_from_sound [OF assms]) (auto simp: dom_map_of_conv_image_fst)
  moreover have "acyclic (dependency ms)" if "search_ok ms s []" "fst ` set ms \<subseteq> finished s" for s
  proof -
    have "dependency ms \<inter> finished s \<times> UNIV = dependency ms"
      using that(2) by (force simp: dependency_def dest: map_of_SomeD)
    then show ?thesis using that(1) by (simp add: search_ok_def)
  qed
  ultimately show ?thesis by (auto split: option.splits)
qed

end
