(* ===== verification/Module_Sound.thy ===== *)
theory Module_Sound
  imports Module_Graph
begin

text \<open>
  What module analysis establishes: imports lead to public definitions of declared modules only, and
  in a project without diagnostics every declaration and every import has its entry.
\<close>

section \<open>Ordered maps\<close>

lemma btree_fold_ok: "btree_ok t \<Longrightarrow> btree_ok (fold (\<lambda>(k, v). btree_insert k v) xs t)"
  by (rule bt.ok_fold)

lemma btree_fold_lookup:
  "btree_ok t \<Longrightarrow> map_of (fold (\<lambda>(k, v). btree_insert k v) xs t) = map_of t ++ collect_map xs"
  by (induction xs arbitrary: t) (auto simp: bt.ok_put bt.lookup_put collect_map_def)

lemma btree_collect_ok [simp]: "btree_ok (btree_collect xs)"
  unfolding btree_collect_def by (rule bt.ok_fold) (rule bt.ok_Nil)

lemma btree_collect_lookup: "map_of (btree_collect xs) = collect_map xs"
  unfolding btree_collect_def by (simp add: btree_fold_lookup bt.ok_Nil)

section \<open>Identities of modules\<close>

abbreviation module_names :: "ModuleSource list \<Rightarrow> string list" where
  "module_names sources \<equiv> sort (remdups (List.map_filter declared_module sources))"

lemma module_names_set: "set (module_names sources) = {name. \<exists>s \<in> set sources. declared_module s = Some name}"
  by (force simp: List.map_filter_def)

lemma enumerate_entries:
  "(x, y) \<in> set (map (\<lambda>(i, a). (a, f i)) (enumerate 0 xs)) \<longleftrightarrow> (\<exists>i < length xs. xs ! i = x \<and> y = f i)"
proof -
  have "(i, x) \<in> set (enumerate 0 xs) \<longleftrightarrow> i < length xs \<and> xs ! i = x" for i
    by (auto simp: in_set_enumerate_eq)
  moreover have "(x, y) \<in> (\<lambda>(i, a). (a, f i)) ` S \<longleftrightarrow> (\<exists>i. (i, x) \<in> S \<and> y = f i)" for S
    by (auto simp: image_iff split_def) (metis fst_conv snd_conv)
  ultimately show ?thesis by auto
qed

lemma module_ids_entries:
  "map_of (module_ids sources) name = Some mid \<longleftrightarrow>
     (\<exists>i < length (module_names sources). module_names sources ! i = name \<and> mid = try_from_or_max i)"
proof -
  let ?xs = "map (\<lambda>(index, name). (name, try_from_or_max index)) (enumerate 0 (module_names sources)) :: (string \<times> u32) list"
  have keys: "map fst ?xs = module_names sources"
    by (simp add: case_prod_beta comp_def)
  then have "distinct (map fst ?xs)" by (metis distinct_remdups distinct_sort)
  then have "collect_map ?xs name = Some mid \<longleftrightarrow> (name, mid) \<in> set ?xs"
    by (simp add: collect_map_def map_of_eq_Some_iff rev_map [symmetric])
  then show ?thesis
    unfolding module_ids_def btree_collect_lookup enumerate_entries by simp
qed

lemma module_ids_declared:
  assumes "s \<in> set sources" and "declared_module s = Some name"
  shows "map_of (module_ids sources) name \<noteq> None"
proof -
  have "name \<in> set (module_names sources)" using assms by (subst module_names_set) auto
  then obtain i where "i < length (module_names sources)" "module_names sources ! i = name"
    by (metis in_set_conv_nth)
  then have "map_of (module_ids sources) name = Some (try_from_or_max i)"
    by (subst module_ids_entries) auto
  then show ?thesis by simp
qed

text \<open>Fewer than \<open>2^32\<close> modules have identities of their own.\<close>

definition small_project :: "ModuleSource list \<Rightarrow> bool" where
  "small_project sources \<longleftrightarrow> length (remdups (List.map_filter declared_module sources)) \<le> 2 ^ 32"

lemma module_ids_inject:
  assumes "small_project sources" and "map_of (module_ids sources) a = Some mid"
    and "map_of (module_ids sources) b = Some mid"
  shows "a = b"
proof -
  obtain i j where i: "i < length (module_names sources)" "module_names sources ! i = a" "mid = try_from_or_max i"
    and j: "j < length (module_names sources)" "module_names sources ! j = b" "mid = try_from_or_max j"
    using assms(2,3) unfolding module_ids_entries by blast
  have l: "length (module_names sources) \<le> 2 ^ 32" using assms(1) by (simp add: small_project_def)
  then have "i < 2 ^ 32" "j < 2 ^ 32" using i(1) j(1) by linarith+
  moreover from this have "unat (of_nat i :: u32) = i" "unat (of_nat j :: u32) = j"
    by (simp_all add: unat_of_nat)
  ultimately have "i = j" using i(3) j(3) by (simp add: try_from_or_max_def)
  then show ?thesis using i j by simp
qed


section \<open>The invariant of the module map\<close>

text \<open>A definition stands for a declaration of one of the sources of its module.\<close>

definition declares :: "ModuleSource list \<Rightarrow> string \<Rightarrow> ModuleDefinition \<Rightarrow> bool" where
  "declares sources name d \<longleftrightarrow>
     (\<exists>s \<in> set sources. \<exists>item \<in> set (ast_items (source_ast s)).
        declared_module s = Some name \<and> md_file d = source_file s \<and> md_name d = item_name item \<and>
        md_kind d = item_kind item \<and> md_public d = item_public item \<and> md_span d = item_span item)"

definition module_ok :: "ModuleSource list \<Rightarrow> ModuleId \<Rightarrow> ResolvedModule \<Rightarrow> bool" where
  "module_ok sources mid m \<longleftrightarrow>
     rm_id m = mid \<and> map_of (module_ids sources) (rm_name m) = Some mid \<and>
     btree_ok (rm_definitions m) \<and> btree_ok (rm_imports m) \<and>
     (\<forall>name d. map_of (rm_definitions m) name = Some d \<longrightarrow>
        md_name d = name \<and> q_module (md_id d) = mid \<and> declares sources (rm_name m) d) \<and>
     set (rm_dependencies m) \<subseteq> ran (map_of (module_ids sources))"

definition modules_ok :: "ModuleSource list \<Rightarrow> modules \<Rightarrow> bool" where
  "modules_ok sources ms \<longleftrightarrow>
     btree_ok ms \<and> dom (map_of ms) = ran (map_of (module_ids sources)) \<and>
     (\<forall>mid m. map_of ms mid = Some m \<longrightarrow> module_ok sources mid m)"

lemma modules_ok_empty: "modules_ok sources (empty_modules (module_ids sources))"
proof -
  let ?ids = "module_ids sources"
  let ?xs = "map (\<lambda>(name, mid). (mid, empty_module mid name)) ?ids"
  have ids: "distinct (map fst ?ids)" using bt.ok_distinct [of ?ids] by (simp add: module_ids_def)
  have "fst ` set ?xs = ran (map_of ?ids)"
    unfolding ran_distinct [OF ids] by force
  then have "dom (collect_map ?xs) = ran (map_of ?ids)" using collect_map_None [of ?xs] by (auto simp: dom_def)
  moreover have "module_ok sources mid m" if m: "collect_map ?xs mid = Some m" for mid m
  proof -
    obtain name where "(name, mid) \<in> set ?ids" "m = empty_module mid name" using collect_map_in [OF m] by auto
    then show ?thesis using ids by (simp add: module_ok_def empty_module_def btree_ok_def)
  qed
  ultimately show ?thesis by (simp add: modules_ok_def empty_modules_def btree_collect_lookup)
qed

lemma modules_ok_insert:
  assumes "modules_ok sources ms" and "map_of ms mid = Some m" and "module_ok sources mid m'"
  shows "modules_ok sources (btree_insert mid m' ms)"
  using assms unfolding modules_ok_def by (auto simp: bt.ok_put bt.lookup_put)

lemma modules_okD: "modules_ok sources ms \<Longrightarrow> map_of ms mid = Some m \<Longrightarrow> module_ok sources mid m"
  by (simp add: modules_ok_def)

lemma closed_modules: "modules_ok sources ms \<Longrightarrow> closed_graph ms"
  unfolding closed_graph_def dependency_def modules_ok_def module_ok_def by (auto simp: dom_def) blast

text \<open>Collection and resolution only add to a module.\<close>

definition module_le :: "ResolvedModule \<Rightarrow> ResolvedModule \<Rightarrow> bool" where
  "module_le m m' \<longleftrightarrow>
     rm_id m' = rm_id m \<and> rm_name m' = rm_name m \<and> set (rm_files m) \<subseteq> set (rm_files m') \<and>
     map_of (rm_definitions m) \<subseteq>\<^sub>m map_of (rm_definitions m') \<and>
     map_of (rm_imports m) \<subseteq>\<^sub>m map_of (rm_imports m') \<and> set (rm_dependencies m) \<subseteq> set (rm_dependencies m')"

definition modules_le :: "modules \<Rightarrow> modules \<Rightarrow> bool" where
  "modules_le ms ms' \<longleftrightarrow>
     (\<forall>mid m. map_of ms mid = Some m \<longrightarrow> (\<exists>m'. map_of ms' mid = Some m' \<and> module_le m m'))"

lemma module_le_refl [simp]: "module_le m m"
  by (simp add: module_le_def)

lemma module_le_trans: "module_le a b \<Longrightarrow> module_le b c \<Longrightarrow> module_le a c"
  unfolding module_le_def by (auto intro: map_le_trans)

lemma modules_le_refl [simp]: "modules_le ms ms"
  by (auto simp: modules_le_def)

lemma modules_le_trans [trans]: "modules_le a b \<Longrightarrow> modules_le b c \<Longrightarrow> modules_le a c"
  unfolding modules_le_def by (meson module_le_trans)

lemma modules_le_insert:
  assumes "modules_ok sources ms" and "map_of ms mid = Some m" and "module_le m m'"
  shows "modules_le ms (btree_insert mid m' ms)"
  using assms unfolding modules_le_def modules_ok_def by (auto simp: bt.lookup_put)

lemma map_le_new: "f k = None \<Longrightarrow> f \<subseteq>\<^sub>m f(k \<mapsto> v)"
  by (auto simp: map_le_def)

section \<open>Collection\<close>

lemma collect_definition_ok:
  assumes "modules_ok sources (co_modules c)" and "s \<in> set sources" and "declared_module s = Some name"
    and "map_of (module_ids sources) name = Some mid" and "item \<in> set (ast_items (source_ast s))"
    and "\<forall>m. map_of (co_modules c) mid = Some m \<longrightarrow> rm_name m = name"
  defines "c' \<equiv> collect_definition mid name (source_file s) item c"
  shows "modules_ok sources (co_modules c')" and "modules_le (co_modules c) (co_modules c')"
    and "log_grows co_diagnostics c c'" and "co_pending c' = co_pending c"
    and "log_quiet co_diagnostics c c' \<Longrightarrow> map_of (co_modules c) mid = Some m \<Longrightarrow>
      \<exists>m' i. map_of (co_modules c') mid = Some m' \<and>
        map_of (rm_definitions m') (item_name item) = Some (module_definition mid i (source_file s) item)"
proof -
  let ?i = "case co_next c mid of None \<Rightarrow> 0 | Some i \<Rightarrow> i"
  let ?d = "module_definition mid ?i (source_file s) item"
  let ?new = "\<lambda>m. m\<lparr>rm_definitions := btree_insert (item_name item) ?d (rm_definitions m)\<rparr>"
  have d: "md_name ?d = item_name item" "q_module (md_id ?d) = mid" "declares sources name ?d"
    using assms(2,3,5) by (auto simp: module_definition_def declares_def)
  have new: "module_ok sources mid (?new m)" "module_le m (?new m)"
    if m: "map_of (co_modules c) mid = Some m" "map_of (rm_definitions m) (item_name item) = None" for m
    using modules_okD [OF assms(1) m(1)] assms(6) d m
    by (auto simp: module_ok_def module_le_def bt.lookup_put bt.ok_put map_le_new)
  show "modules_ok sources (co_modules c')" "modules_le (co_modules c) (co_modules c')"
    using assms(1) new d(1) modules_ok_insert [OF assms(1)] modules_le_insert [OF assms(1)]
    by (auto simp: c'_def collect_definition_def Let_def split: option.split)
  show "log_grows co_diagnostics c c'" "co_pending c' = co_pending c"
    by (auto simp: c'_def collect_definition_def Let_def log_grows_def split: option.split)
  show "\<exists>m' i. map_of (co_modules c') mid = Some m' \<and>
        map_of (rm_definitions m') (item_name item) = Some (module_definition mid i (source_file s) item)"
    if "log_quiet co_diagnostics c c'" "map_of (co_modules c) mid = Some m"
    using that d(1) assms(1) modules_okD [OF assms(1) that(2)]
    by (auto simp: c'_def collect_definition_def Let_def log_quiet_def modules_ok_def module_ok_def bt.lookup_put
        split: if_splits)
qed


text \<open>The names of collected modules are those of their identities.\<close>

lemma module_named:
  assumes "small_project sources" and "modules_ok sources ms" and "map_of (module_ids sources) name = Some mid"
    and "map_of ms mid = Some m"
  shows "rm_name m = name"
  using module_ids_inject [OF assms(1) _ assms(3)] modules_okD [OF assms(2,4)] by (simp add: module_ok_def)

lemma module_present:
  assumes "modules_ok sources ms" and "map_of (module_ids sources) name = Some mid"
  obtains m where "map_of ms mid = Some m"
  using assms by (fastforce simp: modules_ok_def ran_def dom_def)

definition collected :: "modules \<Rightarrow> ModuleId \<Rightarrow> string \<Rightarrow> Item \<Rightarrow> bool" where
  "collected ms mid file item \<longleftrightarrow> (\<exists>m i. map_of ms mid = Some m \<and>
     map_of (rm_definitions m) (item_name item) = Some (module_definition mid i file item))"

lemma collected_mono: "modules_le ms ms' \<Longrightarrow> collected ms mid file item \<Longrightarrow> collected ms' mid file item"
  unfolding collected_def modules_le_def module_le_def map_le_def by (metis domI)

lemma collect_definitions_ok:
  assumes "small_project sources" and "s \<in> set sources" and "declared_module s = Some name"
    and mid: "map_of (module_ids sources) name = Some mid"
  shows "set items \<subseteq> set (ast_items (source_ast s)) \<Longrightarrow> modules_ok sources (co_modules c) \<Longrightarrow>
    c' = fold (collect_definition mid name (source_file s)) items c \<Longrightarrow>
    modules_ok sources (co_modules c') \<and> modules_le (co_modules c) (co_modules c') \<and>
    log_grows co_diagnostics c c' \<and> co_pending c' = co_pending c \<and>
    (log_quiet co_diagnostics c c' \<longrightarrow> (\<forall>item \<in> set items. collected (co_modules c') mid (source_file s) item))"
proof (induction items arbitrary: c)
  case Nil
  then show ?case by (simp add: log_grows_refl)
next
  case (Cons item items)
  let ?c = "collect_definition mid name (source_file s) item c"
  have item: "item \<in> set (ast_items (source_ast s))" "set items \<subseteq> set (ast_items (source_ast s))"
    using Cons.prems(1) by auto
  have "\<forall>m. map_of (co_modules c) mid = Some m \<longrightarrow> rm_name m = name"
    using module_named [OF assms(1) Cons.prems(2) mid] by blast
  note step = collect_definition_ok [OF Cons.prems(2) assms(2,3) mid item(1) this]
  have rest: "modules_ok sources (co_modules c') \<and> modules_le (co_modules ?c) (co_modules c') \<and>
    log_grows co_diagnostics ?c c' \<and> co_pending c' = co_pending ?c \<and>
    (log_quiet co_diagnostics ?c c' \<longrightarrow> (\<forall>item \<in> set items. collected (co_modules c') mid (source_file s) item))"
    using Cons.IH [OF item(2) step(1)] Cons.prems(3) by simp
  obtain m where m: "map_of (co_modules c) mid = Some m" using module_present [OF Cons.prems(2) mid] .
  have "collected (co_modules c') mid (source_file s) i"
    if "log_quiet co_diagnostics c c'" "i \<in> set (item # items)" for i
  proof -
    have q: "log_quiet co_diagnostics c ?c" "log_quiet co_diagnostics ?c c'"
      using log_quiet_split [OF step(3) _ that(1)] rest by auto
    have "collected (co_modules ?c) mid (source_file s) item"
      using step(5) [OF q(1) m] by (auto simp: collected_def)
    then show ?thesis using rest q(2) that(2) collected_mono by auto
  qed
  then show ?case
    using rest step(2-4) modules_le_trans log_grows_trans by (metis (no_types, lifting))
qed

text \<open>A source is entered: its module lists the file and its declarations, and its imports wait.\<close>

definition entered :: "ModuleSource list \<Rightarrow> collection \<Rightarrow> ModuleSource \<Rightarrow> bool" where
  "entered sources c s \<longleftrightarrow>
     (\<exists>name mid m. declared_module s = Some name \<and> map_of (module_ids sources) name = Some mid \<and>
        map_of (co_modules c) mid = Some m \<and> source_file s \<in> set (rm_files m) \<and>
        (\<forall>item \<in> set (ast_items (source_ast s)). collected (co_modules c) mid (source_file s) item) \<and>
        (\<forall>node \<in> set (ast_imports (source_ast s)).
           \<lparr>pi_owner = mid, pi_file = source_file s, pi_node = node\<rparr> \<in> set (co_pending c)))"

definition pending_ok :: "ModuleSource list \<Rightarrow> PendingImport list \<Rightarrow> bool" where
  "pending_ok sources pending \<longleftrightarrow> (\<forall>p \<in> set pending. pi_owner p \<in> ran (map_of (module_ids sources)))"

lemma entered_mono:
  assumes "entered sources c s" and "modules_le (co_modules c) (co_modules c')" and "set (co_pending c) \<subseteq> set (co_pending c')"
  shows "entered sources c' s"
proof -
  obtain name mid m where e: "declared_module s = Some name" "map_of (module_ids sources) name = Some mid"
    "map_of (co_modules c) mid = Some m" "source_file s \<in> set (rm_files m)"
    "\<forall>item \<in> set (ast_items (source_ast s)). collected (co_modules c) mid (source_file s) item"
    "\<forall>node \<in> set (ast_imports (source_ast s)).
       \<lparr>pi_owner = mid, pi_file = source_file s, pi_node = node\<rparr> \<in> set (co_pending c)"
    using assms(1) unfolding entered_def by blast
  obtain m' where "map_of (co_modules c') mid = Some m'" "module_le m m'"
    using assms(2) e(3) by (auto simp: modules_le_def)
  then show ?thesis
    using e assms(3) collected_mono [OF assms(2)] unfolding entered_def module_le_def by blast
qed

lemma collect_source_ok:
  assumes small: "small_project sources" and s: "s \<in> set sources" and ok: "modules_ok sources (co_modules c)"
  defines "c' \<equiv> collect_source (module_ids sources) s c"
  shows "modules_ok sources (co_modules c') \<and> modules_le (co_modules c) (co_modules c') \<and>
    log_grows co_diagnostics c c' \<and> set (co_pending c) \<subseteq> set (co_pending c') \<and>
    (pending_ok sources (co_pending c) \<longrightarrow> pending_ok sources (co_pending c')) \<and>
    (log_quiet co_diagnostics c c' \<longrightarrow> entered sources c' s)"
proof (cases "declared_module s")
  case None
  then show ?thesis using ok by (simp add: c'_def collect_source_def log_grows_def log_quiet_def)
next
  case (Some name)
  obtain mid where mid: "map_of (module_ids sources) name = Some mid"
    using module_ids_declared [OF s Some] by blast
  obtain m where m: "map_of (co_modules c) mid = Some m" using module_present [OF ok mid] .
  let ?m = "m\<lparr>rm_files := rm_files m @ [source_file s]\<rparr>"
  define c1 where "c1 = c\<lparr>co_modules := btree_insert mid ?m (co_modules c)\<rparr>"
  define c2 where "c2 = fold (collect_definition mid name (source_file s)) (ast_items (source_ast s)) c1"
  have m': "module_ok sources mid ?m" "module_le m ?m"
    using modules_okD [OF ok m] by (auto simp: module_ok_def module_le_def)
  have ok1: "modules_ok sources (co_modules c1)" and le1: "modules_le (co_modules c) (co_modules c1)"
    using modules_ok_insert [OF ok m m'(1)] modules_le_insert [OF ok m m'(2)] by (simp_all add: c1_def)
  have at: "map_of (co_modules c1) mid = Some ?m" using ok by (simp add: c1_def modules_ok_def bt.lookup_put)
  note defs = collect_definitions_ok [OF small s Some mid subset_refl ok1 c2_def]
  obtain m2 where m2: "map_of (co_modules c2) mid = Some m2" "module_le ?m m2"
    using defs at unfolding modules_le_def by blast
  have c': "c' = c2\<lparr>co_pending := co_pending c2 @
      map (\<lambda>node. \<lparr>pi_owner = mid, pi_file = source_file s, pi_node = node\<rparr>) (ast_imports (source_ast s))\<rparr>"
    by (simp add: c'_def collect_source_def Some mid m Let_def c1_def c2_def)
  have log: "co_diagnostics c1 = co_diagnostics c" "co_pending c1 = co_pending c" by (simp_all add: c1_def)
  have "entered sources c' s" if "log_quiet co_diagnostics c c'"
    using that defs log m2 Some mid by (auto simp: c' entered_def module_le_def log_quiet_def)
  moreover have "pending_ok sources (co_pending c')" if "pending_ok sources (co_pending c)"
    using that defs log mid by (auto simp: c' pending_ok_def ran_def)
  ultimately show ?thesis using defs log modules_le_trans [OF le1] by (auto simp: c' log_grows_def)
qed


lemma collect_fold_ok:
  assumes small: "small_project sources"
  shows "set ss \<subseteq> set sources \<Longrightarrow> modules_ok sources (co_modules c) \<Longrightarrow> pending_ok sources (co_pending c) \<Longrightarrow>
    c' = fold (collect_source (module_ids sources)) ss c \<Longrightarrow>
    modules_ok sources (co_modules c') \<and> modules_le (co_modules c) (co_modules c') \<and>
    log_grows co_diagnostics c c' \<and> set (co_pending c) \<subseteq> set (co_pending c') \<and> pending_ok sources (co_pending c') \<and>
    (log_quiet co_diagnostics c c' \<longrightarrow> (\<forall>s \<in> set ss. entered sources c' s))"
proof (induction ss arbitrary: c)
  case Nil
  then show ?case by (simp add: log_grows_refl)
next
  case (Cons s ss)
  let ?c = "collect_source (module_ids sources) s c"
  have s: "s \<in> set sources" "set ss \<subseteq> set sources" using Cons.prems(1) by auto
  note step = collect_source_ok [OF small s(1) Cons.prems(2)]
  have rest: "modules_ok sources (co_modules c') \<and> modules_le (co_modules ?c) (co_modules c') \<and>
    log_grows co_diagnostics ?c c' \<and> set (co_pending ?c) \<subseteq> set (co_pending c') \<and> pending_ok sources (co_pending c') \<and>
    (log_quiet co_diagnostics ?c c' \<longrightarrow> (\<forall>s \<in> set ss. entered sources c' s))"
    using Cons.IH [OF s(2)] step Cons.prems(3,4) by simp
  have "entered sources c' i" if "log_quiet co_diagnostics c c'" "i \<in> set (s # ss)" for i
  proof -
    have q: "log_quiet co_diagnostics c ?c" "log_quiet co_diagnostics ?c c'"
      using log_quiet_split [OF _ _ that(1)] step rest by auto
    have "entered sources ?c s" using step q(1) by blast
    then show ?thesis using rest q(2) that(2) entered_mono by auto
  qed
  then show ?case
    using rest step modules_le_trans log_grows_trans subset_trans by (metis (no_types, lifting))
qed

lemma collect_sources_ok:
  assumes "small_project sources"
  defines "c \<equiv> collect_sources sources (module_ids sources) (empty_modules (module_ids sources))"
  shows "modules_ok sources (co_modules c)" and "pending_ok sources (co_pending c)"
    and "co_diagnostics c = [] \<Longrightarrow> s \<in> set sources \<Longrightarrow> entered sources c s"
  using collect_fold_ok [OF assms(1) subset_refl _ _ c_def [unfolded collect_sources_def, THEN meta_eq_to_obj_eq]] modules_ok_empty
  by (auto simp: pending_ok_def log_quiet_def)

section \<open>Resolution\<close>

text \<open>An import leads to a public definition of a module its owner depends on.\<close>

definition import_ok :: "modules \<Rightarrow> ResolvedModule \<Rightarrow> ResolvedImport \<Rightarrow> bool" where
  "import_ok ms m i \<longleftrightarrow>
     (\<exists>t name d. map_of ms (q_module (ri_definition i)) = Some t \<and> map_of (rm_definitions t) name = Some d \<and>
        md_id d = ri_definition i \<and> md_public d \<and> rm_id t \<in> set (rm_dependencies m))"

definition imports_ok :: "modules \<Rightarrow> bool" where
  "imports_ok ms \<longleftrightarrow> (\<forall>mid m local i. map_of ms mid = Some m \<longrightarrow> map_of (rm_imports m) local = Some i \<longrightarrow>
     ri_local_name i = local \<and> map_of (rm_definitions m) local = None \<and> import_ok ms m i)"

text \<open>Resolution keeps the definitions.\<close>

definition same_definitions :: "modules \<Rightarrow> modules \<Rightarrow> bool" where
  "same_definitions ms ms' \<longleftrightarrow> (\<forall>mid. map_option rm_definitions (map_of ms' mid) = map_option rm_definitions (map_of ms mid))"

text \<open>The entry an import statement has when it is resolved.\<close>

definition resolved :: "ModuleSource list \<Rightarrow> modules \<Rightarrow> PendingImport \<Rightarrow> bool" where
  "resolved sources ms p \<longleftrightarrow>
     (let path = use_path (pi_node p) in path = [] \<or>
      (\<exists>target t d m i. map_of (module_ids sources) (join ''::'' (butlast path)) = Some target \<and>
         map_of ms target = Some t \<and> map_of (rm_definitions t) (last path) = Some d \<and> md_public d \<and>
         map_of ms (pi_owner p) = Some m \<and> target \<in> set (rm_dependencies m) \<and>
         map_of (rm_imports m) (imported_name (pi_node p)) = Some i \<and> ri_definition i = md_id d))"

lemma module_le_definitions:
  "module_le m m' \<Longrightarrow> map_of (rm_definitions m) name = Some d \<Longrightarrow> map_of (rm_definitions m') name = Some d"
  unfolding module_le_def map_le_def by (metis domI)

lemma module_le_imports:
  "module_le m m' \<Longrightarrow> map_of (rm_imports m) name = Some i \<Longrightarrow> map_of (rm_imports m') name = Some i"
  unfolding module_le_def map_le_def by (metis domI)

lemma resolved_mono:
  assumes "resolved sources ms p" and "modules_le ms ms'"
  shows "resolved sources ms' p"
proof (cases "use_path (pi_node p) = []")
  case False
  then obtain target t d m i where
    r: "map_of (module_ids sources) (join ''::'' (butlast (use_path (pi_node p)))) = Some target"
      "map_of ms target = Some t" "map_of (rm_definitions t) (last (use_path (pi_node p))) = Some d" "md_public d"
      "map_of ms (pi_owner p) = Some m" "target \<in> set (rm_dependencies m)"
      "map_of (rm_imports m) (imported_name (pi_node p)) = Some i" "ri_definition i = md_id d"
    using assms(1) unfolding resolved_def by (auto simp: Let_def)
  obtain t' m' where "map_of ms' target = Some t'" "module_le t t'" "map_of ms' (pi_owner p) = Some m'" "module_le m m'"
    using assms(2) r(2,5) unfolding modules_le_def by meson
  then show ?thesis
    using r module_le_definitions module_le_imports unfolding resolved_def module_le_def Let_def by blast
qed (simp add: resolved_def)


text \<open>One step of resolution.\<close>

definition resolution_step :: "ModuleSource list \<Rightarrow> resolution \<Rightarrow> resolution \<Rightarrow> bool" where
  "resolution_step sources r r' \<longleftrightarrow>
     modules_ok sources (rs_modules r') \<and> imports_ok (rs_modules r') \<and>
     modules_le (rs_modules r) (rs_modules r') \<and> same_definitions (rs_modules r) (rs_modules r') \<and>
     log_grows rs_diagnostics r r'"

lemma import_error_step:
  assumes "modules_ok sources (rs_modules r)" and "imports_ok (rs_modules r)"
  shows "resolution_step sources r (import_error code text p r)"
    and "\<not> log_quiet rs_diagnostics r (import_error code text p r)"
  using assms by (auto simp: resolution_step_def import_error_def log_grows_def log_quiet_def same_definitions_def)

lemma import_ok_mono:
  assumes "import_ok ms m i" and "modules_le ms ms'" and "set (rm_dependencies m) \<subseteq> set (rm_dependencies m')"
  shows "import_ok ms' m' i"
proof -
  obtain t name d where t: "map_of ms (q_module (ri_definition i)) = Some t" "map_of (rm_definitions t) name = Some d"
    "md_id d = ri_definition i" "md_public d" "rm_id t \<in> set (rm_dependencies m)"
    using assms(1) by (auto simp: import_ok_def)
  obtain t' where "map_of ms' (q_module (ri_definition i)) = Some t'" "module_le t t'"
    using assms(2) t(1) by (auto simp: modules_le_def)
  moreover from this have "map_of (rm_definitions t') name = Some d" "rm_id t' = rm_id t"
    using module_le_definitions t(2) by (auto simp: module_le_def)
  ultimately show ?thesis using t(3-5) assms(3) unfolding import_ok_def by auto
qed

text \<open>Replacing the owner of an import by one with more dependencies and imports.\<close>

lemma update_owner:
  assumes ok: "modules_ok sources ms" and imp: "imports_ok ms" and m: "map_of ms owner = Some m"
    and m': "rm_id m' = rm_id m" "rm_name m' = rm_name m" "rm_files m' = rm_files m"
      "rm_definitions m' = rm_definitions m"
      "set (rm_dependencies m) \<subseteq> set (rm_dependencies m')"
      "set (rm_dependencies m') \<subseteq> ran (map_of (module_ids sources))"
    and i: "btree_ok (rm_imports m')" "map_of (rm_imports m) \<subseteq>\<^sub>m map_of (rm_imports m')"
      "\<And>local i. map_of (rm_imports m') local = Some i \<Longrightarrow> map_of (rm_imports m) local = None \<Longrightarrow>
         ri_local_name i = local \<and> map_of (rm_definitions m) local = None \<and> import_ok ms m' i"
  defines "ms' \<equiv> btree_insert owner m' ms"
  shows "modules_ok sources ms' \<and> imports_ok ms' \<and> modules_le ms ms' \<and> same_definitions ms ms'"
proof -
  have lookup: "map_of ms' = (map_of ms)(owner \<mapsto> m')"
    using ok by (simp add: ms'_def modules_ok_def bt.lookup_put)
  have mo: "module_ok sources owner m'"
    using modules_okD [OF ok m] m' i(1) by (simp add: module_ok_def)
  have le: "module_le m m'" using m' i(2) by (simp add: module_le_def)
  have mle: "modules_le ms ms'" unfolding ms'_def by (rule modules_le_insert [OF ok m le])
  have "ri_local_name j = local \<and> map_of (rm_definitions n) local = None \<and> import_ok ms' n j"
    if n: "map_of ms' mid = Some n" "map_of (rm_imports n) local = Some j" for mid n local j
  proof (cases "mid = owner")
    case True
    then have "n = m'" using n(1) lookup by simp
    show ?thesis
    proof (cases "map_of (rm_imports m) local")
      case None
      then show ?thesis using i(3) n(2) \<open>n = m'\<close> m'(4) import_ok_mono [OF _ mle subset_refl] by auto
    next
      case (Some k)
      then have "j = k" using i(2) n(2) \<open>n = m'\<close> unfolding map_le_def by (metis domI option.inject)
      then show ?thesis
        using imp m Some \<open>n = m'\<close> m'(4) import_ok_mono [OF _ mle m'(5)] unfolding imports_ok_def by metis
    qed
  next
    case False
    then have "map_of ms mid = Some n" using n(1) lookup by simp
    then show ?thesis using imp n(2) import_ok_mono [OF _ mle subset_refl] unfolding imports_ok_def by metis
  qed
  then have "imports_ok ms'" unfolding imports_ok_def by blast
  moreover have "same_definitions ms ms'" using lookup m m'(4) by (simp add: same_definitions_def)
  moreover have "modules_ok sources ms'" unfolding ms'_def by (rule modules_ok_insert [OF ok m mo])
  ultimately show ?thesis using mle by simp
qed

lemma bind_import_step:
  assumes ok: "modules_ok sources (rs_modules r)" and imp: "imports_ok (rs_modules r)"
    and p: "use_path (pi_node p) \<noteq> []" "pi_owner p \<in> ran (map_of (module_ids sources))"
    and target: "map_of (module_ids sources) (join ''::'' (butlast (use_path (pi_node p)))) = Some target"
    and t: "map_of (rs_modules r) target = Some t" and d: "map_of (rm_definitions t) (last (use_path (pi_node p))) = Some d"
    and public: "md_public d"
  defines "r' \<equiv> bind_import p target d r"
  shows "resolution_step sources r r' \<and> (log_quiet rs_diagnostics r r' \<longrightarrow> resolved sources (rs_modules r') p)"
proof -
  obtain m where m: "map_of (rs_modules r) (pi_owner p) = Some m"
    using p(2) ok unfolding modules_ok_def by blast
  let ?l = "imported_name (pi_node p)"
  let ?m1 = "m\<lparr>rm_dependencies := insort_insert target (rm_dependencies m)\<rparr>"
  let ?i = "\<lparr>ri_local_name = ?l, ri_definition = md_id d, ri_span = use_span (pi_node p)\<rparr>"
  let ?m2 = "?m1\<lparr>rm_imports := btree_insert ?l ?i (rm_imports m)\<rparr>"
  have mo: "module_ok sources (pi_owner p) m" and to: "module_ok sources target t"
    using modules_okD [OF ok] m t by auto
  have deps: "set (rm_dependencies ?m1) = insert target (set (rm_dependencies m))"
    by (simp add: set_insort_insert)
  have tr: "target \<in> ran (map_of (module_ids sources))" using target by (auto simp: ran_def)
  have one: "modules_ok sources (btree_insert (pi_owner p) ?m1 (rs_modules r)) \<and>
      imports_ok (btree_insert (pi_owner p) ?m1 (rs_modules r)) \<and>
      modules_le (rs_modules r) (btree_insert (pi_owner p) ?m1 (rs_modules r)) \<and>
      same_definitions (rs_modules r) (btree_insert (pi_owner p) ?m1 (rs_modules r))"
    by (rule update_owner [OF ok imp m]) (use mo tr in \<open>auto simp: module_ok_def set_insort_insert\<close>)
  show ?thesis
  proof (cases "map_of (rm_definitions m) ?l = None \<and> map_of (rm_imports m) ?l = None")
    case False
    then have "r' = import_error ''SYL2403'' (''duplicate local name '' @ in_quotes ?l) p
        (r\<lparr>rs_modules := btree_insert (pi_owner p) ?m1 (rs_modules r),
           rs_sites := (if rs_sites r (pi_owner p, target) = None
             then (rs_sites r)((pi_owner p, target) \<mapsto> (pi_file p, use_span (pi_node p))) else rs_sites r)\<rparr>)"
      unfolding r'_def bind_import_def Let_def m by auto
    then show ?thesis
      using one by (simp add: resolution_step_def import_error_def log_grows_def log_quiet_def)
  next
    case True
    have new: "ri_local_name j = local \<and> map_of (rm_definitions m) local = None \<and> import_ok (rs_modules r) ?m2 j"
      if "map_of (rm_imports ?m2) local = Some j" "map_of (rm_imports m) local = None" for local j
    proof -
      have "local = ?l \<and> j = ?i" using that mo by (auto simp: module_ok_def bt.lookup_put split: if_splits)
      then show ?thesis using True t d public to deps by (auto simp: import_ok_def module_ok_def)
    qed
    let ?ms = "btree_insert (pi_owner p) ?m2 (rs_modules r)"
    have two: "modules_ok sources ?ms \<and> imports_ok ?ms \<and> modules_le (rs_modules r) ?ms \<and> same_definitions (rs_modules r) ?ms"
      by (rule update_owner [OF ok imp m])
        (use mo tr True new in \<open>auto simp: module_ok_def set_insort_insert bt.lookup_put bt.ok_put map_le_new\<close>)
    have "btree_insert k v (btree_insert k w u) = btree_insert k v u" for k v w and u :: modules
      by (induction u) auto
    then have r': "rs_modules r' = ?ms" "rs_diagnostics r' = rs_diagnostics r"
      using True by (simp_all add: r'_def bind_import_def m Let_def)
    obtain t' where t': "map_of ?ms target = Some t'" "module_le t t'" using two t by (auto simp: modules_le_def)
    have "map_of ?ms (pi_owner p) = Some ?m2" using ok by (simp add: modules_ok_def bt.lookup_put)
    then have "resolved sources ?ms p"
      using target t' d public deps mo module_le_definitions [OF t'(2) d]
      by (auto simp: resolved_def Let_def module_ok_def bt.lookup_put)
    then show ?thesis using two r' by (simp add: resolution_step_def log_grows_def)
  qed
qed


lemma resolve_import_step:
  assumes ok: "modules_ok sources (rs_modules r)" and imp: "imports_ok (rs_modules r)"
    and owner: "pi_owner p \<in> ran (map_of (module_ids sources))"
  defines "r' \<equiv> resolve_import (module_ids sources) p r"
  shows "resolution_step sources r r' \<and> (log_quiet rs_diagnostics r r' \<longrightarrow> resolved sources (rs_modules r') p)"
proof (cases "use_path (pi_node p) = []")
  case True
  then show ?thesis
    using ok imp by (simp add: r'_def resolve_import_def resolved_def resolution_step_def same_definitions_def log_grows_refl)
next
  case path: False
  note failed = import_error_step [OF ok imp]
  show ?thesis
  proof (cases "map_of (module_ids sources) (join ''::'' (butlast (use_path (pi_node p))))")
    case None
    then show ?thesis using path failed by (simp add: r'_def resolve_import_def Let_def)
  next
    case (Some target)
    obtain t where t: "map_of (rs_modules r) target = Some t" using module_present [OF ok Some] .
    show ?thesis
    proof (cases "map_of (rm_definitions t) (last (use_path (pi_node p)))")
      case None
      then show ?thesis using path Some t failed by (simp add: r'_def resolve_import_def Let_def)
    next
      case d: (Some d)
      show ?thesis
      proof (cases "md_public d")
        case True
        have "r' = bind_import p target d r" using path Some t d True by (simp add: r'_def resolve_import_def Let_def)
        then show ?thesis using bind_import_step [OF ok imp path owner Some t d True] by simp
      next
        case False
        then show ?thesis using path Some t d failed by (simp add: r'_def resolve_import_def Let_def)
      qed
    qed
  qed
qed

lemma resolution_step_trans:
  "resolution_step sources a b \<Longrightarrow> resolution_step sources b c \<Longrightarrow> resolution_step sources a c"
  unfolding resolution_step_def same_definitions_def by (metis modules_le_trans log_grows_trans)

lemma resolve_fold_step:
  "modules_ok sources (rs_modules r) \<Longrightarrow> imports_ok (rs_modules r) \<Longrightarrow> pending_ok sources ps \<Longrightarrow>
   r' = fold (resolve_import (module_ids sources)) ps r \<Longrightarrow>
   resolution_step sources r r' \<and> (log_quiet rs_diagnostics r r' \<longrightarrow> (\<forall>p \<in> set ps. resolved sources (rs_modules r') p))"
proof (induction ps arbitrary: r)
  case Nil
  then show ?case by (simp add: resolution_step_def same_definitions_def log_grows_refl)
next
  case (Cons p ps)
  let ?r = "resolve_import (module_ids sources) p r"
  have "pi_owner p \<in> ran (map_of (module_ids sources))" "pending_ok sources ps"
    using Cons.prems(3) by (auto simp: pending_ok_def)
  then have step: "resolution_step sources r ?r" "log_quiet rs_diagnostics r ?r \<Longrightarrow> resolved sources (rs_modules ?r) p"
    and "pending_ok sources ps"
    using resolve_import_step [OF Cons.prems(1,2)] by auto
  then have rest: "resolution_step sources ?r r'"
    "log_quiet rs_diagnostics ?r r' \<Longrightarrow> q \<in> set ps \<Longrightarrow> resolved sources (rs_modules r') q" for q
    using Cons.IH [of ?r] Cons.prems(4) by (auto simp: resolution_step_def)
  have "resolved sources (rs_modules r') q" if "log_quiet rs_diagnostics r r'" "q \<in> set (p # ps)" for q
  proof -
    have "log_quiet rs_diagnostics r ?r" "log_quiet rs_diagnostics ?r r'"
      using log_quiet_split [OF _ _ that(1)] step(1) rest(1) by (auto simp: resolution_step_def)
    then show ?thesis
      using step(2) rest that(2) resolved_mono [of sources "rs_modules ?r" p "rs_modules r'"]
      by (auto simp: resolution_step_def)
  qed
  then show ?case using resolution_step_trans [OF step(1) rest(1)] by blast
qed

section \<open>The module graph\<close>

text \<open>Nothing is imported before resolution.\<close>

definition no_imports :: "collection \<Rightarrow> bool" where
  "no_imports c \<longleftrightarrow> btree_ok (co_modules c) \<and> (\<forall>mid m. map_of (co_modules c) mid = Some m \<longrightarrow> rm_imports m = [])"

lemma no_imports_definition: "no_imports c \<Longrightarrow> no_imports (collect_definition mid name f item c)"
  unfolding no_imports_def
  by (auto simp: collect_definition_def Let_def bt.lookup_put bt.ok_put split: option.splits)

lemma no_imports_source: "no_imports c \<Longrightarrow> no_imports (collect_source ids s c)"
proof -
  assume c: "no_imports c"
  have "no_imports (fold (collect_definition mid name f) items
      (c\<lparr>co_modules := btree_insert mid (m\<lparr>rm_files := fs\<rparr>) (co_modules c)\<rparr>))"
    if "map_of (co_modules c) mid = Some m" for mid name f items m fs
  proof (rule fold_invariant [where Q = "\<lambda>_. True"])
    show "no_imports (c\<lparr>co_modules := btree_insert mid (m\<lparr>rm_files := fs\<rparr>) (co_modules c)\<rparr>)"
      using c that by (auto simp: no_imports_def bt.lookup_put bt.ok_put)
  qed (simp_all add: no_imports_definition)
  then show ?thesis
    using c by (auto simp: collect_source_def Let_def no_imports_def split: option.splits)
qed

lemma no_imports_collected: "no_imports (collect_sources sources ids (empty_modules ids))"
proof -
  have "rm_imports m = []" if "map_of (empty_modules ids) mid = Some m" for mid m
  proof -
    have "(mid, m) \<in> set (map (\<lambda>(name, mid). (mid, empty_module mid name)) ids)"
      using that unfolding empty_modules_def btree_collect_lookup by (rule collect_map_in)
    then show ?thesis by (auto simp: empty_module_def)
  qed
  then have "no_imports \<lparr>co_next = Map.empty, co_modules = empty_modules ids, co_pending = [], co_diagnostics = []\<rparr>"
    by (auto simp: no_imports_def empty_modules_def)
  then show ?thesis unfolding collect_sources_def
    by (rule fold_invariant [where P = no_imports and Q = "\<lambda>_. True", rotated]) (simp_all add: no_imports_source)
qed

lemma module_graph_ok:
  assumes "small_project sources" and g: "module_graph sources = (c, r)"
  shows "modules_ok sources (rs_modules r)" and "imports_ok (rs_modules r)"
    and "modules_le (co_modules c) (rs_modules r)"
    and "co_diagnostics c = [] \<Longrightarrow> s \<in> set sources \<Longrightarrow> entered sources c s"
    and "rs_diagnostics r = [] \<Longrightarrow> p \<in> set (co_pending c) \<Longrightarrow> resolved sources (rs_modules r) p"
proof -
  have c: "c = collect_sources sources (module_ids sources) (empty_modules (module_ids sources))"
    and r: "r = resolve_imports (module_ids sources) (co_modules c) (co_pending c)"
    using g by (auto simp: module_graph_def Let_def)
  note cs = collect_sources_ok [OF assms(1), folded c]
  have i: "imports_ok (co_modules c)"
    using no_imports_collected [of sources "module_ids sources"] by (auto simp: c no_imports_def imports_ok_def)
  note rs = resolve_fold_step [OF _ _ cs(2) r [unfolded resolve_imports_def]]
  show "modules_ok sources (rs_modules r)" "imports_ok (rs_modules r)" "modules_le (co_modules c) (rs_modules r)"
    using rs cs(1) i by (auto simp: resolution_step_def)
  show "entered sources c s" if "co_diagnostics c = []" "s \<in> set sources" using cs(3) that .
  show "resolved sources (rs_modules r) p" if "rs_diagnostics r = []" "p \<in> set (co_pending c)"
    using rs cs(1) i that by (auto simp: log_quiet_def)
qed

lemma module_graph_grows:
  assumes "small_project sources" and g: "module_graph sources = (c, r)"
  shows "d \<in> set (co_diagnostics c) \<Longrightarrow> diag_severity d = SevError"
    and "d \<in> set (rs_diagnostics r) \<Longrightarrow> diag_severity d = SevError"
proof -
  let ?ids = "module_ids sources"
  let ?c = "\<lparr>co_next = Map.empty, co_modules = empty_modules ?ids, co_pending = [], co_diagnostics = []\<rparr>"
  have c: "c = fold (collect_source ?ids) sources ?c"
    and r: "r = fold (resolve_import ?ids) (co_pending c) \<lparr>rs_modules = co_modules c, rs_sites = Map.empty, rs_diagnostics = []\<rparr>"
    using g by (auto simp: module_graph_def Let_def collect_sources_def resolve_imports_def)
  have "log_grows co_diagnostics ?c c"
    using collect_fold_ok [OF assms(1) subset_refl _ _ c] modules_ok_empty by (simp add: pending_ok_def)
  then show "d \<in> set (co_diagnostics c) \<Longrightarrow> diag_severity d = SevError" by (auto simp: log_grows_def)
  have "c = collect_sources sources ?ids (empty_modules ?ids)" using c by (simp add: collect_sources_def)
  note cs = collect_sources_ok [OF assms(1), folded this]
  have i: "imports_ok (co_modules c)"
    using no_imports_collected [of sources ?ids] c by (auto simp: collect_sources_def no_imports_def imports_ok_def)
  have "log_grows rs_diagnostics \<lparr>rs_modules = co_modules c, rs_sites = Map.empty, rs_diagnostics = []\<rparr> r"
    using resolve_fold_step [OF _ _ cs(2) r] cs(1) i by (simp add: resolution_step_def)
  then show "d \<in> set (rs_diagnostics r) \<Longrightarrow> diag_severity d = SevError" by (auto simp: log_grows_def)
qed

section \<open>The analysis\<close>

lemma small_project_sort [simp]: "small_project (sort_key f sources) \<longleftrightarrow> small_project sources"
proof -
  have "set (List.map_filter declared_module (sort_key f sources)) = set (List.map_filter declared_module sources)"
    by (simp add: List.map_filter_def)
  then show ?thesis unfolding small_project_def by (metis length_remdups_card_conv)
qed

lemma declares_sort [simp]: "declares (sort_key f sources) = declares sources"
  by (simp add: declares_def fun_eq_iff)

definition depends :: "ModuleAnalysis \<Rightarrow> (ModuleId \<times> ModuleId) set" where
  "depends analysis = {(rm_id m, b) |m b. m \<in> set (ma_modules analysis) \<and> b \<in> set (rm_dependencies m)}"

text \<open>The modules of the analysis are those of the graph with their hashes.\<close>

lemma analyzed_modules:
  assumes "small_project sources" and g: "module_graph (sort_key source_file sources) = (c, r)"
    and a_def: "a = analyze_modules digest sources"
  shows "m \<in> set (ma_modules a) \<longleftrightarrow> (\<exists>mid n. map_of (rs_modules r) mid = Some n \<and>
      m = n\<lparr>rm_interface_hash := interface_hash digest n (sort_key source_file sources)\<rparr>)"
    and "depends a = dependency (rs_modules r)"
    and "set (ma_diagnostics a) \<supseteq> set (co_diagnostics c) \<union> set (rs_diagnostics r) \<union> set (cycle_diagnostics r)"
proof -
  let ?ss = "sort_key source_file sources"
  have ok: "modules_ok ?ss (rs_modules r)" using module_graph_ok [OF _ g] assms(1) by simp
  then have entry: "(mid, n) \<in> set (rs_modules r) \<longleftrightarrow> map_of (rs_modules r) mid = Some n" for mid n
    using map_of_eq_Some_iff [OF bt.ok_distinct] by (metis modules_ok_def)
  have ms: "ma_modules a = map (\<lambda>(mid, n). n\<lparr>rm_interface_hash := interface_hash digest n ?ss\<rparr>) (rs_modules r)"
    by (simp add: a_def analyze_modules_def g Let_def case_prod_beta comp_def)
  show mem: "m \<in> set (ma_modules a) \<longleftrightarrow> (\<exists>mid n. map_of (rs_modules r) mid = Some n \<and>
      m = n\<lparr>rm_interface_hash := interface_hash digest n ?ss\<rparr>)" for m
    unfolding ms by (auto simp flip: entry simp: image_iff split: prod.splits)
  show "depends a = dependency (rs_modules r)"
  proof (intro set_eqI iffI; clarify)
    fix x y assume "(x, y) \<in> depends a"
    then obtain mid n where "map_of (rs_modules r) mid = Some n" "x = rm_id n" "y \<in> set (rm_dependencies n)"
      unfolding depends_def mem by force
    then show "(x, y) \<in> dependency (rs_modules r)"
      using modules_okD [OF ok] by (auto simp: dependency_def module_ok_def)
  next
    fix x y assume "(x, y) \<in> dependency (rs_modules r)"
    then obtain n where n: "map_of (rs_modules r) x = Some n" "y \<in> set (rm_dependencies n)"
      by (auto simp: dependency_def)
    let ?n = "n\<lparr>rm_interface_hash := interface_hash digest n ?ss\<rparr>"
    have "?n \<in> set (ma_modules a)" "rm_id ?n = x"
      using n(1) mem modules_okD [OF ok n(1)] by (auto simp: module_ok_def)
    then show "(x, y) \<in> depends a" using n(2) unfolding depends_def by (auto intro!: exI [of _ ?n])
  qed
  show "set (ma_diagnostics a) \<supseteq> set (co_diagnostics c) \<union> set (rs_diagnostics r) \<union> set (cycle_diagnostics r)"
    by (auto simp: a_def analyze_modules_def g Let_def)
qed

end
