(* ===== verification/Module_Props.thy ===== *)
theory Module_Props
  imports Module_Sound
begin

text \<open>
  The properties of module analysis, and a project of two modules they are evaluated on.
\<close>

section \<open>Visibility\<close>

lemma graph_import_public:
  assumes "modules_ok sources ms" and "imports_ok ms" and "map_of ms mid = Some m"
    and "map_of (rm_imports m) local = Some i"
  obtains t d where "map_of ms (rm_id t) = Some t" and "rm_id t = q_module (ri_definition i)"
    and "rm_id t \<in> set (rm_dependencies m)" and "map_of (rm_definitions t) (md_name d) = Some d"
    and "md_id d = ri_definition i" and "md_public d" and "declares sources (rm_name t) d"
    and "map_of (rm_definitions m) local = None"
proof -
  obtain t name d where t: "map_of ms (q_module (ri_definition i)) = Some t" "map_of (rm_definitions t) name = Some d"
    "md_id d = ri_definition i" "md_public d" "rm_id t \<in> set (rm_dependencies m)"
    and l: "map_of (rm_definitions m) local = None"
    using assms(2-4) unfolding imports_ok_def import_ok_def by blast
  have "module_ok sources (q_module (ri_definition i)) t" by (rule modules_okD [OF assms(1) t(1)])
  then show thesis using that [of t d] t l by (simp add: module_ok_def)
qed

text \<open>
  C18. No module sees a private declaration of another one: whatever the diagnostics, every import a
  resolved module records leads to a declaration marked \<open>pub\<close> in a source of a module it depends
  on, and its local name is not the name of a definition of the importing module.
\<close>

theorem imports_public:
  assumes "small_project sources" and "m \<in> set (ma_modules (analyze_modules digest sources))"
    and "(local, i) \<in> set (rm_imports m)"
  shows "\<exists>t \<in> set (ma_modules (analyze_modules digest sources)). \<exists>d \<in> snd ` set (rm_definitions t).
    \<exists>s \<in> set sources. \<exists>item \<in> set (ast_items (source_ast s)).
      rm_id t \<in> set (rm_dependencies m) \<and> md_id d = ri_definition i \<and> q_module (md_id d) = rm_id t \<and>
      declared_module s = Some (rm_name t) \<and> item_name item = md_name d \<and> item_public item \<and>
      local \<notin> fst ` set (rm_definitions m)"
proof -
  let ?ss = "sort_key source_file sources"
  obtain c r where g: "module_graph ?ss = (c, r)" by (cases "module_graph ?ss")
  have ok: "modules_ok ?ss (rs_modules r)" "imports_ok (rs_modules r)"
    using module_graph_ok [OF _ g] assms(1) by simp_all
  note am = analyzed_modules [where digest = digest, OF assms(1) g refl]
  obtain mid n where n: "map_of (rs_modules r) mid = Some n"
    and m: "m = n\<lparr>rm_interface_hash := interface_hash digest n ?ss\<rparr>"
    using assms(2) am(1) by blast
  have "btree_ok (rm_imports n)" using modules_okD [OF ok(1) n] by (simp add: module_ok_def)
  then have "map_of (rm_imports n) local = Some i" using assms(3) m map_of_is_SomeI [OF bt.ok_distinct] by simp
  then obtain t d where t: "map_of (rs_modules r) (rm_id t) = Some t" "rm_id t = q_module (ri_definition i)"
    "rm_id t \<in> set (rm_dependencies n)" "map_of (rm_definitions t) (md_name d) = Some d"
    "md_id d = ri_definition i" "md_public d" "declares ?ss (rm_name t) d" "map_of (rm_definitions n) local = None"
    using graph_import_public [OF ok n] by metis
  let ?t = "t\<lparr>rm_interface_hash := interface_hash digest t ?ss\<rparr>"
  have "?t \<in> set (ma_modules (analyze_modules digest sources))" using am(1) t(1) by blast
  moreover have "d \<in> snd ` set (rm_definitions ?t)" using map_of_SomeD [OF t(4)] by force
  moreover obtain s item where "s \<in> set sources" "item \<in> set (ast_items (source_ast s))"
    "declared_module s = Some (rm_name t)" "md_name d = item_name item" "md_public d = item_public item"
    using t(7) by (auto simp: declares_def)
  ultimately show ?thesis using t m by (intro bexI [of _ ?t] bexI [of _ d] bexI [of _ s] bexI [of _ item])
      (auto simp: map_of_eq_None_iff)
qed

section \<open>Dependency cycles\<close>

text \<open>
  C19. The cycle check is exact: module analysis reports a dependency cycle exactly when the
  dependency relation of the resolved modules is cyclic, and what the search returns is then a
  closed walk along dependencies that repeats no module but its first.
\<close>

theorem module_cycles_exact:
  assumes "small_project sources"
    and "module_graph (sort_key source_file sources) = (c, r)"
  shows "(cycle_diagnostics r = [] \<longleftrightarrow> acyclic (depends (analyze_modules digest sources))) \<and>
    set (cycle_diagnostics r) \<subseteq> set (ma_diagnostics (analyze_modules digest sources)) \<and>
    (\<forall>cycle. find_cycle (rs_modules r) = Some cycle \<longrightarrow>
       2 \<le> length cycle \<and> hd cycle = last cycle \<and> distinct (tl cycle) \<and>
       successively (\<lambda>a b. (a, b) \<in> depends (analyze_modules digest sources)) cycle)"
proof -
  have ok: "modules_ok (sort_key source_file sources) (rs_modules r)"
    using module_graph_ok(1) [OF _ assms(2)] assms(1) by simp
  note fc = find_cycle_sound [OF closed_modules [OF ok]]
  note am = analyzed_modules(2,3) [where digest = digest, OF assms refl]
  have named: "cycle_diagnostics r \<noteq> []" if f: "find_cycle (rs_modules r) = Some cycle" for cycle
  proof -
    obtain a b rest where c: "cycle = a # b # rest"
      using fc f by (cases cycle; cases "tl cycle") (auto simp: simple_cycle_def)
    have "(a, b) \<in> dependency (rs_modules r)" using fc f c by (auto simp: simple_cycle_def dependency_path_def)
    then obtain m where "map_of (rs_modules r) a = Some m" by (auto simp: dependency_def)
    then show ?thesis by (simp add: cycle_diagnostics_def f c Let_def nth_opt_def)
  qed
  have "cycle_diagnostics r = [] \<longleftrightarrow> find_cycle (rs_modules r) = None"
    using named by (cases "find_cycle (rs_modules r)") (simp_all add: cycle_diagnostics_def)
  also have "\<dots> \<longleftrightarrow> acyclic (depends (analyze_modules digest sources))"
    using fc simple_cycle_cyclic am(1) by (auto split: option.splits)
  finally show ?thesis
    using fc am by (auto simp: simple_cycle_def dependency_path_def)
qed

section \<open>Accepted projects\<close>

lemma find_analyzed:
  assumes "small_project sources" and "module_graph (sort_key source_file sources) = (c, r)"
    and "map_of (module_ids (sort_key source_file sources)) name = Some mid" and "map_of (rs_modules r) mid = Some n"
  shows "find_module (analyze_modules digest sources) name =
    Some (n\<lparr>rm_interface_hash := interface_hash digest n (sort_key source_file sources)\<rparr>)"
proof -
  let ?ss = "sort_key source_file sources" and ?a = "analyze_modules digest sources"
  let ?n = "n\<lparr>rm_interface_hash := interface_hash digest n ?ss\<rparr>"
  have ok: "modules_ok ?ss (rs_modules r)" using module_graph_ok(1) [OF _ assms(2)] assms(1) by simp
  note am = analyzed_modules(1) [where digest = digest, OF assms(1,2) refl]
  have "rm_name ?n = name" using module_named [OF _ ok assms(3,4)] assms(1) by simp
  moreover have "?n \<in> set (ma_modules ?a)" using assms(4) am by blast
  ultimately obtain m where m: "find_module ?a name = Some m"
    unfolding find_module_def by (cases "List.find (\<lambda>m. rm_name m = name) (ma_modules ?a)")
      (auto simp: find_None_iff)
  then have "m \<in> set (ma_modules ?a)" "rm_name m = name" using find_SomeD by (force simp: find_module_def)+
  then obtain mk k where mk: "map_of (rs_modules r) mk = Some k" and km: "m = k\<lparr>rm_interface_hash := interface_hash digest k ?ss\<rparr>"
    using am by blast
  then have k: "map_of (rs_modules r) (rm_id k) = Some k" "m = k\<lparr>rm_interface_hash := interface_hash digest k ?ss\<rparr>"
    "map_of (module_ids ?ss) (rm_name k) = Some (rm_id k)"
    using modules_okD [OF ok mk] by (auto simp: module_ok_def)
  then have "rm_id k = mid" using assms(3) \<open>rm_name m = name\<close> by simp
  then have "k = n" using k(1) assms(4) by simp
  then show ?thesis using m k(2) by simp
qed

text \<open>
  C17. In a project analyzed without diagnostics everything is where it should be: every source
  belongs to the module it declares, every declaration of it is a definition of that module with the
  visibility of the source, and every \<open>use\<close> of it is bound, under its alias, to the public
  definition of that name in the module it names.
\<close>

theorem accepted_project_resolves:
  assumes "small_project sources" and "ma_diagnostics (analyze_modules digest sources) = []"
    and "s \<in> set sources"
  shows "\<exists>name m. declared_module s = Some name \<and>
    find_module (analyze_modules digest sources) name = Some m \<and> source_file s \<in> set (rm_files m) \<and>
    (\<forall>item \<in> set (ast_items (source_ast s)). \<exists>d. map_of (rm_definitions m) (item_name item) = Some d \<and>
       md_kind d = item_kind item \<and> md_public d = item_public item \<and> md_file d = source_file s \<and>
       md_span d = item_span item) \<and>
    (\<forall>node \<in> set (ast_imports (source_ast s)). use_path node \<noteq> [] \<longrightarrow>
       (\<exists>t d i. find_module (analyze_modules digest sources) (join ''::'' (butlast (use_path node))) = Some t \<and>
          map_of (rm_definitions t) (last (use_path node)) = Some d \<and> md_public d \<and>
          map_of (rm_imports m) (imported_name node) = Some i \<and> ri_definition i = md_id d))"
proof -
  let ?ss = "sort_key source_file sources" and ?a = "analyze_modules digest sources"
  obtain c r where g: "module_graph ?ss = (c, r)" by (cases "module_graph ?ss")
  have small: "small_project ?ss" using assms(1) by simp
  note graph = module_graph_ok [OF small g]
  have quiet: "co_diagnostics c = []" "rs_diagnostics r = []"
    using analyzed_modules(3) [where digest = digest, OF assms(1) g refl] assms(2) by auto
  obtain name mid m where e: "declared_module s = Some name" "map_of (module_ids ?ss) name = Some mid"
    "map_of (co_modules c) mid = Some m" "source_file s \<in> set (rm_files m)"
    "\<forall>item \<in> set (ast_items (source_ast s)). collected (co_modules c) mid (source_file s) item"
    "\<forall>node \<in> set (ast_imports (source_ast s)).
       \<lparr>pi_owner = mid, pi_file = source_file s, pi_node = node\<rparr> \<in> set (co_pending c)"
    using graph(4) [OF quiet(1)] assms(3) unfolding entered_def by (metis set_sort)
  obtain n where n: "map_of (rs_modules r) mid = Some n" "module_le m n"
    using graph(3) e(3) by (auto simp: modules_le_def)
  let ?n = "n\<lparr>rm_interface_hash := interface_hash digest n ?ss\<rparr>"
  note find = find_analyzed [where digest = digest, OF assms(1) g]
  have "\<exists>d. map_of (rm_definitions ?n) (item_name item) = Some d \<and> md_kind d = item_kind item \<and>
      md_public d = item_public item \<and> md_file d = source_file s \<and> md_span d = item_span item"
    if "item \<in> set (ast_items (source_ast s))" for item
    using e(5) that e(3) module_le_definitions [OF n(2)] by (fastforce simp: collected_def module_definition_def)
  moreover have "\<exists>t d i. find_module ?a (join ''::'' (butlast (use_path node))) = Some t \<and>
      map_of (rm_definitions t) (last (use_path node)) = Some d \<and> md_public d \<and>
      map_of (rm_imports ?n) (imported_name node) = Some i \<and> ri_definition i = md_id d"
    if node: "node \<in> set (ast_imports (source_ast s))" "use_path node \<noteq> []" for node
  proof -
    have "resolved ?ss (rs_modules r) \<lparr>pi_owner = mid, pi_file = source_file s, pi_node = node\<rparr>"
      using graph(5) [OF quiet(2)] e(6) node(1) by blast
    then show ?thesis using node(2) n(1) find by (fastforce simp: resolved_def Let_def)
  qed
  moreover have "source_file s \<in> set (rm_files ?n)" using e(4) n(2) by (auto simp: module_le_def)
  ultimately show ?thesis using e(1) find [OF e(2) n(1)] by blast
qed


section \<open>Two small projects\<close>

definition at_line :: "nat \<Rightarrow> Span" where
  "at_line n = default_span\<lparr>span_start := n, span_line := n\<rparr>"

definition example_struct :: "string \<Rightarrow> bool \<Rightarrow> Item" where
  "example_struct name public =
     ItStruct \<lparr>struct_public = public, struct_name = name, struct_fields = [], struct_span = at_line 2\<rparr>"

definition example_use :: "string list \<Rightarrow> UseNode" where
  "example_use path = \<lparr>use_path = path, use_alias = None, use_span = at_line 1\<rparr>"

definition example_source :: "string \<Rightarrow> string list list \<Rightarrow> Item list \<Rightarrow> ModuleSource" where
  "example_source name uses items =
     \<lparr>source_file = name @ ''.syl'', source_ast =
        \<lparr>ast_module = Some \<lparr>module_path = [name], module_span = at_line 0\<rparr>, ast_imports = map example_use uses,
         ast_items = items, ast_span = at_line 0\<rparr>\<rparr>"

definition layered_project :: "ModuleSource list" where
  "layered_project =
     [example_source ''shapes'' [] [example_struct ''Point'' True, example_struct ''Hidden'' False],
      example_source ''app'' [[''shapes'', ''Point'']] [example_struct ''Window'' True]]"

definition knotted_project :: "ModuleSource list" where
  "knotted_project =
     [example_source ''a'' [[''b'', ''B'']] [example_struct ''A'' True],
      example_source ''b'' [[''a'', ''A'']] [example_struct ''B'' True]]"

lemma small_examples: "small_project layered_project" "small_project knotted_project"
  by (simp_all add: small_project_def layered_project_def knotted_project_def example_source_def
      declared_module_def List.map_filter_simps)

theorem accepted_project_resolves_witness:
  "\<exists>m. find_module (analyze_modules id layered_project) ''app'' = Some m \<and>
     (\<exists>i. map_of (rm_imports m) ''Point'' = Some i)"
proof -
  let ?s = "example_source ''app'' [[''shapes'', ''Point'']] [example_struct ''Window'' True]"
  have "ma_diagnostics (analyze_modules id layered_project) = []" by code_simp
  moreover have "?s \<in> set layered_project" by (simp add: layered_project_def)
  ultimately show ?thesis
    using accepted_project_resolves [of layered_project id ?s] small_examples(1)
    by (fastforce simp: example_source_def example_use_def declared_module_def imported_name_def)
qed

theorem imports_public_witness:
  "\<exists>item \<in> set (concat (map (\<lambda>s. ast_items (source_ast s)) layered_project)). item_public item"
proof -
  let ?m = "hd (ma_modules (analyze_modules id layered_project))"
  let ?i = "hd (rm_imports ?m)"
  have "?m \<in> set (ma_modules (analyze_modules id layered_project))" by code_simp
  moreover have "(fst ?i, snd ?i) \<in> set (rm_imports ?m)" by code_simp
  ultimately show ?thesis
    using imports_public [OF small_examples(1)] by fastforce
qed

theorem module_cycles_exact_witness:
  "\<not> acyclic (depends (analyze_modules id knotted_project))"
proof -
  obtain c r where g: "module_graph (sort_key source_file knotted_project) = (c, r)"
    by (cases "module_graph (sort_key source_file knotted_project)")
  have "cycle_diagnostics (snd (module_graph (sort_key source_file knotted_project))) \<noteq> []" by code_simp
  then show ?thesis using module_cycles_exact [OF small_examples(2) g] g by simp
qed


text \<open>
  An imported declaration is resolved with the names of the importing file: a structure whose field
  type was not imported as well is reported as an error of the importing file. Definitions of the
  same module in other files are installed in the order of their names, so there a structure cannot
  refer to a later one.
\<close>

definition line_struct :: Item where
  "line_struct = ItStruct \<lparr>struct_public = True, struct_name = ''Line'', struct_fields =
     [\<lparr>field_public = True, field_name = ''from'', field_type = TypeNode (TkPath [''Point''] []) (at_line 3), field_span = at_line 3\<rparr>],
     struct_span = at_line 2\<rparr>"

definition partial_import :: "ModuleSource list" where
  "partial_import =
     [example_source ''shapes'' [] [example_struct ''Point'' True, line_struct],
      example_source ''app'' [[''shapes'', ''Line'']] []]"

definition split_module :: "ModuleSource list" where
  "split_module =
     [(example_source ''shapes'' [] [example_struct ''Point'' True, line_struct])\<lparr>source_file := ''b.syl''\<rparr>,
      (example_source ''shapes'' [] [])\<lparr>source_file := ''a.syl''\<rparr>]"

lemma import_signature_unresolved:
  "map (\<lambda>d. (diag_code d, diag_file d)) (ma_diagnostics (analyze_modules id partial_import)) = [(''SYL2002'', ''app.syl'')]"
  by code_simp

lemma split_module_rejected:
  "map (\<lambda>d. (diag_code d, diag_file d)) (ma_diagnostics (analyze_modules id split_module)) = [(''SYL2002'', ''a.syl'')]"
  by code_simp

end
