(* ===== verification/Package.thy ===== *)
theory Package
  imports Compile_Sound Module_Props
begin

text \<open>
  Package-wide compilation \<open>crates/syllog-compiler/src/package.rs\<close>: every source is parsed, the
  modules are analyzed together, definitions and members get identities for the whole package, and
  the sources are lowered against that plan and linked into one HIR program. The parser and SHA-256
  are parameters; \<open>None\<close> is a panic. Maps the code only looks up and extends are maps.
\<close>

section \<open>Data\<close>

record PackageSource =
  ps_file :: string
  ps_source :: string

record PackageCompilation =
  pc_hir :: "HirProgram option"
  pc_diagnostics :: "CompilerDiagnostic list"

definition package_success :: "PackageCompilation \<Rightarrow> bool" where
  "package_success c \<longleftrightarrow> \<not> list_ex is_error (pc_diagnostics c)"

definition has_errors :: "CompilerDiagnostic list \<Rightarrow> bool" where
  "has_errors ds = list_ex is_error ds"

definition package_error :: "string \<Rightarrow> string \<Rightarrow> string \<Rightarrow> CompilerDiagnostic" where
  "package_error f code message =
     \<lparr>cd_phase = PhResolve, cd_diagnostic = error_diagnostic code [Txt message] f default_span\<rparr>"

definition sort_diagnostics :: "CompilerDiagnostic list \<Rightarrow> CompilerDiagnostic list" where
  "sort_diagnostics ds = sort_key (\<lambda>d. diagnostic_key (cd_diagnostic d)) ds"

definition failed :: "CompilerDiagnostic list \<Rightarrow> PackageCompilation" where
  "failed ds = \<lparr>pc_hir = None, pc_diagnostics = sort_diagnostics ds\<rparr>"

definition package_phase :: "string \<Rightarrow> CompilationPhase" where
  "package_phase code =
     (if code \<in> set (resolve_codes @ [''SYL2400'', ''SYL2401'', ''SYL2402'', ''SYL2403'', ''SYL2404''])
      then PhResolve else PhTypeCheck)"

section \<open>Sources\<close>

definition parse_sources ::
  "(string \<Rightarrow> string \<Rightarrow> CheckResult) \<Rightarrow> PackageSource list \<Rightarrow> (string, Ast) btree \<times> CompilerDiagnostic list" where
  "parse_sources parser sources =
     fold (\<lambda>source (asts, ds).
         let checked = parser (ps_file source) (ps_source source)
         in (case check_ast checked of None \<Rightarrow> asts | Some ast \<Rightarrow> btree_insert (ps_file source) ast asts,
             ds @ phased parser_phase (check_diagnostics checked))) sources ([], [])"

fun duplicate_files :: "PackageSource list \<Rightarrow> CompilerDiagnostic list" where
  "duplicate_files (a # b # rest) =
     (if ps_file a = ps_file b
      then [package_error (ps_file b) ''SYL9002'' ''package source filename is duplicated''] else []) @
     duplicate_files (b # rest)"
| "duplicate_files _ = []"

section \<open>The plan of identities\<close>

record IdentityPlan =
  plan_top_level :: "string \<times> string \<rightharpoonup> HirDefId"
  plan_members :: "string \<times> string \<rightharpoonup> HirDefId"
  plan_next :: "ModuleId \<rightharpoonup> u32"

text \<open>The members of a module are numbered after its definitions, in the order of its files.\<close>

definition plan_member :: "ResolvedModule \<Rightarrow> string \<Rightarrow> IdentityPlan \<times> u32 \<Rightarrow> IdentityPlan \<times> u32" where
  "plan_member m key = (\<lambda>(plan, next_index).
     (plan\<lparr>plan_members := (plan_members plan)((rm_name m, key) \<mapsto> \<lparr>hir_module = rm_id m, hir_index = next_index\<rparr>)\<rparr>,
      saturating_add next_index 1))"

definition module_member_keys :: "(string, Ast) btree \<Rightarrow> ResolvedModule \<Rightarrow> string list" where
  "module_member_keys asts m =
     concat (map (\<lambda>f. case map_of asts f of None \<Rightarrow> [] | Some ast \<Rightarrow> concat (map member_keys (ast_items ast))) (rm_files m))"

definition plan_module :: "(string, Ast) btree \<Rightarrow> ResolvedModule \<Rightarrow> IdentityPlan \<Rightarrow> IdentityPlan" where
  "plan_module asts m plan =
     (let plan1 = fold (\<lambda>(name, d) plan. plan\<lparr>plan_top_level := (plan_top_level plan)
                    ((rm_name m, md_name d) \<mapsto> \<lparr>hir_module = rm_id m, hir_index = q_index (md_id d)\<rparr>)\<rparr>)
                    (rm_definitions m) plan;
          (plan2, next_index) = fold (plan_member m) (module_member_keys asts m)
                    (plan1, try_from_or_max (length (rm_definitions m)))
      in plan2\<lparr>plan_next := (plan_next plan2)(rm_id m \<mapsto> next_index)\<rparr>)"

definition plan_identities :: "ModuleAnalysis \<Rightarrow> (string, Ast) btree \<Rightarrow> IdentityPlan" where
  "plan_identities analysis asts =
     fold (plan_module asts) (ma_modules analysis)
       \<lparr>plan_top_level = Map.empty, plan_members = Map.empty, plan_next = Map.empty\<rparr>"

section \<open>Names of a source\<close>

definition find_definition :: "ModuleAnalysis \<Rightarrow> QualifiedDefId \<Rightarrow> ModuleDefinition option" where
  "find_definition analysis d =
     Option.bind (List.find (\<lambda>m. rm_id m = q_module d) (ma_modules analysis)) (\<lambda>m.
       List.find (\<lambda>md. md_id md = d) (map snd (rm_definitions m)))"

definition rename_member_owner :: "string \<Rightarrow> string \<Rightarrow> string \<Rightarrow> string" where
  "rename_member_owner key owner alias =
     (if starts_with owner key then alias @ drop (length owner) key else key)"

record planned =
  pl_globals :: "string \<rightharpoonup> HirDefId"
  pl_members :: "string \<rightharpoonup> HirDefId"
  pl_diagnostics :: "CompilerDiagnostic list"

definition plan_import ::
  "(string, Ast) btree \<Rightarrow> ModuleAnalysis \<Rightarrow> IdentityPlan \<Rightarrow> string \<Rightarrow> ResolvedImport \<Rightarrow> planned \<Rightarrow> planned" where
  "plan_import asts analysis plan f import p =
     (case find_definition analysis (ri_definition import) of
        None \<Rightarrow> p\<lparr>pl_diagnostics := pl_diagnostics p @
                  [package_error f ''SYL9003'' ''resolved import target disappeared before HIR linking'']\<rparr>
      | Some target \<Rightarrow>
          (let p1 = p\<lparr>pl_globals := (pl_globals p)(ri_local_name import \<mapsto>
                        \<lparr>hir_module = q_module (ri_definition import), hir_index = q_index (ri_definition import)\<rparr>)\<rparr>
           in case List.find (\<lambda>m. rm_id m = q_module (ri_definition import)) (ma_modules analysis) of
                None \<Rightarrow> p1
              | Some target_module \<Rightarrow>
                  (case Option.bind (map_of asts (md_file target))
                          (\<lambda>ast. List.find (\<lambda>item. item_name item = md_name target) (ast_items ast)) of
                     None \<Rightarrow> p1
                   | Some item \<Rightarrow>
                       fold (\<lambda>key p. case plan_members plan (rm_name target_module, key) of
                               None \<Rightarrow> p
                             | Some d \<Rightarrow> p\<lparr>pl_members := (pl_members p)
                                 (rename_member_owner key (md_name target) (ri_local_name import) \<mapsto> d)\<rparr>)
                         (member_keys item) p1)))"

definition planned_names ::
  "ResolvedModule \<Rightarrow> string \<Rightarrow> (string, Ast) btree \<Rightarrow> ModuleAnalysis \<Rightarrow> IdentityPlan \<Rightarrow> string \<Rightarrow> planned" where
  "planned_names m module_name asts analysis plan f =
     fold (\<lambda>(name, import). plan_import asts analysis plan f import) (rm_imports m)
       \<lparr>pl_globals = (\<lambda>name. if map_of (rm_definitions m) name = None then None
                              else plan_top_level plan (module_name, name)),
        pl_members = (\<lambda>key. plan_members plan (module_name, key)), pl_diagnostics = []\<rparr>"

section \<open>Linking\<close>

record linking =
  lk_modules :: "(ModuleId, HirModule) btree"
  lk_entry :: "HirDefId option"
  lk_plan :: IdentityPlan
  lk_diagnostics :: "CompilerDiagnostic list"

definition lk_error :: "CompilerDiagnostic list \<Rightarrow> linking \<Rightarrow> linking" where
  "lk_error ds l = l\<lparr>lk_diagnostics := lk_diagnostics l @ ds\<rparr>"

definition link_module :: "string \<Rightarrow> ModuleId \<Rightarrow> HirModule \<times> HirDefId option \<times> u32 \<Rightarrow> linking \<Rightarrow> linking" where
  "link_module f mid = (\<lambda>(lowered, candidate, next_index) l.
     let linked = (case map_of (lk_modules l) mid of
                     None \<Rightarrow> \<lparr>hir_module_id = mid, hir_definitions = []\<rparr>
                   | Some m \<Rightarrow> m);
         l1 = l\<lparr>lk_plan := (lk_plan l)\<lparr>plan_next := (plan_next (lk_plan l))(mid \<mapsto> next_index)\<rparr>,
                lk_modules := btree_insert mid
                  (linked\<lparr>hir_definitions := hir_definitions linked @ hir_definitions lowered\<rparr>) (lk_modules l)\<rparr>
     in case candidate of
          None \<Rightarrow> l1
        | Some d \<Rightarrow>
            (if lk_entry l1 \<noteq> None
             then lk_error [package_error f ''SYL3002'' ''package declares more than one main function'']
             else id) (l1\<lparr>lk_entry := Some d\<rparr>))"

definition link_source ::
  "(string, Ast) btree \<Rightarrow> ModuleAnalysis \<Rightarrow> PackageSource \<Rightarrow> linking \<Rightarrow> linking option" where
  "link_source asts analysis source l =
     (case map_of asts (ps_file source) of
        None \<Rightarrow> None
      | Some ast \<Rightarrow>
          (case map_option (\<lambda>d. join ''::'' (module_path d)) (ast_module ast) of
             None \<Rightarrow> Some l
           | Some module_name \<Rightarrow>
               (case find_module analysis module_name of
                  None \<Rightarrow> Some (lk_error [package_error (ps_file source) ''SYL9003''
                            ''analyzed module disappeared before HIR linking''] l)
                | Some m \<Rightarrow>
                    (let p = planned_names m module_name asts analysis (lk_plan l) (ps_file source);
                         l1 = lk_error (pl_diagnostics p) l
                     in case map_of (ma_source_analyses analysis) (ps_file source) of
                          None \<Rightarrow> Some (lk_error [package_error (ps_file source) ''SYL9003''
                                    ''source analysis disappeared before HIR linking''] l1)
                        | Some source_analysis \<Rightarrow>
                            (let next_index = (case plan_next (lk_plan l1) (rm_id m) of None \<Rightarrow> 0 | Some n \<Rightarrow> n)
                             in map_option (\<lambda>lowered. case lowered of
                                    Inr linked \<Rightarrow> link_module (ps_file source) (rm_id m) linked l1
                                  | Inl errs \<Rightarrow> lk_error (map (\<lambda>d. \<lparr>cd_phase = PhTypeCheck, cd_diagnostic = d\<rparr>) errs) l1)
                                  (lower_module_to_hir ast source_analysis (rm_id m) (pl_globals p) (pl_members p) next_index))))))"

fun link_sources ::
  "(string, Ast) btree \<Rightarrow> ModuleAnalysis \<Rightarrow> PackageSource list \<Rightarrow> linking \<Rightarrow> linking option" where
  "link_sources asts analysis [] l = Some l"
| "link_sources asts analysis (source # sources) l =
     Option.bind (link_source asts analysis source l) (link_sources asts analysis sources)"

definition link_effects :: "HirProgram \<Rightarrow> CompilerDiagnostic list" where
  "link_effects program =
     (case analyze_effects program of Inl errs \<Rightarrow> effect_diagnostics ''<package>'' errs | Inr _ \<Rightarrow> [])"

definition finish_package :: "linking \<Rightarrow> PackageCompilation" where
  "finish_package l =
     (let program = \<lparr>schema_version = 1, hir_modules = map snd (lk_modules l), hir_entry = lk_entry l\<rparr>;
          ds = lk_diagnostics l @ (if has_errors (lk_diagnostics l) then [] else link_effects program)
      in \<lparr>pc_hir = (if has_errors (sort_diagnostics ds) then None else Some program),
          pc_diagnostics = sort_diagnostics ds\<rparr>)"

definition compile_package ::
  "(string \<Rightarrow> string \<Rightarrow> CheckResult) \<Rightarrow> (string \<Rightarrow> string) \<Rightarrow> PackageSource list \<Rightarrow> PackageCompilation option" where
  "compile_package parser digest sources =
     (let sources = sort_key ps_file sources in
      if sources = [] then
        Some (failed [package_error ''<package>'' ''SYL9001'' ''package compilation requires at least one source file''])
      else if has_errors (duplicate_files sources) then Some (failed (duplicate_files sources))
      else
        (let (asts, parsed) = parse_sources parser sources;
             ds = duplicate_files sources @ parsed
         in if length asts \<noteq> length sources then Some (failed ds)
            else
              (let analysis = analyze_modules digest (map (\<lambda>(f, ast). \<lparr>source_file = f, source_ast = ast\<rparr>) asts);
                   ds1 = ds @ phased package_phase (ma_diagnostics analysis)
               in if has_errors ds1 then Some (failed ds1)
                  else map_option finish_package
                         (link_sources asts analysis sources
                            \<lparr>lk_modules = [], lk_entry = None, lk_plan = plan_identities analysis asts,
                             lk_diagnostics = ds1\<rparr>))))"

end
