(* ===== verification/Package_Sound.thy ===== *)
theory Package_Sound
  imports Package
begin

text \<open>
  What package compilation establishes: it never panics, and in a linked program the definitions of
  every module are numbered consecutively in the order of its sources.
\<close>

section \<open>Diagnostics of module analysis are errors\<close>

lemma insert_symbol_grows: "an_grows a (insert_type n k sp a)" "an_grows a (insert_value n v sp a)"
  by (auto simp: insert_type_def insert_value_def push_error_def log_grows_def)

lemma install_import_grows: "an_grows a (install_import alias item a)"
proof -
  have t: "an_grows a b" if "steps (insert_type n k sp a) b" for n k sp b
    by (rule log_grows_trans [OF insert_symbol_grows(1) steps_grows [OF that]])
  have v: "an_grows a b" if "steps (insert_value n k sp a) b" for n k sp b
    by (rule log_grows_trans [OF insert_symbol_grows(2) steps_grows [OF that]])
  show ?thesis
  proof (cases item)
    case (ItStruct node)
    then show ?thesis using t [OF fields_steps [OF steps_refl]] by (simp add: split_beta)
  next
    case (ItEnum node)
    then show ?thesis using t [OF variants_steps [OF steps_refl]] by (simp add: split_beta)
  next
    case (ItFunction node)
    then show ?thesis using v [OF signature_steps [OF steps_refl]] by (simp add: split_beta)
  next
    case (ItState node)
    then show ?thesis using t [OF steps_resolve(2) [OF steps_refl]] by (simp add: split_beta)
  next
    case (ItAgent node)
    then show ?thesis using v [OF contract_steps [OF steps_refl]] by (simp add: split_beta)
  next
    case (ItPipeline node)
    then show ?thesis using v [OF signature_steps [OF steps_refl]] by (simp add: split_beta)
  qed (simp add: insert_symbol_grows)
qed

lemma analysis_with_imports_errors:
  "d \<in> set (analysis_diagnostics (analyze_with_imports f ast imports)) \<Longrightarrow> diag_severity d = SevError"
proof -
  have "an_grows (new_analyzer f) (fold (\<lambda>(alias, item). install_import alias item) imports
      (collect_declarations (ast_items ast) (new_analyzer f)))"
    unfolding collect_declarations_def
    by (rule log_grows_trans [OF fold_grows [OF collect_item_grows] fold_grows])
      (auto simp: install_import_grows split: prod.split)
  then show "d \<in> set (analysis_diagnostics (analyze_with_imports f ast imports)) \<Longrightarrow> diag_severity d = SevError"
    unfolding analyze_with_imports_def by (rule finish_errors [OF log_grows_trans [OF _ analyzed_grows]])
qed

lemma btree_insert_set: "e \<in> set (btree_insert k v t) \<Longrightarrow> e = (k, v) \<or> e \<in> set t"
proof (induction t)
  case (Cons e' t)
  then show ?case by (cases e') (auto split: if_splits)
qed simp

lemma source_analyses_errors:
  assumes "(f, analysis) \<in> set (analyze_source_bodies sources ms)" and "d \<in> set (analysis_diagnostics analysis)"
  shows "diag_severity d = SevError"
proof -
  let ?E = "\<lambda>analysis. \<forall>d \<in> set (analysis_diagnostics analysis). diag_severity d = SevError"
  let ?P = "\<lambda>t. \<forall>e \<in> set t. ?E (snd e)"
  have new: "?E (analyze_with_imports f ast xs)" for f ast xs using analysis_with_imports_errors by blast
  have put: "?P (btree_insert f a t)" if "?P t" "?E a" for f a and t :: "(string, Analysis) btree"
  proof
    fix e assume "e \<in> set (btree_insert f a t)"
    then have "e = (f, a) \<or> e \<in> set t" by (rule btree_insert_set)
    then show "?E (snd e)" using that by auto
  qed
  have step: "?P (analyze_source_body ms items s t)" if "?P t" for items s and t :: "(string, Analysis) btree"
  proof (cases "Option.bind (declared_module s) (\<lambda>name. List.find (\<lambda>m. rm_name m = name) (map snd ms))")
    case (Some m)
    show ?thesis unfolding analyze_source_body_def Some option.case by (rule put [OF that new])
  qed (use that in \<open>simp add: analyze_source_body_def\<close>)
  have "?P (analyze_source_bodies sources ms)"
    unfolding analyze_source_bodies_def
  proof (rule fold_invariant [where P = ?P and Q = "\<lambda>_. True"])
    show "?P (analyze_source_body ms (definition_items sources ms) s t)" if "?P t" for s t
      using step [OF that] .
  qed simp_all
  then show ?thesis using assms by force
qed

lemma cycle_errors: "d \<in> set (cycle_diagnostics r) \<Longrightarrow> diag_severity d = SevError"
  by (auto simp: cycle_diagnostics_def Let_def split: option.splits)

lemma module_analysis_errors:
  assumes "small_project sources" and d: "d \<in> set (ma_diagnostics (analyze_modules digest sources))"
  shows "diag_severity d = SevError"
proof -
  let ?ss = "sort_key source_file sources"
  obtain c r where g: "module_graph ?ss = (c, r)" by (cases "module_graph ?ss")
  have small: "small_project ?ss" using assms(1) by simp
  note grows = module_graph_grows [OF small g]
  consider "d \<in> set (co_diagnostics c)" | "d \<in> set (rs_diagnostics r)" | "d \<in> set (cycle_diagnostics r)"
    | f analysis ms where "(f, analysis) \<in> set (analyze_source_bodies ?ss ms)" "d \<in> set (analysis_diagnostics analysis)"
    using d by (auto simp: analyze_modules_def g Let_def)
  then show ?thesis
    using grows cycle_errors source_analyses_errors by cases blast+
qed


section \<open>The numbers of definitions\<close>

text \<open>The declarations of a module in the order of its sources, with their files.\<close>

definition module_items :: "(string, ModuleId) btree \<Rightarrow> ModuleSource list \<Rightarrow> ModuleId \<Rightarrow> (string \<times> Item) list" where
  "module_items ids sources mid =
     concat (map (\<lambda>s. if Option.bind (declared_module s) (map_of ids) = Some mid
                      then map (Pair (source_file s)) (ast_items (source_ast s)) else []) sources)"

lemma module_items_append: "module_items ids (xs @ ys) mid = module_items ids xs mid @ module_items ids ys mid"
  by (simp add: module_items_def)

lemma module_items_length: "length (module_items ids sources mid) \<le> sum_list (map (\<lambda>s. length (ast_items (source_ast s))) sources)"
  by (induction sources) (auto simp: module_items_def)

definition numbered :: "collection \<Rightarrow> ModuleId \<Rightarrow> (string \<times> Item) list \<Rightarrow> bool" where
  "numbered c mid items \<longleftrightarrow>
     (case co_next c mid of None \<Rightarrow> 0 | Some i \<Rightarrow> i) = of_nat (length items) \<and>
     (\<forall>m k. map_of (co_modules c) mid = Some m \<longrightarrow> k < length items \<longrightarrow>
        map_of (rm_definitions m) (item_name (snd (items ! k))) =
          Some (module_definition mid (of_nat k) (fst (items ! k)) (snd (items ! k))))"

lemma saturating_suc: "Suc n < 2 ^ 32 \<Longrightarrow> saturating_add (of_nat n :: u32) 1 = of_nat (Suc n)"
  by (simp add: saturating_add_def uint_nat unat_of_nat int_less_exp_iff)

lemma number_definition:
  assumes ok: "modules_ok sources (co_modules c)" and m: "map_of (co_modules c) mid = Some m"
    and quiet: "log_quiet co_diagnostics c (collect_definition mid name f item c)"
    and n: "numbered c mid items" and l: "Suc (length items) < 2 ^ 32"
  shows "numbered (collect_definition mid name f item c) mid (items @ [(f, item)])"
proof -
  let ?d = "module_definition mid (of_nat (length items)) f item"
  let ?m = "m\<lparr>rm_definitions := btree_insert (item_name item) ?d (rm_definitions m)\<rparr>"
  let ?c = "collect_definition mid name f item c"
  have i: "(case co_next c mid of None \<Rightarrow> 0 | Some i \<Rightarrow> i) = of_nat (length items)" using n by (simp add: numbered_def)
  have new: "map_of (rm_definitions m) (item_name item) = None"
    using quiet m by (auto simp: collect_definition_def Let_def i module_definition_def log_quiet_def split: if_splits)
  then have c: "co_modules ?c = btree_insert mid ?m (co_modules c)" "co_next ?c mid = Some (of_nat (Suc (length items)))"
    using m saturating_suc [OF l] by (simp_all add: collect_definition_def Let_def i module_definition_def)
  have b: "btree_ok (co_modules c)" "btree_ok (rm_definitions m)"
    using ok modules_okD [OF ok m] by (auto simp: modules_ok_def module_ok_def)
  have at: "map_of (co_modules ?c) mid = Some ?m" using b(1) by (simp add: c(1) bt.lookup_put)
  have "map_of (rm_definitions ?m) (item_name (snd ((items @ [(f, item)]) ! k))) =
      Some (module_definition mid (of_nat k) (fst ((items @ [(f, item)]) ! k)) (snd ((items @ [(f, item)]) ! k)))"
    if "k < Suc (length items)" for k
  proof (cases "k = length items")
    case True
    then show ?thesis using b(2) by (simp add: bt.lookup_put)
  next
    case False
    then have k: "k < length items" using that by simp
    then have "map_of (rm_definitions m) (item_name (snd (items ! k))) =
        Some (module_definition mid (of_nat k) (fst (items ! k)) (snd (items ! k)))"
      using n m by (simp add: numbered_def)
    moreover from this have "item_name (snd (items ! k)) \<noteq> item_name item" using new by auto
    ultimately show ?thesis using k b(2) by (simp add: bt.lookup_put nth_append)
  qed
  then show ?thesis using at c(2) by (simp add: numbered_def)
qed

lemma number_other:
  assumes "btree_ok (co_modules c)" and "other \<noteq> mid" and "numbered c other items"
  shows "numbered (collect_definition mid name f item c) other items"
  using assms by (auto simp: numbered_def collect_definition_def Let_def bt.lookup_put split: option.split)

lemma number_definitions:
  assumes small: "small_project sources" and s: "s \<in> set sources" and name: "declared_module s = Some name"
    and mid: "map_of (module_ids sources) name = Some mid"
  shows "set xs \<subseteq> set (ast_items (source_ast s)) \<Longrightarrow> modules_ok sources (co_modules c) \<Longrightarrow>
    log_quiet co_diagnostics c (fold (collect_definition mid name (source_file s)) xs c) \<Longrightarrow>
    numbered c mid items \<Longrightarrow> length items + length xs < 2 ^ 32 \<Longrightarrow>
    numbered (fold (collect_definition mid name (source_file s)) xs c) mid (items @ map (Pair (source_file s)) xs)"
proof (induction xs arbitrary: c items)
  case (Cons x xs)
  let ?c = "collect_definition mid name (source_file s) x c"
  have x: "set [x] \<subseteq> set (ast_items (source_ast s))" "set xs \<subseteq> set (ast_items (source_ast s))" using Cons.prems(1) by auto
  have "?c = fold (collect_definition mid name (source_file s)) [x] c" by simp
  note one = collect_definitions_ok [OF small s name mid x(1) Cons.prems(2) this]
  note rest = collect_definitions_ok [OF small s name mid x(2) _ refl, of ?c]
  have quiet: "log_quiet co_diagnostics c ?c" "log_quiet co_diagnostics ?c (fold (collect_definition mid name (source_file s)) xs ?c)"
    using log_quiet_split [of co_diagnostics c ?c] one rest Cons.prems(3) by auto
  obtain m where m: "map_of (co_modules c) mid = Some m" using module_present [OF Cons.prems(2) mid] .
  have "numbered ?c mid (items @ [(source_file s, x)])"
    using number_definition [OF Cons.prems(2) m quiet(1) Cons.prems(4)] Cons.prems(5) by simp
  from Cons.IH [OF x(2) _ quiet(2) this] show ?case using one Cons.prems(5) by simp
qed simp


definition project_size :: "ModuleSource list \<Rightarrow> nat" where
  "project_size sources = sum_list (map (\<lambda>s. length (ast_items (source_ast s))) sources)"

lemma numbered_fold_other:
  assumes "other \<noteq> mid"
  shows "btree_ok (co_modules c) \<Longrightarrow> numbered c other items \<Longrightarrow> numbered (fold (collect_definition mid name f) xs c) other items"
proof (induction xs arbitrary: c)
  case (Cons x xs)
  have "btree_ok (co_modules (collect_definition mid name f x c))"
    using Cons.prems(1) by (auto simp: collect_definition_def Let_def bt.ok_put split: option.split)
  then show ?case using Cons.IH number_other [OF Cons.prems(1) assms Cons.prems(2)] by simp
qed simp

lemma number_source:
  assumes small: "small_project sources" and s: "s \<in> set sources" and ok: "modules_ok sources (co_modules c)"
    and quiet: "log_quiet co_diagnostics c (collect_source (module_ids sources) s c)"
    and n: "\<And>mid. numbered c mid (module_items (module_ids sources) xs mid)"
    and size: "project_size (xs @ [s]) < 2 ^ 32"
  shows "numbered (collect_source (module_ids sources) s c) mid (module_items (module_ids sources) (xs @ [s]) mid)"
proof -
  let ?ids = "module_ids sources"
  obtain name where name: "declared_module s = Some name"
    using quiet by (cases "declared_module s") (auto simp: collect_source_def log_quiet_def)
  obtain own where own: "map_of ?ids name = Some own" using module_ids_declared [OF s name] by blast
  obtain m where m: "map_of (co_modules c) own = Some m" using module_present [OF ok own] .
  define c1 where "c1 = c\<lparr>co_modules := btree_insert own (m\<lparr>rm_files := rm_files m @ [source_file s]\<rparr>) (co_modules c)\<rparr>"
  define c2 where "c2 = fold (collect_definition own name (source_file s)) (ast_items (source_ast s)) c1"
  have b: "btree_ok (co_modules c)" using ok by (simp add: modules_ok_def)
  have "module_ok sources own (m\<lparr>rm_files := rm_files m @ [source_file s]\<rparr>)"
    using modules_okD [OF ok m] by (simp add: module_ok_def)
  then have ok1: "modules_ok sources (co_modules c1)" using modules_ok_insert [OF ok m] by (simp add: c1_def)
  have n1: "numbered c1 k (module_items ?ids xs k)" for k
    using n [of k] m b by (auto simp: numbered_def c1_def bt.lookup_put)
  have c': "co_modules (collect_source ?ids s c) = co_modules c2" "co_next (collect_source ?ids s c) = co_next c2"
    "co_diagnostics (collect_source ?ids s c) = co_diagnostics c2"
    by (simp_all add: collect_source_def name own m Let_def c1_def c2_def)
  have quiet2: "log_quiet co_diagnostics c1 c2" using quiet c'(3) by (simp add: log_quiet_def c1_def)
  have "numbered c2 mid (module_items ?ids (xs @ [s]) mid)"
  proof (cases "mid = own")
    case True
    have l: "length (module_items ?ids xs own) + length (ast_items (source_ast s)) < 2 ^ 32"
      using module_items_length [of ?ids xs own] size by (simp add: project_size_def)
    show ?thesis
      using number_definitions [OF small s name own subset_refl ok1 _ n1 l] quiet2 True
      by (simp add: c2_def module_items_append) (simp add: module_items_def name own)
  next
    case False
    have "btree_ok (co_modules c1)" using ok1 by (simp add: modules_ok_def)
    then have "numbered c2 mid (module_items ?ids xs mid)" unfolding c2_def using numbered_fold_other [OF False _ n1] by simp
    moreover have "module_items ?ids [s] mid = []" using False by (simp add: module_items_def name own)
    ultimately show ?thesis by (simp add: module_items_append)
  qed
  then show ?thesis by (simp add: numbered_def c')
qed

lemma number_sources:
  assumes small: "small_project sources" and size: "project_size sources < 2 ^ 32"
  shows "set ss \<subseteq> set sources \<Longrightarrow> modules_ok sources (co_modules c) \<Longrightarrow> pending_ok sources (co_pending c) \<Longrightarrow>
    log_quiet co_diagnostics c (fold (collect_source (module_ids sources)) ss c) \<Longrightarrow>
    (\<And>mid. numbered c mid (module_items (module_ids sources) xs mid)) \<Longrightarrow> sources = xs @ ss \<Longrightarrow>
    numbered (fold (collect_source (module_ids sources)) ss c) mid (module_items (module_ids sources) sources mid)"
proof (induction ss arbitrary: c xs)
  case (Cons s ss)
  let ?c = "collect_source (module_ids sources) s c"
  have s: "set [s] \<subseteq> set sources" "set ss \<subseteq> set sources" "s \<in> set sources" using Cons.prems(1) by auto
  have "?c = fold (collect_source (module_ids sources)) [s] c" by simp
  note one = collect_fold_ok [OF small s(1) Cons.prems(2,3) this]
  note rest = collect_fold_ok [OF small s(2) _ _ refl, of ?c]
  have quiet: "log_quiet co_diagnostics c ?c" "log_quiet co_diagnostics ?c (fold (collect_source (module_ids sources)) ss ?c)"
    using log_quiet_split [of co_diagnostics c ?c] one rest Cons.prems(4) by auto
  have "project_size (xs @ [s]) < 2 ^ 32" using size Cons.prems(6) by (simp add: project_size_def)
  note n = number_source [OF small s(3) Cons.prems(2) quiet(1) Cons.prems(5) this]
  have ok: "modules_ok sources (co_modules ?c)" "pending_ok sources (co_pending ?c)" using one by auto
  have "sources = (xs @ [s]) @ ss" using Cons.prems(6) by simp
  from Cons.IH [OF s(2) ok quiet(2) n this] show ?case by simp
qed simp

lemma graph_numbered:
  assumes small: "small_project sources" and size: "project_size sources < 2 ^ 32"
    and g: "module_graph sources = (c, r)" and quiet: "co_diagnostics c = []"
    and k: "k < length (module_items (module_ids sources) sources mid)" and m: "map_of (rs_modules r) mid = Some m"
  defines "item \<equiv> module_items (module_ids sources) sources mid ! k"
  shows "map_of (rm_definitions m) (item_name (snd item)) = Some (module_definition mid (of_nat k) (fst item) (snd item))"
proof -
  let ?ids = "module_ids sources"
  let ?c = "\<lparr>co_next = Map.empty, co_modules = empty_modules ?ids, co_pending = [], co_diagnostics = []\<rparr>"
  have c: "c = fold (collect_source ?ids) sources ?c" using g by (auto simp: module_graph_def Let_def collect_sources_def)
  have "numbered ?c i (module_items ?ids [] i)" for i by (simp add: numbered_def module_items_def)
  then have n: "numbered c mid (module_items ?ids sources mid)"
    using number_sources [OF small size subset_refl, of ?c "[]" mid] modules_ok_empty quiet c
    by (simp add: pending_ok_def log_quiet_def)
  have "mid \<in> ran (map_of ?ids)" using module_graph_ok(1) [OF small g] m by (auto simp: modules_ok_def)
  moreover have "modules_ok sources (co_modules c)"
    using collect_sources_ok(1) [OF small] c by (simp add: collect_sources_def)
  ultimately obtain m0 where m0: "map_of (co_modules c) mid = Some m0" unfolding modules_ok_def by blast
  then have "module_le m0 m" using module_graph_ok(3) [OF small g] m unfolding modules_le_def by (metis option.inject)
  then show ?thesis using module_le_definitions n m0 k by (auto simp: numbered_def item_def)
qed


section \<open>The plan\<close>

lemma fold_plan_member: "plan_top_level (fst (fold (plan_member m) keys p)) = plan_top_level (fst p)"
  by (induction keys arbitrary: p) (auto simp: plan_member_def split_beta)

lemma fold_plan_definitions:
  fixes plan :: IdentityPlan
  assumes "distinct (map fst ds)" and "\<forall>(name, d) \<in> set ds. md_name d = name"
  shows "plan_top_level (fold (\<lambda>(name, d) plan. plan\<lparr>plan_top_level := (plan_top_level plan)
      ((owner, md_name d) \<mapsto> g d)\<rparr>) ds plan) (n, x) =
    (if n = owner \<and> map_of ds x \<noteq> None then map_option g (map_of ds x) else plan_top_level plan (n, x))"
  using assms
proof (induction ds arbitrary: plan)
  case (Cons e ds)
  obtain name d where e: "e = (name, d)" by (cases e)
  have "map_of ds name = None" using Cons.prems(1) e by (simp add: map_of_eq_None_iff)
  then show ?case using Cons e by auto
qed simp

definition keyed :: "ResolvedModule \<Rightarrow> bool" where
  "keyed m \<longleftrightarrow> distinct (map fst (rm_definitions m)) \<and> (\<forall>(name, d) \<in> set (rm_definitions m). md_name d = name)"

lemma plan_module_top_level:
  assumes "keyed m"
  shows "plan_top_level (plan_module asts m plan) (n, x) =
    (if n = rm_name m \<and> map_of (rm_definitions m) x \<noteq> None
     then map_option (\<lambda>d. \<lparr>hir_module = rm_id m, hir_index = q_index (md_id d)\<rparr>) (map_of (rm_definitions m) x)
     else plan_top_level plan (n, x))"
  unfolding plan_module_def Let_def split_beta
  using assms fold_plan_definitions [of "rm_definitions m" "rm_name m"
      "\<lambda>d. \<lparr>hir_module = rm_id m, hir_index = q_index (md_id d)\<rparr>", unfolded split_beta]
  by (simp add: fold_plan_member keyed_def split_beta)

lemma fold_plan_other:
  "\<forall>m \<in> set ms. keyed m \<and> rm_name m \<noteq> a \<Longrightarrow> plan_top_level (fold (plan_module asts) ms plan) (a, x) = plan_top_level plan (a, x)"
  by (induction ms arbitrary: plan) (auto simp: plan_module_top_level)

lemma fold_plan_module:
  assumes "\<forall>m \<in> set ms. keyed m" and "distinct (map rm_name ms)" and "m \<in> set ms"
    and d: "map_of (rm_definitions m) x = Some d"
  shows "plan_top_level (fold (plan_module asts) ms plan) (rm_name m, x) =
    Some \<lparr>hir_module = rm_id m, hir_index = q_index (md_id d)\<rparr>"
  using assms(1-3)
proof (induction ms arbitrary: plan)
  case (Cons n ms)
  show ?case
  proof (cases "m = n")
    case True
    have "\<forall>k \<in> set ms. keyed k \<and> rm_name k \<noteq> rm_name m" using Cons.prems(1,2) True by (force simp: image_iff)
    from fold_plan_other [OF this, of asts "plan_module asts n plan" x]
    show ?thesis using plan_module_top_level [of n asts plan "rm_name m" x] Cons.prems(1) d True by simp
  next
    case False
    then show ?thesis using Cons by auto
  qed
qed simp

lemma plan_import_globals:
  assumes "name \<noteq> ri_local_name import"
  shows "pl_globals (plan_import asts analysis plan f import p) name = pl_globals p name"
proof -
  have "pl_globals (fold (\<lambda>key p. case plan_members plan (owner, key) of None \<Rightarrow> p
      | Some d \<Rightarrow> p\<lparr>pl_members := (pl_members p)(h key \<mapsto> d)\<rparr>) keys q) = pl_globals q" for owner h keys and q :: planned
    by (induction keys arbitrary: q) (auto split: option.split)
  then show ?thesis using assms by (simp add: plan_import_def Let_def split: option.split)
qed

lemma planned_names_globals:
  assumes "\<forall>(local, i) \<in> set (rm_imports m). ri_local_name i \<noteq> name" and "map_of (rm_definitions m) name \<noteq> None"
  shows "pl_globals (planned_names m owner asts analysis plan f) name = plan_top_level plan (owner, name)"
proof -
  have "pl_globals (fold (\<lambda>(local, import). plan_import asts analysis plan f import) xs p) name = pl_globals p name"
    if "\<forall>(local, i) \<in> set xs. ri_local_name i \<noteq> name" for xs :: "(string \<times> ResolvedImport) list" and p
    using that by (induction xs arbitrary: p) (auto simp: plan_import_globals)
  then show ?thesis using assms by (auto simp: planned_names_def)
qed

section \<open>Lowering against the plan\<close>

lemma index_globals_planned:
  assumes "\<And>item. item \<in> set items \<Longrightarrow> lw_globals l (item_name item) \<noteq> None"
  shows "index_globals items l = l"
  using assms unfolding index_globals_def by (induction items) (auto simp: index_global_def)

lemma lowered_names:
  "lower_definitions items l = Some (ds, m) \<Longrightarrow>
     map (\<lambda>d. (definition_name d, definition_span d)) ds = map (\<lambda>item. (item_name item, item_span item)) items"
proof (induction items arbitrary: l ds)
  case (Cons item items)
  then obtain d l1 es where "lower_definition item l = Some (d, l1)" "lower_definitions items l1 = Some (es, m)" "ds = d # es"
    by (auto simp: bind_eq_Some_conv)
  then show ?case using Cons.IH by (auto simp: lower_definition_def bind_eq_Some_conv split_beta Let_def)
qed simp

lemma planned_lowering:
  assumes "lower_module_to_hir ast analysis mid globals members next_index = Some (Inr (hm, entry, n))"
    and "\<And>item. item \<in> set (ast_items ast) \<Longrightarrow> globals (item_name item) \<noteq> None"
  shows "map (\<lambda>d. Some (definition_id d)) (hir_definitions hm) = map (\<lambda>item. globals (item_name item)) (ast_items ast)"
    and "map (\<lambda>d. (definition_name d, definition_span d)) (hir_definitions hm) =
      map (\<lambda>item. (item_name item, item_span item)) (ast_items ast)"
proof -
  let ?items = "ast_items ast" and ?l = "new_planned analysis mid globals members next_index"
  let ?m = "index_members ?items (index_globals ?items ?l)"
  obtain ds m where d: "lower_definitions ?items ?m = Some (ds, m)" and hm: "hir_definitions hm = ds"
    using assms(1) by (auto simp: lower_module_to_hir_def lower_module_def bind_eq_Some_conv split: if_splits)
  have "lw_globals ?m = lw_globals (index_globals ?items ?l)" by (rule indices_complete(6))
  also have "\<dots> = globals" using index_globals_planned [of ?items ?l] assms(2) by (simp add: new_planned_def)
  finally show "map (\<lambda>d. Some (definition_id d)) (hir_definitions hm) = map (\<lambda>item. globals (item_name item)) ?items"
    using definitions_steps [OF d] hm by simp
  show "map (\<lambda>d. (definition_name d, definition_span d)) (hir_definitions hm) = map (\<lambda>item. (item_name item, item_span item)) ?items"
    using lowered_names [OF d] hm by simp
qed


section \<open>Sources of a package\<close>

abbreviation module_source :: "PackageSource \<Rightarrow> Ast \<Rightarrow> ModuleSource" where
  "module_source s ast \<equiv> \<lparr>source_file = ps_file s, source_ast = ast\<rparr>"

definition parsed_ast :: "(string \<Rightarrow> string \<Rightarrow> CheckResult) \<Rightarrow> PackageSource \<Rightarrow> Ast option" where
  "parsed_ast parser s = check_ast (parser (ps_file s) (ps_source s))"

lemma btree_insert_last: "(\<And>x. x \<in> fst ` set t \<Longrightarrow> x < k) \<Longrightarrow> btree_insert k v t = t @ [(k, v)]"
proof (induction t)
  case (Cons e t)
  have "fst e < k" using Cons.prems by simp
  moreover have "btree_insert k v t = t @ [(k, v)]" by (rule Cons.IH) (use Cons.prems in simp)
  ultimately show ?case by (cases e) (auto dest: less_asym)
qed simp

lemma duplicate_files_none:
  "sorted (map ps_file ss) \<Longrightarrow> \<not> has_errors (duplicate_files ss) \<Longrightarrow> sorted_wrt (<) (map ps_file ss)"
proof (induction ss rule: duplicate_files.induct)
  case (1 a b rest)
  then have "ps_file a < ps_file b" "sorted_wrt (<) (map ps_file (b # rest))"
    by (auto simp: has_errors_def is_error_def package_error_def split: if_splits)
  then show ?case by auto
qed auto

text \<open>The trees of sources in file order are in the order of the sources.\<close>

lemma parse_sources_asts:
  assumes "sorted_wrt (<) (map ps_file ss)"
  shows "fst (parse_sources parser ss) =
    List.map_filter (\<lambda>s. map_option (Pair (ps_file s)) (parsed_ast parser s)) ss"
proof -
  have "fst (fold (\<lambda>source (asts, ds).
         let checked = parser (ps_file source) (ps_source source)
         in (case check_ast checked of None \<Rightarrow> asts | Some ast \<Rightarrow> btree_insert (ps_file source) ast asts,
             ds @ phased parser_phase (check_diagnostics checked))) xs (t, d)) =
      t @ List.map_filter (\<lambda>s. map_option (Pair (ps_file s)) (parsed_ast parser s)) xs"
    if "sorted_wrt (<) (map ps_file xs)" "\<forall>x \<in> fst ` set t. \<forall>s \<in> set xs. x < ps_file s" for xs t d
    using that
  proof (induction xs arbitrary: t d)
    case (Cons s xs)
    have last: "btree_insert (ps_file s) ast t = t @ [(ps_file s, ast)]" for ast
      using Cons.prems(2) by (intro btree_insert_last) auto
    show ?case
    proof (cases "parsed_ast parser s")
      case None
      then show ?thesis using Cons by (simp add: parsed_ast_def Let_def List.map_filter_simps)
    next
      case (Some ast)
      have "\<forall>x \<in> fst ` set (t @ [(ps_file s, ast)]). \<forall>s' \<in> set xs. x < ps_file s'"
        using Cons.prems by auto
      from Cons.IH [OF _ this] show ?thesis
        using Some Cons.prems(1) last by (simp add: parsed_ast_def Let_def List.map_filter_simps)
    qed
  qed (simp add: List.map_filter_simps)
  from this [of ss "[]" "[]"] show ?thesis using assms by (simp add: parse_sources_def)
qed

lemma map_filter_length: "length (List.map_filter g xs) \<le> length xs"
  by (induction xs) (auto simp: List.map_filter_simps split: option.split)

lemma all_parsed:
  assumes "length (List.map_filter g xs) = length xs"
  shows "(\<forall>x \<in> set xs. g x \<noteq> None) \<and> List.map_filter g xs = map (\<lambda>x. the (g x)) xs"
  using assms
proof (induction xs)
  case (Cons x xs)
  show ?case
  proof (cases "g x")
    case None
    then show ?thesis using Cons.prems map_filter_length [of g xs] by (simp add: List.map_filter_simps)
  next
    case (Some y)
    then show ?thesis using Cons by (simp add: List.map_filter_simps)
  qed
qed (simp add: List.map_filter_simps)

section \<open>Linking\<close>

lemma link_source_total:
  assumes "map_of asts (ps_file s) \<noteq> None"
  shows "\<exists>l'. link_source asts analysis s l = Some l'"
proof -
  have "\<exists>r. lower_module_to_hir ast an mid gs ms n = Some r" for ast an mid gs ms n
    using lower_module_cases [of "new_planned an mid gs ms n" "ast_items ast"]
    by (auto simp: lower_module_to_hir_def new_planned_def)
  then show ?thesis using assms by (auto simp: link_source_def Let_def split: option.split)
qed

text \<open>A source without errors is lowered and appended to its module.\<close>

lemma link_source_quiet:
  assumes l': "link_source asts analysis s l = Some l'" and quiet: "\<not> has_errors (lk_diagnostics l')"
    and ast: "map_of asts (ps_file s) = Some ast" and name: "declared_module (module_source s ast) = Some name"
  obtains m hm entry n members an next_index l0 where "find_module analysis name = Some m"
    and "lower_module_to_hir ast an (rm_id m)
      (pl_globals (planned_names m name asts analysis (lk_plan l) (ps_file s))) members next_index = Some (Inr (hm, entry, n))"
    and "l' = link_module (ps_file s) (rm_id m) (hm, entry, n) l0"
    and "lk_modules l0 = lk_modules l" and "lk_plan l0 = lk_plan l"
proof -
  have n: "map_option (\<lambda>d. join ''::'' (module_path d)) (ast_module ast) = Some name"
    using name by (simp add: declared_module_def)
  note unfold = l' [unfolded link_source_def ast option.case n Let_def]
  show thesis
  proof (cases "find_module analysis name")
    case None
    then show thesis using unfold quiet by (auto simp: lk_error_def has_errors_def package_error_def is_error_def)
  next
    case m: (Some m)
    let ?p = "planned_names m name asts analysis (lk_plan l) (ps_file s)"
    let ?l = "lk_error (pl_diagnostics ?p) l"
    show thesis
    proof (cases "map_of (ma_source_analyses analysis) (ps_file s)")
      case None
      then show thesis using unfold m quiet by (auto simp: lk_error_def has_errors_def package_error_def is_error_def)
    next
      case (Some an)
      let ?n = "case plan_next (lk_plan ?l) (rm_id m) of None \<Rightarrow> 0 | Some n \<Rightarrow> n"
      obtain r where r: "lower_module_to_hir ast an (rm_id m) (pl_globals ?p) (pl_members ?p) ?n = Some r"
        and l'r: "l' = (case r of Inr linked \<Rightarrow> link_module (ps_file s) (rm_id m) linked ?l
           | Inl errs \<Rightarrow> lk_error (map (\<lambda>d. \<lparr>cd_phase = PhTypeCheck, cd_diagnostic = d\<rparr>) errs) ?l)"
        using unfold m Some by auto
      show thesis
      proof (cases r)
        case (Inl errs)
        then have "errs \<noteq> [] \<and> (\<forall>d \<in> set errs. diag_severity d = SevError)"
          using r lower_module_cases [of "new_planned an (rm_id m) (pl_globals ?p) (pl_members ?p) ?n" "ast_items ast"]
          by (auto simp: lower_module_to_hir_def new_planned_def)
        then show thesis using l'r Inl quiet by (cases errs) (auto simp: lk_error_def has_errors_def is_error_def)
      next
        case (Inr linked)
        obtain hm entry n where "linked = (hm, entry, n)" by (cases linked)
        then show thesis using that [OF m, of an "pl_members ?p" ?n hm entry n ?l] r l'r Inr by (simp add: lk_error_def)
      qed
    qed
  qed
qed

definition linked_definitions :: "linking \<Rightarrow> ModuleId \<Rightarrow> HirDefinition list" where
  "linked_definitions l mid = (case map_of (lk_modules l) mid of None \<Rightarrow> [] | Some hm \<Rightarrow> hir_definitions hm)"

definition linking_ok :: "linking \<Rightarrow> bool" where
  "linking_ok l \<longleftrightarrow> btree_ok (lk_modules l) \<and> (\<forall>mid hm. map_of (lk_modules l) mid = Some hm \<longrightarrow> hir_module_id hm = mid)"

lemma link_module_effect:
  assumes "linking_ok l"
  shows "linking_ok (link_module f mid (hm, entry, n) l)"
    and "linked_definitions (link_module f mid (hm, entry, n) l) k =
      linked_definitions l k @ (if k = mid then hir_definitions hm else [])"
    and "plan_top_level (lk_plan (link_module f mid (hm, entry, n) l)) = plan_top_level (lk_plan l)"
  using assms
  by (auto simp: link_module_def Let_def linking_ok_def linked_definitions_def lk_error_def bt.lookup_put bt.ok_put
      split: option.split)

lemma link_module_grows: "\<exists>ds. lk_diagnostics (link_module f mid linked l) = lk_diagnostics l @ ds"
  by (simp add: link_module_def lk_error_def Let_def split: option.split prod.split)

lemma link_source_grows:
  assumes "link_source asts analysis s l = Some l'" and "has_errors (lk_diagnostics l)"
  shows "has_errors (lk_diagnostics l')"
proof -
  have e: "has_errors (lk_diagnostics (lk_error ds x))" if "has_errors (lk_diagnostics x)" for ds x
    using that by (simp add: lk_error_def has_errors_def)
  have m: "has_errors (lk_diagnostics (link_module f mid linked x))" if "has_errors (lk_diagnostics x)" for f mid linked x
    using that link_module_grows [of f mid linked x] by (auto simp: has_errors_def)
  show ?thesis
    using assms by (auto simp: link_source_def Let_def e m split: option.splits sum.split)
qed

lemma link_sources_grows:
  "link_sources asts analysis ss l = Some l' \<Longrightarrow> has_errors (lk_diagnostics l) \<Longrightarrow> has_errors (lk_diagnostics l')"
proof (induction ss arbitrary: l)
  case (Cons s ss)
  then obtain l1 where "link_source asts analysis s l = Some l1" "link_sources asts analysis ss l1 = Some l'"
    by (auto simp: bind_eq_Some_conv)
  then show ?case using Cons link_source_grows by blast
qed simp


section \<open>Numbers of linked definitions\<close>

lemma distinct_module_names:
  assumes "modules_ok sources ms"
  shows "distinct (map (\<lambda>e. rm_name (snd e)) ms)"
proof -
  have d: "distinct (map fst ms)" using assms bt.ok_distinct by (auto simp: modules_ok_def)
  have "fst e = the (map_of (module_ids sources) (rm_name (snd e)))" if "e \<in> set ms" for e
    using modules_okD [OF assms, of "fst e" "snd e"] map_of_is_SomeI [OF d] that by (simp add: module_ok_def)
  then have "map fst ms = map (\<lambda>name. the (map_of (module_ids sources) name)) (map (\<lambda>e. rm_name (snd e)) ms)" by simp
  then show ?thesis using d by (metis distinct_map)
qed

text \<open>The definitions of a module in a project without diagnostics have the numbers of its declarations.\<close>

lemma planned_global:
  assumes small: "small_project sources" and size: "project_size sources < 2 ^ 32" and sorted: "sort_key source_file sources = sources"
    and quiet: "ma_diagnostics (analyze_modules digest sources) = []"
    and m: "find_module (analyze_modules digest sources) name = Some m"
    and mid: "map_of (module_ids sources) name = Some mid" and k: "k < length (module_items (module_ids sources) sources mid)"
    and plan: "plan_top_level plan = plan_top_level (plan_identities (analyze_modules digest sources) asts)"
  shows "pl_globals (planned_names m name asts (analyze_modules digest sources) plan f)
      (item_name (snd (module_items (module_ids sources) sources mid ! k))) = Some \<lparr>hir_module = mid, hir_index = of_nat k\<rparr>"
proof -
  let ?a = "analyze_modules digest sources"
  let ?item = "module_items (module_ids sources) sources mid ! k"
  obtain c r where g: "module_graph sources = (c, r)" by (cases "module_graph sources")
  have g': "module_graph (sort_key source_file sources) = (c, r)" using g sorted by simp
  note am = analyzed_modules [where digest = digest, OF small g' refl, unfolded sorted]
  have ok: "modules_ok sources (rs_modules r)" and imps: "imports_ok (rs_modules r)"
    using module_graph_ok [OF small g] by simp_all
  obtain n where n: "map_of (rs_modules r) mid = Some n" using module_present [OF ok mid] .
  have mn: "m = n\<lparr>rm_interface_hash := interface_hash digest n sources\<rparr>"
    using find_analyzed [OF small g', unfolded sorted, OF mid n] m by simp
  have no: "module_ok sources mid n" by (rule modules_okD [OF ok n])
  then have id: "rm_id m = mid" using mn by (simp add: module_ok_def)
  have "co_diagnostics c = []" using am(3) quiet by auto
  from graph_numbered [OF small size g this k n]
  have d: "map_of (rm_definitions m) (item_name (snd ?item)) = Some (module_definition mid (of_nat k) (fst ?item) (snd ?item))"
    using mn by simp
  have name: "rm_name m = name" using module_named [OF small ok mid n] mn by simp
  have keys: "keyed x" if x: "x \<in> set (ma_modules ?a)" for x
  proof -
    obtain i y where y: "map_of (rs_modules r) i = Some y" "x = y\<lparr>rm_interface_hash := interface_hash digest y sources\<rparr>"
      using am(1) [THEN iffD1, OF x] by (elim exE conjE) metis
    have "module_ok sources i y" by (rule modules_okD [OF ok y(1)])
    then have "distinct (map fst (rm_definitions y))"
      "\<forall>name d. map_of (rm_definitions y) name = Some d \<longrightarrow> md_name d = name"
      using bt.ok_distinct by (auto simp: module_ok_def)
    then show ?thesis using y(2) by (auto simp: keyed_def)
  qed
  have names: "distinct (map rm_name (ma_modules ?a))"
    using distinct_module_names [OF ok] by (simp add: analyze_modules_def g' Let_def case_prod_beta comp_def)
  have "plan_top_level plan (name, item_name (snd ?item)) = Some \<lparr>hir_module = mid, hir_index = of_nat k\<rparr>"
  proof -
    have "m \<in> set (ma_modules ?a)" using m find_SomeD by (force simp: find_module_def)
    from fold_plan_module [OF _ names this d] keys show ?thesis
      unfolding plan plan_identities_def using name id by (simp add: module_definition_def)
  qed
  moreover have "\<forall>(local, i) \<in> set (rm_imports m). ri_local_name i \<noteq> item_name (snd ?item)"
  proof clarify
    fix local i
    assume i: "(local, i) \<in> set (rm_imports m)" and eq: "ri_local_name i = item_name (snd ?item)"
    have "btree_ok (rm_imports n)" using no by (simp add: module_ok_def)
    then have "map_of (rm_imports n) local = Some i" using i mn map_of_is_SomeI [OF bt.ok_distinct] by simp
    then have "ri_local_name i = local" "map_of (rm_definitions n) local = None"
      using imps n unfolding imports_ok_def by blast+
    then show False using eq d mn by simp
  qed
  ultimately show "pl_globals (planned_names m name asts ?a plan f) (item_name (snd ?item)) =
      Some \<lparr>hir_module = mid, hir_index = of_nat k\<rparr>"
    using planned_names_globals [of m "item_name (snd ?item)" name asts ?a plan f] d by simp
qed


lemma find_module_id:
  assumes "small_project sources" and sorted: "sort_key source_file sources = sources"
    and "find_module (analyze_modules digest sources) name = Some m" and mid: "map_of (module_ids sources) name = Some mid"
  shows "rm_id m = mid"
proof -
  obtain c r where g: "module_graph (sort_key source_file sources) = (c, r)" by (cases "module_graph (sort_key source_file sources)")
  have ok: "modules_ok sources (rs_modules r)" using module_graph_ok(1) [OF assms(1)] g sorted by simp
  obtain n where n: "map_of (rs_modules r) mid = Some n" using module_present [OF ok mid] .
  have "m = n\<lparr>rm_interface_hash := interface_hash digest n sources\<rparr>"
    using find_analyzed [OF assms(1) g, unfolded sorted, OF mid n] assms(3) by simp
  then show ?thesis using modules_okD [OF ok n] by (simp add: module_ok_def)
qed

lemma accepted_declares:
  assumes "small_project sources" and "ma_diagnostics (analyze_modules digest sources) = []" and "s \<in> set sources"
  shows "\<exists>name. declared_module s = Some name"
proof -
  let ?ss = "sort_key source_file sources"
  obtain c r where g: "module_graph ?ss = (c, r)" by (cases "module_graph ?ss")
  have small: "small_project ?ss" using assms(1) by simp
  have "co_diagnostics c = []" using analyzed_modules(3) [where digest = digest, OF assms(1) g refl] assms(2) by auto
  then have "entered ?ss c s" using module_graph_ok(4) [OF small g] assms(3) by simp
  then show ?thesis by (auto simp: entered_def)
qed

text \<open>The state of linking after the first sources of the project.\<close>

definition linked :: "IdentityPlan \<Rightarrow> (string, ModuleId) btree \<Rightarrow> ModuleSource list \<Rightarrow> linking \<Rightarrow> bool" where
  "linked plan ids xs l \<longleftrightarrow> linking_ok l \<and> plan_top_level (lk_plan l) = plan_top_level plan \<and>
     (\<forall>mid. map definition_id (linked_definitions l mid) =
        map (\<lambda>k. \<lparr>hir_module = mid, hir_index = of_nat k\<rparr>) [0..<length (module_items ids xs mid)] \<and>
      map (\<lambda>d. (definition_name d, definition_span d)) (linked_definitions l mid) =
        map (\<lambda>e. (item_name (snd e), item_span (snd e))) (module_items ids xs mid))"

lemma link_source_linked:
  assumes small: "small_project sources" and size: "project_size sources < 2 ^ 32" and sorted: "sort_key source_file sources = sources"
    and a: "a = analyze_modules digest sources" and quiet: "ma_diagnostics a = []" and split: "sources = xs @ module_source s ast # ys"
    and ast: "map_of asts (ps_file s) = Some ast" and l': "link_source asts a s l = Some l'"
    and errors: "\<not> has_errors (lk_diagnostics l')" and l: "linked (plan_identities a asts) (module_ids sources) xs l"
  shows "linked (plan_identities a asts) (module_ids sources) (xs @ [module_source s ast]) l'"
proof -
  let ?ids = "module_ids sources" and ?s = "module_source s ast"
  have s: "?s \<in> set sources" by (simp add: split)
  obtain name where name: "declared_module ?s = Some name"
    using accepted_declares [OF small _ s] quiet a by blast
  obtain mid where mid: "map_of ?ids name = Some mid" using module_ids_declared [OF s name] by blast
  obtain m hm entry n members an next_index l0 where m: "find_module a name = Some m"
    and low: "lower_module_to_hir ast an (rm_id m)
      (pl_globals (planned_names m name asts a (lk_plan l) (ps_file s))) members next_index = Some (Inr (hm, entry, n))"
    and l'0: "l' = link_module (ps_file s) (rm_id m) (hm, entry, n) l0"
    and l0: "lk_modules l0 = lk_modules l" "lk_plan l0 = lk_plan l"
    using link_source_quiet [OF l' errors ast name] by metis
  let ?before = "module_items ?ids xs mid" and ?items = "ast_items ast"
  let ?g = "pl_globals (planned_names m name asts a (lk_plan l) (ps_file s))"
  have all: "module_items ?ids sources mid = ?before @ map (Pair (ps_file s)) ?items @ module_items ?ids ys mid"
  proof -
    have "module_items ids' (xs @ ?s # ys) mid = module_items ids' xs mid @ module_items ids' [?s] mid @ module_items ids' ys mid" for ids'
      by (simp add: module_items_def)
    moreover have "module_items ?ids [?s] mid = map (Pair (ps_file s)) ?items" by (simp add: module_items_def name mid)
    ultimately show ?thesis using split by metis
  qed
  have plan: "plan_top_level (lk_plan l) = plan_top_level (plan_identities (analyze_modules digest sources) asts)"
    using l a by (simp add: linked_def)
  note pg = planned_global [OF small size sorted quiet [unfolded a] m [unfolded a] mid _ plan, of _ "ps_file s", folded a]
  have global: "?g (item_name (?items ! i)) = Some \<lparr>hir_module = mid, hir_index = of_nat (length ?before + i)\<rparr>"
    if "i < length ?items" for i
    using pg [of "length ?before + i"] that by (simp add: all nth_append)
  have id: "rm_id m = mid"
    using find_module_id [OF small sorted m [unfolded a] mid] .
  have "?g (item_name item) \<noteq> None" if "item \<in> set ?items" for item
    using that global by (auto simp: in_set_conv_nth)
  note lowered = planned_lowering [OF low this]
  have "map (\<lambda>d. Some (definition_id d)) (hir_definitions hm) = map (\<lambda>item. ?g (item_name item)) ?items"
    by (rule lowered(1))
  also have "\<dots> = map (\<lambda>k. Some \<lparr>hir_module = mid, hir_index = of_nat k\<rparr>) [length ?before..<length ?before + length ?items]"
    using global by (intro nth_equalityI) auto
  finally have e: "map (\<lambda>d. Some (definition_id d)) (hir_definitions hm) =
      map (\<lambda>k. Some \<lparr>hir_module = mid, hir_index = of_nat k\<rparr>) [length ?before..<length ?before + length ?items]" .
  have ids: "map definition_id (hir_definitions hm) =
      map (\<lambda>k. \<lparr>hir_module = mid, hir_index = of_nat k\<rparr>) [length ?before..<length ?before + length ?items]"
    using arg_cong [OF e, of "map the"] by (simp add: comp_def)
  have ok0: "linking_ok l0" using l l0 by (simp add: linked_def linking_ok_def)
  have defs: "linked_definitions l0 = linked_definitions l" by (simp add: fun_eq_iff linked_definitions_def l0)
  note eff = link_module_effect [OF ok0, of "ps_file s" "rm_id m" hm entry n, folded l'0]
  have here: "module_items ?ids (xs @ [?s]) mid = ?before @ map (Pair (ps_file s)) ?items"
    by (simp add: module_items_append) (simp add: module_items_def name mid)
  have there: "module_items ?ids (xs @ [?s]) k = module_items ?ids xs k" if "k \<noteq> mid" for k
    using that by (simp add: module_items_append) (simp add: module_items_def name mid)
  have "map definition_id (linked_definitions l' k) =
        map (\<lambda>j. \<lparr>hir_module = k, hir_index = of_nat j\<rparr>) [0..<length (module_items ?ids (xs @ [?s]) k)] \<and>
      map (\<lambda>d. (definition_name d, definition_span d)) (linked_definitions l' k) =
        map (\<lambda>e. (item_name (snd e), item_span (snd e))) (module_items ?ids (xs @ [?s]) k)" for k
  proof (cases "k = mid")
    case True
    have old: "map definition_id (linked_definitions l mid) = map (\<lambda>j. \<lparr>hir_module = mid, hir_index = of_nat j\<rparr>) [0..<length ?before]"
      "map (\<lambda>d. (definition_name d, definition_span d)) (linked_definitions l mid) = map (\<lambda>e. (item_name (snd e), item_span (snd e))) ?before"
      using l [unfolded linked_def] by blast+
    have e: "linked_definitions l' mid = linked_definitions l mid @ hir_definitions hm" using eff(2) [of mid] defs id by simp
    have "[0..<length ?before + length ?items] = [0..<length ?before] @ [length ?before..<length ?before + length ?items]"
      by (rule upt_add_eq_append) simp
    then show ?thesis
      unfolding True here e map_append old ids lowered(2) length_append length_map
      by (simp add: comp_def) (rule lowered(2))
  next
    case False
    then show ?thesis using l unfolding linked_def eff(2) defs id by (simp add: there)
  qed
  then show ?thesis using eff(1,3) l l0(2) by (simp add: linked_def)
qed

lemma link_sources_linked:
  assumes small: "small_project sources" and size: "project_size sources < 2 ^ 32" and sorted: "sort_key source_file sources = sources"
    and a: "a = analyze_modules digest sources" and quiet: "ma_diagnostics a = []"
  shows "link_sources asts a ss l = Some l' \<Longrightarrow> \<not> has_errors (lk_diagnostics l') \<Longrightarrow>
    linked (plan_identities a asts) (module_ids sources) xs l \<Longrightarrow> \<forall>s \<in> set ss. map_of asts (ps_file s) \<noteq> None \<Longrightarrow>
    sources = xs @ map (\<lambda>s. module_source s (the (map_of asts (ps_file s)))) ss \<Longrightarrow>
    linked (plan_identities a asts) (module_ids sources) sources l'"
proof (induction ss arbitrary: xs l)
  case (Cons s ss)
  let ?ast = "the (map_of asts (ps_file s))"
  obtain l1 where l1: "link_source asts a s l = Some l1" "link_sources asts a ss l1 = Some l'"
    using Cons.prems(1) by (auto simp: bind_eq_Some_conv)
  have e: "\<not> has_errors (lk_diagnostics l1)" using link_sources_grows [OF l1(2)] Cons.prems(2) by blast
  have ast: "map_of asts (ps_file s) = Some ?ast" using Cons.prems(4) by auto
  have split: "sources = xs @ module_source s ?ast # map (\<lambda>s. module_source s (the (map_of asts (ps_file s)))) ss"
    using Cons.prems(5) by simp
  have "linked (plan_identities a asts) (module_ids sources) (xs @ [module_source s ?ast]) l1"
    by (rule link_source_linked [OF small size sorted a quiet split ast l1(1) e Cons.prems(3)])
  from Cons.IH [OF l1(2) Cons.prems(2) this] Cons.prems(4) split show ?case by simp
qed simp

lemma link_sources_total:
  "\<forall>s \<in> set ss. map_of asts (ps_file s) \<noteq> None \<Longrightarrow> \<exists>l'. link_sources asts analysis ss l = Some l'"
proof (induction ss arbitrary: l)
  case (Cons s ss)
  obtain l1 where "link_source asts analysis s l = Some l1" using link_source_total Cons.prems by (metis list.set_intros(1))
  then show ?case using Cons by simp
qed simp

section \<open>The package\<close>

text \<open>The sources of a package in file order, with their trees.\<close>

definition package_modules :: "(string \<Rightarrow> string \<Rightarrow> CheckResult) \<Rightarrow> PackageSource list \<Rightarrow> ModuleSource list" where
  "package_modules parser sources = map (\<lambda>s. module_source s (the (parsed_ast parser s))) (sort_key ps_file sources)"

lemma parsed_sources:
  assumes "sorted_wrt (<) (map ps_file ss)" and "length (fst (parse_sources parser ss)) = length ss"
  shows "fst (parse_sources parser ss) = map (\<lambda>s. (ps_file s, the (parsed_ast parser s))) ss"
    and "\<forall>s \<in> set ss. parsed_ast parser s \<noteq> None"
    and "\<forall>s \<in> set ss. map_of (fst (parse_sources parser ss)) (ps_file s) = Some (the (parsed_ast parser s))"
proof -
  let ?g = "\<lambda>s. map_option (Pair (ps_file s)) (parsed_ast parser s)"
  have f: "fst (parse_sources parser ss) = List.map_filter ?g ss" by (rule parse_sources_asts [OF assms(1)])
  have p: "(\<forall>s \<in> set ss. ?g s \<noteq> None) \<and> List.map_filter ?g ss = map (\<lambda>s. the (?g s)) ss"
    by (rule all_parsed) (use assms(2) f in simp)
  then show all: "\<forall>s \<in> set ss. parsed_ast parser s \<noteq> None" by auto
  then show e: "fst (parse_sources parser ss) = map (\<lambda>s. (ps_file s, the (parsed_ast parser s))) ss"
    using f p by (auto simp: option.map_sel)
  have "distinct (map ps_file ss)" using assms(1) strict_sorted_iff by blast
  then show "\<forall>s \<in> set ss. map_of (fst (parse_sources parser ss)) (ps_file s) = Some (the (parsed_ast parser s))"
    unfolding e by (auto simp: map_of_eq_Some_iff comp_def)
qed

lemma has_errors_sort: "has_errors (sort_diagnostics ds) = has_errors ds"
  by (simp add: has_errors_def sort_diagnostics_def list_ex_iff)

lemma has_errors_append: "has_errors (xs @ ys) \<longleftrightarrow> has_errors xs \<or> has_errors ys"
  by (simp add: has_errors_def)

text \<open>How a package with a program was compiled.\<close>

lemma compile_package_linked:
  assumes c: "compile_package parser digest sources = Some c" and program: "pc_hir c = Some program"
  defines "ss \<equiv> sort_key ps_file sources"
  defines "asts \<equiv> fst (parse_sources parser ss)" and "analysis \<equiv> analyze_modules digest (package_modules parser sources)"
  obtains ds l where "sorted_wrt (<) (map ps_file ss)" and "length asts = length ss"
    and "\<not> has_errors (phased package_phase (ma_diagnostics analysis))"
    and "link_sources asts analysis ss \<lparr>lk_modules = [], lk_entry = None, lk_plan = plan_identities analysis asts,
      lk_diagnostics = ds\<rparr> = Some l" and "\<not> has_errors (lk_diagnostics l)"
    and "program = \<lparr>schema_version = 1, hir_modules = map snd (lk_modules l), hir_entry = lk_entry l\<rparr>"
    and "\<not> has_errors (link_effects program)"
proof -
  obtain parsed where p: "parse_sources parser ss = (asts, parsed)" by (metis asts_def prod.collapse)
  note unfold = c [unfolded compile_package_def Let_def, folded ss_def, unfolded p prod.case]
  have ne: "ss \<noteq> []" and dup: "\<not> has_errors (duplicate_files ss)" and len: "length asts = length ss"
    using unfold program by (auto simp: failed_def split: if_splits)
  have sorted: "sorted_wrt (<) (map ps_file ss)" by (rule duplicate_files_none [OF _ dup]) (simp add: ss_def)
  have m: "map (\<lambda>(f, ast). \<lparr>source_file = f, source_ast = ast\<rparr>) asts = package_modules parser sources"
  proof -
    have "asts = map (\<lambda>s. (ps_file s, the (parsed_ast parser s))) ss"
      using parsed_sources(1) [OF sorted, of parser] len by (simp add: asts_def)
    then show ?thesis by (simp add: package_modules_def ss_def comp_def)
  qed
  let ?ds = "(duplicate_files ss @ parsed) @ phased package_phase (ma_diagnostics analysis)"
  have e: "\<not> has_errors ?ds" and f: "map_option finish_package (link_sources asts analysis ss
      \<lparr>lk_modules = [], lk_entry = None, lk_plan = plan_identities analysis asts, lk_diagnostics = ?ds\<rparr>) = Some c"
    using unfold ne dup len program unfolding m analysis_def [symmetric] by (auto simp: failed_def split: if_splits)
  then obtain l where l: "link_sources asts analysis ss \<lparr>lk_modules = [], lk_entry = None,
      lk_plan = plan_identities analysis asts, lk_diagnostics = ?ds\<rparr> = Some l" "c = finish_package l" by auto
  show thesis
    by (rule that [OF sorted len _ l(1)])
      (use e program l(2) in \<open>auto simp: finish_package_def Let_def has_errors_sort has_errors_append split: if_splits\<close>)
qed

lemma effects_checked:
  assumes "\<not> has_errors (link_effects program)"
  shows "\<exists>a. analyze_effects program = Inr a"
proof (cases "analyze_effects program")
  case (Inl errs)
  then have "errs \<noteq> []"
    using length_sort [where xs = "effect_errors program"] unfolding analyze_effects_def Let_def
    by (cases "effect_errors program = []") (simp_all, metis length_0_conv length_sort)
  then show ?thesis
    using assms Inl by (cases errs) (auto simp: link_effects_def has_errors_def effect_diagnostics_def is_error_def)
qed simp

lemma linked_modules:
  assumes "linked plan ids sources l" and "hm \<in> set (map snd (lk_modules l))"
  shows "map definition_id (hir_definitions hm) =
      map (\<lambda>k. \<lparr>hir_module = hir_module_id hm, hir_index = of_nat k\<rparr>) [0..<length (hir_definitions hm)]"
    and "map (\<lambda>d. (definition_name d, definition_span d)) (hir_definitions hm) =
      map (\<lambda>e. (item_name (snd e), item_span (snd e))) (module_items ids sources (hir_module_id hm))"
proof -
  have ok: "linking_ok l" using assms(1) by (simp add: linked_def)
  then obtain mid where "map_of (lk_modules l) mid = Some hm"
    using assms(2) map_of_is_SomeI [OF bt.ok_distinct] by (fastforce simp: linking_ok_def)
  moreover from this have "mid = hir_module_id hm" using ok by (simp add: linking_ok_def)
  ultimately have d: "linked_definitions l (hir_module_id hm) = hir_definitions hm" by (simp add: linked_definitions_def)
  have n: "map (\<lambda>d. (definition_name d, definition_span d)) (linked_definitions l (hir_module_id hm)) =
      map (\<lambda>e. (item_name (snd e), item_span (snd e))) (module_items ids sources (hir_module_id hm))"
    and i: "map definition_id (linked_definitions l (hir_module_id hm)) =
      map (\<lambda>k. \<lparr>hir_module = hir_module_id hm, hir_index = of_nat k\<rparr>) [0..<length (module_items ids sources (hir_module_id hm))]"
    using assms(1) by (simp_all add: linked_def)
  show "map (\<lambda>d. (definition_name d, definition_span d)) (hir_definitions hm) =
      map (\<lambda>e. (item_name (snd e), item_span (snd e))) (module_items ids sources (hir_module_id hm))" using n d by simp
  from this have "length (hir_definitions hm) = length (module_items ids sources (hir_module_id hm))" by (metis length_map)
  then show "map definition_id (hir_definitions hm) =
      map (\<lambda>k. \<lparr>hir_module = hir_module_id hm, hir_index = of_nat k\<rparr>) [0..<length (hir_definitions hm)]"
    using i d by simp
qed

lemma distinct_blocks:
  "\<forall>h \<in> set hs. distinct (map f (g h)) \<and> (\<forall>d \<in> f ` set (g h). key d = k h) \<Longrightarrow> distinct (map k hs) \<Longrightarrow>
     distinct (map f (concat (map g hs)))"
proof (induction hs)
  case (Cons h hs)
  have "f ` set (g h) \<inter> f ` (\<Union>x \<in> set hs. set (g x)) = {}"
  proof (rule equals0I)
    fix d
    assume "d \<in> f ` set (g h) \<inter> f ` (\<Union>x \<in> set hs. set (g x))"
    then obtain x where "x \<in> set hs" "d \<in> f ` set (g x)" "d \<in> f ` set (g h)" by auto
    then have "k x = k h" using Cons.prems(1) by (metis list.set_intros(1,2))
    then show False using Cons.prems(2) \<open>x \<in> set hs\<close> by (metis distinct.simps(2) image_eqI list.simps(9) set_map)
  qed
  then show ?case using Cons by auto
qed simp

lemma linked_distinct:
  assumes l: "linked plan ids sources l" and size: "project_size sources < 2 ^ 32"
  shows "distinct (map definition_id (concat (map hir_definitions (map snd (lk_modules l)))))"
proof -
  have one: "distinct (map definition_id (hir_definitions hm))" if hm: "hm \<in> set (map snd (lk_modules l))" for hm
  proof -
    have "length (hir_definitions hm) = length (module_items ids sources (hir_module_id hm))"
      using linked_modules(2) [OF l hm] by (metis length_map)
    then have n: "length (hir_definitions hm) < 2 ^ 32"
      using module_items_length [of ids sources "hir_module_id hm"] size by (simp add: project_size_def)
    have "inj_on (\<lambda>k. \<lparr>hir_module = hir_module_id hm, hir_index = of_nat k\<rparr>) {0..<length (hir_definitions hm)}"
    proof (rule inj_onI)
      fix i j
      assume "i \<in> {0..<length (hir_definitions hm)}" "j \<in> {0..<length (hir_definitions hm)}"
        and "\<lparr>hir_module = hir_module_id hm, hir_index = of_nat i\<rparr> = \<lparr>hir_module = hir_module_id hm, hir_index = of_nat j\<rparr>"
      then have e: "(of_nat i :: u32) = of_nat j" and b: "i < 2 ^ 32" "j < 2 ^ 32" using n by simp_all
      from b have "unat (of_nat i :: u32) = i" "unat (of_nat j :: u32) = j" by (simp_all add: unat_of_nat)
      then show "i = j" using e by metis
    qed
    then show ?thesis unfolding linked_modules(1) [OF l hm] by (simp add: distinct_map)
  qed
  have own: "hir_module d = hir_module_id hm" if "hm \<in> set (map snd (lk_modules l))" "d \<in> definition_id ` set (hir_definitions hm)" for hm d
    using that(2) linked_modules(1) [OF l that(1)] by (metis (no_types, lifting) HirDefId.select_convs(1) ex_map_conv list.set_map)
  have names: "distinct (map hir_module_id (map snd (lk_modules l)))"
  proof -
    have ok: "btree_ok (lk_modules l)" "\<And>mid hm. map_of (lk_modules l) mid = Some hm \<Longrightarrow> hir_module_id hm = mid"
      using l by (auto simp: linked_def linking_ok_def)
    have "map hir_module_id (map snd (lk_modules l)) = map fst (lk_modules l)"
      using ok(2) map_of_is_SomeI [OF bt.ok_distinct [OF ok(1)]] by auto
    then show ?thesis by (simp only: bt.ok_distinct [OF ok(1)])
  qed
  show ?thesis
    by (rule distinct_blocks [where key = hir_module and k = hir_module_id, OF _ names], intro ballI conjI)
      (fact one own)+
qed

lemma package_size:
  "project_size (package_modules parser sources) = sum_list (map (\<lambda>s. length (ast_items (the (parsed_ast parser s)))) sources)"
proof -
  have "project_size (package_modules parser sources) =
      sum_list (map (\<lambda>s. length (ast_items (the (parsed_ast parser s)))) (sort_key ps_file sources))"
    by (simp add: project_size_def package_modules_def comp_def)
  also have "\<dots> = sum_list (map (\<lambda>s. length (ast_items (the (parsed_ast parser s)))) sources)"
  proof -
    have i: "sum_list (map f (insort_key k x xs)) = f x + sum_list (map f xs)"
      for f :: "PackageSource \<Rightarrow> nat" and k :: "PackageSource \<Rightarrow> string" and x xs
      by (induction xs) auto
    have "sum_list (map f (sort_key k xs)) = sum_list (map f xs)"
      for f :: "PackageSource \<Rightarrow> nat" and k :: "PackageSource \<Rightarrow> string" and xs
      by (induction xs) (simp_all add: i)
    then show ?thesis .
  qed
  finally show ?thesis .
qed

lemma package_small: "length sources \<le> 2 ^ 32 \<Longrightarrow> small_project (package_modules parser sources)"
proof -
  assume l: "length sources \<le> 2 ^ 32"
  have "length (remdups (List.map_filter declared_module (package_modules parser sources))) \<le> length sources"
    using length_remdups_leq map_filter_length [of declared_module "package_modules parser sources"]
    by (metis (no_types, lifting) le_trans length_map length_sort package_modules_def)
  then show ?thesis using l by (simp add: small_project_def)
qed

text \<open>The program of a package: how it was linked.\<close>

lemma package_program:
  assumes c: "compile_package parser digest sources = Some c" and program: "pc_hir c = Some program"
    and n: "length sources \<le> 2 ^ 32" and size: "project_size (package_modules parser sources) < 2 ^ 32"
  obtains plan l where "\<forall>s \<in> set sources. parsed_ast parser s \<noteq> None"
    and "ma_diagnostics (analyze_modules digest (package_modules parser sources)) = []"
    and "linked plan (module_ids (package_modules parser sources)) (package_modules parser sources) l"
    and "hir_modules program = map snd (lk_modules l)" and "\<exists>a. analyze_effects program = Inr a"
proof -
  let ?ms = "package_modules parser sources" and ?ss = "sort_key ps_file sources"
  let ?asts = "fst (parse_sources parser ?ss)" and ?a = "analyze_modules digest (package_modules parser sources)"
  obtain ds l where sorted: "sorted_wrt (<) (map ps_file ?ss)" and len: "length ?asts = length ?ss"
    and e: "\<not> has_errors (phased package_phase (ma_diagnostics ?a))"
    and l: "link_sources ?asts ?a ?ss \<lparr>lk_modules = [], lk_entry = None, lk_plan = plan_identities ?a ?asts,
      lk_diagnostics = ds\<rparr> = Some l" and le: "\<not> has_errors (lk_diagnostics l)"
    and p: "program = \<lparr>schema_version = 1, hir_modules = map snd (lk_modules l), hir_entry = lk_entry l\<rparr>"
    and eff: "\<not> has_errors (link_effects program)"
    using compile_package_linked [OF c program] by metis
  have small: "small_project ?ms" by (rule package_small [OF n])
  note parsed = parsed_sources [OF sorted len]
  have quiet: "ma_diagnostics ?a = []"
    using module_analysis_errors [OF small, of _ digest] e
    by (cases "ma_diagnostics ?a") (auto simp: has_errors_def phased_def is_error_def)
  have "sorted (map source_file ?ms)"
    using strict_sorted_imp_sorted [OF sorted] by (simp add: package_modules_def comp_def)
  then have fixed: "sort_key source_file ?ms = ?ms" by (rule sort_key_id_if_sorted)
  have "linked (plan_identities ?a ?asts) (module_ids ?ms) [] \<lparr>lk_modules = [], lk_entry = None,
      lk_plan = plan_identities ?a ?asts, lk_diagnostics = ds\<rparr>"
    by (simp add: linked_def linking_ok_def linked_definitions_def module_items_def bt.ok_Nil)
  moreover have "?ms = [] @ map (\<lambda>s. module_source s (the (map_of ?asts (ps_file s)))) ?ss"
    using parsed(3) by (simp add: package_modules_def)
  moreover have "\<forall>s \<in> set ?ss. map_of ?asts (ps_file s) \<noteq> None" using parsed(3) by simp
  ultimately have "linked (plan_identities ?a ?asts) (module_ids ?ms) ?ms l"
    using link_sources_linked [OF small size fixed refl quiet l le] by blast
  then show thesis
    using that [of "plan_identities ?a ?asts" l] parsed(2) quiet p effects_checked [OF eff] by simp
qed

lemma compile_package_total: "\<exists>c. compile_package parser digest sources = Some c"
proof -
  let ?ss = "sort_key ps_file sources"
  have "\<exists>l. link_sources (fst (parse_sources parser ?ss)) analysis ?ss l0 = Some l"
    if "\<not> has_errors (duplicate_files ?ss)" "length (fst (parse_sources parser ?ss)) = length ?ss" for analysis l0
  proof -
    have "sorted_wrt (<) (map ps_file ?ss)" by (rule duplicate_files_none [OF _ that(1)]) simp
    from parsed_sources(3) [OF this that(2)] show ?thesis by (intro link_sources_total) simp
  qed
  then show ?thesis
    by (auto simp: compile_package_def Let_def split_beta split: option.split)
qed

lemma linked_declaration:
  assumes l: "linked plan (module_ids sources) sources l" and s: "s \<in> set sources" and name: "declared_module s = Some name"
    and item: "item \<in> set (ast_items (source_ast s))"
  shows "\<exists>hm \<in> set (map snd (lk_modules l)). \<exists>d \<in> set (hir_definitions hm).
    definition_name d = item_name item \<and> definition_span d = item_span item"
proof -
  obtain mid where mid: "map_of (module_ids sources) name = Some mid" using module_ids_declared [OF s name] by blast
  have "(source_file s, item) \<in> set (module_items (module_ids sources) sources mid)"
    using s item name mid by (force simp: module_items_def)
  then have "(item_name item, item_span item) \<in>
      set (map (\<lambda>e. (item_name (snd e), item_span (snd e))) (module_items (module_ids sources) sources mid))" by force
  then have "(item_name item, item_span item) \<in>
      set (map (\<lambda>d. (definition_name d, definition_span d)) (linked_definitions l mid))"
    using l [unfolded linked_def] by metis
  then obtain d where "d \<in> set (linked_definitions l mid)" "definition_name d = item_name item" "definition_span d = item_span item"
    by auto
  then show ?thesis
    by (cases "map_of (lk_modules l) mid") (auto simp: linked_definitions_def dest!: map_of_SomeD, force)
qed

section \<open>Properties\<close>

text \<open>
  C40. Compiling a package never panics, whatever the parser returns and whatever the sources are.
  When it yields a program, for at most \<open>2^32\<close> sources with fewer than \<open>2^32\<close> declarations in all:
  every source was parsed and the module analysis found nothing; the definitions of every module
  are the declarations of its sources in file order, numbered consecutively from 0; no two
  definitions of the program share an identity and every declaration is among them; and the effect
  check passed, so every effect of a function with a declared bound is within that bound.
\<close>

theorem package_linked:
  "\<exists>c. compile_package parser digest sources = Some c \<and>
     (\<forall>program. pc_hir c = Some program \<and> length sources \<le> 2 ^ 32 \<and>
        sum_list (map (\<lambda>s. length (ast_items (the (parsed_ast parser s)))) sources) < 2 ^ 32 \<longrightarrow>
        (\<forall>s \<in> set sources. parsed_ast parser s \<noteq> None) \<and>
        ma_diagnostics (analyze_modules digest (package_modules parser sources)) = [] \<and>
        (\<forall>m \<in> set (hir_modules program).
           map definition_id (hir_definitions m) =
             map (\<lambda>k. \<lparr>hir_module = hir_module_id m, hir_index = of_nat k\<rparr>) [0..<length (hir_definitions m)] \<and>
           map (\<lambda>d. (definition_name d, definition_span d)) (hir_definitions m) =
             map (\<lambda>(f, item). (item_name item, item_span item))
               (module_items (module_ids (package_modules parser sources)) (package_modules parser sources) (hir_module_id m))) \<and>
        distinct (map definition_id (all_definitions program)) \<and>
        (\<forall>s \<in> set (package_modules parser sources). \<forall>item \<in> set (ast_items (source_ast s)).
           \<exists>d \<in> set (all_definitions program). definition_name d = item_name item \<and> definition_span d = item_span item) \<and>
        (\<exists>a. analyze_effects program = Inr a \<and>
           (\<forall>d \<in> set (all_definitions program). \<forall>f names effs.
              definition_kind d = DFunction f \<and> declared_effects f = Some names \<and>
              (definition_id d, effs) \<in> set (inferred_effects a) \<longrightarrow> as_str ` effs \<subseteq> set names)))"
proof -
  let ?ms = "package_modules parser sources"
  obtain c where c: "compile_package parser digest sources = Some c" using compile_package_total by blast
  show ?thesis
  proof (intro exI [of _ c] conjI c allI impI)
    fix program
    assume "pc_hir c = Some program \<and> length sources \<le> 2 ^ 32 \<and>
      sum_list (map (\<lambda>s. length (ast_items (the (parsed_ast parser s)))) sources) < 2 ^ 32"
    then have p: "pc_hir c = Some program" and n: "length sources \<le> 2 ^ 32" and size: "project_size ?ms < 2 ^ 32"
      by (simp_all add: package_size)
    obtain plan l where parsed: "\<forall>s \<in> set sources. parsed_ast parser s \<noteq> None"
      and quiet: "ma_diagnostics (analyze_modules digest ?ms) = []" and l: "linked plan (module_ids ?ms) ?ms l"
      and ms: "hir_modules program = map snd (lk_modules l)" and eff: "\<exists>a. analyze_effects program = Inr a"
      using package_program [OF c p n size] by metis
    have ids: "distinct (map definition_id (all_definitions program))" unfolding ms by (rule linked_distinct [OF l size])
    obtain a where a: "analyze_effects program = Inr a" using eff by blast
    have "as_str ` effs \<subseteq> set names" if "d \<in> set (all_definitions program)" "definition_kind d = DFunction f"
        "declared_effects f = Some names" "(definition_id d, effs) \<in> set (inferred_effects a)" for d f names effs
      using effect_bounds [OF a ids that] by blast
    then show "\<exists>a. analyze_effects program = Inr a \<and>
           (\<forall>d \<in> set (all_definitions program). \<forall>f names effs.
              definition_kind d = DFunction f \<and> declared_effects f = Some names \<and>
              (definition_id d, effs) \<in> set (inferred_effects a) \<longrightarrow> as_str ` effs \<subseteq> set names)"
      using a by blast
    show "\<forall>s \<in> set sources. parsed_ast parser s \<noteq> None" "ma_diagnostics (analyze_modules digest ?ms) = []"
      "distinct (map definition_id (all_definitions program))" by (fact parsed quiet ids)+
    show "\<forall>m \<in> set (hir_modules program).
           map definition_id (hir_definitions m) =
             map (\<lambda>k. \<lparr>hir_module = hir_module_id m, hir_index = of_nat k\<rparr>) [0..<length (hir_definitions m)] \<and>
           map (\<lambda>d. (definition_name d, definition_span d)) (hir_definitions m) =
             map (\<lambda>(f, item). (item_name item, item_span item)) (module_items (module_ids ?ms) ?ms (hir_module_id m))"
      using linked_modules [OF l] unfolding ms split_beta by blast
    show "\<forall>s \<in> set ?ms. \<forall>item \<in> set (ast_items (source_ast s)).
           \<exists>d \<in> set (all_definitions program). definition_name d = item_name item \<and> definition_span d = item_span item"
    proof (intro ballI)
      fix s item
      assume s: "s \<in> set ?ms" and item: "item \<in> set (ast_items (source_ast s))"
      obtain name where "declared_module s = Some name" using accepted_declares [OF package_small [OF n] quiet s] by blast
      from linked_declaration [OF l s this item]
      show "\<exists>d \<in> set (all_definitions program). definition_name d = item_name item \<and> definition_span d = item_span item"
        unfolding ms by auto
    qed
  qed
qed

definition package_parser :: "ModuleSource list \<Rightarrow> string \<Rightarrow> string \<Rightarrow> CheckResult" where
  "package_parser project file source =
     \<lparr>check_ast = map_option source_ast (List.find (\<lambda>s. source_file s = file) project), check_diagnostics = []\<rparr>"

definition layered_package :: "PackageSource list" where
  "layered_package = map (\<lambda>s. \<lparr>ps_file = source_file s, ps_source = []\<rparr>) layered_project"

theorem package_linked_witness:
  "\<exists>program. map_option pc_hir (compile_package (package_parser layered_project) id layered_package) = Some (Some program) \<and>
     length (all_definitions program) = 3 \<and> distinct (map definition_id (all_definitions program))"
proof -
  let ?parser = "package_parser layered_project"
  have e: "map_option (\<lambda>c. map_option (\<lambda>program. length (all_definitions program)) (pc_hir c))
      (compile_package ?parser id layered_package) = Some (Some 3)" by code_simp
  then obtain c program where c: "compile_package ?parser id layered_package = Some c" "pc_hir c = Some program"
    "length (all_definitions program) = 3" by auto
  have "length layered_package \<le> 2 ^ 32" by (simp add: layered_package_def layered_project_def)
  moreover have "sum_list (map (\<lambda>s. length (ast_items (the (parsed_ast ?parser s)))) layered_package) = 3" by code_simp
  ultimately show ?thesis
    using package_linked [of ?parser id layered_package] c by auto
qed

end
