(* ===== verification/Spec2Isabelle.thy ===== *)
theory Spec2Isabelle
  imports Mir_Lower_Sound Effects Async_Task Resolver_Sound Pipeline_Live Wasm_Valid Database_Sound Package_Sound
begin

text \<open>
  Verification of the Syllog compiler and runtime, a Rust workspace under \<open>src/crates\<close>.

  \<^bold>\<open>The program.\<close> Syllog source is parsed (\<open>syllog-parser\<close>), checked (\<open>syllog-semantic\<close>) and
  lowered by \<open>syllog-compiler\<close>: to a typed, name-resolved HIR (\<open>lower.rs\<close>, \<open>hir.rs\<close>), from there
  to a control-flow MIR (\<open>mir_lower.rs\<close>), and for async functions to explicit state machines
  (\<open>async_lower.rs\<close>); \<open>effects.rs\<close> infers the effects of every definition and the capability
  manifest. \<open>syllog-ir\<close> owns the MIR, its verifier and the verifier of state machines.
  \<open>syllog-interpreter\<close> runs verified MIR under resource limits, \<open>syllog-codegen-wasm\<close> compiles
  it, \<open>syllog-runtime\<close> runs state machines and pipelines. \<open>syllog-package\<close>, \<open>syllog-project\<close> and
  \<open>syllog-registry-client\<close> resolve and fetch dependencies; \<open>syllog-proxy\<close> and the provider crates
  route model requests.

  \<^bold>\<open>The theories and what they model.\<close>
  \<^item> \<open>Syllog_Prelude\<close>: checked and saturating machine arithmetic, results, slices, \<open>BTreeMap\<close>s
    built from pairs, and the lemmas on them every component uses.
  \<^item> \<open>Mir\<close>: the types of \<open>syllog-ir/src/lib.rs\<close> (effects, manifests, MIR). A Rust struct is a
    record, an enum a datatype, an integer a word of its width.
  \<^item> \<open>Mir_Verify\<close>: \<open>syllog-ir/src/verify.rs\<close>, every function of it; errors are returned as lists
    in the order the code pushes them. \<open>Mir_Flow\<close>: the two dataflow analyses; the locale
    \<open>flow_analysis\<close> proves for any monotone transfer function that the round-robin loop reaches the
    greatest solution, and is interpreted on both transfer functions of the verifier; reachability
    and definite initialisation are shown exact.
  \<^item> \<open>Mir_Interp\<close>: \<open>syllog-interpreter/src/lib.rs\<close>, the machine passed explicitly, Rust panics as
    the error \<open>Panic\<close>. \<open>Mir_Resources\<close>: budgets, termination and independence of budgets.
    \<open>Mir_Safety\<close>: verified programs do not get stuck (panic, missing block or argument, empty
    local), though a field write or an operator may still trap. \<open>Mir_Typing\<close>: their results have
    the declared type. \<open>Mir_Examples\<close>: small MIR programs the theorems are evaluated on.
  \<^item> \<open>Hir\<close>: the typed HIR, resolved types, literals and spans. \<open>Mir_Lower\<close>: \<open>mir_lower.rs\<close>, the
    function builder and drop insertion. \<open>Mir_Lower_Sound\<close>: what the lowering returns satisfies
    the hypotheses of the two soundness theorems; drop insertion is sound.
    \<open>Hir_Examples\<close>: small HIR programs.
  \<^item> \<open>Effects\<close>: \<open>effects.rs\<close>; inference is the transitive closure of the call graph, and accepted
    programs with pairwise different identities respect their declared bounds.
  \<^item> \<open>Async_Machine\<close>: state machines, their verifier and \<open>async_lower.rs\<close>; exactly which functions
    the lowering rejects, and that all others get verified machines. \<open>Async_Task\<close>:
    \<open>syllog-runtime/src/task.rs\<close>; the exact event traces of built machines under completion,
    cancellation and panic, and the single terminal event of every run.
  \<^item> \<open>BTree\<close>: \<open>BTreeMap\<close>s with updates; the locale \<open>ordered_map\<close> states what their clients rely on.
  \<^item> \<open>Resolver\<close>: \<open>syllog-package/src/resolver.rs\<close>. \<open>Resolver_Sound\<close>: a resolution satisfies every
    constraint, a reported conflict is genuine, the search ends on every finite index.
  \<^item> \<open>Pipeline\<close>: \<open>syllog-runtime/src/pipeline.rs\<close> as a transition function over scheduler inputs.
    \<open>Pipeline_Sound\<close>: it refines the sequential reading of the plan, resources stay bounded, the
    lifecycle log keeps the recent history, and a circuit denies as documented up to its reset time.
    \<open>Pipeline_Live\<close>: a run is bounded and can always end, and a waiting caller that cancels is
    answered after the grace period.
  \<^item> \<open>Wasm\<close>: the part of WebAssembly the generator targets. \<open>Wasm_Codegen\<close>:
    \<open>syllog-codegen-wasm/src/lib.rs\<close>. \<open>Wasm_Sim\<close>, \<open>Wasm_Correct\<close>, \<open>Wasm_Module\<close>: emitted modules
    simulate the interpreter. \<open>Wasm_Async\<close>: their step functions compute the transition tables of
    the state machines. \<open>Wasm_Valid\<close>: when they validate.
  \<^item> \<open>Syntax_Tree\<close>: \<open>syllog-parser/src/ast.rs\<close> and \<open>diagnostic.rs\<close>. \<open>Ownership\<close>:
    \<open>syllog-semantic/src/ownership.rs\<close>. \<open>Ownership_Sound\<close>, \<open>Ownership_Props\<close>: no execution path of
    an accepted function uses a moved value, what is copied being specified apart from the pass;
    for functions without guards, binding patterns and inferred bindings of unknown kind, outside
    of which accepted programs that misuse values are exhibited.
  \<^item> \<open>Semantic\<close>, \<open>Inference\<close>: \<open>syllog-semantic/src/lib.rs\<close> and \<open>types.rs\<close>, declarations and types,
    then expressions and bodies. \<open>Inference_Sound\<close>, \<open>Semantic_Sound\<close>, \<open>Semantic_Props\<close>: names of an
    accepted file without field accesses are declared and used as declared. \<open>Match_Sound\<close>: accepted
    matches whose unguarded constructor patterns are not nested are exhaustive; nested ones need not
    be.
  \<^item> \<open>Hir_Lower\<close>: \<open>syllog-compiler/src/lower.rs\<close>. \<open>Hir_Lower_Sound\<close>, \<open>Hir_Lower_Props\<close>: the lowering
    of an accepted file without field accesses and repeated results neither fails nor panics; it
    agrees with the analyzer on exactly the types that do not name \<open>Unit\<close>, and the exact condition
    under which two declarations share an identity is given (a type and a value of one name do).
  \<^item> \<open>Modules\<close>: \<open>syllog-semantic/src/modules.rs\<close>, modules assembled from files, their imports,
    dependencies and interface hashes. \<open>Module_Graph\<close>: the cycle search is exact. \<open>Module_Sound\<close>,
    \<open>Module_Props\<close>: imports lead to public definitions, and in a project without diagnostics every
    use is bound.
  \<^item> \<open>Compile\<close>: the single-file driver of \<open>syllog-compiler/src/lib.rs\<close>; \<open>Compile_Sound\<close>: it never
    panics and what it accepts was analyzed, lowered and checked for effects. \<open>Database\<close>:
    \<open>database.rs\<close>, the incremental database; \<open>Database_Sound\<close>: its caches are invisible, by a
    simulation locale interpreted on its operations. \<open>Package\<close>: \<open>package.rs\<close>, compilation and
    linking of a package; \<open>Package_Sound\<close>: it never panics, and a linked program holds every
    declaration of its sources once, numbered consecutively in each module.
  \<^item> This theory: properties that span the compiler and the runtime.

  \<^bold>\<open>Bounds and fuel.\<close> Loops that always end are total functions with a termination proof (the
  reachability search, the dataflow loop, the effect loop, the lowering). The interpreter's block
  loop has fuel, one unit per executed block; more fuel than the instruction limit is always
  enough unless that limit is the largest 64-bit value, in which case the saturating counter never
  stops a loop (both are theorems). The task runner has fuel, and three more than the number of
  await points is enough for a lowered machine. State numbers of machines are 32 bits wide, so
  the theorems on them ask for fewer than \<open>2^31 - 1\<close> await points.

  \<^bold>\<open>Conventions.\<close> A string is its list of UTF-8 bytes; \<open>usize\<close> has 64 bits and is a natural
  number; \<open>serde\<close> derives and the host's stack depth are not modelled; a diagnostic whose message
  renders a value keeps the value.

  \<^bold>\<open>Not modelled.\<close> The parser is generated from a grammar by \<open>pest\<close>, and \<open>syllog-parser/src/lib.rs\<close>
  reads its token pairs: the theories start from the syntax tree and the diagnostics it returns. The
  configuration checks of \<open>validate.rs\<close> are part of those diagnostics. The package cache, the
  lock file, project discovery and manifests, the registry client, the proxy and its providers are
  file system and network code around \<open>serde\<close>, \<open>toml\<close> and \<open>reqwest\<close>; the sandbox of
  \<open>syllog-runtime/src/lib.rs\<close> configures \<open>wasmtime\<close>; command line and development server are input
  and output. \<open>syllog-spec-tests\<close> is a test harness, \<open>syllog-templates\<close> holds no code, and the
  prototype under \<open>src/src\<close> is frozen and not part of the workspace.
\<close>

section \<open>Async compilation and execution\<close>

text \<open>
  C21. From source to trace: every machine the compiler lowers belongs to an async function of the
  program, and running it without interruption suspends, wakes and resumes exactly once per
  await expression of that function's body, in order, and completes.
\<close>

theorem lowered_async_task_completes:
  assumes "lower_async_state_machines program = Inr machines" and "m \<in> set machines"
  shows "\<exists>d \<in> set (all_definitions program). \<exists>f.
    as_function (definition_kind d) = Some f \<and> asynchronous f \<and>
    (await_count f < 2 ^ 31 - 1 \<longrightarrow> (\<forall>fuel \<ge> await_count f + 3.
       run_deterministic_task fuel m parent ControlComplete =
         Some (Inr (Started parent # awaits_trace 0 (await_count f) @ [Completed]))))"
proof -
  obtain d f where d: "d \<in> set (all_definitions program)" "as_function (definition_kind d) = Some f"
    "asynchronous f" and m: "lower_async_function (definition_id d) f = Inr m"
    using lower_async_definitions_in assms unfolding lower_async_state_machines_def by blast
  have "run_deterministic_task fuel m parent ControlComplete =
      Some (Inr (Started parent # awaits_trace 0 (await_count f) @ [Completed]))"
    if n: "await_count f < 2 ^ 31 - 1" and "await_count f + 3 \<le> fuel" for fuel
  proof -
    obtain locals where "m = build_machine (mir_def_id (definition_id d)) (of_nat (await_count f)) locals"
      using lower_async_function_built [OF m n] .
    moreover have "unat (of_nat (await_count f) :: u32) = await_count f"
      using n by (simp add: unat_of_nat)
    ultimately show ?thesis
      using built_task_completes [of "of_nat (await_count f)" fuel ControlComplete] that by simp
  qed
  then show ?thesis using d by blast
qed

theorem lowered_async_task_completes_witness:
  "run_deterministic_task 4 (build_machine (mir_def_id (hir_id 0)) 1 []) 7 ControlComplete =
     Some (Inr (Started 7 # awaits_trace 0 1 @ [Completed]))"
proof -
  let ?p = "main_program (async_function [])"
  let ?m = "build_machine (mir_def_id (hir_id 0)) 1 []"
  have m: "lower_async_state_machines ?p = Inr [?m]" by code_simp
  have c: "await_count (async_function []) = 1" by code_simp
  have "as_function (definition_kind d) = Some f \<Longrightarrow> f = async_function []"
    if "d \<in> set (all_definitions ?p)" for d f
    using that by (auto simp: main_program_def)
  then show ?thesis
    using lowered_async_task_completes [OF m, of ?m 7] c by fastforce
qed

end
